(* ===== verification/Prelude.thy ===== *)
theory Prelude
  imports Main "HOL-Library.Word" "HOL-Library.Sublist"
begin

unbundle bit_operations_syntax

text \<open>
  Shared vocabulary of the development.  A C string (\<open>char *\<close>) is an Isabelle
  \<open>string\<close>, a list of bytes without the terminating NUL; a pointer into a string is the
  suffix it points at; a NULL pointer is \<open>None\<close>.  The C library functions the program calls on
  such strings (\<open>strncmp\<close>, \<open>strstr\<close>, \<open>strchr\<close>, \<open>strtok_r\<close>, \<open>isspace\<close>, \<open>printf\<close> of a number)
  are defined here in the C locale, with the general lemmas the components share.
\<close>

named_theorems cstr_simps \<open>facts on C string functions\<close>
named_theorems cint_simps \<open>facts on C integer ranges\<close>

type_synonym cstr = string

section \<open>Bytes\<close>

definition ord :: "char \<Rightarrow> nat" where
  "ord c = of_char c"

lemma ord_less [simp]: "ord c < 256"
  by (simp add: ord_def)

lemma ord_le [simp]: "ord c \<le> 255"
  using ord_less [of c] by linarith

lemma char_of_ord [simp]: "char_of (ord c) = c"
  by (simp add: ord_def)

lemma ord_char_of: "n < 256 \<Longrightarrow> ord (char_of n) = n"
  by (simp add: ord_def)

lemma ord_inj: "ord a = ord b \<longleftrightarrow> a = b"
  by (simp add: ord_def)

definition NUL :: char where "NUL = CHR 0x00"
definition LF :: char where "LF = CHR 0x0A"
definition CR :: char where "CR = CHR 0x0D"
definition TAB :: char where "TAB = CHR 0x09"
definition QUOTE :: char where "QUOTE = CHR 0x22"
definition BSLASH :: char where "BSLASH = CHR 0x5C"
definition SQUOTE :: char where "SQUOTE = CHR 0x27"

lemmas char_defs = NUL_def LF_def CR_def TAB_def QUOTE_def BSLASH_def SQUOTE_def

text \<open>The bytes of a C string: no NUL inside.\<close>

definition nulfree :: "string \<Rightarrow> bool" where
  "nulfree s \<longleftrightarrow> NUL \<notin> set s"

lemma nulfree_simps [simp, cstr_simps]:
  "nulfree []"
  "nulfree (c # s) \<longleftrightarrow> c \<noteq> NUL \<and> nulfree s"
  "nulfree (s @ t) \<longleftrightarrow> nulfree s \<and> nulfree t"
  by (auto simp: nulfree_def)

text \<open>What a C string function sees of a buffer: the bytes before the first NUL.\<close>

definition c_string :: "string \<Rightarrow> string" where
  "c_string b = takeWhile (\<lambda>c. c \<noteq> NUL) b"

lemma nulfree_c_string [simp]: "nulfree (c_string b)"
  by (auto simp: nulfree_def c_string_def dest: set_takeWhileD)

lemma c_string_id [simp]: "nulfree s \<Longrightarrow> c_string s = s"
  by (auto simp: nulfree_def c_string_def takeWhile_eq_all_conv)

section \<open>Integers\<close>

text \<open>A value stored in an \<open>int\<close>: 32 bits, two's complement.\<close>

definition s32 :: "int \<Rightarrow> int" where
  "s32 x = (x + 2 ^ 31) mod 2 ^ 32 - 2 ^ 31"

lemma s32_id [cint_simps]: "- (2 ^ 31) \<le> x \<Longrightarrow> x < 2 ^ 31 \<Longrightarrow> s32 x = x"
  by (simp add: s32_def)

lemma s32_range: "- (2 ^ 31) \<le> s32 x \<and> s32 x < 2 ^ 31"
proof -
  have "0 \<le> (x + 2 ^ 31) mod 2 ^ 32" and "(x + 2 ^ 31) mod 2 ^ 32 < (2 ^ 32 :: int)"
    by (rule pos_mod_sign, simp) (rule pos_mod_bound, simp)
  then show ?thesis by (simp add: s32_def)
qed

lemma s32_idem [simp]: "s32 (s32 x) = s32 x"
  using s32_range [of x] by (simp add: s32_id)

lemma s32_0 [simp]: "s32 0 = 0"
  by (simp add: s32_def)

text \<open>A value stored in a \<open>size_t\<close>: 64 bits, unsigned.\<close>

definition u64 :: "int \<Rightarrow> nat" where
  "u64 x = nat (x mod 2 ^ 64)"

lemma u64_id [cint_simps]: "0 \<le> x \<Longrightarrow> x < 2 ^ 64 \<Longrightarrow> u64 x = nat x"
  by (simp add: u64_def)

section \<open>Character classes of the C locale\<close>

definition isdigit :: "char \<Rightarrow> bool" where
  "isdigit c \<longleftrightarrow> 48 \<le> ord c \<and> ord c \<le> 57"

definition isspace :: "char \<Rightarrow> bool" where
  "isspace c \<longleftrightarrow> ord c = 32 \<or> 9 \<le> ord c \<and> ord c \<le> 13"

definition isupper :: "char \<Rightarrow> bool" where
  "isupper c \<longleftrightarrow> 65 \<le> ord c \<and> ord c \<le> 90"

definition islower :: "char \<Rightarrow> bool" where
  "islower c \<longleftrightarrow> 97 \<le> ord c \<and> ord c \<le> 122"

definition ispunct :: "char \<Rightarrow> bool" where
  "ispunct c \<longleftrightarrow> 33 \<le> ord c \<and> ord c \<le> 126 \<and> \<not> isdigit c \<and> \<not> isupper c \<and> \<not> islower c"

definition tolower :: "char \<Rightarrow> char" where
  "tolower c = (if isupper c then char_of (ord c + 32) else c)"

definition toupper :: "char \<Rightarrow> char" where
  "toupper c = (if islower c then char_of (ord c - 32) else c)"

text \<open>A UTF-8 continuation byte, as the code tests it: \<open>(c & 0xC0) == 0x80\<close>.\<close>

definition is_cont :: "char \<Rightarrow> bool" where
  "is_cont c \<longleftrightarrow> ord c AND 0xC0 = 0x80"

lemma and_C0: "(x::nat) AND 0xC0 = 64 * (x div 64 mod 4)"
proof -
  have "(0xC0::nat) = push_bit 6 (mask 2)"
    by (simp add: push_bit_eq_mult mask_eq_exp_minus_1)
  moreover have "x AND push_bit 6 (mask 2) = push_bit 6 (take_bit 2 (drop_bit 6 x))"
    by (rule bit_eqI) (auto simp: bit_simps)
  ultimately show ?thesis
    by (simp add: push_bit_eq_mult take_bit_eq_mod drop_bit_eq_div)
qed

lemma div64_eq_2: "(x::nat) div 64 = 2 \<longleftrightarrow> 128 \<le> x \<and> x < 192"
  by arith

lemma is_cont_iff: "is_cont c \<longleftrightarrow> 128 \<le> ord c \<and> ord c < 192"
proof -
  have "ord c div 64 < 4"
    by (rule less_mult_imp_div_less) simp
  then have "ord c div 64 mod 4 = ord c div 64"
    by (rule mod_less)
  then have "is_cont c \<longleftrightarrow> ord c div 64 = 2"
    unfolding is_cont_def and_C0 by simp
  also have "\<dots> \<longleftrightarrow> 128 \<le> ord c \<and> ord c < 192"
    by (rule div64_eq_2)
  finally show ?thesis .
qed

section \<open>String functions\<close>

text \<open>\<open>strncmp(s, p, strlen(p)) == 0\<close>.\<close>

fun starts_with :: "string \<Rightarrow> string \<Rightarrow> bool" where
  "starts_with [] s = True"
| "starts_with (p # ps) [] = False"
| "starts_with (p # ps) (c # cs) = (p = c \<and> starts_with ps cs)"

lemma starts_with_append [simp]: "starts_with p (p @ s)"
  by (induction p) auto

lemma starts_with_iff: "starts_with p s \<longleftrightarrow> (\<exists>t. s = p @ t)"
  by (induction p s rule: starts_with.induct) auto

lemma starts_with_drop: "starts_with p s \<Longrightarrow> s = p @ drop (length p) s"
  by (auto simp: starts_with_iff)

text \<open>\<open>strstr(s, n)\<close>: the suffix at the first occurrence.\<close>

fun strstr :: "string \<Rightarrow> string \<Rightarrow> string option" where
  "strstr [] n = (if n = [] then Some [] else None)"
| "strstr (c # s) n = (if starts_with n (c # s) then Some (c # s) else strstr s n)"

lemma strstr_Some: "strstr s n = Some t \<Longrightarrow> (\<exists>u. s = u @ t) \<and> starts_with n t"
proof (induction s n rule: strstr.induct)
  case (2 c s n)
  then show ?case
    by (fastforce split: if_splits simp: Cons_eq_append_conv)
qed (auto split: if_splits)

lemma strstr_None: "strstr s n = None \<longleftrightarrow> (\<forall>u t. s \<noteq> u @ n @ t)"
proof (induction s n rule: strstr.induct)
  case (2 c s n)
  show ?case
  proof (cases "starts_with n (c # s)")
    case True
    then show ?thesis by (auto simp: starts_with_iff) (metis append_Nil)
  next
    case False
    then have "strstr (c # s) n = None \<longleftrightarrow> (\<forall>u t. s \<noteq> u @ n @ t)"
      using 2 by simp
    also have "\<dots> \<longleftrightarrow> (\<forall>u t. c # s \<noteq> u @ n @ t)"
      using False by (auto simp: Cons_eq_append_conv starts_with_iff)
    finally show ?thesis .
  qed
qed auto

definition str_contains :: "string \<Rightarrow> string \<Rightarrow> bool" where
  "str_contains s n \<longleftrightarrow> strstr s n \<noteq> None"

lemma str_contains_iff: "str_contains s n \<longleftrightarrow> (\<exists>u t. s = u @ n @ t)"
  by (simp add: str_contains_def strstr_None)

definition ends_with :: "string \<Rightarrow> string \<Rightarrow> bool" where
  "ends_with e s \<longleftrightarrow> length e \<le> length s \<and> drop (length s - length e) s = e"

text \<open>\<open>strchr(s, c)\<close> and \<open>strrchr(s, c)\<close>.\<close>

fun strchr :: "string \<Rightarrow> char \<Rightarrow> string option" where
  "strchr [] c = None"
| "strchr (x # s) c = (if x = c then Some (x # s) else strchr s c)"

fun strrchr :: "string \<Rightarrow> char \<Rightarrow> string option" where
  "strrchr [] c = None"
| "strrchr (x # s) c =
     (case strrchr s c of Some t \<Rightarrow> Some t | None \<Rightarrow> if x = c then Some (x # s) else None)"

text \<open>The bytes before the first occurrence of \<open>c\<close> (the whole string when there is none).\<close>

definition before :: "char \<Rightarrow> string \<Rightarrow> string" where
  "before c s = takeWhile (\<lambda>x. x \<noteq> c) s"

text \<open>The tokens \<open>strtok_r\<close> returns one after the other for a delimiter set.\<close>

function tokens :: "(char \<Rightarrow> bool) \<Rightarrow> string \<Rightarrow> string list" where
  "tokens d s =
     (case dropWhile d s of
        [] \<Rightarrow> []
      | c # t \<Rightarrow> (c # takeWhile (\<lambda>x. \<not> d x) t) # tokens d (dropWhile (\<lambda>x. \<not> d x) t))"
  by pat_completeness auto
termination
proof (relation "measure (\<lambda>(d, s). length s)", goal_cases)
  case (2 d s c t)
  have "length (dropWhile (\<lambda>x. \<not> d x) t) \<le> length t"
    by (rule length_dropWhile_le)
  moreover have "length (c # t) \<le> length s"
    using length_dropWhile_le [of d s] 2 by simp
  ultimately show ?case by simp
qed simp

declare tokens.simps [simp del]

lemma tokens_in_string: "t \<in> set (tokens d s) \<Longrightarrow> set t \<subseteq> set s \<and> t \<noteq> []"
proof (induction d s rule: tokens.induct)
  case (1 d s)
  show ?case
  proof (cases "dropWhile d s")
    case Nil
    with "1.prems" show ?thesis by (simp add: tokens.simps [of d s])
  next
    case (Cons c u)
    have sub: "set (c # u) \<subseteq> set s"
      using set_dropWhileD [of _ d s] Cons by auto
    have tw: "set (takeWhile (\<lambda>x. \<not> d x) u) \<subseteq> set u"
      by (auto dest: set_takeWhileD)
    have dw: "set (dropWhile (\<lambda>x. \<not> d x) u) \<subseteq> set u"
      by (auto dest: set_dropWhileD)
    from "1.prems" Cons consider "t = c # takeWhile (\<lambda>x. \<not> d x) u"
      | "t \<in> set (tokens d (dropWhile (\<lambda>x. \<not> d x) u))"
      by (auto simp: tokens.simps [of d s])
    then show ?thesis
    proof cases
      case 1
      with sub tw show ?thesis by auto
    next
      case 2
      from "1.IH" [OF Cons 2] dw sub show ?thesis by auto
    qed
  qed
qed

text \<open>Lines as \<open>getline\<close> reads them: those that end in LF, and what is left after the last LF.\<close>

fun split_lines :: "string \<Rightarrow> string list \<times> string" where
  "split_lines [] = ([], [])"
| "split_lines (c # s) =
     (let (ls, r) = split_lines s in
      if c = LF then ([] # ls, r)
      else case ls of [] \<Rightarrow> ([], c # r) | l # ls' \<Rightarrow> ((c # l) # ls', r))"

definition drop_last_LF :: "string \<Rightarrow> string" where
  "drop_last_LF s = (if s \<noteq> [] \<and> last s = LF then butlast s else s)"

definition join_lines :: "string list \<Rightarrow> string" where
  "join_lines ls = concat (map (\<lambda>l. l @ [LF]) ls)"

lemma join_lines_simps [simp]:
  "join_lines [] = []"
  "join_lines (l # ls) = l @ LF # join_lines ls"
  "join_lines (ls @ ms) = join_lines ls @ join_lines ms"
  by (simp_all add: join_lines_def)

lemma split_lines_append_LF [simp]:
  "LF \<notin> set l \<Longrightarrow> split_lines (l @ LF # s) = (let (ls, r) = split_lines s in (l # ls, r))"
  by (induction l) (auto simp: Let_def split: prod.splits)

lemma split_lines_no_LF: "LF \<notin> set r \<Longrightarrow> split_lines r = ([], r)"
  by (induction r) auto

lemma split_lines_join:
  "\<forall>l \<in> set ls. LF \<notin> set l \<Longrightarrow> LF \<notin> set r \<Longrightarrow> split_lines (join_lines ls @ r) = (ls, r)"
  by (induction ls) (auto simp: split_lines_no_LF)

lemma join_split_lines: "split_lines s = (ls, r) \<Longrightarrow> join_lines ls @ r = s"
proof (induction s arbitrary: ls r)
  case (Cons c s)
  obtain ls' r' where s: "split_lines s = (ls', r')" by (cases "split_lines s")
  with Cons.IH have eq: "join_lines ls' @ r' = s" by simp
  with Cons.prems s show ?case
    by (auto split: if_splits list.splits)
qed simp

lemma split_lines_no_LF_inside:
  "split_lines s = (ls, r) \<Longrightarrow> (\<forall>l \<in> set ls. LF \<notin> set l) \<and> LF \<notin> set r"
proof (induction s arbitrary: ls r)
  case (Cons c s)
  obtain ls' r' where s: "split_lines s = (ls', r')" by (cases "split_lines s")
  with Cons show ?case by (auto split: if_splits list.splits)
qed simp

section \<open>Numbers as text\<close>

definition digit_char :: "nat \<Rightarrow> char" where
  "digit_char d = char_of (48 + d)"

fun nat_dec :: "nat \<Rightarrow> string" where
  "nat_dec n = (if n < 10 then [digit_char n] else nat_dec (n div 10) @ [digit_char (n mod 10)])"

declare nat_dec.simps [simp del]

text \<open>\<open>printf\<close> of \<open>%d\<close>, \<open>%ld\<close> and \<open>%zu\<close>.\<close>

definition int_dec :: "int \<Rightarrow> string" where
  "int_dec i = (if i < 0 then CHR ''-'' # nat_dec (nat (- i)) else nat_dec (nat i))"

definition digit_val :: "char \<Rightarrow> nat" where
  "digit_val c = ord c - 48"

definition dec_value :: "string \<Rightarrow> nat" where
  "dec_value s = foldl (\<lambda>a c. a * 10 + digit_val c) 0 s"

lemma ord_digit_char [simp]: "d < 10 \<Longrightarrow> ord (digit_char d) = 48 + d"
  by (simp add: digit_char_def ord_char_of)

lemma isdigit_digit_char [simp]: "d < 10 \<Longrightarrow> isdigit (digit_char d)"
  by (simp add: isdigit_def)

lemma digit_val_digit_char [simp]: "d < 10 \<Longrightarrow> digit_val (digit_char d) = d"
  by (simp add: digit_val_def)

lemma dec_value_nat_dec [simp]: "dec_value (nat_dec n) = n"
proof (induction n rule: nat_dec.induct)
  case (1 n)
  show ?case
  proof (cases "n < 10")
    case True
    then show ?thesis by (simp add: nat_dec.simps [of n] dec_value_def)
  next
    case False
    with 1 have "dec_value (nat_dec (n div 10)) = n div 10" by simp
    with False show ?thesis
      by (simp add: nat_dec.simps [of n] dec_value_def)
  qed
qed

lemma nat_dec_digits: "\<forall>c \<in> set (nat_dec n). isdigit c"
proof (induction n rule: nat_dec.induct)
  case (1 n)
  then show ?case by (cases "n < 10") (auto simp: nat_dec.simps [of n])
qed

lemma nat_dec_nonempty [simp]: "nat_dec n \<noteq> []"
  by (simp add: nat_dec.simps [of n])

lemma nulfree_nat_dec [simp]: "nulfree (nat_dec n)"
  using nat_dec_digits [of n] by (auto simp: nulfree_def isdigit_def NUL_def ord_def)

lemma nulfree_int_dec [simp]: "nulfree (int_dec i)"
  by (simp add: int_dec_def NUL_def)

text \<open>\<open>printf\<close> of \<open>%04x\<close> for a value below 65536.\<close>

definition hex_char :: "nat \<Rightarrow> char" where
  "hex_char d = (if d < 10 then char_of (48 + d) else char_of (87 + d))"

definition hex4 :: "nat \<Rightarrow> string" where
  "hex4 n = [hex_char (n div 4096 mod 16), hex_char (n div 256 mod 16),
             hex_char (n div 16 mod 16), hex_char (n mod 16)]"

text \<open>Digits in base 8, as \<open>printf\<close> writes \<open>%04o\<close> of a value below 4096.\<close>

definition oct4 :: "nat \<Rightarrow> string" where
  "oct4 n = [digit_char (n div 512 mod 8), digit_char (n div 64 mod 8),
             digit_char (n div 8 mod 8), digit_char (n mod 8)]"

section \<open>Lists and options\<close>

lemma drop_Suc_tl: "drop (Suc n) s = drop n (tl s)"
  by (simp add: drop_Suc)

lemma take_append_exact [simp]: "length xs = n \<Longrightarrow> take n (xs @ ys) = xs"
  by simp

lemma drop_append_exact [simp]: "length xs = n \<Longrightarrow> drop n (xs @ ys) = ys"
  by simp

definition opt_default :: "'a \<Rightarrow> 'a option \<Rightarrow> 'a" where
  "opt_default d m = (case m of None \<Rightarrow> d | Some x \<Rightarrow> x)"

lemma opt_default_simps [simp]:
  "opt_default d None = d" "opt_default d (Some x) = x"
  by (simp_all add: opt_default_def)

text \<open>\<open>p && p[0]\<close>: a pointer to a non-empty string.\<close>

definition nonempty_opt :: "string option \<Rightarrow> bool" where
  "nonempty_opt m \<longleftrightarrow> (case m of None \<Rightarrow> False | Some s \<Rightarrow> s \<noteq> [])"

lemma nonempty_opt_simps [simp]:
  "\<not> nonempty_opt None" "nonempty_opt (Some s) \<longleftrightarrow> s \<noteq> []"
  by (simp_all add: nonempty_opt_def)

end
