(* ===== verification/CUtil.thy ===== *)
theory CUtil
  imports Prelude
begin

unbundle bit_operations_syntax

text \<open>
  The helpers of c/util.c that do not touch files: the dynamic string buffer \<open>StrBuf\<close>, JSON and
  shell quoting, UTF-8 sanitizing and truncation, path joining, size parsing, base64.  A buffer
  is the record \<open>strbuf\<close>; the routines that fill one are refined to plain functions on strings
  (\<open>sb_str\<close> of the result), which is how the other components use them.
\<close>

section \<open>StrBuf\<close>

text \<open>
  \<open>sb_data\<close> holds the bytes \<open>data[0..len)\<close> (\<open>None\<close> is the NULL pointer), \<open>sb_term\<close> tells
  whether \<open>data[len]\<close> has been set to NUL: \<open>sb_ensure\<close> alone allocates without terminating.
\<close>

record strbuf =
  sb_data :: "string option"
  sb_len :: nat
  sb_cap :: nat
  sb_term :: bool

definition sb_init :: strbuf where
  "sb_init = \<lparr>sb_data = None, sb_len = 0, sb_cap = 0, sb_term = False\<rparr>"

definition sb_free :: "strbuf \<Rightarrow> strbuf" where
  "sb_free sb = sb\<lparr>sb_data := None, sb_len := 0, sb_cap := 0, sb_term := False\<rparr>"

function grow_cap :: "nat \<Rightarrow> nat \<Rightarrow> nat" where
  "grow_cap newcap need =
     (if newcap < need \<and> 0 < newcap then grow_cap (newcap * 2) need else newcap)"
  by pat_completeness auto
termination
  by (relation "measure (\<lambda>(newcap, need). need - newcap)") auto

declare grow_cap.simps [simp del]

lemma grow_cap_enough: "0 < newcap \<Longrightarrow> need \<le> grow_cap newcap need"
proof (induction newcap need rule: grow_cap.induct)
  case (1 newcap need)
  then show ?case by (cases "newcap < need") (auto simp: grow_cap.simps [of newcap need])
qed

definition sb_ensure :: "strbuf \<Rightarrow> nat \<Rightarrow> strbuf" where
  "sb_ensure sb extra =
     (if sb_len sb + extra + 1 \<le> sb_cap sb then sb
      else sb\<lparr>sb_data := Some (opt_default [] (sb_data sb)),
              sb_cap := grow_cap (if sb_cap sb = 0 then 256 else sb_cap sb)
                                 (sb_len sb + extra + 1)\<rparr>)"

definition sb_appendn :: "strbuf \<Rightarrow> string \<Rightarrow> strbuf" where
  "sb_appendn sb s =
     (if s = [] then sb
      else let b = sb_ensure sb (length s)
           in b\<lparr>sb_data := Some (take (sb_len b) (opt_default [] (sb_data b)) @ s),
                sb_len := sb_len b + length s, sb_term := True\<rparr>)"

definition sb_append :: "strbuf \<Rightarrow> string option \<Rightarrow> strbuf" where
  "sb_append sb s = (case s of None \<Rightarrow> sb | Some t \<Rightarrow> sb_appendn sb t)"

text \<open>\<open>sb_appendf\<close>: the formatted text is the argument; unlike \<open>sb_append\<close> it always allocates.\<close>

definition sb_appendf :: "strbuf \<Rightarrow> string \<Rightarrow> strbuf" where
  "sb_appendf sb s =
     (let b = sb_ensure sb (length s)
      in b\<lparr>sb_data := Some (take (sb_len b) (opt_default [] (sb_data b)) @ s),
           sb_len := sb_len b + length s, sb_term := True\<rparr>)"

definition sb_append_char :: "strbuf \<Rightarrow> char \<Rightarrow> strbuf" where
  "sb_append_char sb c =
     (let b = sb_ensure sb 1
      in b\<lparr>sb_data := Some (take (sb_len b) (opt_default [] (sb_data b)) @ [c]),
           sb_len := sb_len b + 1, sb_term := True\<rparr>)"

definition sb_truncate :: "strbuf \<Rightarrow> nat \<Rightarrow> strbuf" where
  "sb_truncate sb n =
     (if n < sb_len sb
      then sb\<lparr>sb_len := n, sb_data := map_option (take n) (sb_data sb), sb_term := True\<rparr>
      else sb)"

text \<open>The string a buffer holds, and the invariant every operation keeps: the length matches the
  bytes, and there is room for the terminating NUL.\<close>

definition sb_str :: "strbuf \<Rightarrow> string" where
  "sb_str sb = opt_default [] (sb_data sb)"

definition strbuf_ok :: "strbuf \<Rightarrow> bool" where
  "strbuf_ok sb \<longleftrightarrow>
     (case sb_data sb of
        None \<Rightarrow> sb_len sb = 0 \<and> sb_cap sb = 0
      | Some d \<Rightarrow> length d = sb_len sb \<and> sb_len sb + 1 \<le> sb_cap sb)
     \<and> (0 < sb_len sb \<longrightarrow> sb_term sb)"

lemma sb_init_ok [simp]: "strbuf_ok sb_init" "sb_str sb_init = []"
  by (simp_all add: strbuf_ok_def sb_init_def sb_str_def)

lemma sb_free_ok [simp]: "strbuf_ok (sb_free sb)" "sb_str (sb_free sb) = []"
  by (simp_all add: strbuf_ok_def sb_free_def sb_str_def)

lemma sb_len_str: "strbuf_ok sb \<Longrightarrow> sb_len sb = length (sb_str sb)"
  by (auto simp: strbuf_ok_def sb_str_def split: option.splits)

lemma sb_ensure_facts:
  assumes "strbuf_ok sb"
  shows "sb_str (sb_ensure sb n) = sb_str sb" "sb_len (sb_ensure sb n) = sb_len sb"
    "sb_len sb + n + 1 \<le> sb_cap (sb_ensure sb n)" "sb_term (sb_ensure sb n) = sb_term sb"
    "strbuf_ok (sb_ensure sb n)" "sb_data (sb_ensure sb n) = Some (sb_str sb)"
proof -
  have cap: "sb_len sb + n + 1 \<le> grow_cap (if sb_cap sb = 0 then 256 else sb_cap sb) (sb_len sb + n + 1)"
    by (rule grow_cap_enough) simp
  show "sb_str (sb_ensure sb n) = sb_str sb" "sb_len (sb_ensure sb n) = sb_len sb"
    "sb_term (sb_ensure sb n) = sb_term sb"
    by (simp_all add: sb_ensure_def sb_str_def)
  show "sb_len sb + n + 1 \<le> sb_cap (sb_ensure sb n)"
    using cap by (simp add: sb_ensure_def)
  show "strbuf_ok (sb_ensure sb n)"
    using assms cap by (auto simp: strbuf_ok_def sb_ensure_def split: option.splits)
  show "sb_data (sb_ensure sb n) = Some (sb_str sb)"
    using assms by (auto simp: strbuf_ok_def sb_ensure_def sb_str_def split: option.splits)
qed

lemma sb_appendf_ok [simp]:
  assumes "strbuf_ok sb"
  shows "strbuf_ok (sb_appendf sb s)" "sb_str (sb_appendf sb s) = sb_str sb @ s"
    "sb_term (sb_appendf sb s)"
  using sb_ensure_facts [OF assms, of "length s"] sb_len_str [OF assms]
  by (auto simp: sb_appendf_def strbuf_ok_def sb_str_def Let_def)

lemma sb_appendn_ok [simp]:
  assumes "strbuf_ok sb"
  shows "strbuf_ok (sb_appendn sb s)" "sb_str (sb_appendn sb s) = sb_str sb @ s"
proof -
  have "sb_appendn sb s = (if s = [] then sb else sb_appendf sb s)"
    by (simp add: sb_appendn_def sb_appendf_def)
  with assms show "strbuf_ok (sb_appendn sb s)" "sb_str (sb_appendn sb s) = sb_str sb @ s"
    by simp_all
qed

lemma sb_append_ok [simp]:
  assumes "strbuf_ok sb"
  shows "strbuf_ok (sb_append sb m)" "sb_str (sb_append sb m) = sb_str sb @ opt_default [] m"
  using assms by (auto simp: sb_append_def split: option.splits)

lemma sb_append_char_ok [simp]:
  assumes "strbuf_ok sb"
  shows "strbuf_ok (sb_append_char sb c)" "sb_str (sb_append_char sb c) = sb_str sb @ [c]"
    "sb_term (sb_append_char sb c)"
proof -
  have "sb_append_char sb c = sb_appendf sb [c]"
    by (simp add: sb_append_char_def sb_appendf_def)
  with assms show "strbuf_ok (sb_append_char sb c)" "sb_str (sb_append_char sb c) = sb_str sb @ [c]"
    "sb_term (sb_append_char sb c)"
    by simp_all
qed

lemma sb_truncate_ok [simp]:
  assumes "strbuf_ok sb"
  shows "strbuf_ok (sb_truncate sb n)" "sb_str (sb_truncate sb n) = take n (sb_str sb)"
  using assms sb_len_str [OF assms]
  by (auto simp: sb_truncate_def strbuf_ok_def sb_str_def split: option.splits)

section \<open>JSON string quoting\<close>

definition json_escape :: "char \<Rightarrow> string" where
  "json_escape c =
     (if c = QUOTE then [BSLASH, QUOTE]
      else if c = BSLASH then [BSLASH, BSLASH]
      else if c = CHR 0x08 then [BSLASH, CHR ''b'']
      else if c = CHR 0x0C then [BSLASH, CHR ''f'']
      else if c = LF then [BSLASH, CHR ''n'']
      else if c = CR then [BSLASH, CHR ''r'']
      else if c = TAB then [BSLASH, CHR ''t'']
      else if ord c < 0x20 then BSLASH # CHR ''u'' # hex4 (ord c)
      else [c])"

fun sb_json_loop :: "strbuf \<Rightarrow> string \<Rightarrow> strbuf" where
  "sb_json_loop sb [] = sb"
| "sb_json_loop sb (c # src) =
     sb_json_loop
       (if c = QUOTE then sb_append sb (Some [BSLASH, QUOTE])
        else if c = BSLASH then sb_append sb (Some [BSLASH, BSLASH])
        else if c = CHR 0x08 then sb_append sb (Some [BSLASH, CHR ''b''])
        else if c = CHR 0x0C then sb_append sb (Some [BSLASH, CHR ''f''])
        else if c = LF then sb_append sb (Some [BSLASH, CHR ''n''])
        else if c = CR then sb_append sb (Some [BSLASH, CHR ''r''])
        else if c = TAB then sb_append sb (Some [BSLASH, CHR ''t''])
        else if ord c < 0x20 then sb_appendf sb (BSLASH # CHR ''u'' # hex4 (ord c))
        else sb_append_char sb c) src"

definition sb_append_json_string :: "strbuf \<Rightarrow> string option \<Rightarrow> strbuf" where
  "sb_append_json_string sb src =
     (case src of
        None \<Rightarrow> sb_append sb (Some ''null'')
      | Some s \<Rightarrow> sb_append_char (sb_json_loop (sb_append_char sb QUOTE) s) QUOTE)"

text \<open>What is appended, as a function on strings.\<close>

definition json_quote :: "string \<Rightarrow> string" where
  "json_quote s = QUOTE # concat (map json_escape s) @ [QUOTE]"

lemma sb_json_loop_str:
  "strbuf_ok sb \<Longrightarrow>
     strbuf_ok (sb_json_loop sb s) \<and> sb_str (sb_json_loop sb s) = sb_str sb @ concat (map json_escape s)"
  by (induction s arbitrary: sb) (auto simp: json_escape_def)

lemma sb_append_json_string_ok [simp]:
  assumes "strbuf_ok sb"
  shows "strbuf_ok (sb_append_json_string sb m)"
    "sb_str (sb_append_json_string sb m) =
       sb_str sb @ (case m of None \<Rightarrow> ''null'' | Some s \<Rightarrow> json_quote s)"
  using assms sb_json_loop_str [of "sb_append_char sb QUOTE"]
  by (auto simp: sb_append_json_string_def json_quote_def split: option.splits)

lemma ord_hex_char: "d < 16 \<Longrightarrow> ord (hex_char d) = (if d < 10 then 48 + d else 87 + d)"
  by (simp add: hex_char_def ord_char_of)

lemma json_escape_bytes: "x \<in> set (json_escape c) \<Longrightarrow> 32 \<le> ord x"
proof -
  assume "x \<in> set (json_escape c)"
  moreover have "(32::nat) \<le> of_char (hex_char n)" if "n < 16" for n
    using ord_hex_char [OF that] by (simp add: ord_def split: if_splits)
  ultimately show ?thesis
    by (auto simp: json_escape_def hex4_def char_defs ord_def split: if_splits)
qed

lemma json_quote_no_control: "x \<in> set (json_quote s) \<Longrightarrow> 32 \<le> ord x"
  by (auto simp: json_quote_def QUOTE_def ord_def dest: json_escape_bytes [unfolded ord_def])

lemma json_quote_LF [simp]: "LF \<notin> set (json_quote s)"
  using json_quote_no_control [of LF s] by (auto simp: LF_def ord_def)

lemma json_quote_nulfree [simp]: "nulfree (json_quote s)"
  using json_quote_no_control [of NUL s] by (auto simp: nulfree_def NUL_def ord_def)

section \<open>Shell quoting\<close>

definition shell_escape :: "char \<Rightarrow> string" where
  "shell_escape c = (if c = SQUOTE then [SQUOTE, BSLASH, SQUOTE, SQUOTE] else [c])"

fun sb_shell_loop :: "strbuf \<Rightarrow> string \<Rightarrow> strbuf" where
  "sb_shell_loop sb [] = sb"
| "sb_shell_loop sb (c # src) =
     sb_shell_loop (if c = SQUOTE then sb_append sb (Some [SQUOTE, BSLASH, SQUOTE, SQUOTE])
                    else sb_append_char sb c) src"

definition sb_append_shell_arg :: "strbuf \<Rightarrow> string option \<Rightarrow> strbuf" where
  "sb_append_shell_arg sb src =
     (case src of
        None \<Rightarrow> sb_append sb (Some [SQUOTE, SQUOTE])
      | Some s \<Rightarrow> sb_append_char (sb_shell_loop (sb_append_char sb SQUOTE) s) SQUOTE)"

definition shell_quote :: "string \<Rightarrow> string" where
  "shell_quote s = SQUOTE # concat (map shell_escape s) @ [SQUOTE]"

lemma sb_shell_loop_str:
  "strbuf_ok sb \<Longrightarrow>
     strbuf_ok (sb_shell_loop sb s) \<and> sb_str (sb_shell_loop sb s) = sb_str sb @ concat (map shell_escape s)"
  by (induction s arbitrary: sb) (auto simp: shell_escape_def)

lemma sb_append_shell_arg_ok [simp]:
  assumes "strbuf_ok sb"
  shows "strbuf_ok (sb_append_shell_arg sb (Some s))"
    "sb_str (sb_append_shell_arg sb (Some s)) = sb_str sb @ shell_quote s"
  using assms sb_shell_loop_str [of "sb_append_char sb SQUOTE"]
  by (auto simp: sb_append_shell_arg_def shell_quote_def)

text \<open>
  The reading side is the shell's: how POSIX \<open>sh\<close> reads one word made of single-quoted parts,
  backslash-escaped characters and plain letters.  It returns the word and the rest of the line.
\<close>

datatype sh_mode = Plain | Quoted

definition sh_plain :: "char \<Rightarrow> bool" where
  "sh_plain c \<longleftrightarrow> isdigit c \<or> isupper c \<or> islower c \<or> c \<in> set ''-_./,:=+@%''"

fun sh_word :: "sh_mode \<Rightarrow> string \<Rightarrow> (string \<times> string) option" where
  "sh_word Quoted [] = None"
| "sh_word Quoted (c # s) =
     (if c = SQUOTE then sh_word Plain s
      else map_option (\<lambda>(w, r). (c # w, r)) (sh_word Quoted s))"
| "sh_word Plain [] = Some ([], [])"
| "sh_word Plain (c # s) =
     (if c = SQUOTE then sh_word Quoted s
      else if c = BSLASH then
        (case s of [] \<Rightarrow> None | d # s' \<Rightarrow> map_option (\<lambda>(w, r). (d # w, r)) (sh_word Plain s'))
      else if sh_plain c then map_option (\<lambda>(w, r). (c # w, r)) (sh_word Plain s)
      else Some ([], c # s))"

lemma sh_word_quoted:
  "sh_word Quoted (concat (map shell_escape s) @ SQUOTE # r)
     = map_option (\<lambda>(w, q). (s @ w, q)) (sh_word Plain r)"
proof (induction s)
  case Nil
  show ?case by (cases "sh_word Plain r") auto
next
  case (Cons c s)
  have bs: "BSLASH \<noteq> SQUOTE" by (simp add: char_defs)
  show ?case
  proof (cases "c = SQUOTE")
    case True
    with Cons bs show ?thesis
      by (cases "sh_word Plain r") (auto simp: shell_escape_def)
  next
    case False
    with Cons show ?thesis by (cases "sh_word Plain r") (auto simp: shell_escape_def)
  qed
qed

section \<open>UTF-8 sanitizing\<close>

definition cont :: "char \<Rightarrow> bool" where
  "cont c \<longleftrightarrow> 0x80 \<le> ord c \<and> ord c \<le> 0xBF"

text \<open>The six ASCII characters that replace a bad byte.\<close>

definition BAD_UTF8 :: string where
  "BAD_UTF8 = BSLASH # ''ufffd''"

fun sanitize_loop :: "strbuf \<Rightarrow> string \<Rightarrow> strbuf" where
  "sanitize_loop sb [] = sb"
| "sanitize_loop sb (b # p) =
     (if ord b < 0x80 then sanitize_loop (sb_append_char sb b) p
      else if 0xC2 \<le> ord b \<and> ord b \<le> 0xDF then
        (case p of
           p1 # p' \<Rightarrow> if cont p1 then sanitize_loop (sb_appendn sb [b, p1]) p'
                     else sanitize_loop (sb_append sb (Some BAD_UTF8)) p
         | _ \<Rightarrow> sanitize_loop (sb_append sb (Some BAD_UTF8)) p)
      else if 0xE0 \<le> ord b \<and> ord b \<le> 0xEF then
        (case p of
           p1 # p2 # p' \<Rightarrow> if cont p1 \<and> cont p2 then sanitize_loop (sb_appendn sb [b, p1, p2]) p'
                          else sanitize_loop (sb_append sb (Some BAD_UTF8)) p
         | _ \<Rightarrow> sanitize_loop (sb_append sb (Some BAD_UTF8)) p)
      else if 0xF0 \<le> ord b \<and> ord b \<le> 0xF4 then
        (case p of
           p1 # p2 # p3 # p' \<Rightarrow>
             if cont p1 \<and> cont p2 \<and> cont p3 then sanitize_loop (sb_appendn sb [b, p1, p2, p3]) p'
             else sanitize_loop (sb_append sb (Some BAD_UTF8)) p
         | _ \<Rightarrow> sanitize_loop (sb_append sb (Some BAD_UTF8)) p)
      else sanitize_loop (sb_append sb (Some BAD_UTF8)) p)"

text \<open>The pointer the routine returns is a C string only when the buffer was terminated:
  \<open>None\<close> stands for a buffer whose bytes were never written.\<close>

definition util_sanitize_utf8 :: "string option \<Rightarrow> string option" where
  "util_sanitize_utf8 src =
     (case src of
        None \<Rightarrow> Some []
      | Some s \<Rightarrow>
          (let sb = sanitize_loop (sb_ensure sb_init (length s * 6 + 1)) s
           in if sb_term sb then sb_data sb else None))"

text \<open>The same scan as a function on strings.\<close>

fun sanitize :: "string \<Rightarrow> string" where
  "sanitize [] = []"
| "sanitize (b # p) =
     (if ord b < 0x80 then b # sanitize p
      else if 0xC2 \<le> ord b \<and> ord b \<le> 0xDF then
        (case p of
           p1 # p' \<Rightarrow> if cont p1 then b # p1 # sanitize p' else BAD_UTF8 @ sanitize p
         | _ \<Rightarrow> BAD_UTF8 @ sanitize p)
      else if 0xE0 \<le> ord b \<and> ord b \<le> 0xEF then
        (case p of
           p1 # p2 # p' \<Rightarrow> if cont p1 \<and> cont p2 then b # p1 # p2 # sanitize p'
                          else BAD_UTF8 @ sanitize p
         | _ \<Rightarrow> BAD_UTF8 @ sanitize p)
      else if 0xF0 \<le> ord b \<and> ord b \<le> 0xF4 then
        (case p of
           p1 # p2 # p3 # p' \<Rightarrow> if cont p1 \<and> cont p2 \<and> cont p3 then b # p1 # p2 # p3 # sanitize p'
                               else BAD_UTF8 @ sanitize p
         | _ \<Rightarrow> BAD_UTF8 @ sanitize p)
      else BAD_UTF8 @ sanitize p)"

declare sanitize_loop.simps(2) [simp del] sanitize.simps(2) [simp del]

lemma sanitize_loop_str:
  "strbuf_ok sb \<Longrightarrow>
     strbuf_ok (sanitize_loop sb s) \<and> sb_str (sanitize_loop sb s) = sb_str sb @ sanitize s"
proof (induction sb s rule: sanitize_loop.induct)
  case (2 sb b p)
  show ?case
    using 2 unfolding sanitize_loop.simps(2) [of sb b p] sanitize.simps(2) [of b p]
    by (auto split: list.splits)
qed simp

text \<open>
  The byte sequences the scan lets through, its own grammar of UTF-8: \<open>utf8_seq s\<close> is the length
  of the sequence at the head of \<open>s\<close> (0 for a bad byte).
\<close>

fun utf8_seq :: "string \<Rightarrow> nat" where
  "utf8_seq [] = 0"
| "utf8_seq (b # p) =
     (if ord b < 0x80 then 1
      else if 0xC2 \<le> ord b \<and> ord b \<le> 0xDF then
        (case p of p1 # _ \<Rightarrow> if cont p1 then 2 else 0 | _ \<Rightarrow> 0)
      else if 0xE0 \<le> ord b \<and> ord b \<le> 0xEF then
        (case p of p1 # p2 # _ \<Rightarrow> if cont p1 \<and> cont p2 then 3 else 0 | _ \<Rightarrow> 0)
      else if 0xF0 \<le> ord b \<and> ord b \<le> 0xF4 then
        (case p of p1 # p2 # p3 # _ \<Rightarrow> if cont p1 \<and> cont p2 \<and> cont p3 then 4 else 0 | _ \<Rightarrow> 0)
      else 0)"

declare utf8_seq.simps(2) [simp del]

text \<open>The shape of a good sequence: a lead byte that is no continuation, then continuations.\<close>

lemma utf8_seq_pos:
  assumes "utf8_seq s = Suc n"
  shows "\<exists>b q t. s = b # q @ t \<and> length q = n \<and> \<not> cont b \<and> list_all cont q
    \<and> (\<forall>u. utf8_seq (b # q @ u) = Suc n)"
proof (cases s)
  case Nil
  with assms show ?thesis by simp
next
  case (Cons b p)
  show ?thesis
  proof (cases "ord b < 0x80")
    case True
    with assms Cons have "n = 0" by (simp add: utf8_seq.simps(2))
    with True Cons show ?thesis
      by (intro exI [of _ b] exI [of _ "[]"] exI [of _ p]) (auto simp: utf8_seq.simps(2) cont_def)
  next
    case high: False
    then have nc: "\<not> cont b" if "0xC2 \<le> ord b" using that by (simp add: cont_def)
    consider (two) p1 t where "p = p1 # t" "cont p1" "n = 1" "0xC2 \<le> ord b" "ord b \<le> 0xDF"
      | (three) p1 p2 t where "p = p1 # p2 # t" "cont p1" "cont p2" "n = 2" "0xE0 \<le> ord b" "ord b \<le> 0xEF"
      | (four) p1 p2 p3 t where "p = p1 # p2 # p3 # t" "cont p1" "cont p2" "cont p3" "n = 3"
          "0xF0 \<le> ord b" "ord b \<le> 0xF4"
      using assms high unfolding Cons utf8_seq.simps(2) by (auto split: if_splits list.splits)
    then show ?thesis
    proof cases
      case two
      with high nc Cons show ?thesis
        by (intro exI [of _ b] exI [of _ "[p1]"] exI [of _ t]) (simp add: utf8_seq.simps(2))
    next
      case three
      with high nc Cons show ?thesis
        by (intro exI [of _ b] exI [of _ "[p1, p2]"] exI [of _ t]) (simp add: utf8_seq.simps(2))
    next
      case four
      with high nc Cons show ?thesis
        by (intro exI [of _ b] exI [of _ "[p1, p2, p3]"] exI [of _ t]) (simp add: utf8_seq.simps(2))
    qed
  qed
qed

lemma utf8_seq_le: "utf8_seq s \<le> length s"
proof (cases "utf8_seq s")
  case (Suc n)
  from utf8_seq_pos [OF this] obtain b q t where "s = b # q @ t" "length q = n" by blast
  with Suc show ?thesis by simp
qed simp

function utf8_ok :: "string \<Rightarrow> bool" where
  "utf8_ok s =
     (if s = [] then True else if utf8_seq s = 0 then False else utf8_ok (drop (utf8_seq s) s))"
  by pat_completeness auto
termination
  by (relation "measure length") auto

declare utf8_ok.simps [simp del]

lemma utf8_ok_Nil [simp]: "utf8_ok []"
  by (simp add: utf8_ok.simps [of "[]"])

lemma utf8_ok_cons_seq:
  assumes "length q = n" "utf8_seq (b # q @ u) = Suc n"
  shows "utf8_ok (b # q @ u) = utf8_ok u"
  using assms by (simp add: utf8_ok.simps [of "b # q @ u"])

text \<open>One step of the scan, by the sequence at the head.\<close>

lemma sanitize_step:
  "sanitize (b # p) =
     (case utf8_seq (b # p) of
        0 \<Rightarrow> BAD_UTF8 @ sanitize p
      | Suc n \<Rightarrow> b # take n p @ sanitize (drop n p))"
proof -
  consider "ord b < 0x80" | "0xC2 \<le> ord b" "ord b \<le> 0xDF" | "0xE0 \<le> ord b" "ord b \<le> 0xEF"
    | "0xF0 \<le> ord b" "ord b \<le> 0xF4"
    | "0x80 \<le> ord b" "ord b < 0xC2 \<or> 0xDF < ord b \<and> ord b < 0xE0 \<or> 0xF4 < ord b"
    by linarith
  then show ?thesis
    unfolding sanitize.simps(2) [of b p] utf8_seq.simps(2) [of b p]
    by cases (auto split: list.split)
qed

lemma utf8_ok_ascii: "\<forall>c \<in> set s. ord c < 128 \<Longrightarrow> utf8_ok (s @ t) = utf8_ok t"
proof (induction s)
  case (Cons c s)
  then have "utf8_ok (c # [] @ (s @ t)) = utf8_ok (s @ t)"
    by (intro utf8_ok_cons_seq [where n = 0]) (auto simp: utf8_seq.simps(2))
  with Cons show ?case by simp
qed simp

lemma BAD_UTF8_ascii: "\<forall>c \<in> set BAD_UTF8. ord c < 128"
  by (simp add: BAD_UTF8_def BSLASH_def ord_def)

lemma utf8_ok_sanitize: "utf8_ok (sanitize s)"
proof (induction s rule: length_induct)
  case (1 s)
  show ?case
  proof (cases s)
    case (Cons b p)
    show ?thesis
    proof (cases "utf8_seq (b # p)")
      case 0
      with 1 Cons utf8_ok_ascii [OF BAD_UTF8_ascii] show ?thesis by (simp add: sanitize_step)
    next
      case (Suc n)
      from utf8_seq_pos [OF Suc] obtain q t where
        q: "p = q @ t" "length q = n" "\<forall>u. utf8_seq (b # q @ u) = Suc n" by auto
      with Suc Cons have "sanitize s = b # q @ sanitize t" by (simp add: sanitize_step)
      moreover have "utf8_ok (sanitize t)" using 1 q Cons by simp
      ultimately show ?thesis using q utf8_ok_cons_seq [of q n b "sanitize t"] by simp
    qed
  qed simp
qed

lemma sanitize_id: "utf8_ok s \<Longrightarrow> sanitize s = s"
proof (induction s rule: length_induct)
  case (1 s)
  show ?case
  proof (cases s)
    case (Cons b p)
    with "1.prems" obtain n where n: "utf8_seq (b # p) = Suc n" "utf8_ok (drop n p)"
      by (cases "utf8_seq (b # p)") (auto simp: utf8_ok.simps [of "b # p"])
    have "sanitize (drop n p) = drop n p"
      using "1.IH" Cons n(2) by simp
    with n Cons show ?thesis by (simp add: sanitize_step)
  qed simp
qed

text \<open>No byte is lost but the bad ones: each is replaced by six, so the length is bounded.\<close>

lemma sanitize_length: "length (sanitize s) \<le> 6 * length s"
proof (induction s rule: length_induct)
  case (1 s)
  show ?case
  proof (cases s)
    case (Cons b p)
    show ?thesis
    proof (cases "utf8_seq (b # p)")
      case 0
      have "length (sanitize p) \<le> 6 * length p" using 1 Cons by simp
      with 0 Cons show ?thesis by (simp add: sanitize_step BAD_UTF8_def)
    next
      case (Suc n)
      have "length (sanitize (drop n p)) \<le> 6 * length (drop n p)"
        by (rule 1 [rule_format]) (simp add: Cons)
      moreover have "n \<le> length p" using utf8_seq_le [of "b # p"] Suc by simp
      ultimately show ?thesis using Suc Cons by (simp add: sanitize_step)
    qed
  qed simp
qed

lemma utf8_ok_append: "utf8_ok s \<Longrightarrow> utf8_ok t \<Longrightarrow> utf8_ok (s @ t)"
proof (induction s rule: length_induct)
  case (1 s)
  show ?case
  proof (cases s)
    case (Cons b p)
    with "1.prems"(1) obtain n where n: "utf8_seq s = Suc n"
      by (cases "utf8_seq s") (auto simp: utf8_ok.simps [of "b # p"])
    from utf8_seq_pos [OF n] obtain b' q u where
      s: "s = b' # q @ u" "length q = n" "\<forall>u. utf8_seq (b' # q @ u) = Suc n"
      by blast
    note step = utf8_ok_cons_seq [OF s(2) s(3) [rule_format]]
    have "utf8_ok (u @ t)" using 1 s step [of u] by simp
    with s step [of "u @ t"] show ?thesis by simp
  qed (simp add: "1.prems")
qed

lemma sanitize_nonempty: "s \<noteq> [] \<Longrightarrow> sanitize s \<noteq> []"
  by (cases s; cases "utf8_seq s") (auto simp: sanitize_step BAD_UTF8_def)

section \<open>Properties\<close>

text \<open>
  C33: A shell argument cannot break out of its quotes.  What \<open>sb_append_shell_arg\<close> appends to a
  command, followed by a blank and any text at all, is read by the shell as exactly one word, the
  original argument, and the reading stops at the blank.
\<close>

theorem shell_arg_is_one_word:
  assumes "strbuf_ok sb"
  shows "sh_word Plain (drop (length (sb_str sb)) (sb_str (sb_append_shell_arg sb (Some s)))
           @ CHR '' '' # rest) = Some (s, CHR '' '' # rest)"
proof -
  have "\<not> sh_plain (CHR '' '')" "CHR '' '' \<noteq> SQUOTE" "CHR '' '' \<noteq> BSLASH"
    by (simp_all add: sh_plain_def char_defs isdigit_def isupper_def islower_def ord_def)
  then have "sh_word Plain (shell_quote s @ CHR '' '' # rest) = Some (s, CHR '' '' # rest)"
    using sh_word_quoted [of s "CHR '' '' # rest"] by (simp add: shell_quote_def)
  with assms show ?thesis by simp
qed

lemma shell_arg_is_one_word_witness:
  "sh_word Plain (drop (length (sb_str (sb_append sb_init (Some ''rm '')))) (sb_str
       (sb_append_shell_arg (sb_append sb_init (Some ''rm '')) (Some (SQUOTE # ''; ls''))))
     @ CHR '' '' # ''x'') = Some (SQUOTE # ''; ls'', '' x'')"
  by (rule shell_arg_is_one_word [of "sb_append sb_init (Some ''rm '')" "SQUOTE # ''; ls''" "''x''"]) simp

text \<open>
  C39: What \<open>util_sanitize_utf8\<close> returns for a non-empty string is a sequence of well-formed
  UTF-8 units, at most six times as long as the input, and a well-formed input comes back
  unchanged.  Only for the empty string is the buffer returned without ever being terminated.
\<close>

theorem sanitize_wellformed:
  "case util_sanitize_utf8 (Some s) of
     None \<Rightarrow> s = []
   | Some t \<Rightarrow> utf8_ok t \<and> length t \<le> 6 * length s \<and> (utf8_ok s \<longrightarrow> t = s)"
proof -
  let ?e = "sb_ensure sb_init (length s * 6 + 1)"
  have e: "strbuf_ok ?e" "sb_str ?e = []" "sb_term ?e = False" "sb_data ?e = Some []"
    using sb_ensure_facts [of sb_init "length s * 6 + 1"]
    by (simp, simp_all add: sb_ensure_def sb_init_def sb_str_def)
  from sanitize_loop_str [OF e(1), of s] e(2)
  have r: "strbuf_ok (sanitize_loop ?e s)" "sb_str (sanitize_loop ?e s) = sanitize s" by simp_all
  show ?thesis
  proof (cases "sb_term (sanitize_loop ?e s)")
    case True
    have "sb_data (sanitize_loop ?e s) = Some (sanitize s) \<or> sb_data (sanitize_loop ?e s) = None"
      using r(2) by (cases "sb_data (sanitize_loop ?e s)") (auto simp: sb_str_def)
    moreover have "sanitize s = [] \<Longrightarrow> s = []"
      using sanitize_nonempty [of s] by blast
    ultimately show ?thesis
      using True utf8_ok_sanitize [of s] sanitize_length [of s] sanitize_id [of s] r(2)
      by (auto simp: util_sanitize_utf8_def Let_def sb_str_def)
  next
    case False
    then have "sb_len (sanitize_loop ?e s) = 0" using r(1) by (auto simp: strbuf_ok_def)
    then have "sanitize s = []" using sb_len_str [OF r(1)] r(2) by simp
    then have "s = []" using sanitize_nonempty [of s] by blast
    with False show ?thesis by (simp add: util_sanitize_utf8_def Let_def)
  qed
qed

lemma sanitize_wellformed_witness:
  "case util_sanitize_utf8 (Some [CHR ''a'', CHR 0xC3, CHR 0xA9, CHR 0xFF]) of
     None \<Rightarrow> False | Some t \<Rightarrow> utf8_ok t \<and> length t \<le> 24"
  using sanitize_wellformed [of "[CHR ''a'', CHR 0xC3, CHR 0xA9, CHR 0xFF]"]
  by (simp split: option.splits)

end
