(* ===== verification/CText.thy ===== *)
theory CText
  imports CUtil
begin

unbundle bit_operations_syntax

text \<open>
  The rest of c/util.c: truncation that does not cut a UTF-8 character, trimming, path joining,
  sizes with a k/m/g suffix, base64.
\<close>

section \<open>UTF-8 counting and truncation\<close>

fun utf8_count_loop :: "string \<Rightarrow> int \<Rightarrow> int" where
  "utf8_count_loop [] count = count"
| "utf8_count_loop (c # s) count = utf8_count_loop s (if is_cont c then count else count + 1)"

definition util_utf8_char_count :: "string \<Rightarrow> int" where
  "util_utf8_char_count s = utf8_count_loop s 0"

lemma utf8_count_loop_eq: "utf8_count_loop s k = k + int (length (filter (\<lambda>c. \<not> is_cont c) s))"
  by (induction s arbitrary: k) auto

lemma util_utf8_char_count_eq:
  "util_utf8_char_count s = int (length (filter (\<lambda>c. \<not> is_cont c) s))"
  by (simp add: util_utf8_char_count_def utf8_count_loop_eq)

text \<open>\<open>s[max_bytes]\<close> is read only when the string is longer than \<open>max_bytes\<close>.\<close>

fun utf8_back :: "string \<Rightarrow> nat \<Rightarrow> nat" where
  "utf8_back s 0 = 0"
| "utf8_back s (Suc n) = (if is_cont (s ! Suc n) then utf8_back s n else Suc n)"

definition util_utf8_truncate_len :: "string \<Rightarrow> nat \<Rightarrow> nat" where
  "util_utf8_truncate_len s max_bytes =
     (if length s \<le> max_bytes then length s else utf8_back s max_bytes)"

lemma utf8_back_le: "utf8_back s n \<le> n"
  by (induction n) auto

lemma utf8_back_boundary: "utf8_back s n = 0 \<or> \<not> is_cont (s ! utf8_back s n)"
  by (induction n) auto

lemma utf8_truncate_len_le:
  "util_utf8_truncate_len s n \<le> n" "util_utf8_truncate_len s n \<le> length s"
  using utf8_back_le [of s n] by (auto simp: util_utf8_truncate_len_def)

lemma cont_is_cont: "cont c = is_cont c"
  by (auto simp: cont_def is_cont_iff)

lemma utf8_prefix:
  "utf8_ok s \<Longrightarrow> m = length s \<or> (m < length s \<and> (m = 0 \<or> \<not> is_cont (s ! m))) \<Longrightarrow>
     utf8_ok (take m s)"
proof (induction s arbitrary: m rule: length_induct)
  case (1 s)
  show ?case
  proof (cases s)
    case (Cons b p)
    with "1.prems"(1) obtain n where n: "utf8_seq s = Suc n"
      by (cases "utf8_seq s") (auto simp: utf8_ok.simps [of "b # p"])
    from utf8_seq_pos [OF n] obtain b' q t where
      s: "s = b' # q @ t" "length q = n" "list_all cont q" "\<forall>u. utf8_seq (b' # q @ u) = Suc n"
      by blast
    have t: "utf8_ok t"
      using "1.prems"(1) utf8_ok_cons_seq [OF s(2) s(4) [rule_format, of t]] s(1) by simp
    show ?thesis
    proof (cases "m \<le> n")
      case True
      have "m = 0"
      proof (rule ccontr)
        assume "m \<noteq> 0"
        then obtain k where k: "m = Suc k" by (cases m) auto
        then have "s ! m = q ! k" and "k < length q" using True s by (auto simp: nth_append)
        then have "is_cont (s ! m)" using s(3) by (auto simp: list_all_length cont_is_cont)
        with \<open>m \<noteq> 0\<close> "1.prems"(2) have "m = length s" by auto
        with True s show False by simp
      qed
      then show ?thesis by simp
    next
      case False
      then obtain k where k: "m = Suc n + k" by (metis Suc_leI add_Suc_right add_Suc less_iff_Suc_add not_le)
      have "take m s = b' # q @ take k t" using s k by simp
      moreover have "utf8_ok (take k t)"
      proof (rule "1.IH" [rule_format])
        show "length t < length s" using s by simp
        show "utf8_ok t" by (rule t)
        show "k = length t \<or> (k < length t \<and> (k = 0 \<or> \<not> is_cont (t ! k)))"
          using "1.prems"(2) s k by (auto simp: nth_append)
      qed
      ultimately show ?thesis using utf8_ok_cons_seq [OF s(2) s(4) [rule_format, of "take k t"]] by simp
    qed
  qed simp
qed

text \<open>
  \<open>util_truncate_str\<close> and \<open>util_truncate_chars\<close> write the dots in place; \<open>None\<close> is a write
  past the bytes of the string and its NUL.
\<close>

definition put_dots :: "string \<Rightarrow> nat \<Rightarrow> string option" where
  "put_dots s at = (if at + 3 \<le> length s then Some (take at s @ ''...'') else None)"

definition util_truncate_str :: "string \<Rightarrow> nat \<Rightarrow> string option" where
  "util_truncate_str s max_total =
     (if length s \<le> max_total then Some s
      else put_dots s (util_utf8_truncate_len s (if 3 \<le> max_total then max_total - 3 else 0)))"

fun chars_pos :: "string \<Rightarrow> int \<Rightarrow> int \<Rightarrow> nat" where
  "chars_pos [] n target = 0"
| "chars_pos (c # p) n target =
     (if n < target then Suc (chars_pos p (if is_cont c then n else n + 1) target) else 0)"

definition util_truncate_chars :: "string \<Rightarrow> int \<Rightarrow> string option" where
  "util_truncate_chars s max_chars =
     (if util_utf8_char_count s \<le> max_chars then Some s
      else put_dots s (chars_pos s 0 (if 3 \<le> max_chars then max_chars - 3 else 0)))"

section \<open>Trimming and paths\<close>

definition is_trim :: "char \<Rightarrow> bool" where
  "is_trim c \<longleftrightarrow> c = LF \<or> c = CR \<or> c = CHR '' '' \<or> c = TAB"

definition util_rtrim :: "string \<Rightarrow> string" where
  "util_rtrim s = rev (dropWhile is_trim (rev s))"

lemma util_rtrim_prefix: "\<exists>t. s = util_rtrim s @ t \<and> list_all is_trim t"
proof -
  have "rev s = takeWhile is_trim (rev s) @ dropWhile is_trim (rev s)" by simp
  then have "s = util_rtrim s @ rev (takeWhile is_trim (rev s))"
    unfolding util_rtrim_def by (metis rev_append rev_rev_ident)
  moreover have "list_all is_trim (rev (takeWhile is_trim (rev s)))"
    by (auto simp: list_all_iff dest: set_takeWhileD)
  ultimately show ?thesis by blast
qed

definition util_path_join :: "string \<Rightarrow> string \<Rightarrow> string" where
  "util_path_join a b =
     (let b' = dropWhile (\<lambda>c. c = CHR ''/'') b
      in (if a \<noteq> [] \<and> last a \<noteq> CHR ''/'' then a @ ''/'' else a) @ b')"

section \<open>Sizes\<close>

text \<open>\<open>strtol(s, &endp, 10)\<close>: the value, saturated to 64 bits, and the suffix \<open>endp\<close>
  (\<open>None\<close> when there is no digit, where \<open>endp == s\<close>).\<close>

definition LONG_MAX :: int where "LONG_MAX = 2 ^ 63 - 1"

definition sat64 :: "int \<Rightarrow> int" where
  "sat64 x = (if LONG_MAX < x then LONG_MAX else if x < - LONG_MAX - 1 then - LONG_MAX - 1 else x)"

definition strtol10 :: "string \<Rightarrow> (int \<times> string) option" where
  "strtol10 s =
     (let t = dropWhile isspace s;
          neg = (t \<noteq> [] \<and> hd t = CHR ''-'');
          u = (if t \<noteq> [] \<and> (hd t = CHR ''-'' \<or> hd t = CHR ''+'') then tl t else t);
          ds = takeWhile isdigit u
      in if ds = [] then None
         else Some (sat64 (if neg then - int (dec_value ds) else int (dec_value ds)),
                    dropWhile isdigit u))"

text \<open>A value stored in a \<open>long\<close>.\<close>

definition s64 :: "int \<Rightarrow> int" where
  "s64 x = (x + 2 ^ 63) mod 2 ^ 64 - 2 ^ 63"

lemma s64_id [cint_simps]: "- (2 ^ 63) \<le> x \<Longrightarrow> x < 2 ^ 63 \<Longrightarrow> s64 x = x"
  by (simp add: s64_def)

definition size_suffix :: "int \<Rightarrow> string \<Rightarrow> int \<times> string" where
  "size_suffix val endp =
     (case endp of
        [] \<Rightarrow> (val, endp)
      | c # r \<Rightarrow>
          if c = CHR ''k'' \<or> c = CHR ''K'' then (s64 (val * 1000), r)
          else if c = CHR ''m'' \<or> c = CHR ''M'' then (s64 (val * 1000000), r)
          else if c = CHR ''g'' \<or> c = CHR ''G'' then (s64 (val * 1000000000), r)
          else (val, endp))"

definition util_parse_size :: "string option \<Rightarrow> int" where
  "util_parse_size s =
     (case s of
        None \<Rightarrow> - 1
      | Some t \<Rightarrow>
          if t = [] then - 1
          else case strtol10 t of
            None \<Rightarrow> - 1
          | Some (val, endp) \<Rightarrow>
              if val \<le> 0 then - 1
              else let (val', endp') = size_suffix val endp
                   in if endp' = [] then val' else - 1)"

lemma strtol10_dec:
  assumes "\<forall>c \<in> set (take 1 r). \<not> isdigit c"
  shows "strtol10 (nat_dec n @ r) = Some (sat64 (int n), r)"
proof -
  obtain d t where nd: "nat_dec n = d # t" by (cases "nat_dec n") auto
  have "isdigit d" using nat_dec_digits [of n] nd by simp
  then have sp: "\<not> isspace d" "d \<noteq> CHR ''-''" "d \<noteq> CHR ''+''"
    by (auto simp: isdigit_def isspace_def ord_def)
  have tw: "takeWhile isdigit (nat_dec n @ r) = nat_dec n" and
    dw: "dropWhile isdigit (nat_dec n @ r) = r"
    using nat_dec_digits [of n] assms by (cases r; simp add: takeWhile_append dropWhile_append)+
  have dv: "dec_value (d # t) = n" using dec_value_nat_dec [of n] nd by simp
  show ?thesis
    unfolding strtol10_def Let_def using sp tw dw nd dv by simp
qed

section \<open>Base64\<close>

definition b64_tbl :: string where
  "b64_tbl = ''ABCDEFGHIJKLMNOPQRSTUVWXYZabcdefghijklmnopqrstuvwxyz0123456789+/''"

definition b64 :: "nat \<Rightarrow> char" where
  "b64 v = b64_tbl ! (v AND 63)"

fun util_base64_encode :: "string \<Rightarrow> string" where
  "util_base64_encode (a # b # c # s) =
     (let v = push_bit 16 (ord a) OR push_bit 8 (ord b) OR ord c
      in b64 (drop_bit 18 v) # b64 (drop_bit 12 v) # b64 (drop_bit 6 v) # b64 v
         # util_base64_encode s)"
| "util_base64_encode [a] =
     (let v = push_bit 16 (ord a)
      in [b64 (drop_bit 18 v), b64 (drop_bit 12 v), CHR ''='', CHR ''=''])"
| "util_base64_encode [a, b] =
     (let v = push_bit 16 (ord a) OR push_bit 8 (ord b)
      in [b64 (drop_bit 18 v), b64 (drop_bit 12 v), b64 (drop_bit 6 v), CHR ''=''])"
| "util_base64_encode [] = []"

text \<open>The standard decoder, as a specification to compare with.\<close>

definition b64_val :: "char \<Rightarrow> nat option" where
  "b64_val c =
     (if isupper c then Some (ord c - 65)
      else if islower c then Some (ord c - 71)
      else if isdigit c then Some (ord c + 4)
      else if c = CHR ''+'' then Some 62
      else if c = CHR ''/'' then Some 63
      else None)"

fun b64_decode :: "string \<Rightarrow> string option" where
  "b64_decode [] = Some []"
| "b64_decode (p # q # r # t # s) =
     (case (b64_val p, b64_val q) of
        (Some a, Some b) \<Rightarrow>
          (if r = CHR ''='' then
             (if t = CHR ''='' \<and> s = [] then Some [char_of (a * 4 + b div 16)] else None)
           else case b64_val r of
             None \<Rightarrow> None
           | Some c \<Rightarrow>
               if t = CHR ''='' then
                 (if s = [] then Some [char_of (a * 4 + b div 16), char_of (b mod 16 * 16 + c div 4)]
                  else None)
               else case b64_val t of
                 None \<Rightarrow> None
               | Some d \<Rightarrow>
                   map_option (\<lambda>u. char_of (a * 4 + b div 16) # char_of (b mod 16 * 16 + c div 4)
                                  # char_of (c mod 4 * 64 + d) # u) (b64_decode s))
      | _ \<Rightarrow> None)"
| "b64_decode _ = None"

lemma b64_tbl_vals: "map b64_val b64_tbl = map Some [0..<64]"
  by (simp add: b64_tbl_def b64_val_def isupper_def islower_def isdigit_def ord_def upt_conv_Cons)

lemma b64_val_tbl:
  assumes "v < 64"
  shows "b64_val (b64_tbl ! v) = Some v"
proof -
  have "length b64_tbl = 64" by (simp add: b64_tbl_def)
  then have "b64_val (b64_tbl ! v) = map b64_val b64_tbl ! v" using assms by simp
  also have "\<dots> = Some v" using assms by (simp add: b64_tbl_vals)
  finally show ?thesis .
qed

lemma b64_val_b64 [simp]: "b64_val (b64 v) = Some (v mod 64)"
proof -
  have "v AND 63 = v mod 64"
    using take_bit_eq_mask [of 6 v] by (simp add: take_bit_eq_mod mask_eq_exp_minus_1)
  then show ?thesis by (simp add: b64_def b64_val_tbl)
qed

lemma b64_not_pad [simp]: "b64 v \<noteq> CHR ''=''"
proof
  assume "b64 v = CHR ''=''"
  then have "b64_val (CHR ''='') = Some (v mod 64)" using b64_val_b64 [of v] by simp
  moreover have "b64_val (CHR ''='') = None"
    by (simp add: b64_val_def isupper_def islower_def isdigit_def ord_def)
  ultimately show False by simp
qed

lemma or_disj_add:
  fixes x y :: nat
  assumes "y < 2 ^ n"
  shows "push_bit n x OR y = x * 2 ^ n + y"
proof -
  have "push_bit n x AND y = 0"
  proof (rule bit_eqI)
    fix k
    have "\<not> bit y k" if "n \<le> k"
    proof -
      have "y < 2 ^ k" using assms that by (meson less_le_trans one_le_numeral power_increasing)
      then show ?thesis by (simp add: bit_iff_odd)
    qed
    then show "bit (push_bit n x AND y) k = bit 0 k" by (auto simp: bit_simps)
  qed
  then show ?thesis by (simp add: disjunctive_add_eq_or [symmetric] push_bit_eq_mult)
qed

lemma b64_triple:
  assumes "x < 256" "y < 256" "z < (256::nat)"
  shows "push_bit 16 x OR push_bit 8 y OR z = x * 65536 + y * 256 + z"
proof -
  have "push_bit 8 y OR z = y * 256 + z" using or_disj_add [of z 8 y] assms by simp
  moreover have "y * 256 + z < 2 ^ 16" using assms by simp
  ultimately show ?thesis
    using or_disj_add [of "y * 256 + z" 16 x] by (simp add: or.assoc)
qed

lemma mod_64_add: "r < 64 \<Longrightarrow> (64 * k + r) mod 64 = (r::nat)"
  by simp

lemma b64_group:
  assumes "x < 256" "y < 256" "z < (256::nat)" "v = x * 65536 + y * 256 + z"
  shows "drop_bit 18 v mod 64 * 4 + drop_bit 12 v mod 64 div 16 = x"
    "drop_bit 12 v mod 64 mod 16 * 16 + drop_bit 6 v mod 64 div 4 = y"
    "drop_bit 6 v mod 64 mod 4 * 64 + v mod 64 = z"
proof -
  define xh xl yh yl zh zl where p: "xh = x div 4" "xl = x mod 4" "yh = y div 16" "yl = y mod 16"
    "zh = z div 64" "zl = z mod 64"
  have x: "x = 4 * xh + xl" "xl < 4" "xh < 64" and y: "y = 16 * yh + yl" "yl < 16" "yh < 16"
    and z: "z = 64 * zh + zl" "zl < 64" "zh < 4"
    using assms(1-3) by (simp_all add: p less_mult_imp_div_less)
  have "drop_bit 18 v = x div 4" using assms by (simp add: drop_bit_eq_div)
  then have "drop_bit 18 v = xh" by (simp only: p(1))
  then have d1: "drop_bit 18 v mod 64 = xh" using x(3) by simp
  have "drop_bit 12 v = x * 16 + y div 16" using assms by (simp add: drop_bit_eq_div)
  then have "drop_bit 12 v = x * 16 + yh" by (simp only: p(3))
  then have "drop_bit 12 v = 64 * xh + (16 * xl + yh)" using x(1) by linarith
  then have d2: "drop_bit 12 v mod 64 = 16 * xl + yh" using x(2) y(3) mod_64_add by simp
  have "drop_bit 6 v = x * 1024 + y * 4 + z div 64" using assms by (simp add: drop_bit_eq_div)
  then have "drop_bit 6 v = x * 1024 + y * 4 + zh" by (simp only: p(5))
  then have "drop_bit 6 v = 64 * (16 * x + yh) + (4 * yl + zh)" using y(1) by simp
  then have "drop_bit 6 v mod 64 = (64 * (16 * x + yh) + (4 * yl + zh)) mod 64"
    by (rule arg_cong)
  also have "\<dots> = 4 * yl + zh" by (rule mod_64_add) (use y(2) z(3) in linarith)
  finally have d3: "drop_bit 6 v mod 64 = 4 * yl + zh" .
  have "v = 64 * (x * 1024 + y * 4 + zh) + zl" using assms(4) z(1) by simp
  then have "v mod 64 = (64 * (x * 1024 + y * 4 + zh) + zl) mod 64" by (rule arg_cong)
  also have "\<dots> = zl" by (rule mod_64_add) (rule z(2))
  finally have d4: "v mod 64 = zl" .
  show "drop_bit 18 v mod 64 * 4 + drop_bit 12 v mod 64 div 16 = x"
    unfolding d1 d2 using x(1) y(3) by simp
  show "drop_bit 12 v mod 64 mod 16 * 16 + drop_bit 6 v mod 64 div 4 = y"
    unfolding d2 d3 using y z(3) by simp
  show "drop_bit 6 v mod 64 mod 4 * 64 + v mod 64 = z"
    unfolding d3 d4 using z(1,3) by simp
qed

lemma b64_decode_encode: "b64_decode (util_base64_encode s) = Some s"
proof (induction s rule: util_base64_encode.induct)
  case (1 a b c s)
  let ?v = "push_bit 16 (ord a) OR push_bit 8 (ord b) OR ord c"
  have v: "?v = ord a * 65536 + ord b * 256 + ord c"
    by (rule b64_triple) simp_all
  have g: "drop_bit 18 ?v mod 64 * 4 + drop_bit 12 ?v mod 64 div 16 = ord a"
    "drop_bit 12 ?v mod 64 mod 16 * 16 + drop_bit 6 ?v mod 64 div 4 = ord b"
    "drop_bit 6 ?v mod 64 mod 4 * 64 + ?v mod 64 = ord c"
    using b64_group [OF _ _ _ v] by simp_all
  from 1 show ?case
    by (simp only: util_base64_encode.simps Let_def b64_decode.simps b64_val_b64 option.case
        prod.case b64_not_pad if_False g char_of_ord) simp
next
  case (2 a)
  have v: "push_bit 16 (ord a) = ord a * 65536 + 0 * 256 + 0" by (simp add: push_bit_eq_mult)
  show ?case
    using b64_group(1) [OF _ _ _ v] by (simp add: Let_def)
next
  case (3 a b)
  have v: "push_bit 16 (ord a) OR push_bit 8 (ord b) = ord a * 65536 + ord b * 256 + 0"
    using b64_triple [of "ord a" "ord b" 0] by simp
  show ?case
    using b64_group(1,2) [OF _ _ _ v] by (simp add: Let_def)
qed simp

lemma length_base64: "length (util_base64_encode s) = (length s + 2) div 3 * 4"
proof (induction s rule: util_base64_encode.induct)
  case (1 a b c s)
  have "length (a # b # c # s) + 2 = 3 * 1 + (length s + 2)" by simp
  then have "(length (a # b # c # s) + 2) div 3 = 1 + (length s + 2) div 3"
    by (simp only: div_mult_self4)
  with 1 show ?case by (simp only: util_base64_encode.simps Let_def list.size) simp
qed (simp_all add: Let_def)

section \<open>Properties\<close>

text \<open>
  C40: Shortening a well-formed UTF-8 string to at least three bytes never writes outside the
  string, gives a string of at most that many bytes, and does not cut a character in two.
\<close>

theorem truncate_str_bounded:
  assumes "utf8_ok s" "3 \<le> n"
  shows "\<exists>t. util_truncate_str s n = Some t \<and> length t \<le> n \<and> utf8_ok t"
proof (cases "length s \<le> n")
  case True
  with assms show ?thesis by (simp add: util_truncate_str_def)
next
  case False
  define k where "k = util_utf8_truncate_len s (n - 3)"
  have k: "k = utf8_back s (n - 3)" "k \<le> n - 3"
    using False utf8_back_le [of s "n - 3"] by (simp_all add: k_def util_utf8_truncate_len_def)
  have "utf8_ok (take k s)"
    using utf8_back_boundary [of s "n - 3"] k False assms by (intro utf8_prefix) auto
  then have "utf8_ok (take k s @ ''...'')"
    by (rule utf8_ok_append) (simp add: utf8_ok_ascii [of "''...''" "[]", simplified] ord_def)
  moreover have "k + 3 \<le> length s" "k + 3 \<le> n" using k(2) assms False by linarith+
  ultimately show ?thesis
    using False assms(2) by (simp add: util_truncate_str_def put_dots_def k_def [symmetric])
qed

lemma truncate_str_bounded_witness:
  "\<exists>t. util_truncate_str ''hello world'' 8 = Some t \<and> length t \<le> 8 \<and> utf8_ok t"
  by (rule truncate_str_bounded)
     (simp_all add: utf8_ok_ascii [of "''hello world''" "[]", simplified] ord_def)

text \<open>
  Base64: the standard decoder reads back every byte string \<open>util_base64_encode\<close> writes, and
  the text has the length of the padded encoding.
\<close>

lemma base64_roundtrip:
  "b64_decode (util_base64_encode s) = Some s
   \<and> length (util_base64_encode s) = (length s + 2) div 3 * 4"
  by (simp add: b64_decode_encode length_base64)

text \<open>
  \<open>util_parse_size\<close> reads a positive decimal number with an optional k, m or g suffix (upper
  or lower case) as that many units, for every number whose size fits a \<open>long\<close>, and answers -1
  when anything else follows the number.
\<close>

lemma parse_size_value:
  assumes "0 < n" "int n * 1000000000 < 2 ^ 63"
  shows "util_parse_size (Some (nat_dec n)) = int n
    \<and> (c \<in> {CHR ''k'', CHR ''K''} \<longrightarrow> util_parse_size (Some (nat_dec n @ [c])) = int n * 1000)
    \<and> (c \<in> {CHR ''m'', CHR ''M''} \<longrightarrow> util_parse_size (Some (nat_dec n @ [c])) = int n * 1000000)
    \<and> (c \<in> {CHR ''g'', CHR ''G''} \<longrightarrow> util_parse_size (Some (nat_dec n @ [c])) = int n * 1000000000)
    \<and> (\<not> isdigit c \<and> c \<notin> set ''kKmMgG'' \<longrightarrow> util_parse_size (Some (nat_dec n @ c # r)) = - 1)
    \<and> (c \<in> set ''kKmMgG'' \<and> r \<noteq> [] \<longrightarrow> util_parse_size (Some (nat_dec n @ c # r)) = - 1)"
proof -
  have sat: "sat64 (int n) = int n" using assms by (simp add: sat64_def LONG_MAX_def)
  have num: "strtol10 (nat_dec n @ u) = Some (int n, u)" if "\<forall>c \<in> set (take 1 u). \<not> isdigit c" for u
    using strtol10_dec [OF that, of n] sat by simp
  have parse: "util_parse_size (Some (nat_dec n @ u)) =
      (let (val', endp') = size_suffix (int n) u in if endp' = [] then val' else - 1)"
    if "\<forall>c \<in> set (take 1 u). \<not> isdigit c" for u
    using num [OF that] assms by (simp add: util_parse_size_def)
  have nd: "\<not> isdigit c" if "c \<in> set ''kKmMgG''"
    using that by (auto simp: isdigit_def ord_def)
  have ids: "s64 (int n * 1000) = int n * 1000" "s64 (int n * 1000000) = int n * 1000000"
    "s64 (int n * 1000000000) = int n * 1000000000"
    using assms by (simp_all add: s64_id)
  show ?thesis
    using parse [of "[]"] parse [of "[c]"] parse [of "c # r"] nd ids
    by (auto simp: size_suffix_def)
qed

lemma parse_size_value_witness:
  "util_parse_size (Some ''256k'') = 256000"
proof -
  have "nat_dec 256 = ''256''" by code_simp
  with parse_size_value [of 256 "CHR ''k''" "[]"] show ?thesis by simp
qed

text \<open>A text of \<open>k\<close> two-byte characters.\<close>

definition e_acute :: string where
  "e_acute = [CHR 0xC3, CHR 0xA9]"

definition e_text :: "nat \<Rightarrow> string" where
  "e_text k = concat (replicate k e_acute)"

lemma e_text_simps [simp]: "e_text 0 = []" "e_text (Suc k) = CHR 0xC3 # CHR 0xA9 # e_text k"
  by (simp_all add: e_text_def e_acute_def)

lemma e_cont [simp]: "\<not> is_cont (CHR 0xC3)" "is_cont (CHR 0xA9)" "cont (CHR 0xA9)" "\<not> cont (CHR ''.'')"
  by (simp_all add: is_cont_iff cont_def ord_def)

lemma e_seq: "utf8_seq (CHR 0xC3 # CHR 0xA9 # t) = 2" "utf8_seq (CHR 0xC3 # CHR ''.'' # t) = 0"
  by (simp_all add: utf8_seq.simps(2) ord_def cont_def)

lemma e_text_ok: "utf8_ok (e_text k @ t) = utf8_ok t"
  by (induction k) (simp_all add: utf8_ok.simps [of "CHR 0xC3 # u" for u] e_seq)

lemma e_text_count: "util_utf8_char_count (e_text k) = int k"
  by (induction k) (simp_all add: util_utf8_char_count_eq)

lemma chars_pos_e_text: "0 < d \<Longrightarrow> d \<le> k \<Longrightarrow> chars_pos (e_text k) n (n + int d) = 2 * d - 1"
proof (induction k arbitrary: d n)
  case (Suc k)
  show ?case
  proof (cases "d = 1")
    case False
    then obtain e where e: "d = Suc e" "0 < e" using Suc.prems by (cases d) auto
    have "chars_pos (e_text k) (n + 1) (n + 1 + int e) = 2 * e - 1"
      using Suc e by simp
    with e show ?thesis by (simp add: add.assoc)
  qed simp
qed simp

text \<open>
  \<open>util_truncate_chars\<close> cuts a character in two.  It stops right after the first byte of the
  last character it keeps, so on a text of two-byte characters longer than the limit the result
  ends, before the dots, with a lone lead byte: well-formed UTF-8 in, broken UTF-8 out.
\<close>

lemma truncate_chars_cuts:
  assumes "4 \<le> m" "m < k"
  shows "util_truncate_chars (e_text k) (int m) = Some (take (2 * (m - 3) - 1) (e_text k) @ ''...'')
    \<and> utf8_ok (e_text k) \<and> \<not> utf8_ok (take (2 * (m - 3) - 1) (e_text k) @ ''...'')"
proof -
  obtain d where d: "m = Suc d + 3" using assms(1) by (metis add.commute add_Suc le_Suc_ex numeral_eq_Suc pred_numeral_simps(2) semiring_norm(26) semiring_norm(27))
  have pos: "chars_pos (e_text k) 0 (int m - 3) = 2 * d + 1"
    using chars_pos_e_text [of "Suc d" k 0] d assms by simp
  have "length (e_text k) = 2 * k" by (induction k) auto
  then have res: "util_truncate_chars (e_text k) (int m) = Some (take (2 * d + 1) (e_text k) @ ''...'')"
    using assms d pos by (simp add: util_truncate_chars_def e_text_count put_dots_def)
  have "take (2 * d + 1) (e_text k) = e_text d @ [CHR 0xC3]" if "d < k" for d k
    using that
  proof (induction d arbitrary: k)
    case 0
    then show ?case by (cases k) auto
  next
    case (Suc d)
    then obtain j where "k = Suc j" by (cases k) auto
    with Suc show ?case by simp
  qed
  from this [of d k] have tk: "take (2 * d + 1) (e_text k) = e_text d @ [CHR 0xC3]"
    using d assms by simp
  have "\<not> utf8_ok (e_text d @ CHR 0xC3 # ''...'')"
    unfolding e_text_ok by (simp add: utf8_ok.simps [of "CHR 0xC3 # u" for u] e_seq)
  then show ?thesis
    using res tk e_text_ok [of k "[]"] d by simp
qed

lemma truncate_chars_cuts_witness:
  "\<exists>t. util_truncate_chars (e_text 61) 60 = Some t \<and> utf8_ok (e_text 61) \<and> \<not> utf8_ok t"
  using truncate_chars_cuts [of 60 61] by auto

end
