(* ===== verification/CDouble.thy ===== *)
theory CDouble
  imports CText Complex_Main
begin

text \<open>
  Values of C type \<open>double\<close>: a finite double is the rational it denotes, \<open>fl\<close> rounds an exact
  result to the nearest double (ties to even, 53 bits of precision, the subnormal spacing at the
  bottom), as the IEEE 754 operations and \<open>strtod\<close> do.  Overflow to infinity is not modelled:
  the values computed by the program are far below 2^1023.
\<close>

fun nat_bits :: "nat \<Rightarrow> nat" where
  "nat_bits n = (if n = 0 then 0 else Suc (nat_bits (n div 2)))"

declare nat_bits.simps [simp del]

lemma nat_bits_0 [simp]: "nat_bits 0 = 0"
  by (simp add: nat_bits.simps)

lemma nat_bits_bounds: "0 < n \<Longrightarrow> 2 ^ (nat_bits n - 1) \<le> n \<and> n < 2 ^ nat_bits n"
proof (induction n rule: nat_bits.induct)
  case (1 n)
  show ?case
  proof (cases "n div 2 = 0")
    case True
    with 1 have "n = 1" by linarith
    then show ?thesis by (simp add: nat_bits.simps)
  next
    case False
    with 1 have IH: "2 ^ (nat_bits (n div 2) - 1) \<le> n div 2" "n div 2 < 2 ^ nat_bits (n div 2)" by auto
    from False obtain k where k: "nat_bits (n div 2) = Suc k"
      by (cases "nat_bits (n div 2)") (auto simp: nat_bits.simps [of "n div 2"])
    have "nat_bits n = Suc (Suc k)" using 1 k by (simp add: nat_bits.simps [of n])
    moreover define p :: nat where "p = 2 ^ k"
    ultimately have "p \<le> n div 2" "n div 2 < 2 * p" "2 ^ (nat_bits n - 1) = 2 * p" "2 ^ nat_bits n = 4 * p"
      using IH k by simp_all
    then show ?thesis by linarith
  qed
qed

definition pow2 :: "int \<Rightarrow> rat" where
  "pow2 e = (if 0 \<le> e then 2 ^ nat e else 1 / 2 ^ nat (- e))"

text \<open>The binary exponent: \<open>pow2 (bin_exp x - 1) \<le> \<bar>x\<bar> < pow2 (bin_exp x)\<close>.\<close>

definition bin_exp :: "rat \<Rightarrow> int" where
  "bin_exp x =
     (let (a, b) = quotient_of \<bar>x\<bar>;
          e = int (nat_bits (nat a)) - int (nat_bits (nat b))
      in if \<bar>x\<bar> < pow2 e then e else e + 1)"

definition round_even :: "rat \<Rightarrow> int" where
  "round_even x =
     (let f = \<lfloor>x\<rfloor>; d = x - of_int f
      in if d < 1 / 2 then f else if 1 / 2 < d then f + 1 else if even f then f else f + 1)"

definition fl :: "rat \<Rightarrow> rat" where
  "fl x =
     (if x = 0 then 0
      else let u = pow2 (max (bin_exp x - 53) (- 1074))
           in of_int (round_even (x / u)) * u)"

lemma round_even_int [simp]: "round_even (of_int i) = i"
  by (simp add: round_even_def)

lemma bin_exp_int:
  assumes "i \<noteq> 0"
  shows "bin_exp (of_int i) = int (nat_bits (nat \<bar>i\<bar>))"
proof -
  have q: "quotient_of \<bar>of_int i :: rat\<bar> = (\<bar>i\<bar>, 1)"
    using quotient_of_int [of "\<bar>i\<bar>"] by (simp add: of_int_def)
  have one: "nat_bits 1 = 1" by (simp add: nat_bits.simps)
  let ?n = "nat \<bar>i\<bar>"
  have b: "2 ^ (nat_bits ?n - 1) \<le> ?n" using nat_bits_bounds [of ?n] assms by simp
  have pos: "0 < nat_bits ?n" using assms by (subst nat_bits.simps) simp
  have "pow2 (int (nat_bits ?n) - 1) = 2 ^ (nat_bits ?n - 1)"
    using pos by (simp add: pow2_def nat_diff_distrib)
  moreover have "(2 :: rat) ^ (nat_bits ?n - 1) \<le> \<bar>of_int i\<bar>"
  proof -
    have "int (2 ^ (nat_bits ?n - 1)) \<le> \<bar>i\<bar>" using b by linarith
    then have "(of_int (int (2 ^ (nat_bits ?n - 1))) :: rat) \<le> of_int \<bar>i\<bar>" by (simp only: of_int_le_iff)
    then show ?thesis by simp
  qed
  ultimately show ?thesis using q one by (simp add: bin_exp_def Let_def)
qed

lemma fl_0 [simp]: "fl 0 = 0"
  by (simp add: fl_def)

text \<open>Integers up to 53 bits are doubles.\<close>

lemma fl_int:
  assumes "\<bar>i\<bar> < 2 ^ 53"
  shows "fl (of_int i) = of_int i"
proof (cases "i = 0")
  case False
  let ?n = "nat \<bar>i\<bar>" and ?b = "nat_bits (nat \<bar>i\<bar>)"
  have "2 ^ (?b - 1) \<le> ?n" using nat_bits_bounds [of ?n] False by simp
  also have "\<dots> < 2 ^ 53" using assms by (simp add: nat_less_iff)
  finally have "?b - 1 < 53" by (rule power_less_imp_less_exp [rotated]) simp
  then have k: "int ?b - 53 \<le> 0" by linarith
  define u where "u = pow2 (max (int ?b - 53) (- 1074))"
  define e where "e = max (int ?b - 53) (- 1074)"
  define j where "j = nat (- e)"
  have "e \<le> 0" using k by (simp add: e_def)
  then have j: "u = 1 / 2 ^ j"
    by (cases "e = 0") (simp_all add: u_def j_def pow2_def flip: e_def)
  have "of_int i / u = (of_int (i * 2 ^ j) :: rat)" by (simp add: j)
  then have "round_even (of_int i / u) = i * 2 ^ j" by (metis round_even_int)
  moreover have "fl (of_int i) = of_int (round_even (of_int i / u)) * u"
    unfolding fl_def Let_def bin_exp_int [OF False] u_def using False by simp
  ultimately show ?thesis by (simp add: j)
qed simp

section \<open>Reading and converting\<close>

text \<open>
  \<open>strtod\<close> of a decimal text: the sign, digits, an optional fraction, and an exponent when
  digits follow its letter; 0 when there is no digit.
\<close>

definition strtod_exp :: "string \<Rightarrow> int" where
  "strtod_exp s =
     (case s of
        [] \<Rightarrow> 0
      | c # t \<Rightarrow>
          if c = CHR ''e'' \<or> c = CHR ''E'' then
            (let neg = (t \<noteq> [] \<and> hd t = CHR ''-'');
                 u = (if t \<noteq> [] \<and> (hd t = CHR ''-'' \<or> hd t = CHR ''+'') then tl t else t);
                 v = int (dec_value (takeWhile isdigit u))
             in if neg then - v else v)
          else 0)"

definition pow10 :: "int \<Rightarrow> rat" where
  "pow10 e = (if 0 \<le> e then 10 ^ nat e else 1 / 10 ^ nat (- e))"

definition strtod_exact :: "string \<Rightarrow> rat" where
  "strtod_exact s =
     (let neg = (s \<noteq> [] \<and> hd s = CHR ''-'');
          t = (if s \<noteq> [] \<and> (hd s = CHR ''-'' \<or> hd s = CHR ''+'') then tl s else s);
          ip = takeWhile isdigit t;
          r = dropWhile isdigit t;
          fp = (if r \<noteq> [] \<and> hd r = CHR ''.'' then takeWhile isdigit (tl r) else []);
          r2 = (if r \<noteq> [] \<and> hd r = CHR ''.'' then dropWhile isdigit (tl r) else r);
          m = of_nat (dec_value (ip @ fp)) * pow10 (strtod_exp r2 - int (length fp))
      in if neg then - m else m)"

definition strtod :: "string \<Rightarrow> rat" where
  "strtod s = fl (strtod_exact s)"

text \<open>Conversion to \<open>int\<close> truncates; out of range it is what x86-64 gives, the least value.\<close>

definition trunc :: "rat \<Rightarrow> int" where
  "trunc x = (if 0 \<le> x then \<lfloor>x\<rfloor> else - \<lfloor>- x\<rfloor>)"

definition double_to_int :: "rat \<Rightarrow> int" where
  "double_to_int x = (let t = trunc x in if - (2 ^ 31) \<le> t \<and> t < 2 ^ 31 then t else - (2 ^ 31))"

lemma trunc_int [simp]: "trunc (of_int i) = i"
  by (simp add: trunc_def flip: of_int_minus)

lemma strtod_exact_int: "strtod_exact (int_dec i) = of_int i"
proof -
  have tw: "takeWhile isdigit (nat_dec n) = nat_dec n" "dropWhile isdigit (nat_dec n) = []" for n
    using nat_dec_digits [of n] by (simp_all add: takeWhile_eq_all_conv dropWhile_eq_Nil_conv)
  have hd: "hd (nat_dec n) \<noteq> CHR ''-''" "hd (nat_dec n) \<noteq> CHR ''+''" for n
    using nat_dec_digits [of n] nat_dec_nonempty [of n]
    by (cases "nat_dec n"; auto simp: isdigit_def ord_def)+
  show ?thesis
    by (cases "i < 0")
      (simp_all add: strtod_exact_def int_dec_def tw hd Let_def pow10_def strtod_exp_def)
qed

lemma double_to_int_strtod:
  assumes "- (2 ^ 31) \<le> i" "i < 2 ^ 31"
  shows "double_to_int (strtod (int_dec i)) = i"
proof -
  have "\<bar>i\<bar> < 2 ^ 53" using assms by simp
  then show ?thesis
    using assms by (simp add: strtod_def strtod_exact_int fl_int double_to_int_def)
qed

end
