(* ===== verification/JsonParser.thy ===== *)
theory JsonParser
  imports CDouble
begin

text \<open>
  c/json.c: the parser of the zero-copy JSON reader.  A value is a view into the text: its type, the
  text from its first byte on (\<open>src + start\<close>) and its length.  The positions \<open>size_t *pos\<close> are the
  suffixes they point at.  The parser is defined with fuel and shown to have enough of it
  (\<open>parse_enough\<close>), which gives the equations of the code without fuel.  What it accepts is a grammar,
  given as inductive relations; facts about successful parses are shown by rule induction.
\<close>

section \<open>Values and results\<close>

datatype json_type = JSON_NULL | JSON_BOOL | JSON_NUMBER | JSON_STRING | JSON_ARRAY | JSON_OBJECT

record json_val =
  jv_type :: json_type
  jv_src :: string
  jv_len :: nat

definition null_val :: json_val where
  "null_val = \<lparr>jv_type = JSON_NULL, jv_src = [], jv_len = 0\<rparr>"

text \<open>
  A parse ends with a value and the position after it, with an error message, or outside the
  buffer: \<open>JOob\<close> is the read past the terminating NUL that a backslash at the very end of an open
  string causes.  \<open>JFuel\<close> is the fuel of the model running out, which \<open>parse_enough\<close> excludes.
\<close>

datatype jres = JOk json_val string | JErr string | JOob | JFuel

definition is_ws :: "char \<Rightarrow> bool" where
  "is_ws c \<longleftrightarrow> c = CHR '' '' \<or> c = TAB \<or> c = LF \<or> c = CR"

definition skip_ws :: "string \<Rightarrow> string" where
  "skip_ws s = dropWhile is_ws s"

definition make_val :: "json_type \<Rightarrow> string \<Rightarrow> string \<Rightarrow> jres" where
  "make_val ty start rest = JOk \<lparr>jv_type = ty, jv_src = start, jv_len = length start - length rest\<rparr> rest"

section \<open>The parser\<close>

fun scan_string :: "string \<Rightarrow> string \<Rightarrow> jres" where
  "scan_string start [] = JErr ''unclosed string''"
| "scan_string start (c # s) =
     (if c = QUOTE then make_val JSON_STRING start s
      else if c = BSLASH then (case s of [] \<Rightarrow> JOob | d # s' \<Rightarrow> scan_string start s')
      else scan_string start s)"

text \<open>\<open>parse_string\<close> steps over the first byte without looking at it.\<close>

definition parse_string :: "string \<Rightarrow> jres" where
  "parse_string t = (case t of [] \<Rightarrow> JOob | q # s \<Rightarrow> scan_string t s)"

definition skip_digits :: "string \<Rightarrow> string" where
  "skip_digits s = dropWhile isdigit s"

definition num_minus :: "string \<Rightarrow> string" where
  "num_minus t = (case t of [] \<Rightarrow> [] | c # r \<Rightarrow> if c = CHR ''-'' then r else t)"

definition num_frac :: "string \<Rightarrow> string" where
  "num_frac t = (case t of [] \<Rightarrow> [] | c # r \<Rightarrow> if c = CHR ''.'' then skip_digits r else t)"

definition num_sign :: "string \<Rightarrow> string" where
  "num_sign t = (case t of [] \<Rightarrow> [] | c # r \<Rightarrow> if c = CHR ''+'' \<or> c = CHR ''-'' then r else t)"

definition num_exp :: "string \<Rightarrow> string" where
  "num_exp t =
     (case t of [] \<Rightarrow> [] | c # r \<Rightarrow> if c = CHR ''e'' \<or> c = CHR ''E'' then skip_digits (num_sign r) else t)"

definition parse_number :: "string \<Rightarrow> jres" where
  "parse_number t = make_val JSON_NUMBER t (num_exp (num_frac (skip_digits (num_minus t))))"

definition parse_word :: "string \<Rightarrow> json_type \<Rightarrow> string \<Rightarrow> jres" where
  "parse_word w ty t =
     (if starts_with w t then make_val ty t (drop (length w) t)
      else JErr (''expected '' @ SQUOTE # w @ [SQUOTE]))"

definition starts :: "char \<Rightarrow> string \<Rightarrow> bool" where
  "starts c s \<longleftrightarrow> (case s of [] \<Rightarrow> False | d # _ \<Rightarrow> d = c)"

fun parse_f :: "nat \<Rightarrow> string \<Rightarrow> jres"
  and array_f :: "nat \<Rightarrow> string \<Rightarrow> string \<Rightarrow> jres"
  and object_f :: "nat \<Rightarrow> string \<Rightarrow> string \<Rightarrow> jres" where
  "parse_f 0 s = JFuel"
| "parse_f (Suc n) s =
     (let t = skip_ws s in
      case t of
        [] \<Rightarrow> JErr ''unexpected character''
      | c # r \<Rightarrow>
          if c = QUOTE then parse_string t
          else if c = CHR ''{'' then
            (let s1 = skip_ws r in
             if starts (CHR ''}'') s1 then make_val JSON_OBJECT t (tl s1) else object_f n t s1)
          else if c = CHR ''['' then
            (let s1 = skip_ws r in
             if starts (CHR '']'') s1 then make_val JSON_ARRAY t (tl s1) else array_f n t s1)
          else if c = CHR ''t'' then parse_word ''true'' JSON_BOOL t
          else if c = CHR ''f'' then parse_word ''false'' JSON_BOOL t
          else if c = CHR ''n'' then parse_word ''null'' JSON_NULL t
          else if c = CHR ''-'' \<or> isdigit c then parse_number t
          else JErr ''unexpected character'')"
| "array_f 0 start s = JFuel"
| "array_f (Suc n) start s =
     (case parse_f n (skip_ws s) of
        JOk v r \<Rightarrow>
          (let r' = skip_ws r in
           if starts (CHR '','') r' then array_f n start (tl r')
           else if starts (CHR '']'') r' then make_val JSON_ARRAY start (tl r')
           else JErr (''expected '' @ SQUOTE # '','' @ SQUOTE # '' or '' @ SQUOTE # '']'' @ [SQUOTE]))
      | e \<Rightarrow> e)"
| "object_f 0 start s = JFuel"
| "object_f (Suc n) start s =
     (let k = skip_ws s in
      if \<not> starts QUOTE k then JErr ''expected string key''
      else case parse_string k of
        JOk kv r \<Rightarrow>
          (let r1 = skip_ws r in
           if \<not> starts (CHR '':'') r1 then JErr (''expected '' @ SQUOTE # '':'' @ [SQUOTE])
           else case parse_f n (skip_ws (tl r1)) of
             JOk v r2 \<Rightarrow>
               (let r3 = skip_ws r2 in
                if starts (CHR '','') r3 then object_f n start (tl r3)
                else if starts (CHR ''}'') r3 then make_val JSON_OBJECT start (tl r3)
                else JErr (''expected '' @ SQUOTE # '','' @ SQUOTE # '' or '' @ SQUOTE # ''}'' @ [SQUOTE]))
           | e \<Rightarrow> e)
      | e \<Rightarrow> e)"

declare parse_f.simps [simp del] array_f.simps [simp del] object_f.simps [simp del]

lemmas parse_0 [simp] = parse_f.simps(1) array_f.simps(1) object_f.simps(1)
lemmas parse_Suc = parse_f.simps(2) array_f.simps(2) object_f.simps(2)

definition json_parse :: "string \<Rightarrow> jres" where
  "json_parse s = parse_f (2 * length s + 2) s"

definition array_loop :: "string \<Rightarrow> string \<Rightarrow> jres" where
  "array_loop start s = array_f (2 * length s + 3) start s"

definition object_loop :: "string \<Rightarrow> string \<Rightarrow> jres" where
  "object_loop start s = object_f (2 * length s + 3) start s"

definition json_parse_root :: "string option \<Rightarrow> jres" where
  "json_parse_root src =
     (case src of
        None \<Rightarrow> JErr ''null input''
      | Some s \<Rightarrow>
          (case json_parse s of
             JOk v r \<Rightarrow> if skip_ws r = [] then JOk v r else JErr ''trailing content''
           | e \<Rightarrow> e))"

section \<open>Progress and fuel\<close>

lemma skip_ws_le: "length (skip_ws s) \<le> length s"
  by (simp add: skip_ws_def length_dropWhile_le)

lemma skip_ws_le': "length (skip_ws s) \<le> n" if "length s \<le> n"
  using skip_ws_le [of s] that by linarith

lemma skip_digits_le: "length (skip_digits s) \<le> length s"
  by (simp add: skip_digits_def length_dropWhile_le)

lemma make_val_eq [simp]: "make_val ty st r = JOk v q \<longleftrightarrow>
    q = r \<and> v = \<lparr>jv_type = ty, jv_src = st, jv_len = length st - length r\<rparr>"
  "make_val ty st r \<noteq> JFuel" "make_val ty st r \<noteq> JOob" "make_val ty st r \<noteq> JErr e"
  by (auto simp: make_val_def)

lemma starts_Cons: "starts c s \<longleftrightarrow> (\<exists>r. s = c # r)"
  by (auto simp: starts_def split: list.splits)

lemma starts_simps [simp]: "\<not> starts c []" "starts c (d # r) \<longleftrightarrow> d = c"
  by (auto simp: starts_def)

lemma starts_len: "starts c s \<Longrightarrow> Suc (length (tl s)) = length s"
  by (auto simp: starts_Cons)

lemma scan_string_len: "scan_string st s = JOk v r \<Longrightarrow> length r < length s"
  by (induction st s rule: scan_string.induct) (auto split: if_splits list.splits)

lemma scan_string_nofuel: "scan_string st s \<noteq> JFuel"
  by (induction st s rule: scan_string.induct) (auto split: list.splits)

lemma parse_string_len: "parse_string t = JOk v r \<Longrightarrow> length r < length t"
  by (auto simp: parse_string_def split: list.splits dest: scan_string_len)

lemma parse_string_nofuel: "parse_string t \<noteq> JFuel"
  by (auto simp: parse_string_def scan_string_nofuel split: list.splits)

lemma num_le:
  "length (num_frac t) \<le> length t" "length (num_sign t) \<le> length t" "length (num_exp t) \<le> length t"
proof -
  show "length (num_frac t) \<le> length t"
    using skip_digits_le [of "tl t"] by (auto simp: num_frac_def split: list.splits)
  have sg: "length (num_sign u) \<le> length u" for u
    by (auto simp: num_sign_def split: list.splits)
  then show "length (num_sign t) \<le> length t" .
  have "length (skip_digits (num_sign u)) \<le> length u" for u
    using skip_digits_le [of "num_sign u"] sg [of u] by linarith
  from this [of "tl t"] show "length (num_exp t) \<le> length t"
    by (auto simp: num_exp_def split: list.splits)
qed

lemma parse_number_len:
  assumes "parse_number (c # s) = JOk v r" "c = CHR ''-'' \<or> isdigit c"
  shows "length r < length (c # s)"
proof -
  have "length (skip_digits (num_minus (c # s))) \<le> length s"
  proof (cases "c = CHR ''-''")
    case False
    then have "skip_digits (c # s) = skip_digits s" using assms(2) by (simp add: skip_digits_def)
    with False show ?thesis by (simp add: num_minus_def skip_digits_le)
  qed (simp add: num_minus_def skip_digits_le)
  moreover have "length r \<le> length (skip_digits (num_minus (c # s)))"
    using assms(1) num_le(3) [of "num_frac (skip_digits (num_minus (c # s)))"]
      num_le(1) [of "skip_digits (num_minus (c # s))"]
    by (simp add: parse_number_def)
  ultimately show ?thesis by simp
qed

lemma parse_word_len: "parse_word w ty (c # s) = JOk v r \<Longrightarrow> w \<noteq> [] \<Longrightarrow> length r < length (c # s)"
  by (cases w) (auto simp: parse_word_def split: if_splits)

lemma parse_word_nofuel [simp]: "parse_word w ty t \<noteq> JFuel"
  by (simp add: parse_word_def)

lemma parse_number_nofuel [simp]: "parse_number t \<noteq> JFuel"
  by (simp add: parse_number_def)

text \<open>One round of the array and object loops, with the recursive calls as parameters.\<close>

lemma array_f_cases:
  assumes "array_f (Suc n) st s = res"
  obtains (err) "parse_f n (skip_ws s) = res" "\<And>v r. res \<noteq> JOk v r"
  | (more) v r q where "parse_f n (skip_ws s) = JOk v r" "skip_ws r = CHR '','' # q" "array_f n st q = res"
  | (close) v r q where "parse_f n (skip_ws s) = JOk v r" "skip_ws r = CHR '']'' # q" "make_val JSON_ARRAY st q = res"
  | (bad) v r e where "parse_f n (skip_ws s) = JOk v r" "res = JErr e"
proof (cases "parse_f n (skip_ws s)")
  case (JOk v r)
  show ?thesis
  proof (cases "skip_ws r")
    case Nil
    with assms JOk bad show ?thesis by (auto simp: parse_Suc Let_def)
  next
    case (Cons c q)
    with assms JOk show ?thesis
      using more [OF JOk, of q] close [OF JOk, of q] bad [OF JOk] by (auto simp: parse_Suc Let_def split: if_splits)
  qed
qed (use assms in \<open>auto simp: parse_Suc intro: err\<close>)

lemma object_f_cases:
  assumes "object_f (Suc n) st s = res"
  obtains (key) "parse_string (skip_ws s) = res" "\<And>v r. res \<noteq> JOk v r"
  | (err) kv r q where "parse_string (skip_ws s) = JOk kv r" "skip_ws r = CHR '':'' # q"
      "parse_f n (skip_ws q) = res" "\<And>v r. res \<noteq> JOk v r"
  | (more) kv r q v r2 q2 where "parse_string (skip_ws s) = JOk kv r" "skip_ws r = CHR '':'' # q"
      "parse_f n (skip_ws q) = JOk v r2" "skip_ws r2 = CHR '','' # q2" "object_f n st q2 = res"
  | (close) kv r q v r2 q2 where "parse_string (skip_ws s) = JOk kv r" "skip_ws r = CHR '':'' # q"
      "parse_f n (skip_ws q) = JOk v r2" "skip_ws r2 = CHR ''}'' # q2" "make_val JSON_OBJECT st q2 = res"
  | (bad) e where "res = JErr e"
proof (cases "starts QUOTE (skip_ws s)")
  case False
  with assms have "res = JErr ''expected string key''" by (simp add: parse_Suc)
  then show ?thesis by (rule bad)
next
  case True
  show ?thesis
  proof (cases "parse_string (skip_ws s)")
    case (JOk kv r)
    show ?thesis
    proof (cases "starts (CHR '':'') (skip_ws r)")
      case False
      with assms True JOk have "\<exists>e. res = JErr e" by (auto simp: parse_Suc Let_def)
      then show ?thesis by (auto intro: bad)
    next
      case colon: True
      then obtain q where q: "skip_ws r = CHR '':'' # q" by (auto simp: starts_Cons)
      show ?thesis
      proof (cases "parse_f n (skip_ws q)")
        case v: (JOk v r2)
        show ?thesis
          using more [OF JOk q v] close [OF JOk q v] bad assms True JOk q v
          by (cases "skip_ws r2") (auto simp: parse_Suc Let_def split: if_splits)
      qed (use assms True JOk q in \<open>auto simp: parse_Suc Let_def intro: err [OF JOk q]\<close>)
    qed
  qed (use assms True in \<open>auto simp: parse_Suc intro: key\<close>)
qed

lemma parse_f_cases:
  assumes "parse_f (Suc n) s = res"
  obtains (str) t where "skip_ws s = QUOTE # t" "parse_string (QUOTE # t) = res"
  | (obj0) r q where "skip_ws s = CHR ''{'' # r" "skip_ws r = CHR ''}'' # q" "make_val JSON_OBJECT (CHR ''{'' # r) q = res"
  | (obj) r where "skip_ws s = CHR ''{'' # r" "\<not> starts (CHR ''}'') (skip_ws r)" "object_f n (CHR ''{'' # r) (skip_ws r) = res"
  | (arr0) r q where "skip_ws s = CHR ''['' # r" "skip_ws r = CHR '']'' # q" "make_val JSON_ARRAY (CHR ''['' # r) q = res"
  | (arr) r where "skip_ws s = CHR ''['' # r" "\<not> starts (CHR '']'') (skip_ws r)" "array_f n (CHR ''['' # r) (skip_ws r) = res"
  | (word) w ty c r where "skip_ws s = c # r" "w \<noteq> []" "parse_word w ty (c # r) = res" "c \<in> set ''tfn''"
      "(c, w, ty) \<in> {(CHR ''t'', ''true'', JSON_BOOL), (CHR ''f'', ''false'', JSON_BOOL), (CHR ''n'', ''null'', JSON_NULL)}"
  | (num) c r where "skip_ws s = c # r" "c = CHR ''-'' \<or> isdigit c" "parse_number (c # r) = res"
  | (bad) e where "res = JErr e"
proof (cases "skip_ws s")
  case Nil
  with assms have "res = JErr ''unexpected character''" by (simp add: parse_Suc)
  then show ?thesis by (rule bad)
next
  case (Cons c r)
  note dispatch = assms [unfolded parse_Suc Let_def Cons list.case]
  consider "c = QUOTE" | "c = CHR ''{''" | "c = CHR ''[''" | "c = CHR ''t''" | "c = CHR ''f''" | "c = CHR ''n''"
    | "c \<noteq> QUOTE" "c \<noteq> CHR ''{''" "c \<noteq> CHR ''[''" "c \<noteq> CHR ''t''" "c \<noteq> CHR ''f''" "c \<noteq> CHR ''n''"
    by blast
  then show ?thesis
  proof cases
    case 1
    with dispatch Cons str show ?thesis by simp
  next
    case 2
    then have "c \<noteq> QUOTE" by (simp add: QUOTE_def)
    with 2 dispatch Cons obj0 [of r] obj [of r] show ?thesis
      by (cases "starts (CHR ''}'') (skip_ws r)") (auto simp: starts_Cons)
  next
    case 3
    then have "c \<noteq> QUOTE" by (simp add: QUOTE_def)
    with 3 dispatch Cons arr0 [of r] arr [of r] show ?thesis
      by (cases "starts (CHR '']'') (skip_ws r)") (auto simp: starts_Cons)
  next
    case 4
    then have "c \<noteq> QUOTE" by (simp add: QUOTE_def)
    with 4 dispatch word [OF Cons, of "''true''" JSON_BOOL] show ?thesis by simp
  next
    case 5
    then have "c \<noteq> QUOTE" by (simp add: QUOTE_def)
    with 5 dispatch word [OF Cons, of "''false''" JSON_BOOL] show ?thesis by simp
  next
    case 6
    then have "c \<noteq> QUOTE" by (simp add: QUOTE_def)
    with 6 dispatch word [OF Cons, of "''null''" JSON_NULL] show ?thesis by simp
  next
    case 7
    show ?thesis
    proof (cases "c = CHR ''-'' \<or> isdigit c")
      case True
      with 7 dispatch num [OF Cons] show ?thesis by simp
    next
      case False
      with 7 dispatch have "res = JErr ''unexpected character''" by simp
      then show ?thesis by (rule bad)
    qed
  qed
qed

section \<open>The grammar\<close>

text \<open>
  What the parser accepts, as relations between a text and what is left of it behind a value, the
  elements of an array with its bracket, the members of an object with its brace, and the body of
  a string with its quote.  Escapes are any two characters; a number is what \<open>parse_number\<close> steps over.
\<close>

inductive string_rest :: "string \<Rightarrow> string \<Rightarrow> bool" where
  closing: "string_rest (QUOTE # q) q"
| escape: "string_rest s q \<Longrightarrow> string_rest (BSLASH # d # s) q"
| plain: "c \<noteq> QUOTE \<Longrightarrow> c \<noteq> BSLASH \<Longrightarrow> string_rest s q \<Longrightarrow> string_rest (c # s) q"

definition json_words :: "(string \<times> json_type) list" where
  "json_words = [(''true'', JSON_BOOL), (''false'', JSON_BOOL), (''null'', JSON_NULL)]"

definition number_rest :: "string \<Rightarrow> string" where
  "number_rest t = num_exp (num_frac (skip_digits (num_minus t)))"

inductive value_at :: "string \<Rightarrow> json_type \<Rightarrow> string \<Rightarrow> bool"
  and elements_at :: "string \<Rightarrow> string \<Rightarrow> bool"
  and members_at :: "string \<Rightarrow> string \<Rightarrow> bool" where
  string: "skip_ws s = QUOTE # t \<Longrightarrow> string_rest t q \<Longrightarrow> value_at s JSON_STRING q"
| word: "skip_ws s = w @ q \<Longrightarrow> (w, ty) \<in> set json_words \<Longrightarrow> value_at s ty q"
| number: "skip_ws s = c # t \<Longrightarrow> c = CHR ''-'' \<or> isdigit c \<Longrightarrow> q = number_rest (c # t) \<Longrightarrow> value_at s JSON_NUMBER q"
| no_elements: "skip_ws s = CHR ''['' # t \<Longrightarrow> skip_ws t = CHR '']'' # q \<Longrightarrow> value_at s JSON_ARRAY q"
| elements: "skip_ws s = CHR ''['' # t \<Longrightarrow> elements_at t q \<Longrightarrow> value_at s JSON_ARRAY q"
| no_members: "skip_ws s = CHR ''{'' # t \<Longrightarrow> skip_ws t = CHR ''}'' # q \<Longrightarrow> value_at s JSON_OBJECT q"
| members: "skip_ws s = CHR ''{'' # t \<Longrightarrow> members_at t q \<Longrightarrow> value_at s JSON_OBJECT q"
| last_element: "value_at s ty r \<Longrightarrow> skip_ws r = CHR '']'' # q \<Longrightarrow> elements_at s q"
| more_elements: "value_at s ty r \<Longrightarrow> skip_ws r = CHR '','' # t \<Longrightarrow> elements_at t q \<Longrightarrow> elements_at s q"
| last_member: "skip_ws s = QUOTE # k \<Longrightarrow> string_rest k r \<Longrightarrow> skip_ws r = CHR '':'' # t \<Longrightarrow> value_at t ty r2 \<Longrightarrow>
     skip_ws r2 = CHR ''}'' # q \<Longrightarrow> members_at s q"
| more_members: "skip_ws s = QUOTE # k \<Longrightarrow> string_rest k r \<Longrightarrow> skip_ws r = CHR '':'' # t \<Longrightarrow> value_at t ty r2 \<Longrightarrow>
     skip_ws r2 = CHR '','' # t2 \<Longrightarrow> members_at t2 q \<Longrightarrow> members_at s q"

abbreviation cut_view :: "json_type \<Rightarrow> string \<Rightarrow> string \<Rightarrow> json_val" where
  "cut_view ty t q \<equiv> \<lparr>jv_type = ty, jv_src = t, jv_len = length t - length q\<rparr>"

inductive_simps string_rest_simps: "string_rest [] q" "string_rest (c # s) q"

lemma quote_not_backslash: "QUOTE \<noteq> BSLASH"
  by (simp add: QUOTE_def BSLASH_def)

lemma scan_string_iff: "scan_string st s = JOk v q \<longleftrightarrow> string_rest s q \<and> v = cut_view JSON_STRING st q"
proof (induction st s rule: scan_string.induct)
  case (2 st c s)
  consider "c = QUOTE" "c \<noteq> BSLASH" | "c \<noteq> QUOTE" "c = BSLASH" | "c \<noteq> QUOTE" "c \<noteq> BSLASH"
    using quote_not_backslash by auto
  then show ?case
  proof cases
    case 1
    then show ?thesis by (auto simp: string_rest_simps(2) [of QUOTE])
  next
    case 2
    then show ?thesis
      using "2.IH"(1) by (cases s) (simp_all add: string_rest_simps(2) [of BSLASH] string_rest_simps(1))
  next
    case 3
    then show ?thesis using "2.IH"(2) by (simp add: string_rest_simps(2) [of c])
  qed
qed (simp add: string_rest_simps)

lemma parse_string_iff:
  "parse_string (c # t) = JOk v q \<longleftrightarrow> string_rest t q \<and> v = cut_view JSON_STRING (c # t) q"
  by (simp add: parse_string_def scan_string_iff)

lemma parse_word_iff: "parse_word w ty t = JOk v q \<longleftrightarrow> t = w @ q \<and> v = cut_view ty t q"
  by (auto simp: parse_word_def starts_with_iff)

lemma parse_number_iff: "parse_number t = JOk v q \<longleftrightarrow> q = number_rest t \<and> v = cut_view JSON_NUMBER t q"
  by (auto simp: parse_number_def number_rest_def)

lemma skip_ws_again: "skip_ws (skip_ws s) = skip_ws s"
  by (simp add: skip_ws_def)

lemma value_at_cong:
  assumes "value_at s ty q" "skip_ws s = skip_ws s'" shows "value_at s' ty q"
  using assms(1) by cases (use assms(2) in \<open>auto intro: value_at_elements_at_members_at.intros\<close>)

lemma value_at_ws [simp]: "value_at (skip_ws s) ty q \<longleftrightarrow> value_at s ty q"
  using value_at_cong [of s ty q "skip_ws s"] value_at_cong [of "skip_ws s" ty q s] by (auto simp: skip_ws_again)

lemma elements_at_ws [simp]: "elements_at (skip_ws s) q \<longleftrightarrow> elements_at s q"
  by (subst (1 2) elements_at.simps) simp

lemma members_at_ws [simp]: "members_at (skip_ws s) q \<longleftrightarrow> members_at s q"
  by (subst (1 2) members_at.simps) (simp add: skip_ws_again)

text \<open>A successful parse is a derivation.\<close>

lemma value_sound:
  assumes "parse_f (Suc n) s = JOk v q"
    and A: "\<And>st s v q. array_f n st s = JOk v q \<Longrightarrow> elements_at s q \<and> v = cut_view JSON_ARRAY st q"
    and O: "\<And>st s v q. object_f n st s = JOk v q \<Longrightarrow> members_at s q \<and> v = cut_view JSON_OBJECT st q"
  shows "\<exists>ty. value_at s ty q \<and> v = cut_view ty (skip_ws s) q"
  using assms(1)
proof (cases rule: parse_f_cases)
  case (str t)
  then show ?thesis using string [OF str(1)] by (auto simp: parse_string_iff)
next
  case (obj0 t q')
  then show ?thesis using no_members [OF obj0(1,2)] by auto
next
  case (obj t)
  then show ?thesis using members [OF obj(1), of q] O [OF obj(3)] by auto
next
  case (arr0 t q')
  then show ?thesis using no_elements [OF arr0(1,2)] by auto
next
  case (arr t)
  then show ?thesis using elements [OF arr(1), of q] A [OF arr(3)] by auto
next
  case (word w ty c t)
  then have "(w, ty) \<in> set json_words" by (auto simp: json_words_def)
  moreover have "skip_ws s = w @ q" "v = cut_view ty (skip_ws s) q"
    using word(3) unfolding word(1) parse_word_iff by blast+
  ultimately show ?thesis using value_at_elements_at_members_at.word by blast
next
  case (num c t)
  then show ?thesis using number [OF num(1,2) refl] by (auto simp: parse_number_iff)
qed simp

lemma elements_sound:
  assumes "array_f (Suc n) st s = JOk v q"
    and P: "\<And>s v q. parse_f n s = JOk v q \<Longrightarrow> \<exists>ty. value_at s ty q \<and> v = cut_view ty (skip_ws s) q"
    and A: "\<And>st s v q. array_f n st s = JOk v q \<Longrightarrow> elements_at s q \<and> v = cut_view JSON_ARRAY st q"
  shows "elements_at s q \<and> v = cut_view JSON_ARRAY st q"
  using assms(1)
proof (cases rule: array_f_cases)
  case (more v' r t)
  then show ?thesis using P [OF more(1)] A [OF more(3)] by (auto intro: more_elements)
next
  case (close v' r t)
  then show ?thesis using P [OF close(1)] by (auto intro: last_element)
qed auto

lemma members_sound:
  assumes "object_f (Suc n) st s = JOk v q"
    and P: "\<And>s v q. parse_f n s = JOk v q \<Longrightarrow> \<exists>ty. value_at s ty q \<and> v = cut_view ty (skip_ws s) q"
    and O: "\<And>st s v q. object_f n st s = JOk v q \<Longrightarrow> members_at s q \<and> v = cut_view JSON_OBJECT st q"
  shows "members_at s q \<and> v = cut_view JSON_OBJECT st q"
proof -
  have "starts QUOTE (skip_ws s)" using assms(1) by (cases "starts QUOTE (skip_ws s)") (simp_all add: parse_Suc)
  then obtain k where k: "skip_ws s = QUOTE # k" by (auto simp: starts_Cons)
  show ?thesis using assms(1)
  proof (cases rule: object_f_cases)
    case (more kv r t v' r2 t2)
    then show ?thesis using P [OF more(3)] O [OF more(5)] more_members [OF k] k by (auto simp: parse_string_iff)
  next
    case (close kv r t v' r2 t2)
    then show ?thesis using P [OF close(3)] last_member [OF k] k by (auto simp: parse_string_iff)
  qed auto
qed

lemma parse_sound:
  "(\<forall>s v q. parse_f n s = JOk v q \<longrightarrow> (\<exists>ty. value_at s ty q \<and> v = cut_view ty (skip_ws s) q))
   \<and> (\<forall>st s v q. array_f n st s = JOk v q \<longrightarrow> elements_at s q \<and> v = cut_view JSON_ARRAY st q)
   \<and> (\<forall>st s v q. object_f n st s = JOk v q \<longrightarrow> members_at s q \<and> v = cut_view JSON_OBJECT st q)"
proof (induction n)
  case (Suc n)
  note P = Suc [THEN conjunct1, rule_format]
    and A = Suc [THEN conjunct2, THEN conjunct1, rule_format]
    and O = Suc [THEN conjunct2, THEN conjunct2, rule_format]
  show ?case using value_sound [OF _ A O] elements_sound [OF _ P A] members_sound [OF _ P O] by blast
qed simp

lemmas parse_f_sound = parse_sound [THEN conjunct1, rule_format]
  and array_f_sound = parse_sound [THEN conjunct2, THEN conjunct1, rule_format]
  and object_f_sound = parse_sound [THEN conjunct2, THEN conjunct2, rule_format]

text \<open>What is left is behind what was read.\<close>

lemma skip_ws_suffix: "suffix (skip_ws s) s"
  by (simp add: skip_ws_def suffix_dropWhile)

lemma strict_suffix_tl [simp]: "strict_suffix q (c # q)"
  by (simp add: strict_suffix_def suffix_ConsI)

lemma strict_suffix_Cons: "strict_suffix q s \<Longrightarrow> strict_suffix q (c # s)"
  by (erule suffix_order.less_le_trans) (rule suffix_ConsI [OF suffix_order.refl])

lemma ws_Cons_suffix: "skip_ws s = c # u \<Longrightarrow> strict_suffix u s"
  using skip_ws_suffix [of s] by (auto simp: suffix_def strict_suffix_def)

lemma string_rest_suffix: "string_rest s q \<Longrightarrow> strict_suffix q s"
  by (induction rule: string_rest.induct) (simp_all add: strict_suffix_Cons)

lemma num_suffix:
  "suffix (skip_digits s) s" "suffix (num_minus s) s" "suffix (num_frac s) s" "suffix (num_exp s) s"
proof -
  show d: "suffix (skip_digits s) s" for s by (simp add: skip_digits_def suffix_dropWhile)
  show "suffix (num_minus s) s" by (cases s) (auto simp: num_minus_def intro: suffix_ConsI)
  show "suffix (num_frac s) s" using d [of "tl s"] by (cases s) (auto simp: num_frac_def intro: suffix_ConsI)
  have "suffix (skip_digits (num_sign t)) t" for t
    using d [of "num_sign t"] by (cases t) (auto simp: num_sign_def intro: suffix_ConsI)
  from this [of "tl s"] show "suffix (num_exp s) s" by (cases s) (auto simp: num_exp_def intro: suffix_ConsI)
qed

lemma number_rest_suffix:
  assumes "c = CHR ''-'' \<or> isdigit c" shows "suffix (number_rest (c # t)) t"
proof -
  have "skip_digits (num_minus (c # t)) = skip_digits t"
    using assms by (auto simp: num_minus_def skip_digits_def)
  then show ?thesis using num_suffix suffix_order.trans unfolding number_rest_def by metis
qed

lemma behind_ws:
  "skip_ws s = c # t \<Longrightarrow> suffix q t \<Longrightarrow> strict_suffix q s"
  "skip_ws s = c # t \<Longrightarrow> strict_suffix q t \<Longrightarrow> strict_suffix q s"
  using ws_Cons_suffix suffix_order.le_less_trans suffix_order.less_trans by blast+

lemma rest_suffix:
  "value_at s ty q \<Longrightarrow> strict_suffix q s"
  "elements_at s q \<Longrightarrow> strict_suffix q s"
  "members_at s q \<Longrightarrow> strict_suffix q s"
proof (induction rule: value_at_elements_at_members_at.inducts)
  case (word s w q ty)
  then obtain c w' where "w = c # w'" by (auto simp: json_words_def)
  with word have "skip_ws s = c # w' @ q" "suffix q (w' @ q)" by (simp_all add: suffix_def)
  then show ?case by (rule behind_ws)
next
  case (last_member s k r t ty r2 q)
  have "strict_suffix q r2" using behind_ws(1) [OF last_member.hyps(5)] by simp
  then have "strict_suffix q t" using last_member.IH suffix_order.less_trans by blast
  then have "strict_suffix q r" by (rule behind_ws(2) [OF last_member.hyps(3)])
  then have "strict_suffix q k" using string_rest_suffix [OF last_member.hyps(2)] suffix_order.less_trans by blast
  then show ?case by (rule behind_ws(2) [OF last_member.hyps(1)])
next
  case (more_members s k r t ty r2 t2 q)
  have "strict_suffix q r2" using behind_ws(2) [OF more_members.hyps(5)] more_members.IH(2) by simp
  then have "strict_suffix q t" using more_members.IH(1) suffix_order.less_trans by blast
  then have "strict_suffix q r" by (rule behind_ws(2) [OF more_members.hyps(3)])
  then have "strict_suffix q k" using string_rest_suffix [OF more_members.hyps(2)] suffix_order.less_trans by blast
  then show ?case by (rule behind_ws(2) [OF more_members.hyps(1)])
next
  case (string s t q)
  then show ?case using behind_ws(2) string_rest_suffix by blast
next
  case (number s c t q)
  then show ?case using behind_ws(1) number_rest_suffix by blast
next
  case (no_elements s t q)
  then show ?case using behind_ws by (metis suffix_order.refl)
next
  case (no_members s t q)
  then show ?case using behind_ws by (metis suffix_order.refl)
next
  case (elements s t q)
  then show ?case using behind_ws(2) by blast
next
  case (members s t q)
  then show ?case using behind_ws(2) by blast
next
  case (last_element s ty r q)
  then show ?case using behind_ws(1) suffix_order.refl suffix_order.less_trans by metis
next
  case (more_elements s ty r t q)
  then show ?case using behind_ws(2) suffix_order.less_trans by metis
qed

text \<open>Every successful parse consumes at least one byte.\<close>

lemma parse_f_suffix: "parse_f n s = JOk v q \<Longrightarrow> suffix q s"
  using parse_f_sound rest_suffix(1) suffix_order.less_imp_le by blast

lemma parse_len:
  "parse_f n s = JOk v q \<Longrightarrow> length q < length s"
  "array_f n st s = JOk v q \<Longrightarrow> length q < length s"
  "object_f n st s = JOk v q \<Longrightarrow> length q < length s"
  by (use parse_f_sound rest_suffix(1) suffix_length_less in blast,
      use array_f_sound rest_suffix(2) suffix_length_less in blast,
      use object_f_sound rest_suffix(3) suffix_length_less in blast)

lemmas parse_f_len = parse_len(1) and array_f_len = parse_len(2) and object_f_len = parse_len(3)

section \<open>Fuel\<close>

lemma ws_Cons_len: "skip_ws r = c # q \<Longrightarrow> length q < length r"
  using skip_ws_le [of r] by simp

lemma key_len: "parse_string (skip_ws s) = JOk v r \<Longrightarrow> length r < length s"
  using parse_string_len [of "skip_ws s" v r] skip_ws_le [of s] by simp

lemma value_len: "parse_f n (skip_ws s) = JOk v r \<Longrightarrow> length r < length s"
  using parse_f_len [of n "skip_ws s" v r] skip_ws_le [of s] by simp

lemma value_fuel:
  assumes "2 * length s + 2 \<le> Suc n"
    and A: "\<And>st s. 2 * length s + 3 \<le> n \<Longrightarrow> array_f n st s \<noteq> JFuel"
    and O: "\<And>st s. 2 * length s + 3 \<le> n \<Longrightarrow> object_f n st s \<noteq> JFuel"
  shows "parse_f (Suc n) s \<noteq> JFuel"
proof
  assume "parse_f (Suc n) s = JFuel"
  then show False
  proof (cases rule: parse_f_cases)
    case (obj u)
    then show False using O [of "skip_ws u"] ws_Cons_len [OF obj(1)] skip_ws_le [of u] assms(1) by auto
  next
    case (arr u)
    then show False using A [of "skip_ws u"] ws_Cons_len [OF arr(1)] skip_ws_le [of u] assms(1) by auto
  qed (use parse_string_nofuel in auto)
qed

lemma elements_fuel:
  assumes "2 * length s + 3 \<le> Suc n"
    and P: "\<And>s. 2 * length s + 2 \<le> n \<Longrightarrow> parse_f n s \<noteq> JFuel"
    and A: "\<And>st s. 2 * length s + 3 \<le> n \<Longrightarrow> array_f n st s \<noteq> JFuel"
  shows "array_f (Suc n) st s \<noteq> JFuel"
proof
  assume "array_f (Suc n) st s = JFuel"
  then show False
  proof (cases rule: array_f_cases)
    case err
    then show False using P [of "skip_ws s"] skip_ws_le [of s] assms(1) by simp
  next
    case (more v r q)
    then show False using value_len [OF more(1)] ws_Cons_len [OF more(2)] A [of q st] assms(1) by simp
  qed auto
qed

lemma members_fuel:
  assumes "2 * length s + 3 \<le> Suc n"
    and P: "\<And>s. 2 * length s + 2 \<le> n \<Longrightarrow> parse_f n s \<noteq> JFuel"
    and O: "\<And>st s. 2 * length s + 3 \<le> n \<Longrightarrow> object_f n st s \<noteq> JFuel"
  shows "object_f (Suc n) st s \<noteq> JFuel"
proof
  assume "object_f (Suc n) st s = JFuel"
  then show False
  proof (cases rule: object_f_cases)
    case key
    then show False using parse_string_nofuel by blast
  next
    case (err kv r q)
    then show False using key_len [OF err(1)] ws_Cons_len [OF err(2)] P [of "skip_ws q"] skip_ws_le [of q] assms(1) by simp
  next
    case (more kv r q v r2 q2)
    then show False
      using key_len [OF more(1)] ws_Cons_len [OF more(2)] value_len [OF more(3)] ws_Cons_len [OF more(4)] O [of q2 st] assms(1)
      by simp
  qed auto
qed

lemma fuel_enough:
  "(\<forall>s. 2 * length s + 2 \<le> n \<longrightarrow> parse_f n s \<noteq> JFuel)
   \<and> (\<forall>st s. 2 * length s + 3 \<le> n \<longrightarrow> array_f n st s \<noteq> JFuel)
   \<and> (\<forall>st s. 2 * length s + 3 \<le> n \<longrightarrow> object_f n st s \<noteq> JFuel)"
proof (induction n)
  case (Suc n)
  have 1: "parse_f (Suc n) s \<noteq> JFuel" if "2 * length s + 2 \<le> Suc n" for s
    using that by (rule value_fuel) (use Suc in blast)+
  have 2: "array_f (Suc n) st s \<noteq> JFuel" if "2 * length s + 3 \<le> Suc n" for st s
    using that by (rule elements_fuel) (use Suc in blast)+
  have 3: "object_f (Suc n) st s \<noteq> JFuel" if "2 * length s + 3 \<le> Suc n" for st s
    using that by (rule members_fuel) (use Suc in blast)+
  from 1 2 3 show ?case by blast
qed simp

lemma elements_step:
  assumes P: "\<And>s. parse_f n s \<noteq> JFuel \<Longrightarrow> parse_f (Suc n) s = parse_f n s"
    and A: "\<And>st s. array_f n st s \<noteq> JFuel \<Longrightarrow> array_f (Suc n) st s = array_f n st s"
    and nf: "array_f (Suc n) st s \<noteq> JFuel"
  shows "array_f (Suc (Suc n)) st s = array_f (Suc n) st s"
proof -
  from nf have ne: "parse_f n (skip_ws s) \<noteq> JFuel" by (auto simp: array_f.simps)
  note eq = P [OF ne]
  show ?thesis
  proof (cases "parse_f n (skip_ws s)")
    case (JOk v r)
    with nf A [of st "tl (skip_ws r)"] eq show ?thesis
      unfolding array_f.simps(2) eq JOk jres.case Let_def by (simp split: if_splits)
  qed (use eq in \<open>simp_all add: array_f.simps(2)\<close>)
qed

lemma members_step:
  assumes P: "\<And>s. parse_f n s \<noteq> JFuel \<Longrightarrow> parse_f (Suc n) s = parse_f n s"
    and O: "\<And>st s. object_f n st s \<noteq> JFuel \<Longrightarrow> object_f (Suc n) st s = object_f n st s"
    and nf: "object_f (Suc n) st s \<noteq> JFuel"
  shows "object_f (Suc (Suc n)) st s = object_f (Suc n) st s"
proof (cases "starts QUOTE (skip_ws s)")
  case True
  show ?thesis
  proof (cases "parse_string (skip_ws s)")
    case (JOk kv r)
    show ?thesis
    proof (cases "starts (CHR '':'') (skip_ws r)")
      case colon: True
      from nf True JOk colon have ne: "parse_f n (skip_ws (tl (skip_ws r))) \<noteq> JFuel"
        by (auto simp: object_f.simps(2) Let_def)
      note eq = P [OF ne]
      show ?thesis
      proof (cases "parse_f n (skip_ws (tl (skip_ws r)))")
        case v: (JOk v r2)
        with nf O [of st "tl (skip_ws r2)"] eq True JOk colon show ?thesis
          unfolding object_f.simps(2) Let_def JOk jres.case eq v by (simp split: if_splits)
      qed (use eq True JOk colon in \<open>simp_all add: object_f.simps(2) Let_def\<close>)
    qed (use JOk in \<open>simp add: object_f.simps(2) Let_def\<close>)
  qed (simp_all add: object_f.simps(2) Let_def)
qed (simp add: object_f.simps(2))

lemma fuel_step:
  "(\<forall>s. parse_f n s \<noteq> JFuel \<longrightarrow> parse_f (Suc n) s = parse_f n s)
   \<and> (\<forall>st s. array_f n st s \<noteq> JFuel \<longrightarrow> array_f (Suc n) st s = array_f n st s)
   \<and> (\<forall>st s. object_f n st s \<noteq> JFuel \<longrightarrow> object_f (Suc n) st s = object_f n st s)"
proof (induction n)
  case (Suc n)
  note P = Suc [THEN conjunct1, rule_format]
    and A = Suc [THEN conjunct2, THEN conjunct1, rule_format]
    and O = Suc [THEN conjunct2, THEN conjunct2, rule_format]
  have 1: "parse_f (Suc (Suc n)) s = parse_f (Suc n) s" if "parse_f (Suc n) s \<noteq> JFuel" for s
  proof (cases "skip_ws s")
    case (Cons c q)
    with that A [of "c # q" "skip_ws q"] O [of "c # q" "skip_ws q"] show ?thesis
      unfolding parse_f.simps(2) Let_def Cons list.case by (simp split: if_splits)
  qed (simp add: parse_f.simps)
  have 2: "array_f (Suc (Suc n)) st s = array_f (Suc n) st s" if "array_f (Suc n) st s \<noteq> JFuel" for st s
    by (rule elements_step [OF P A that])
  have 3: "object_f (Suc (Suc n)) st s = object_f (Suc n) st s" if "object_f (Suc n) st s \<noteq> JFuel" for st s
    by (rule members_step [OF P O that])
  from 1 2 3 show ?case by blast
qed simp

lemma fuel_mono:
  "parse_f n s \<noteq> JFuel \<Longrightarrow> n \<le> m \<Longrightarrow> parse_f m s = parse_f n s"
  "array_f n st s \<noteq> JFuel \<Longrightarrow> n \<le> m \<Longrightarrow> array_f m st s = array_f n st s"
  "object_f n st s \<noteq> JFuel \<Longrightarrow> n \<le> m \<Longrightarrow> object_f m st s = object_f n st s"
proof -
  have gen: "f m = f n" if "\<And>k. f k \<noteq> JFuel \<Longrightarrow> f (Suc k) = f k" "f n \<noteq> JFuel" "n \<le> m" for f :: "nat \<Rightarrow> jres"
    using that(3) by (induction rule: dec_induct) (use that in auto)
  show "parse_f n s \<noteq> JFuel \<Longrightarrow> n \<le> m \<Longrightarrow> parse_f m s = parse_f n s"
    by (rule gen [of "\<lambda>k. parse_f k s"]) (use fuel_step in blast)+
  show "array_f n st s \<noteq> JFuel \<Longrightarrow> n \<le> m \<Longrightarrow> array_f m st s = array_f n st s"
    by (rule gen [of "\<lambda>k. array_f k st s"]) (use fuel_step in blast)+
  show "object_f n st s \<noteq> JFuel \<Longrightarrow> n \<le> m \<Longrightarrow> object_f m st s = object_f n st s"
    by (rule gen [of "\<lambda>k. object_f k st s"]) (use fuel_step in blast)+
qed

text \<open>The fuel of \<open>json_parse\<close> is enough, and more changes nothing.\<close>

lemma parse_enough:
  "json_parse s \<noteq> JFuel" "array_loop st s \<noteq> JFuel" "object_loop st s \<noteq> JFuel"
  unfolding json_parse_def array_loop_def object_loop_def using fuel_enough by blast+

lemma parse_f_eq: "2 * length s + 2 \<le> n \<Longrightarrow> parse_f n s = json_parse s"
  unfolding json_parse_def by (rule fuel_mono) (use fuel_enough in blast)+

lemma array_f_eq: "2 * length s + 3 \<le> n \<Longrightarrow> array_f n st s = array_loop st s"
  unfolding array_loop_def by (rule fuel_mono) (use fuel_enough in blast)+

lemma object_f_eq: "2 * length s + 3 \<le> n \<Longrightarrow> object_f n st s = object_loop st s"
  unfolding object_loop_def by (rule fuel_mono) (use fuel_enough in blast)+

lemma json_parse_len: "json_parse s = JOk v r \<Longrightarrow> length r < length s"
  unfolding json_parse_def by (rule parse_f_len)

lemma json_parse_eq:
  "json_parse s =
     (let t = skip_ws s in
      case t of
        [] \<Rightarrow> JErr ''unexpected character''
      | c # r \<Rightarrow>
          if c = QUOTE then parse_string t
          else if c = CHR ''{'' then
            (let s1 = skip_ws r in
             if starts (CHR ''}'') s1 then make_val JSON_OBJECT t (tl s1) else object_loop t s1)
          else if c = CHR ''['' then
            (let s1 = skip_ws r in
             if starts (CHR '']'') s1 then make_val JSON_ARRAY t (tl s1) else array_loop t s1)
          else if c = CHR ''t'' then parse_word ''true'' JSON_BOOL t
          else if c = CHR ''f'' then parse_word ''false'' JSON_BOOL t
          else if c = CHR ''n'' then parse_word ''null'' JSON_NULL t
          else if c = CHR ''-'' \<or> isdigit c then parse_number t
          else JErr ''unexpected character'')"
proof -
  have "object_f (Suc (2 * length s)) st (skip_ws r) = object_loop st (skip_ws r)"
    "array_f (Suc (2 * length s)) st (skip_ws r) = array_loop st (skip_ws r)"
    if "skip_ws s = c # r" for st c r
    using skip_ws_le [of r] skip_ws_le [of s] that by (simp_all add: object_f_eq array_f_eq)
  then show ?thesis
    by (simp add: json_parse_def [of s] parse_f.simps Let_def split: list.split)
qed

lemma array_loop_eq:
  "array_loop st s =
     (case json_parse (skip_ws s) of
        JOk v r \<Rightarrow>
          (let r' = skip_ws r in
           if starts (CHR '','') r' then array_loop st (tl r')
           else if starts (CHR '']'') r' then make_val JSON_ARRAY st (tl r')
           else JErr (''expected '' @ SQUOTE # '','' @ SQUOTE # '' or '' @ SQUOTE # '']'' @ [SQUOTE]))
      | e \<Rightarrow> e)"
proof -
  define n where "n = 2 * length s + 2"
  have P: "parse_f n (skip_ws s) = json_parse (skip_ws s)"
    using skip_ws_le [of s] by (simp add: parse_f_eq n_def)
  have A: "array_f n st (tl (skip_ws r)) = array_loop st (tl (skip_ws r))"
    if "json_parse (skip_ws s) = JOk v r" "starts (CHR '','') (skip_ws r)" for v r
    using json_parse_len [OF that(1)] skip_ws_le [of s] skip_ws_le [of r] starts_len [OF that(2)]
    unfolding n_def by (intro array_f_eq) linarith
  have "array_loop st s = array_f (Suc n) st s"
    by (simp add: array_loop_def n_def numeral_3_eq_3)
  then show ?thesis
    unfolding array_f.simps(2) P by (auto simp: A Let_def split: jres.split)
qed

lemma object_loop_eq:
  "object_loop st s =
     (let k = skip_ws s in
      if \<not> starts QUOTE k then JErr ''expected string key''
      else case parse_string k of
        JOk kv r \<Rightarrow>
          (let r1 = skip_ws r in
           if \<not> starts (CHR '':'') r1 then JErr (''expected '' @ SQUOTE # '':'' @ [SQUOTE])
           else case json_parse (skip_ws (tl r1)) of
             JOk v r2 \<Rightarrow>
               (let r3 = skip_ws r2 in
                if starts (CHR '','') r3 then object_loop st (tl r3)
                else if starts (CHR ''}'') r3 then make_val JSON_OBJECT st (tl r3)
                else JErr (''expected '' @ SQUOTE # '','' @ SQUOTE # '' or '' @ SQUOTE # ''}'' @ [SQUOTE]))
           | e \<Rightarrow> e)
      | e \<Rightarrow> e)"
proof -
  define n where "n = 2 * length s + 2"
  have K: "length (tl (skip_ws r)) < length s" if "parse_string (skip_ws s) = JOk kv r" for kv r
    using parse_string_len [OF that] skip_ws_le [of s] skip_ws_le [of r] by auto
  have P: "parse_f n (skip_ws (tl (skip_ws r))) = json_parse (skip_ws (tl (skip_ws r)))"
    if "parse_string (skip_ws s) = JOk kv r" for kv r
    using K [OF that] skip_ws_le [of "tl (skip_ws r)"] unfolding n_def by (intro parse_f_eq) linarith
  have O: "object_f n st (tl (skip_ws r2)) = object_loop st (tl (skip_ws r2))"
    if "parse_string (skip_ws s) = JOk kv r" "json_parse (skip_ws (tl (skip_ws r))) = JOk v r2" for kv r v r2
    using K [OF that(1)] json_parse_len [OF that(2)] skip_ws_le [of "tl (skip_ws r)"] skip_ws_le [of r2]
    unfolding n_def by (intro object_f_eq) auto
  have "object_loop st s = object_f (Suc n) st s"
    by (simp add: object_loop_def n_def numeral_3_eq_3)
  then show ?thesis
    unfolding object_f.simps(2) by (auto simp: P O Let_def split: jres.split)
qed

section \<open>The parser is the grammar\<close>

lemma value_first:
  assumes "value_at s ty q" shows "skip_ws s \<noteq> [] \<and> \<not> starts (CHR '']'') (skip_ws s)"
proof -
  have "\<not> isdigit (CHR '']'')" by (simp add: isdigit_def ord_def)
  with assms show ?thesis by (cases rule: value_at.cases) (auto simp: json_words_def QUOTE_def)
qed

lemma elements_first: "elements_at s q \<Longrightarrow> skip_ws s \<noteq> [] \<and> \<not> starts (CHR '']'') (skip_ws s)"
  by (cases rule: elements_at.cases) (auto dest: value_first)

lemma members_first: "members_at s q \<Longrightarrow> starts QUOTE (skip_ws s) \<and> \<not> starts (CHR ''}'') (skip_ws s)"
  by (cases rule: members_at.cases) (auto simp: QUOTE_def)

lemma loop_ws:
  "json_parse (skip_ws s) = json_parse s" "array_loop st (skip_ws s) = array_loop st s"
  "object_loop st (skip_ws s) = object_loop st s"
proof -
  show "json_parse (skip_ws s) = json_parse s" by (subst (1 2) json_parse_eq) (simp add: skip_ws_again)
  show "array_loop st (skip_ws s) = array_loop st s" by (subst (1 2) array_loop_eq) (simp add: skip_ws_again)
  show "object_loop st (skip_ws s) = object_loop st s" by (subst (1 2) object_loop_eq) (simp add: skip_ws_again)
qed

lemma parse_complete:
  "value_at s ty q \<Longrightarrow> json_parse s = JOk (cut_view ty (skip_ws s) q) q"
  "elements_at s q \<Longrightarrow> array_loop st s = JOk (cut_view JSON_ARRAY st q) q"
  "members_at s q \<Longrightarrow> object_loop st s = JOk (cut_view JSON_OBJECT st q) q"
proof (induction arbitrary: and st and st rule: value_at_elements_at_members_at.inducts)
  case (string s t q)
  then show ?case by (subst json_parse_eq) (simp add: Let_def parse_string_iff)
next
  case (word s w q ty)
  then show ?case by (subst json_parse_eq) (auto simp: Let_def json_words_def parse_word_iff QUOTE_def)
next
  case (number s c t q)
  have "c \<noteq> QUOTE" "c \<noteq> CHR ''{''" "c \<noteq> CHR ''[''" "c \<noteq> CHR ''t''" "c \<noteq> CHR ''f''" "c \<noteq> CHR ''n''"
    using number(2) by (auto simp: QUOTE_def isdigit_def ord_def)
  with number show ?case by (subst json_parse_eq) (auto simp: Let_def parse_number_iff)
next
  case (no_elements s t q)
  then show ?case by (subst json_parse_eq) (simp add: Let_def QUOTE_def loop_ws)
next
  case (elements s t q)
  then show ?case using elements_first
    by (subst json_parse_eq) (simp add: Let_def QUOTE_def loop_ws)
next
  case (no_members s t q)
  then show ?case by (subst json_parse_eq) (simp add: Let_def QUOTE_def loop_ws)
next
  case (members s t q)
  then show ?case using members_first
    by (subst json_parse_eq) (simp add: Let_def QUOTE_def loop_ws)
next
  case (last_element s ty r q)
  then show ?case by (subst array_loop_eq) (simp add: Let_def loop_ws)
next
  case (more_elements s ty r t q)
  then show ?case by (subst array_loop_eq) (simp add: Let_def loop_ws)
next
  case (last_member s k r t ty r2 q)
  then have "parse_string (QUOTE # k) = JOk (cut_view JSON_STRING (QUOTE # k) r) r" by (simp add: parse_string_iff)
  with last_member show ?case by (subst object_loop_eq) (simp add: Let_def loop_ws)
next
  case (more_members s k r t ty r2 t2 q)
  then have "parse_string (QUOTE # k) = JOk (cut_view JSON_STRING (QUOTE # k) r) r" by (simp add: parse_string_iff)
  with more_members show ?case by (subst object_loop_eq) (simp add: Let_def loop_ws)
qed

lemma json_parse_sound: "json_parse s = JOk v q \<Longrightarrow> \<exists>ty. value_at s ty q \<and> v = cut_view ty (skip_ws s) q"
  unfolding json_parse_def by (rule parse_f_sound)

lemma json_parse_src: "json_parse s = JOk v q \<Longrightarrow> jv_src v = skip_ws s"
  using json_parse_sound by fastforce

lemma json_parse_suffix: "json_parse s = JOk v q \<Longrightarrow> suffix q s"
  unfolding json_parse_def by (rule parse_f_suffix)

text \<open>
  C17: The parser is its grammar.  It returns a value and a position exactly when the grammar has a
  derivation for them, with the view that covers the text between; so the grammar is unambiguous and
  the errors of the parser are the texts without a derivation.
\<close>

theorem json_parse_grammar:
  "json_parse s = JOk v q \<longleftrightarrow> (\<exists>ty. value_at s ty q \<and> v = cut_view ty (skip_ws s) q)"
  using json_parse_sound parse_complete(1) by blast

end
