(* ===== verification/Json.thy ===== *)
theory Json
  imports JsonParser
begin

unbundle bit_operations_syntax

text \<open>
  c/json.c: the accessors of the JSON reader.  They parse the text of the value again, as the code
  does; each loop over members or elements ends because a parse consumes text (\<open>JsonParser\<close>).
\<close>

section \<open>Queries\<close>

text \<open>
  The accessors are called on values of a successful parse.  A parse that leaves the buffer
  (\<open>JOob\<close>) cannot happen inside one; it is given the value of a failed parse.
\<close>

definition parsed_val :: "jres \<Rightarrow> json_val" where
  "parsed_val p = (case p of JOk v r \<Rightarrow> v | _ \<Rightarrow> null_val)"

lemma parse_skip_len: "json_parse (skip_ws s) = JOk v r \<Longrightarrow> length r < length s"
  using json_parse_len [of "skip_ws s" v r] skip_ws_le [of s] by simp

lemma key_skip_len:
  "parse_string (skip_ws s) = JOk kv r \<Longrightarrow> starts c (skip_ws r) \<Longrightarrow>
     length (skip_ws (tl (skip_ws r))) < length s"
  using parse_string_len [of "skip_ws s" kv r] skip_ws_le [of s] skip_ws_le [of r]
    skip_ws_le [of "tl (skip_ws r)"] starts_len [of c "skip_ws r"] by linarith

function get_loop :: "string \<Rightarrow> string \<Rightarrow> json_val" where
  "get_loop key s =
     (case parse_string (skip_ws s) of
        JOk kv r \<Rightarrow>
          (let klen = (jv_len kv - 1) - 1;
               kstr = drop 1 (jv_src kv);
               matched = (length key = klen \<and> key = take klen kstr);
               r1 = skip_ws r
           in if \<not> starts (CHR '':'') r1 then null_val
              else if matched then parsed_val (json_parse (skip_ws (tl r1)))
              else case json_parse (skip_ws (tl r1)) of
                JOk v r2 \<Rightarrow>
                  (let r3 = skip_ws r2 in if starts (CHR '','') r3 then get_loop key (tl r3) else null_val)
              | _ \<Rightarrow> null_val)
      | _ \<Rightarrow> null_val)"
  by pat_completeness auto
termination
proof (relation "measure (\<lambda>(key, s). length s)", goal_cases)
  case (2 key s kv r klen kstr matched r1 v r2 r3)
  then have "length r2 < length (skip_ws (tl r1))" "length (skip_ws (tl r1)) < length s"
    using json_parse_len key_skip_len [of s kv r "CHR '':''"] by auto
  then show ?case using 2 skip_ws_le [of r2] starts_len [of "CHR '',''" r3] by auto
qed simp

declare get_loop.simps [simp del]

definition json_get :: "json_val \<Rightarrow> string \<Rightarrow> json_val" where
  "json_get obj key =
     (if jv_type obj \<noteq> JSON_OBJECT then null_val
      else let s = skip_ws (drop 1 (jv_src obj)) in
        if starts (CHR ''}'') s then null_val else get_loop key s)"

function len_loop :: "string \<Rightarrow> int \<Rightarrow> int" where
  "len_loop s count =
     (case json_parse (skip_ws s) of
        JOk v r \<Rightarrow>
          (let r' = skip_ws r in if starts (CHR '','') r' then len_loop (tl r') (count + 1) else count + 1)
      | _ \<Rightarrow> count)"
  by pat_completeness auto
termination
proof (relation "measure (\<lambda>(s, n). length s)", goal_cases)
  case (2 s count v r r')
  then show ?case
    using parse_skip_len [of s v r] skip_ws_le [of r] starts_len [of "CHR '',''" r'] by auto
qed simp

declare len_loop.simps [simp del]

definition json_array_len :: "json_val \<Rightarrow> int" where
  "json_array_len arr =
     (if jv_type arr \<noteq> JSON_ARRAY then 0
      else let s = skip_ws (drop 1 (jv_src arr)) in
        if starts (CHR '']'') s then 0 else len_loop s 0)"

function nth_loop :: "string \<Rightarrow> int \<Rightarrow> int \<Rightarrow> json_val" where
  "nth_loop s cur index =
     (case json_parse (skip_ws s) of
        JOk v r \<Rightarrow>
          if cur = index then v
          else (let r' = skip_ws r in if starts (CHR '','') r' then nth_loop (tl r') (cur + 1) index else null_val)
      | _ \<Rightarrow> null_val)"
  by pat_completeness auto
termination
proof (relation "measure (\<lambda>(s, c, i). length s)", goal_cases)
  case (2 s cur index v r r')
  then show ?case
    using parse_skip_len [of s v r] skip_ws_le [of r] starts_len [of "CHR '',''" r'] by auto
qed simp

declare nth_loop.simps [simp del]

definition json_array_get :: "json_val \<Rightarrow> int \<Rightarrow> json_val" where
  "json_array_get arr index =
     (if jv_type arr \<noteq> JSON_ARRAY then null_val
      else let s = skip_ws (drop 1 (jv_src arr)) in
        if starts (CHR '']'') s then null_val else nth_loop s 0 index)"

section \<open>Strings\<close>

definition hex_digit :: "char \<Rightarrow> nat option" where
  "hex_digit h =
     (if isdigit h then Some (ord h - 48)
      else if 97 \<le> ord h \<and> ord h \<le> 102 then Some (ord h - 97 + 10)
      else if 65 \<le> ord h \<and> ord h \<le> 70 then Some (ord h - 65 + 10)
      else None)"

text \<open>The first code unit takes up to four characters whatever they are, the second one stops at
  the first character that is no hex digit.\<close>

definition hex_any :: "string \<Rightarrow> nat" where
  "hex_any hs = foldl (\<lambda>cp h. cp * 16 + opt_default 0 (hex_digit h)) 0 hs"

fun hex_strict :: "nat \<Rightarrow> string \<Rightarrow> nat option" where
  "hex_strict lo [] = Some lo"
| "hex_strict lo (h # hs) = (case hex_digit h of None \<Rightarrow> None | Some d \<Rightarrow> hex_strict (lo * 16 + d) hs)"

definition utf8_encode :: "nat \<Rightarrow> string" where
  "utf8_encode cp =
     (if cp < 0x80 then [char_of cp]
      else if cp < 0x800 then [char_of (0xC0 OR drop_bit 6 cp), char_of (0x80 OR (cp AND 0x3F))]
      else if cp < 0x10000 then
        [char_of (0xE0 OR drop_bit 12 cp), char_of (0x80 OR (drop_bit 6 cp AND 0x3F)),
         char_of (0x80 OR (cp AND 0x3F))]
      else
        [char_of (0xF0 OR drop_bit 18 cp), char_of (0x80 OR (drop_bit 12 cp AND 0x3F)),
         char_of (0x80 OR (drop_bit 6 cp AND 0x3F)), char_of (0x80 OR (cp AND 0x3F))])"

text \<open>What follows \<open>\u\<close>: the code point and what is left; a high surrogate takes a valid low
  surrogate that follows it.\<close>

definition decode_u :: "string \<Rightarrow> nat \<times> string" where
  "decode_u s =
     (let cp = hex_any (take 4 s); r = drop 4 s in
      if 0xD800 \<le> cp \<and> cp \<le> 0xDBFF \<and> starts_with [BSLASH, CHR ''u''] r then
        (case hex_strict 0 (take 4 (drop 2 r)) of
           Some lo \<Rightarrow>
             if 0xDC00 \<le> lo \<and> lo \<le> 0xDFFF
             then (0x10000 + push_bit 10 (cp - 0xD800) + (lo - 0xDC00), drop 6 r)
             else (cp, r)
         | None \<Rightarrow> (cp, r))
      else (cp, r))"

lemma decode_u_len: "decode_u s = (cp, r) \<Longrightarrow> length r \<le> length s"
  by (auto simp: decode_u_def Let_def split: if_splits option.splits)

function json_decode :: "string \<Rightarrow> string" where
  "json_decode [] = []"
| "json_decode (c # s) =
     (if c = BSLASH then
        (case s of
           [] \<Rightarrow> [QUOTE]
         | d # r \<Rightarrow>
             if d = CHR ''b'' then CHR 0x08 # json_decode r
             else if d = CHR ''f'' then CHR 0x0C # json_decode r
             else if d = CHR ''n'' then LF # json_decode r
             else if d = CHR ''r'' then CR # json_decode r
             else if d = CHR ''t'' then TAB # json_decode r
             else if d = CHR ''u'' then
               (let (cp, r') = decode_u r in utf8_encode cp @ json_decode r')
             else d # json_decode r)
      else c # json_decode s)"
  by pat_completeness auto
termination
proof (relation "measure length", goal_cases)
  case (7 c s d r x cp r')
  then show ?case using decode_u_len [of r cp r'] by auto
qed auto

definition json_string_val :: "json_val \<Rightarrow> string option" where
  "json_string_val v =
     (if jv_type v \<noteq> JSON_STRING then None
      else Some (c_string (json_decode (take (jv_len v - 2) (drop 1 (jv_src v))))))"

definition json_get_string :: "json_val \<Rightarrow> string \<Rightarrow> string option" where
  "json_get_string obj key = json_string_val (json_get obj key)"

section \<open>Numbers, booleans, raw text\<close>

definition json_number_text :: "json_val \<Rightarrow> string option" where
  "json_number_text v =
     (if jv_type v \<noteq> JSON_NUMBER \<or> 64 \<le> jv_len v then None else Some (take (jv_len v) (jv_src v)))"

definition json_get_int :: "json_val \<Rightarrow> string \<Rightarrow> int" where
  "json_get_int obj key =
     (case json_number_text (json_get obj key) of None \<Rightarrow> 0 | Some buf \<Rightarrow> double_to_int (strtod buf))"

definition json_get_ll :: "json_val \<Rightarrow> string \<Rightarrow> int" where
  "json_get_ll obj key =
     (case json_number_text (json_get obj key) of
        None \<Rightarrow> 0
      | Some buf \<Rightarrow> (case strtol10 buf of None \<Rightarrow> 0 | Some (n, _) \<Rightarrow> n))"

definition json_number_val :: "json_val \<Rightarrow> rat" where
  "json_number_val v = (case json_number_text v of None \<Rightarrow> 0 | Some buf \<Rightarrow> strtod buf)"

definition json_get_double :: "json_val \<Rightarrow> string \<Rightarrow> rat" where
  "json_get_double obj key = json_number_val (json_get obj key)"

definition json_bool_val :: "json_val \<Rightarrow> bool" where
  "json_bool_val v \<longleftrightarrow> jv_type v = JSON_BOOL \<and> starts (CHR ''t'') (jv_src v)"

definition json_get_bool :: "json_val \<Rightarrow> string \<Rightarrow> bool \<Rightarrow> bool" where
  "json_get_bool obj key def =
     (let v = json_get obj key in if jv_type v = JSON_NULL then def else json_bool_val v)"

definition json_raw :: "json_val \<Rightarrow> string" where
  "json_raw v = take (jv_len v) (jv_src v)"

definition json_as_string :: "json_val \<Rightarrow> string option" where
  "json_as_string v =
     (if jv_type v = JSON_STRING then json_string_val v
      else if jv_type v = JSON_NULL then None
      else Some (json_raw v))"

section \<open>The object iterator\<close>

record json_iter =
  it_key :: "string option"
  it_val :: json_val
  it_src :: "string option"
  it_first :: bool

definition json_obj_iter_init :: "json_val \<Rightarrow> json_iter" where
  "json_obj_iter_init obj =
     (if jv_type obj \<noteq> JSON_OBJECT
      then \<lparr>it_key = None, it_val = null_val, it_src = None, it_first = False\<rparr>
      else \<lparr>it_key = None, it_val = null_val, it_src = Some (drop 1 (jv_src obj)), it_first = True\<rparr>)"

definition json_obj_iter_next :: "json_iter \<Rightarrow> bool \<times> json_iter" where
  "json_obj_iter_next it0 =
     (let it = it0\<lparr>it_key := None\<rparr> in
      case it_src it of
        None \<Rightarrow> (False, it)
      | Some src \<Rightarrow>
          (let s1 = skip_ws src in
           if s1 = [] \<or> starts (CHR ''}'') s1 then (False, it\<lparr>it_src := Some s1\<rparr>)
           else
             let s2 = (if it_first it then s1 else skip_ws (if starts (CHR '','') s1 then tl s1 else s1)) in
             if \<not> it_first it \<and> (s2 = [] \<or> starts (CHR ''}'') s2) then (False, it\<lparr>it_src := Some s2\<rparr>)
             else
               let it' = it\<lparr>it_first := False\<rparr> in
               case parse_string s2 of
                 JOk kv r \<Rightarrow>
                   (let key = take ((jv_len kv - 1) - 1) (drop 1 (jv_src kv));
                        r1 = skip_ws r;
                        r2 = skip_ws (if starts (CHR '':'') r1 then tl r1 else r1)
                    in case json_parse r2 of
                         JOk v r3 \<Rightarrow> (True, it'\<lparr>it_key := Some key, it_val := v, it_src := Some r3\<rparr>)
                       | _ \<Rightarrow> (False, it'\<lparr>it_key := Some key, it_src := Some r2\<rparr>))
               | _ \<Rightarrow> (False, it'\<lparr>it_src := Some s2\<rparr>)))"

definition json_obj_iter_cleanup :: "json_iter \<Rightarrow> json_iter" where
  "json_obj_iter_cleanup it = it\<lparr>it_key := None\<rparr>"

end
