(* ===== verification/JsonText.thy ===== *)
theory JsonText
  imports Json
begin

unbundle bit_operations_syntax

text \<open>
  What the reader of c/json.c promises on the texts the program writes.  A JSON value is a term of
  type \<open>json\<close>, \<open>json_text\<close> its text as the program's string builders write it (no blanks, strings by
  \<open>json_quote\<close>, and \<open>JRaw\<close> for text copied from elsewhere), and \<open>is_view jv v\<close> says that the view
  \<open>jv\<close> points at the text of \<open>v\<close>.  \<open>parse_text\<close> and the lemmas on the accessors make the reader a
  refinement of lookup in the term.
\<close>

section \<open>Values and their text\<close>

datatype json =
    JNull
  | JBool bool
  | JInt int
  | JStr string
  | JRaw string
  | JArr "json list"
  | JObj "(string \<times> json) list"

fun commas :: "string list \<Rightarrow> string" where
  "commas [] = []"
| "commas [x] = x"
| "commas (x # y # xs) = x @ CHR '','' # commas (y # xs)"

lemma commas_Cons: "commas (x # xs) = x @ (if xs = [] then [] else CHR '','' # commas xs)"
  by (cases xs) auto

lemma commas_snoc: "commas (xs @ [x]) = (if xs = [] then x else commas xs @ CHR '','' # x)"
  by (induction xs rule: commas.induct) (auto simp: commas_Cons)

fun json_text :: "json \<Rightarrow> string" where
  "json_text JNull = ''null''"
| "json_text (JBool b) = (if b then ''true'' else ''false'')"
| "json_text (JInt i) = int_dec i"
| "json_text (JStr s) = json_quote s"
| "json_text (JRaw s) = s"
| "json_text (JArr xs) = CHR ''['' # commas (map json_text xs) @ '']''"
| "json_text (JObj ms) =
     CHR ''{'' # commas (map (\<lambda>(k, v). QUOTE # k @ QUOTE # CHR '':'' # json_text v) ms) @ ''}''"

definition member_text :: "string \<times> json \<Rightarrow> string" where
  "member_text m = QUOTE # fst m @ QUOTE # CHR '':'' # json_text (snd m)"

lemma json_text_obj: "json_text (JObj ms) = CHR ''{'' # commas (map member_text ms) @ ''}''"
  by (simp add: member_text_def case_prod_beta' cong: map_cong)

text \<open>Raw text is one JSON value that is not a number, with nothing around it.\<close>

definition raw_ok :: "string \<Rightarrow> bool" where
  "raw_ok s \<longleftrightarrow>
     (case json_parse s of
        JOk v r \<Rightarrow> r = [] \<and> jv_src v = s \<and> jv_len v = length s \<and> jv_type v \<noteq> JSON_NUMBER
      | _ \<Rightarrow> False)"

definition simple_key :: "string \<Rightarrow> bool" where
  "simple_key k \<longleftrightarrow> QUOTE \<notin> set k \<and> BSLASH \<notin> set k"

fun json_ok :: "json \<Rightarrow> bool" where
  "json_ok (JRaw s) = raw_ok s"
| "json_ok (JArr xs) = (\<forall>x \<in> set xs. json_ok x)"
| "json_ok (JObj ms) = (\<forall>m \<in> set ms. simple_key (fst m) \<and> json_ok (snd m))"
| "json_ok _ = True"

fun json_kind :: "json \<Rightarrow> json_type" where
  "json_kind JNull = JSON_NULL"
| "json_kind (JBool b) = JSON_BOOL"
| "json_kind (JInt i) = JSON_NUMBER"
| "json_kind (JStr s) = JSON_STRING"
| "json_kind (JRaw s) = jv_type (parsed_val (json_parse s))"
| "json_kind (JArr xs) = JSON_ARRAY"
| "json_kind (JObj ms) = JSON_OBJECT"

text \<open>A text a number may stand before.\<close>

definition sep :: "string \<Rightarrow> bool" where
  "sep r \<longleftrightarrow> (case r of [] \<Rightarrow> True | c # _ \<Rightarrow> \<not> isdigit c \<and> c \<notin> set ''.eE'')"

definition view :: "json \<Rightarrow> string \<Rightarrow> json_val" where
  "view v r = \<lparr>jv_type = json_kind v, jv_src = json_text v @ r, jv_len = length (json_text v)\<rparr>"

definition is_view :: "json_val \<Rightarrow> json \<Rightarrow> bool" where
  "is_view jv v \<longleftrightarrow> (\<exists>r. jv = view v r)"

section \<open>More text after a value\<close>

lemma skip_ws_nonws: "\<not> is_ws c \<Longrightarrow> skip_ws (c # s) = c # s"
  by (simp add: skip_ws_def)

lemma skip_ws_append: "skip_ws s \<noteq> [] \<Longrightarrow> skip_ws (s @ r) = skip_ws s @ r"
  by (induction s) (auto simp: skip_ws_def)

lemma skip_digits_append: "skip_digits s \<noteq> [] \<Longrightarrow> skip_digits (s @ r) = skip_digits s @ r"
  by (induction s) (auto simp: skip_digits_def)

lemma num_Nil [simp]: "num_exp [] = []" "num_frac [] = []" "num_minus [] = []" "skip_digits [] = []"
  by (simp_all add: num_exp_def num_frac_def num_minus_def skip_digits_def)

lemma num_append:
  "num_exp t \<noteq> [] \<Longrightarrow> num_exp (t @ r) = num_exp t @ r"
  "num_frac t \<noteq> [] \<Longrightarrow> num_frac (t @ r) = num_frac t @ r"
  "num_minus t \<noteq> [] \<Longrightarrow> num_minus (t @ r) = num_minus t @ r"
proof -
  have sg: "num_sign u \<noteq> [] \<Longrightarrow> num_sign (u @ r) = num_sign u @ r" for u
    by (auto simp: num_sign_def split: list.splits)
  have "skip_digits (num_sign u) \<noteq> [] \<Longrightarrow> skip_digits (num_sign (u @ r)) = skip_digits (num_sign u) @ r" for u
    using sg [of u] skip_digits_append [of "num_sign u" r] num_Nil(4) by metis
  from this [of "tl t"] show "num_exp t \<noteq> [] \<Longrightarrow> num_exp (t @ r) = num_exp t @ r"
    by (auto simp: num_exp_def split: list.splits if_splits)
  show "num_frac t \<noteq> [] \<Longrightarrow> num_frac (t @ r) = num_frac t @ r"
    using skip_digits_append [of "tl t" r] by (auto simp: num_frac_def split: list.splits if_splits)
  show "num_minus t \<noteq> [] \<Longrightarrow> num_minus (t @ r) = num_minus t @ r"
    by (auto simp: num_minus_def split: list.splits if_splits)
qed

lemma number_rest_append:
  assumes "number_rest t \<noteq> []" shows "number_rest (t @ r) = number_rest t @ r"
proof -
  have ne: "num_frac (skip_digits (num_minus t)) \<noteq> []" "skip_digits (num_minus t) \<noteq> []" "num_minus t \<noteq> []"
    using assms num_Nil unfolding number_rest_def by metis+
  show ?thesis
    using num_append(3) [OF ne(3), of r] skip_digits_append [OF ne(2), of r] num_append(2) [OF ne(1), of r]
      num_append(1) [of "num_frac (skip_digits (num_minus t))" r] assms
    by (simp add: number_rest_def)
qed

lemma string_rest_append: "string_rest t q \<Longrightarrow> string_rest (t @ r) (q @ r)"
  by (induction rule: string_rest.induct) (simp_all add: string_rest.intros)

lemma skip_ws_append_Cons: "skip_ws s = c # t \<Longrightarrow> skip_ws (s @ r) = c # t @ r"
  using skip_ws_append [of s r] by simp

lemma skip_ws_more: "skip_ws r = c # t \<Longrightarrow> r \<noteq> []"
  by (auto simp: skip_ws_def)

text \<open>Text behind a value does not change it, unless it can go on with a number.\<close>

lemma rest_append:
  "value_at s ty q \<Longrightarrow> q \<noteq> [] \<or> ty \<noteq> JSON_NUMBER \<Longrightarrow> value_at (s @ x) ty (q @ x)"
  "elements_at s q \<Longrightarrow> elements_at (s @ x) (q @ x)"
  "members_at s q \<Longrightarrow> members_at (s @ x) (q @ x)"
proof (induction rule: value_at_elements_at_members_at.inducts)
  case (string s t q)
  show ?case
    by (rule value_at_elements_at_members_at.string [of _ "t @ x"])
       (use string in \<open>simp_all add: skip_ws_append_Cons string_rest_append\<close>)
next
  case (word s w q ty)
  then have "skip_ws s \<noteq> []" by (auto simp: json_words_def)
  then have "skip_ws (s @ x) = w @ q @ x" using skip_ws_append [of s x] word(1) by simp
  then show ?case using word(2) by (rule value_at_elements_at_members_at.word)
next
  case (number s c t q)
  show ?case
    by (rule value_at_elements_at_members_at.number [of _ c "t @ x"])
       (use number number_rest_append [of "c # t" x] in \<open>simp_all add: skip_ws_append_Cons\<close>)
next
  case (no_elements s t q)
  show ?case
    by (rule value_at_elements_at_members_at.no_elements [of _ "t @ x"])
       (use no_elements in \<open>simp_all add: skip_ws_append_Cons\<close>)
next
  case (elements s t q)
  show ?case
    by (rule value_at_elements_at_members_at.elements [of _ "t @ x"])
       (use elements in \<open>simp_all add: skip_ws_append_Cons\<close>)
next
  case (no_members s t q)
  show ?case
    by (rule value_at_elements_at_members_at.no_members [of _ "t @ x"])
       (use no_members in \<open>simp_all add: skip_ws_append_Cons\<close>)
next
  case (members s t q)
  show ?case
    by (rule value_at_elements_at_members_at.members [of _ "t @ x"])
       (use members in \<open>simp_all add: skip_ws_append_Cons\<close>)
next
  case (last_element s ty r q)
  show ?case
    by (rule value_at_elements_at_members_at.last_element [of _ ty "r @ x"])
       (use last_element skip_ws_more [OF last_element.hyps(2)] in \<open>simp_all add: skip_ws_append_Cons\<close>)
next
  case (more_elements s ty r t q)
  show ?case
    by (rule value_at_elements_at_members_at.more_elements [of _ ty "r @ x" "t @ x"])
       (use more_elements skip_ws_more [OF more_elements.hyps(2)] in \<open>simp_all add: skip_ws_append_Cons\<close>)
next
  case (last_member s k r t ty r2 q)
  show ?case
    by (rule value_at_elements_at_members_at.last_member [of _ "k @ x" "r @ x" "t @ x" ty "r2 @ x"])
       (use last_member skip_ws_more [OF last_member.hyps(5)] in \<open>simp_all add: skip_ws_append_Cons string_rest_append\<close>)
next
  case (more_members s k r t ty r2 t2 q)
  show ?case
    by (rule value_at_elements_at_members_at.more_members [of _ "k @ x" "r @ x" "t @ x" ty "r2 @ x" "t2 @ x"])
       (use more_members skip_ws_more [OF more_members.hyps(5)] in \<open>simp_all add: skip_ws_append_Cons string_rest_append\<close>)
qed

lemma json_parse_append:
  assumes "json_parse s = JOk v q" "q \<noteq> [] \<or> jv_type v \<noteq> JSON_NUMBER"
  shows "json_parse (s @ r) = JOk (v\<lparr>jv_src := jv_src v @ r\<rparr>) (q @ r)"
proof -
  obtain ty where ty: "value_at s ty q" and v: "v = cut_view ty (skip_ws s) q" using json_parse_sound [OF assms(1)] by blast
  have "value_at (s @ r) ty (q @ r)" using assms(2) v by (intro rest_append(1) [OF ty]) simp
  moreover have "skip_ws (s @ r) = skip_ws s @ r" using value_first [OF ty] skip_ws_append by blast
  ultimately show ?thesis using parse_complete(1) by (simp add: v)
qed

section \<open>Reading what was written\<close>

lemma scan_skip: "c \<noteq> QUOTE \<Longrightarrow> c \<noteq> BSLASH \<Longrightarrow> scan_string st (c # s) = scan_string st s"
  by simp

lemma scan_pair: "scan_string st (BSLASH # d # s) = scan_string st s"
  by (simp add: char_defs)

lemma hex_char_plain: "d < 16 \<Longrightarrow> hex_char d \<noteq> QUOTE \<and> hex_char d \<noteq> BSLASH"
  using ord_hex_char [of d] by (auto simp: char_defs ord_def split: if_splits)

lemma not_ws: "\<not> is_ws QUOTE" "\<not> is_ws (CHR ''{'')" "\<not> is_ws (CHR ''['')" "\<not> is_ws (CHR '','')"
  "\<not> is_ws (CHR '':'')" "\<not> is_ws (CHR ''}'')" "\<not> is_ws (CHR '']'')" "\<not> is_ws (CHR ''t'')"
  "\<not> is_ws (CHR ''f'')" "\<not> is_ws (CHR ''n'')" "\<not> is_ws (CHR ''-'')"
  by (simp_all add: is_ws_def char_defs)

lemmas skip_ws_here [simp] = not_ws [THEN skip_ws_nonws]

lemma json_escape_cases:
  obtains (plain) "json_escape c = [c]" "c \<noteq> QUOTE" "c \<noteq> BSLASH" "32 \<le> ord c"
  | (pair) d where "json_escape c = [BSLASH, d]"
      "(d, c) \<in> {(QUOTE, QUOTE), (BSLASH, BSLASH), (CHR ''b'', CHR 0x08), (CHR ''f'', CHR 0x0C),
                 (CHR ''n'', LF), (CHR ''r'', CR), (CHR ''t'', TAB)}"
  | (hex) "json_escape c = BSLASH # CHR ''u'' # hex4 (ord c)" "ord c < 32"
proof -
  consider "c \<in> {QUOTE, BSLASH, CHR 0x08, CHR 0x0C, LF, CR, TAB}"
    | "c \<notin> {QUOTE, BSLASH, CHR 0x08, CHR 0x0C, LF, CR, TAB}" "ord c < 32"
    | "c \<notin> {QUOTE, BSLASH, CHR 0x08, CHR 0x0C, LF, CR, TAB}" "32 \<le> ord c"
    by linarith
  then show ?thesis
  proof cases
    case 1
    then show ?thesis
      by (elim insertE emptyE; simp only:; intro pair; simp add: json_escape_def char_defs)
  next
    case 2
    then show ?thesis by (intro hex) (simp_all add: json_escape_def)
  next
    case 3
    then show ?thesis by (intro plain) (simp_all add: json_escape_def)
  qed
qed

lemma scan_escape: "scan_string st (json_escape c @ s) = scan_string st s"
proof (cases c rule: json_escape_cases)
  case plain
  then show ?thesis by (simp add: scan_skip del: scan_string.simps)
next
  case (pair d)
  then show ?thesis by (simp add: scan_pair del: scan_string.simps)
next
  case hex
  then show ?thesis
    by (simp add: scan_pair hex4_def scan_skip hex_char_plain del: scan_string.simps)
qed

lemma json_parse_first:
  "json_parse (QUOTE # r) = parse_string (QUOTE # r)"
  "json_parse (CHR ''{'' # r) =
     (let s1 = skip_ws r in
      if starts (CHR ''}'') s1 then make_val JSON_OBJECT (CHR ''{'' # r) (tl s1)
      else object_loop (CHR ''{'' # r) s1)"
  "json_parse (CHR ''['' # r) =
     (let s1 = skip_ws r in
      if starts (CHR '']'') s1 then make_val JSON_ARRAY (CHR ''['' # r) (tl s1)
      else array_loop (CHR ''['' # r) s1)"
  "json_parse (CHR ''t'' # r) = parse_word ''true'' JSON_BOOL (CHR ''t'' # r)"
  "json_parse (CHR ''f'' # r) = parse_word ''false'' JSON_BOOL (CHR ''f'' # r)"
  "json_parse (CHR ''n'' # r) = parse_word ''null'' JSON_NULL (CHR ''n'' # r)"
  "c = CHR ''-'' \<or> isdigit c \<Longrightarrow> json_parse (c # r) = parse_number (c # r)"
  "json_parse (CHR '']'' # r) = JErr ''unexpected character''"
proof -
  have q: "QUOTE \<noteq> CHR ''{''" "QUOTE \<noteq> CHR ''[''" "QUOTE \<noteq> CHR ''t''" "QUOTE \<noteq> CHR ''f''" "QUOTE \<noteq> CHR ''n''"
    "QUOTE \<noteq> CHR '']''"
    by (simp_all add: QUOTE_def)
  have d: "\<not> isdigit (CHR '']'')" by (simp add: isdigit_def ord_def)
  show "json_parse (QUOTE # r) = parse_string (QUOTE # r)"
    "json_parse (CHR ''{'' # r) =
     (let s1 = skip_ws r in
      if starts (CHR ''}'') s1 then make_val JSON_OBJECT (CHR ''{'' # r) (tl s1)
      else object_loop (CHR ''{'' # r) s1)"
    "json_parse (CHR ''['' # r) =
     (let s1 = skip_ws r in
      if starts (CHR '']'') s1 then make_val JSON_ARRAY (CHR ''['' # r) (tl s1)
      else array_loop (CHR ''['' # r) s1)"
    "json_parse (CHR ''t'' # r) = parse_word ''true'' JSON_BOOL (CHR ''t'' # r)"
    "json_parse (CHR ''f'' # r) = parse_word ''false'' JSON_BOOL (CHR ''f'' # r)"
    "json_parse (CHR ''n'' # r) = parse_word ''null'' JSON_NULL (CHR ''n'' # r)"
    "json_parse (CHR '']'' # r) = JErr ''unexpected character''"
    using q q [symmetric] d by (simp_all add: json_parse_eq Let_def)
  assume c: "c = CHR ''-'' \<or> isdigit c"
  then have "\<not> is_ws c" "c \<noteq> QUOTE" "c \<noteq> CHR ''{''" "c \<noteq> CHR ''[''" "c \<noteq> CHR ''t''" "c \<noteq> CHR ''f''" "c \<noteq> CHR ''n''"
    by (auto simp: isdigit_def ord_def is_ws_def char_defs)
  with c show "json_parse (c # r) = parse_number (c # r)"
    by (simp add: json_parse_eq skip_ws_nonws)
qed

lemma scan_quoted: "scan_string st (concat (map json_escape s) @ QUOTE # r) = make_val JSON_STRING st r"
  by (induction s) (simp_all add: scan_escape)

lemma parse_quoted: "parse_string (json_quote s @ r) = make_val JSON_STRING (json_quote s @ r) r"
  using scan_quoted [of "json_quote s @ r" s r] by (simp add: parse_string_def json_quote_def)

lemma json_parse_quoted: "json_parse (json_quote s @ r) = make_val JSON_STRING (json_quote s @ r) r"
  using parse_quoted [of s r] by (simp add: json_quote_def json_parse_first)

lemma skip_digits_stop: "\<forall>c \<in> set ds. isdigit c \<Longrightarrow> sep r \<Longrightarrow> skip_digits (ds @ r) = r"
  by (induction ds) (auto simp: skip_digits_def sep_def split: list.splits)

lemma num_tail: "sep r \<Longrightarrow> num_exp (num_frac r) = r"
  by (auto simp: sep_def num_exp_def num_frac_def split: list.splits)

lemma parse_int_text: "sep r \<Longrightarrow> parse_number (int_dec i @ r) = make_val JSON_NUMBER (int_dec i @ r) r"
proof -
  assume sep: "sep r"
  obtain d ds where nd: "nat_dec (nat i) = d # ds" by (cases "nat_dec (nat i)") auto
  then have "isdigit d" using nat_dec_digits [of "nat i"] by simp
  then have "d \<noteq> CHR ''-''" by (auto simp: isdigit_def ord_def)
  with nd sep show ?thesis
    using skip_digits_stop [OF nat_dec_digits [of "nat i"] sep] skip_digits_stop [OF nat_dec_digits [of "nat (- i)"] sep]
    by (auto simp: parse_number_def int_dec_def num_minus_def num_tail)
qed

lemma int_dec_first: "\<exists>c t. int_dec i = c # t \<and> (c = CHR ''-'' \<or> isdigit c)"
  using nat_dec_digits [of "nat i"] nat_dec_nonempty [of "nat i"]
  by (cases "i < 0"; cases "nat_dec (nat i)") (auto simp: int_dec_def)

lemma digit_not_ws: "c = CHR ''-'' \<or> isdigit c \<Longrightarrow> \<not> is_ws c"
  by (auto simp: isdigit_def ord_def is_ws_def char_defs)

lemma json_parse_int: "sep r \<Longrightarrow> json_parse (int_dec i @ r) = make_val JSON_NUMBER (int_dec i @ r) r"
  using parse_int_text [of r i] int_dec_first [of i] by (auto simp: json_parse_first)

lemma json_parse_words:
  "json_parse (''true'' @ r) = make_val JSON_BOOL (''true'' @ r) r"
  "json_parse (''false'' @ r) = make_val JSON_BOOL (''false'' @ r) r"
  "json_parse (''null'' @ r) = make_val JSON_NULL (''null'' @ r) r"
  by (simp_all add: json_parse_first parse_word_def)

lemma json_parse_raw:
  assumes "raw_ok s"
  shows "json_parse (s @ r) = JOk \<lparr>jv_type = json_kind (JRaw s), jv_src = s @ r, jv_len = length s\<rparr> r"
proof -
  from assms obtain v where v: "json_parse s = JOk v []" "jv_src v = s" "jv_len v = length s"
    "jv_type v \<noteq> JSON_NUMBER"
    by (auto simp: raw_ok_def split: jres.splits)
  from json_parse_append [OF v(1), of r] v show ?thesis by (cases v) (simp add: parsed_val_def)
qed

lemma raw_first: "raw_ok s \<Longrightarrow> skip_ws (s @ r) = s @ r"
proof -
  assume "raw_ok s"
  then obtain v where v: "json_parse s = JOk v []" "jv_src v = s" by (auto simp: raw_ok_def split: jres.splits)
  then have "skip_ws s = s" using json_parse_src by metis
  moreover have "s \<noteq> []" using json_parse_len [OF v(1)] by auto
  ultimately show ?thesis using skip_ws_append [of s r] by simp
qed

text \<open>The text of a value starts with no blank.\<close>

lemma text_first: "json_ok v \<Longrightarrow> skip_ws (json_text v @ r) = json_text v @ r"
proof (cases v)
  case (JInt i)
  with int_dec_first [of i] show ?thesis by (auto simp: skip_ws_nonws digit_not_ws)
qed (auto simp: json_quote_def raw_first)

definition reads :: "json \<Rightarrow> bool" where
  "reads v \<longleftrightarrow>
     (\<forall>r. (json_kind v = JSON_NUMBER \<longrightarrow> sep r) \<longrightarrow> json_parse (json_text v @ r) = JOk (view v r) r)"

lemma sep_simps [simp]: "sep []" "sep (CHR '','' # r)" "sep (CHR '']'' # r)" "sep (CHR ''}'' # r)"
  by (simp_all add: sep_def isdigit_def ord_def)

lemma array_loop_text:
  assumes "xs \<noteq> []" "\<forall>x \<in> set xs. json_ok x \<and> reads x"
  shows "array_loop st (commas (map json_text xs) @ CHR '']'' # r) = make_val JSON_ARRAY st r"
  using assms
proof (induction xs)
  case (Cons x xs)
  then have x: "json_ok x" "reads x" by auto
  show ?case
  proof (cases "xs = []")
    case True
    have "json_parse (json_text x @ CHR '']'' # r) = JOk (view x (CHR '']'' # r)) (CHR '']'' # r)"
      using x(2) by (simp add: reads_def)
    with True text_first [OF x(1)] show ?thesis
      by (subst array_loop_eq) (simp add: Let_def)
  next
    case False
    let ?r = "CHR '','' # commas (map json_text xs) @ CHR '']'' # r"
    have "json_parse (json_text x @ ?r) = JOk (view x ?r) ?r"
      using x(2) by (simp add: reads_def)
    with False text_first [OF x(1), of ?r] Cons show ?thesis
      by (subst array_loop_eq) (simp add: Let_def commas_Cons)
  qed
qed simp

lemma scan_key: "simple_key k \<Longrightarrow> scan_string st (k @ QUOTE # r) = make_val JSON_STRING st r"
  by (induction k) (auto simp: simple_key_def)

definition key_val :: "string \<Rightarrow> string \<Rightarrow> json_val" where
  "key_val k r = \<lparr>jv_type = JSON_STRING, jv_src = QUOTE # k @ QUOTE # r, jv_len = length k + 2\<rparr>"

lemma parse_key: "simple_key k \<Longrightarrow> parse_string (QUOTE # k @ QUOTE # r) = JOk (key_val k r) r"
  by (simp add: parse_string_def scan_key make_val_def key_val_def)

text \<open>One member at the front of the members of an object.\<close>

lemma member_front:
  assumes "simple_key k" "json_ok v"
  shows "skip_ws (member_text (k, v) @ r) = QUOTE # k @ QUOTE # CHR '':'' # json_text v @ r"
    "parse_string (QUOTE # k @ QUOTE # CHR '':'' # json_text v @ r)
       = JOk (key_val k (CHR '':'' # json_text v @ r)) (CHR '':'' # json_text v @ r)"
    "skip_ws (json_text v @ r) = json_text v @ r"
  using assms parse_key text_first by (simp_all add: member_text_def)

lemma object_loop_text:
  assumes "ms \<noteq> []" "\<forall>m \<in> set ms. simple_key (fst m) \<and> json_ok (snd m) \<and> reads (snd m)"
  shows "object_loop st (commas (map member_text ms) @ CHR ''}'' # r) = make_val JSON_OBJECT st r"
  using assms
proof (induction ms)
  case (Cons m ms)
  obtain k v where m: "m = (k, v)" by (cases m)
  with Cons have v: "simple_key k" "json_ok v" "reads v" by auto
  show ?case
  proof (cases "ms = []")
    case True
    have "json_parse (json_text v @ CHR ''}'' # r) = JOk (view v (CHR ''}'' # r)) (CHR ''}'' # r)"
      using v(3) by (simp add: reads_def)
    with True member_front [OF v(1,2), of "CHR ''}'' # r"] m show ?thesis
      by (subst object_loop_eq) (simp add: Let_def)
  next
    case False
    let ?r = "CHR '','' # commas (map member_text ms) @ CHR ''}'' # r"
    have "json_parse (json_text v @ ?r) = JOk (view v ?r) ?r"
      using v(3) by (simp add: reads_def)
    with False member_front [OF v(1,2), of ?r] m Cons show ?thesis
      by (subst object_loop_eq) (simp add: Let_def commas_Cons)
  qed
qed simp

lemma first_not_bracket:
  assumes "reads x"
  shows "\<not> starts (CHR '']'') (json_text x @ r)"
proof
  assume "starts (CHR '']'') (json_text x @ r)"
  then obtain q where q: "json_text x @ r = CHR '']'' # q" by (auto simp: starts_Cons)
  have P: "json_parse (json_text x @ CHR '','' # []) = JOk (view x (CHR '','' # [])) (CHR '','' # [])"
    using assms by (simp add: reads_def)
  show False
  proof (cases "json_text x")
    case Nil
    with json_parse_len [OF P] show False by simp
  next
    case (Cons c u)
    with q P show False by (simp add: json_parse_first)
  qed
qed

text \<open>Every value the program writes is read back as what it is, whatever follows.\<close>

lemma parse_text: "json_ok v \<Longrightarrow> reads v"
proof (induction v)
  case JNull
  show ?case using json_parse_words(3) by (simp add: reads_def view_def make_val_def)
next
  case (JBool b)
  show ?case using json_parse_words by (simp add: reads_def view_def make_val_def)
next
  case (JInt i)
  show ?case using json_parse_int by (simp add: reads_def view_def make_val_def)
next
  case (JStr s)
  show ?case using json_parse_quoted by (simp add: reads_def view_def make_val_def)
next
  case (JRaw s)
  then show ?case using json_parse_raw by (simp add: reads_def view_def)
next
  case (JArr xs)
  have "json_parse (json_text (JArr xs) @ r) = make_val JSON_ARRAY (json_text (JArr xs) @ r) r" for r
  proof (cases xs)
    case Nil
    then show ?thesis by (simp add: json_parse_first)
  next
    case (Cons x ys)
    have ok: "\<forall>x \<in> set xs. json_ok x \<and> reads x" using JArr by simp
    have "skip_ws (commas (map json_text xs) @ CHR '']'' # r) = commas (map json_text xs) @ CHR '']'' # r"
      "\<not> starts (CHR '']'') (commas (map json_text xs) @ CHR '']'' # r)"
      using ok Cons text_first [of x] first_not_bracket [of x] by (simp_all add: commas_Cons)
    with array_loop_text [OF _ ok] Cons show ?thesis
      by (simp add: json_parse_first Let_def del: list.simps(9))
  qed
  then show ?case by (simp add: reads_def view_def make_val_def)
next
  case (JObj ms)
  have "json_parse (json_text (JObj ms) @ r) = make_val JSON_OBJECT (json_text (JObj ms) @ r) r" for r
  proof (cases ms)
    case Nil
    then show ?thesis by (simp add: json_parse_first)
  next
    case (Cons m ns)
    have ok: "\<forall>m \<in> set ms. simple_key (fst m) \<and> json_ok (snd m) \<and> reads (snd m)"
      using JObj by (fastforce simp: snds.simps)
    have "skip_ws (commas (map member_text ms) @ CHR ''}'' # r) = commas (map member_text ms) @ CHR ''}'' # r"
      "\<not> starts (CHR ''}'') (commas (map member_text ms) @ CHR ''}'' # r)"
      using Cons by (simp, simp_all add: commas_Cons member_text_def) (simp add: QUOTE_def)
    with object_loop_text [OF _ ok] Cons show ?thesis
      by (simp add: json_text_obj json_parse_first Let_def del: list.simps(9) json_text.simps)
  qed
  then show ?case by (simp add: reads_def view_def make_val_def json_text_obj del: json_text.simps)
qed

section \<open>The accessors\<close>

lemma is_view_type: "is_view jv v \<Longrightarrow> jv_type jv = json_kind v"
  by (auto simp: is_view_def view_def)

lemma is_view_raw: "is_view jv v \<Longrightarrow> json_raw jv = json_text v"
  by (auto simp: is_view_def view_def json_raw_def)

lemma is_viewI [simp]: "is_view (view v r) v"
  by (auto simp: is_view_def)

lemma get_loop_text:
  assumes "ms \<noteq> []" "\<forall>m \<in> set ms. simple_key (fst m) \<and> json_ok (snd m)"
  shows "case map_of ms key of
     None \<Rightarrow> get_loop key (commas (map member_text ms) @ CHR ''}'' # r) = null_val
   | Some v \<Rightarrow> is_view (get_loop key (commas (map member_text ms) @ CHR ''}'' # r)) v"
  using assms
proof (induction ms)
  case (Cons m ms)
  obtain k v where m: "m = (k, v)" by (cases m)
  with Cons have v: "simple_key k" "json_ok v" by auto
  define q where "q = (if ms = [] then CHR ''}'' # r else CHR '','' # commas (map member_text ms) @ CHR ''}'' # r)"
  have tx: "commas (map member_text (m # ms)) @ CHR ''}'' # r = member_text (k, v) @ q"
    by (simp add: m q_def commas_Cons)
  note front = member_front [OF v, of q]
  have sq: "sep q" by (simp add: q_def)
  have P: "json_parse (json_text v @ q) = JOk (view v q) q"
    using parse_text [OF v(2)] sq by (simp add: reads_def)
  have klen: "jv_len (key_val k t) - 1 - 1 = length k" "drop 1 (jv_src (key_val k t)) = k @ QUOTE # t" for t
    by (simp_all add: key_val_def)
  have step: "get_loop key (member_text (k, v) @ q) =
      (if key = k then view v q
       else if starts (CHR '','') (skip_ws q) then get_loop key (tl (skip_ws q)) else null_val)"
    by (subst get_loop.simps) (use front P klen in \<open>auto simp: Let_def parsed_val_def\<close>)
  show ?case
  proof (cases "key = k")
    case True
    with tx step m show ?thesis by simp
  next
    case False
    show ?thesis
    proof (cases "ms = []")
      case True
      with False step tx m show ?thesis by (simp add: q_def)
    next
      case ne: False
      have "get_loop key (commas (map member_text (m # ms)) @ CHR ''}'' # r)
          = get_loop key (commas (map member_text ms) @ CHR ''}'' # r)"
        unfolding tx using step False ne by (simp add: q_def)
      with Cons.IH [OF ne] Cons.prems(2) m False show ?thesis
        by (cases "map_of ms key") (simp_all del: list.simps(9))
    qed
  qed
qed simp

text \<open>Looking up a key of an object is looking it up in the term.\<close>

lemma json_get_view:
  assumes "is_view jv (JObj ms)" "json_ok (JObj ms)"
  shows "case map_of ms key of None \<Rightarrow> json_get jv key = null_val | Some v \<Rightarrow> is_view (json_get jv key) v"
proof -
  from assms(1) obtain r where jv: "jv = view (JObj ms) r" by (auto simp: is_view_def)
  show ?thesis
  proof (cases "ms = []")
    case True
    then show ?thesis by (simp add: jv view_def json_get_def Let_def)
  next
    case False
    then obtain m ns where ms: "ms = m # ns" by (cases ms) auto
    have "skip_ws (commas (map member_text ms) @ CHR ''}'' # r) = commas (map member_text ms) @ CHR ''}'' # r"
      "\<not> starts (CHR ''}'') (commas (map member_text ms) @ CHR ''}'' # r)"
      using ms by (simp, simp_all add: commas_Cons member_text_def) (simp add: QUOTE_def)
    then have "json_get jv key = get_loop key (commas (map member_text ms) @ CHR ''}'' # r)"
      by (simp add: jv view_def json_get_def json_text_obj Let_def del: json_text.simps)
    with get_loop_text [OF False, of key r] assms(2) show ?thesis
      by (cases "map_of ms key") simp_all
  qed
qed

lemma json_get_some:
  "is_view jv (JObj ms) \<Longrightarrow> json_ok (JObj ms) \<Longrightarrow> map_of ms key = Some v \<Longrightarrow> is_view (json_get jv key) v"
  using json_get_view [of jv ms key] by simp

lemma json_get_none:
  "is_view jv (JObj ms) \<Longrightarrow> json_ok (JObj ms) \<Longrightarrow> map_of ms key = None \<Longrightarrow> json_get jv key = null_val"
  using json_get_view [of jv ms key] by simp

lemma json_ok_member: "json_ok (JObj ms) \<Longrightarrow> map_of ms key = Some v \<Longrightarrow> json_ok v"
  using map_of_SomeD by fastforce

lemma len_loop_text:
  "xs \<noteq> [] \<Longrightarrow> \<forall>x \<in> set xs. json_ok x \<Longrightarrow>
     len_loop (commas (map json_text xs) @ CHR '']'' # r) n = n + int (length xs)"
proof (induction xs arbitrary: n)
  case (Cons x xs)
  then have x: "json_ok x" by auto
  define q where "q = (if xs = [] then CHR '']'' # r else CHR '','' # commas (map json_text xs) @ CHR '']'' # r)"
  have tx: "commas (map json_text (x # xs)) @ CHR '']'' # r = json_text x @ q"
    by (simp add: q_def commas_Cons)
  have "json_parse (json_text x @ q) = JOk (view x q) q"
    using parse_text [OF x] by (simp add: reads_def q_def)
  with text_first [OF x, of q] Cons show ?case
    unfolding tx by (subst len_loop.simps) (simp add: Let_def q_def)
qed simp

lemma nth_loop_text:
  "xs \<noteq> [] \<Longrightarrow> \<forall>x \<in> set xs. json_ok x \<Longrightarrow> cur \<le> i \<Longrightarrow>
     (if nat (i - cur) < length xs
      then is_view (nth_loop (commas (map json_text xs) @ CHR '']'' # r) cur i) (xs ! nat (i - cur))
      else nth_loop (commas (map json_text xs) @ CHR '']'' # r) cur i = null_val)"
proof (induction xs arbitrary: cur)
  case (Cons x xs)
  then have x: "json_ok x" by auto
  define q where "q = (if xs = [] then CHR '']'' # r else CHR '','' # commas (map json_text xs) @ CHR '']'' # r)"
  have tx: "commas (map json_text (x # xs)) @ CHR '']'' # r = json_text x @ q"
    by (simp add: q_def commas_Cons)
  have "json_parse (json_text x @ q) = JOk (view x q) q"
    using parse_text [OF x] by (simp add: reads_def q_def)
  with text_first [OF x, of q]
  have step: "nth_loop (json_text x @ q) cur i =
      (if cur = i then view x q
       else if starts (CHR '','') (skip_ws q) then nth_loop (tl (skip_ws q)) (cur + 1) i else null_val)"
    by (subst nth_loop.simps) (simp add: Let_def)
  show ?case
  proof (cases "cur = i")
    case True
    then show ?thesis unfolding tx using step by simp
  next
    case False
    then have n: "nat (i - cur) = Suc (nat (i - (cur + 1)))" using Cons.prems(3) by simp
    show ?thesis
    proof (cases "xs = []")
      case True
      then show ?thesis unfolding tx using step False n by (simp add: q_def)
    next
      case ne: False
      have "nth_loop (json_text x @ q) cur i = nth_loop (commas (map json_text xs) @ CHR '']'' # r) (cur + 1) i"
        using step ne False by (simp add: q_def)
      with Cons.IH [OF ne, of "cur + 1"] Cons.prems False n show ?thesis
        unfolding tx by simp
    qed
  qed
qed simp

lemma json_array_view:
  assumes "is_view jv (JArr xs)" "json_ok (JArr xs)"
  shows "json_array_len jv = int (length xs)"
    "i < length xs \<Longrightarrow> is_view (json_array_get jv (int i)) (xs ! i)"
    "length xs \<le> i \<Longrightarrow> json_array_get jv (int i) = null_val"
proof -
  from assms(1) obtain r where jv: "jv = view (JArr xs) r" by (auto simp: is_view_def)
  have len: "json_array_len jv = int (length xs)
    \<and> (if i < length xs then is_view (json_array_get jv (int i)) (xs ! i) else json_array_get jv (int i) = null_val)"
    for i
  proof (cases xs)
    case Nil
    then show ?thesis by (simp add: jv view_def json_array_len_def json_array_get_def Let_def)
  next
    case (Cons x ys)
    have ok: "\<forall>x \<in> set xs. json_ok x" using assms(2) by simp
    have sk: "skip_ws (commas (map json_text xs) @ CHR '']'' # r) = commas (map json_text xs) @ CHR '']'' # r"
      "\<not> starts (CHR '']'') (commas (map json_text xs) @ CHR '']'' # r)"
      using ok Cons text_first [of x] first_not_bracket [of x] parse_text [of x] by (simp_all add: commas_Cons)
    then have "json_array_len jv = len_loop (commas (map json_text xs) @ CHR '']'' # r) 0"
      "json_array_get jv (int i) = nth_loop (commas (map json_text xs) @ CHR '']'' # r) 0 (int i)"
      by (simp_all add: jv view_def json_array_len_def json_array_get_def Let_def)
    moreover have "xs \<noteq> []" using Cons by simp
    ultimately show ?thesis
      using len_loop_text [OF _ ok, of r 0] nth_loop_text [OF _ ok, of 0 "int i" r]
      by (cases "i < length xs") simp_all
  qed
  from len [of 0] show "json_array_len jv = int (length xs)" by simp
  from len show "i < length xs \<Longrightarrow> is_view (json_array_get jv (int i)) (xs ! i)" by presburger
  from len [of i] show "length xs \<le> i \<Longrightarrow> json_array_get jv (int i) = null_val" by auto
qed

section \<open>Decoding strings\<close>

lemma hex_digit_char: "d < 16 \<Longrightarrow> hex_digit (hex_char d) = Some d"
proof -
  assume d: "d < 16"
  show ?thesis
  proof (cases "d < 10")
    case True
    then have "ord (hex_char d) = 48 + d" by (simp add: ord_hex_char)
    with True show ?thesis by (simp add: hex_digit_def isdigit_def)
  next
    case False
    with d have "ord (hex_char d) = 87 + d" by (simp add: ord_hex_char)
    with False d show ?thesis by (simp add: hex_digit_def isdigit_def)
  qed
qed

lemma base16: "n < 65536 \<Longrightarrow>
    ((n div 4096 mod 16 * 16 + n div 256 mod 16) * 16 + n div 16 mod 16) * 16 + n mod 16 = (n::nat)"
proof -
  assume n: "n < 65536"
  have "n div 16 div 16 = n div 256" "n div 256 div 16 = n div 4096"
    by (simp_all add: div_mult2_eq [symmetric])
  then have "n div 16 = n div 256 * 16 + n div 16 mod 16" "n div 256 = n div 4096 * 16 + n div 256 mod 16"
    by (metis div_mult_mod_eq)+
  moreover have "n div 4096 mod 16 = n div 4096" using n by simp
  ultimately show ?thesis by (metis div_mult_mod_eq)
qed

lemma hex_any_hex4: "n < 65536 \<Longrightarrow> hex_any (hex4 n) = n"
  using base16 [of n] by (simp add: hex_any_def hex4_def hex_digit_char)

lemma decode_u_hex4: "n < 0xD800 \<Longrightarrow> decode_u (hex4 n @ r) = (n, r)"
  using hex_any_hex4 [of n] by (simp add: decode_u_def hex4_def Let_def)

lemma decode_escape: "json_decode (json_escape c @ s) = c # json_decode s"
proof (cases c rule: json_escape_cases)
  case plain
  then show ?thesis by simp
next
  case (pair d)
  then show ?thesis by (auto simp: char_defs)
next
  case hex
  then have "decode_u (hex4 (ord c) @ s) = (ord c, s)" by (intro decode_u_hex4) simp
  moreover have "utf8_encode (ord c) = [c]" using hex by (simp add: utf8_encode_def)
  ultimately show ?thesis using hex by (simp add: Let_def)
qed

lemma decode_quoted: "json_decode (concat (map json_escape s)) = s"
  by (induction s) (simp_all add: decode_escape)

lemma json_string_view:
  assumes "is_view jv (JStr s)"
  shows "json_string_val jv = Some (c_string s)"
proof -
  from assms obtain r where jv: "jv = view (JStr s) r" by (auto simp: is_view_def)
  have "take (length (json_quote s) - 2) (drop 1 (json_quote s @ r)) = concat (map json_escape s)"
    by (simp add: json_quote_def)
  then show ?thesis by (simp add: jv view_def json_string_val_def decode_quoted)
qed

lemma json_get_string_view:
  "is_view jv (JObj ms) \<Longrightarrow> json_ok (JObj ms) \<Longrightarrow> map_of ms key = Some (JStr s) \<Longrightarrow> nulfree s \<Longrightarrow>
     json_get_string jv key = Some s"
  by (simp add: json_get_string_def json_string_view [OF json_get_some])

lemma json_bool_view: "is_view jv (JBool b) \<Longrightarrow> json_bool_val jv = b"
  by (cases b) (auto simp: is_view_def view_def json_bool_val_def)

lemma json_get_bool_view:
  "is_view jv (JObj ms) \<Longrightarrow> json_ok (JObj ms) \<Longrightarrow> map_of ms key = Some (JBool b) \<Longrightarrow> json_get_bool jv key d = b"
  using json_get_some [of jv ms key "JBool b"] by (simp add: json_get_bool_def Let_def json_bool_view is_view_type)

lemma nat_dec_length: "n < 10 ^ Suc k \<Longrightarrow> length (nat_dec n) \<le> Suc k"
proof (induction k arbitrary: n)
  case 0
  then show ?case by (simp add: nat_dec.simps [of n])
next
  case (Suc k)
  then have "n div 10 < 10 ^ Suc k" by (simp add: less_mult_imp_div_less)
  with Suc show ?case by (auto simp: nat_dec.simps [of n])
qed

lemma int_dec_length: "\<bar>i\<bar> < 2 ^ 63 \<Longrightarrow> length (int_dec i) < 64"
proof -
  assume i: "\<bar>i\<bar> < 2 ^ 63"
  have "nat i < 10 ^ Suc 18" "nat (- i) < 10 ^ Suc 18" using i by (simp_all add: nat_less_iff)
  then show ?thesis using nat_dec_length [of "nat i" 18] nat_dec_length [of "nat (- i)" 18]
    by (simp add: int_dec_def)
qed

lemma json_get_int_view:
  assumes "is_view jv (JObj ms)" "json_ok (JObj ms)" "map_of ms key = Some (JInt i)"
    "- (2 ^ 31) \<le> i" "i < 2 ^ 31"
  shows "json_get_int jv key = i"
proof -
  have "is_view (json_get jv key) (JInt i)" by (rule json_get_some [OF assms(1-3)])
  then obtain r where r: "json_get jv key = view (JInt i) r" by (auto simp: is_view_def)
  have "length (int_dec i) < 64" using assms by (intro int_dec_length) simp
  then show ?thesis
    using assms double_to_int_strtod [of i] by (simp add: json_get_int_def json_number_text_def r view_def)
qed

section \<open>Lines of JSON\<close>

lemma json_quote_plain:
  "\<forall>c \<in> set s. 32 \<le> ord c \<and> c \<noteq> QUOTE \<and> c \<noteq> BSLASH \<Longrightarrow> json_quote s = QUOTE # s @ [QUOTE]"
proof (induction s)
  case (Cons c s)
  have c: "32 \<le> ord c" "c \<noteq> QUOTE" "c \<noteq> BSLASH" using Cons.prems by simp_all
  have "json_escape c = [c]"
  proof (cases c rule: json_escape_cases)
    case (pair d)
    with c show ?thesis by (auto simp: char_defs ord_def)
  qed (use c in simp_all)
  with Cons show ?case by (simp add: json_quote_def)
qed (simp add: json_quote_def)

text \<open>A line of a JSON-lines file.\<close>

definition line_ok :: "string \<Rightarrow> bool" where
  "line_ok l \<longleftrightarrow> LF \<notin> set l \<and> nulfree l"

lemma line_ok_simps [simp]:
  "line_ok []" "line_ok (c # s) \<longleftrightarrow> c \<noteq> LF \<and> c \<noteq> NUL \<and> line_ok s"
  "line_ok (s @ t) \<longleftrightarrow> line_ok s \<and> line_ok t" "line_ok (json_quote q)"
  by (auto simp: line_ok_def)

lemma commas_line_ok: "\<forall>x \<in> set xs. line_ok x \<Longrightarrow> line_ok (commas xs)"
  by (induction xs rule: commas.induct) (simp_all add: LF_def NUL_def)

fun json_line :: "json \<Rightarrow> bool" where
  "json_line (JRaw s) = line_ok s"
| "json_line (JArr xs) = (\<forall>x \<in> set xs. json_line x)"
| "json_line (JObj ms) = (\<forall>m \<in> set ms. line_ok (fst m) \<and> json_line (snd m))"
| "json_line _ = True"

lemma line_ok_int_dec [simp]: "line_ok (int_dec i)"
proof -
  have d: "LF \<notin> set (nat_dec n)" for n
    using nat_dec_digits [of n] by (auto simp: LF_def isdigit_def ord_def)
  moreover have "CHR ''-'' \<noteq> LF" by (simp add: LF_def)
  ultimately show ?thesis by (auto simp: line_ok_def int_dec_def NUL_def)
qed

lemma json_text_line_ok: "json_line v \<Longrightarrow> line_ok (json_text v)"
proof (induction v)
  case (JArr xs)
  then have "line_ok (commas (map json_text xs))" by (intro commas_line_ok) auto
  then show ?case by (simp add: LF_def NUL_def)
next
  case (JObj ms)
  have "line_ok (member_text m)" if m: "m \<in> set ms" for m
  proof -
    have "snd m \<in> Basic_BNFs.snds m" by (cases m) auto
    with JObj m have "line_ok (json_text (snd m))" "line_ok (fst m)" by auto
    moreover have "QUOTE \<noteq> LF" "QUOTE \<noteq> NUL" "CHR '':'' \<noteq> LF" "CHR '':'' \<noteq> NUL"
      by (simp_all add: char_defs)
    ultimately show ?thesis by (simp add: member_text_def)
  qed
  then have "line_ok (commas (map member_text ms))" by (intro commas_line_ok) auto
  then show ?case unfolding json_text_obj by (simp add: LF_def NUL_def)
qed (simp_all add: LF_def NUL_def)

section \<open>Reading past the end\<close>

lemma parse_string_suffix: "parse_string t = JOk v q \<Longrightarrow> suffix q t"
proof (cases t)
  case (Cons c u)
  assume "parse_string t = JOk v q"
  then have "suffix q u" using Cons string_rest_suffix suffix_order.less_imp_le by (auto simp: parse_string_iff)
  then show ?thesis using Cons suffix_ConsI by simp
qed (simp add: parse_string_def)

lemma ws_suffix: "skip_ws s = c # t \<Longrightarrow> suffix t s"
  using ws_Cons_suffix suffix_order.less_imp_le by blast

lemma scan_oob: "scan_string st s = JOob \<Longrightarrow> \<exists>u. s = u @ [BSLASH]"
proof (induction st s rule: scan_string.induct)
  case (2 st c s)
  then show ?case
    by (auto split: if_splits list.splits)
qed simp

definition ends_bs :: "string \<Rightarrow> bool" where
  "ends_bs s \<longleftrightarrow> suffix [BSLASH] s"

lemma ends_bs_suffix: "ends_bs t \<Longrightarrow> suffix t s \<Longrightarrow> ends_bs s"
  unfolding ends_bs_def using suffix_order.trans by blast

lemma parse_string_oob: "parse_string (c # t) = JOob \<Longrightarrow> ends_bs (c # t)"
  by (auto simp: parse_string_def ends_bs_def suffix_def dest: scan_oob)

lemma ends_bs_ws: "ends_bs (skip_ws s) \<Longrightarrow> ends_bs s"
  using skip_ws_suffix ends_bs_suffix by blast

lemma value_oob:
  assumes "parse_f (Suc n) s = JOob"
    and A: "\<And>st s. array_f n st s = JOob \<Longrightarrow> ends_bs s" and O: "\<And>st s. object_f n st s = JOob \<Longrightarrow> ends_bs s"
  shows "ends_bs s"
  using assms(1)
proof (cases rule: parse_f_cases)
  case (str t)
  then show ?thesis using parse_string_oob [OF str(2)] ends_bs_ws by simp
next
  case (obj t)
  then show ?thesis using ends_bs_ws [OF O [OF obj(3)]] ws_suffix [OF obj(1)] ends_bs_suffix by blast
next
  case (arr t)
  then show ?thesis using ends_bs_ws [OF A [OF arr(3)]] ws_suffix [OF arr(1)] ends_bs_suffix by blast
qed (auto simp: parse_word_def parse_number_def split: if_splits)

lemma elements_oob:
  assumes "array_f (Suc n) st s = JOob"
    and P: "\<And>s. parse_f n s = JOob \<Longrightarrow> ends_bs s" and A: "\<And>st s. array_f n st s = JOob \<Longrightarrow> ends_bs s"
  shows "ends_bs s"
  using assms(1)
proof (cases rule: array_f_cases)
  case err
  then show ?thesis using P ends_bs_ws by blast
next
  case (more v r t)
  have "suffix t (skip_ws s)" using ws_suffix [OF more(2)] parse_f_suffix [OF more(1)] suffix_order.trans by blast
  then show ?thesis using A [OF more(3)] ends_bs_suffix ends_bs_ws by blast
qed auto

lemma members_oob:
  assumes "object_f (Suc n) st s = JOob"
    and P: "\<And>s. parse_f n s = JOob \<Longrightarrow> ends_bs s" and O: "\<And>st s. object_f n st s = JOob \<Longrightarrow> ends_bs s"
  shows "ends_bs s"
proof -
  have "starts QUOTE (skip_ws s)"
    using assms(1) by (cases "starts QUOTE (skip_ws s)") (simp_all add: object_f.simps(2))
  then obtain u where u: "skip_ws s = QUOTE # u" by (auto simp: starts_Cons)
  have key: "suffix t (skip_ws s)" if "parse_string (skip_ws s) = JOk kv r" "skip_ws r = c # t" for kv r c t
    using parse_string_suffix [OF that(1)] ws_suffix [OF that(2)] suffix_order.trans by blast
  show ?thesis using assms(1)
  proof (cases rule: object_f_cases)
    case key
    then show ?thesis using u parse_string_oob ends_bs_ws by simp
  next
    case (err kv r t)
    then show ?thesis using ends_bs_ws [OF P [OF err(3)]] key [OF err(1,2)] ends_bs_suffix ends_bs_ws by blast
  next
    case (more kv r t v r2 t2)
    have "suffix t2 t"
      using ws_suffix [OF more(4)] parse_f_suffix [OF more(3)] skip_ws_suffix [of t] suffix_order.trans by meson
    then have "suffix t2 (skip_ws s)" using key [OF more(1,2)] suffix_order.trans by blast
    then show ?thesis using O [OF more(5)] ends_bs_suffix ends_bs_ws by blast
  qed auto
qed

lemma parse_oob:
  "(\<forall>s. parse_f n s = JOob \<longrightarrow> ends_bs s)
   \<and> (\<forall>st s. array_f n st s = JOob \<longrightarrow> ends_bs s)
   \<and> (\<forall>st s. object_f n st s = JOob \<longrightarrow> ends_bs s)"
proof (induction n)
  case (Suc n)
  have 1: "ends_bs s" if "parse_f (Suc n) s = JOob" for s using that by (rule value_oob) (use Suc in blast)+
  have 2: "ends_bs s" if "array_f (Suc n) st s = JOob" for st s using that by (rule elements_oob) (use Suc in blast)+
  have 3: "ends_bs s" if "object_f (Suc n) st s = JOob" for st s using that by (rule members_oob) (use Suc in blast)+
  from 1 2 3 show ?case by blast
qed simp

lemma json_parse_oob: "json_parse s = JOob \<Longrightarrow> ends_bs s"
  unfolding json_parse_def using parse_oob by blast

section \<open>Properties\<close>

lemma json_text_root: "json_ok v \<Longrightarrow> json_parse_root (Some (json_text v)) = JOk (view v []) []"
  using parse_text [of v] by (auto simp: reads_def json_parse_root_def skip_ws_def dest: spec [of _ "[]"])

text \<open>
  Every JSON value the program writes is parsed as the whole of its text, with the type it
  has; any further text leaves the value unchanged and is where the parse stops.
\<close>

lemma json_text_parsed:
  assumes "json_ok v" "json_kind v = JSON_NUMBER \<longrightarrow> sep r"
  shows "json_parse (json_text v @ r) = JOk (view v r) r
    \<and> json_parse_root (Some (json_text v)) = JOk (view v []) []"
proof -
  note P = parse_text [OF assms(1), unfolded reads_def, rule_format]
  show ?thesis using P [of r] assms json_text_root by simp
qed

lemma json_text_parsed_witness:
  "json_parse (json_text (JObj [(''a'', JArr [JInt (- 5), JBool True]), (''b'', JStr ''x'')]) @ '' ,'')
     = JOk (view (JObj [(''a'', JArr [JInt (- 5), JBool True]), (''b'', JStr ''x'')]) '' ,'') '' ,''"
  using json_text_parsed [of "JObj [(''a'', JArr [JInt (- 5), JBool True]), (''b'', JStr ''x'')]" "'' ,''"]
  by (simp add: simple_key_def char_defs)

text \<open>
  C18: Looking up a key in a parsed object finds the first member of that name: a string member is
  decoded to the string that was quoted, an integer member in the range of \<open>int\<close> is read exactly
  (through \<open>strtod\<close> and the conversion from double), a missing key gives the null value.
\<close>

theorem json_lookup_refines:
  assumes "json_ok (JObj ms)" "json_parse (json_text (JObj ms) @ r) = JOk jv q"
  shows "(map_of ms k = Some (JStr s) \<and> nulfree s \<longrightarrow> json_get_string jv k = Some s)
    \<and> (map_of ms k = Some (JInt i) \<and> - (2 ^ 31) \<le> i \<and> i < 2 ^ 31 \<longrightarrow> json_get_int jv k = i)
    \<and> (map_of ms k = Some (JBool b) \<longrightarrow> json_get_bool jv k d = b)
    \<and> (map_of ms k = Some (JArr xs) \<longrightarrow> json_array_len (json_get jv k) = int (length xs))
    \<and> (map_of ms k = None \<longrightarrow> json_get jv k = null_val \<and> json_get_string jv k = None
         \<and> json_get_int jv k = 0 \<and> json_get_bool jv k d = d)"
proof -
  have "jv = view (JObj ms) r" using assms(2) parse_text [OF assms(1)] by (auto simp: reads_def)
  then have v: "is_view jv (JObj ms)" by simp
  have "json_array_len (json_get jv k) = int (length xs)" if "map_of ms k = Some (JArr xs)"
    using json_array_view(1) [OF json_get_some [OF v assms(1) that] json_ok_member [OF assms(1) that]] .
  moreover have "json_get_string jv k = None \<and> json_get_int jv k = 0 \<and> json_get_bool jv k d = d"
    if "json_get jv k = null_val"
    using that by (simp add: json_get_string_def json_string_val_def json_get_int_def
        json_number_text_def json_get_bool_def null_val_def)
  ultimately show ?thesis
    using json_get_string_view [OF v assms(1), of k s] json_get_int_view [OF v assms(1), of k i]
      json_get_bool_view [OF v assms(1), of k b d] json_get_none [OF v assms(1), of k]
    by blast
qed

lemma json_lookup_refines_witness:
  "json_get_string (view (JObj [(''a'', JInt 7), (''b'', JStr ''x'')]) []) ''b'' = Some ''x''
   \<and> json_get_int (view (JObj [(''a'', JInt 7), (''b'', JStr ''x'')]) []) ''a'' = 7"
proof -
  let ?ms = "[(''a'', JInt 7), (''b'', JStr ''x'')]"
  have ok: "json_ok (JObj ?ms)" by (simp add: simple_key_def char_defs)
  have p: "json_parse (json_text (JObj ?ms) @ []) = JOk (view (JObj ?ms) []) []"
    using parse_text [OF ok] by (simp add: reads_def)
  show ?thesis
    using json_lookup_refines [OF ok p, of "''b''" "''x''"] json_lookup_refines [OF ok p, of "''a''" _ 7]
    by (simp add: NUL_def)
qed

text \<open>
  Quoting and reading a string are inverse: the text \<open>sb_append_json_string\<close> appends is parsed
  as a string token of exactly that text, and \<open>json_string_val\<close> gives back the bytes.
\<close>

lemma json_string_roundtrip:
  assumes "nulfree s" "strbuf_ok sb"
  shows "sb_str (sb_append_json_string sb (Some s)) = sb_str sb @ json_quote s
    \<and> (\<exists>v. json_parse (json_quote s @ r) = JOk v r \<and> jv_type v = JSON_STRING
         \<and> jv_len v = length (json_quote s) \<and> json_string_val v = Some s)"
  using assms json_parse_quoted [of s r] json_string_view [of "view (JStr s) r" s]
  by (simp add: make_val_def view_def is_view_def)

lemma json_string_roundtrip_witness:
  "\<exists>v. json_parse (json_quote (''say '' @ QUOTE # LF # ''x'') @ '','') = JOk v '',''
     \<and> json_string_val v = Some (''say '' @ QUOTE # LF # ''x'')"
  using json_string_roundtrip [of "''say '' @ QUOTE # LF # ''x''" sb_init "'',''"]
  by (auto simp: char_defs)

text \<open>
  C36: The parser returns on every text, consumes at least one byte when it succeeds, stops on a
  suffix of its input, and reads outside the buffer only when the text ends with a backslash.
\<close>

theorem json_parse_total:
  "json_parse s \<noteq> JFuel
   \<and> (json_parse s = JOk v r \<longrightarrow> suffix r s \<and> length r < length s)
   \<and> (json_parse s = JOob \<longrightarrow> suffix [BSLASH] s)"
  using parse_enough(1) json_parse_len parse_f_suffix json_parse_oob
  by (auto simp: ends_bs_def json_parse_def)

lemma json_parse_total_witness:
  "suffix [BSLASH] (QUOTE # ''a'' @ [BSLASH])"
proof -
  have "json_parse (QUOTE # ''a'' @ [BSLASH]) = JOob"
    by (simp add: json_parse_first parse_string_def) (simp add: char_defs)
  then show ?thesis using json_parse_total [of "QUOTE # ''a'' @ [BSLASH]"] by blast
qed

text \<open>
  A string left open right after a backslash makes \<open>parse_string\<close> step over the terminating
  NUL: from every such text the parse leaves the buffer.
\<close>

lemma json_open_escape_overruns:
  assumes "QUOTE \<notin> set s" "BSLASH \<notin> set s"
  shows "json_parse_root (Some (QUOTE # s @ [BSLASH])) = JOob"
proof -
  have "scan_string st (s @ [BSLASH]) = JOob" for st
    using assms by (induction s) (auto simp: char_defs)
  then show ?thesis by (simp add: json_parse_root_def json_parse_first parse_string_def)
qed

lemma json_open_escape_overruns_witness:
  "json_parse_root (Some (QUOTE # ''abc'' @ [BSLASH])) = JOob"
  by (rule json_open_escape_overruns) (simp_all add: char_defs)

end
