(* ===== verification/JsonViews.thy ===== *)
theory JsonViews
  imports JsonText "HOL-Library.Sublist"
begin

text \<open>
  The views into JSON text (\<open>JsonVal\<close> of c/json.h) are well typed: the text a view covers is a value of
  the kind its tag says, inside the text it was cut from.
\<close>

section \<open>Kinds\<close>

text \<open>The text a view of each kind covers; a view of nothing is null.\<close>

fun kind_ok :: "json_type \<Rightarrow> string \<Rightarrow> bool" where
  "kind_ok JSON_NULL w \<longleftrightarrow> w = [] \<or> w = ''null''"
| "kind_ok JSON_BOOL w \<longleftrightarrow> w = ''true'' \<or> w = ''false''"
| "kind_ok JSON_NUMBER w \<longleftrightarrow> (\<exists>c u. w = c # u \<and> (c = CHR ''-'' \<or> isdigit c))"
| "kind_ok JSON_STRING w \<longleftrightarrow> (\<exists>b. w = QUOTE # b @ [QUOTE])"
| "kind_ok JSON_ARRAY w \<longleftrightarrow> (\<exists>b. w = CHR ''['' # b @ [CHR '']''])"
| "kind_ok JSON_OBJECT w \<longleftrightarrow> (\<exists>b. w = CHR ''{'' # b @ [CHR ''}''])"

definition view_ok :: "json_val \<Rightarrow> bool" where
  "view_ok v \<longleftrightarrow> jv_len v \<le> length (jv_src v) \<and> kind_ok (jv_type v) (json_raw v)"

lemma null_view [simp]: "view_ok null_val"
  by (simp add: view_ok_def null_val_def json_raw_def)

text \<open>What the grammar reads is text of its kind.\<close>

lemma string_rest_quote: "string_rest t q \<Longrightarrow> suffix (QUOTE # q) t"
  by (induction rule: string_rest.induct) (auto intro: suffix_ConsI)

lemma bracketed:
  assumes "skip_ws s = c # t" "suffix (d # q) t" "\<And>b. kind_ok ty (c # b @ [d])"
  shows "\<exists>w. skip_ws s = w @ q \<and> kind_ok ty w"
proof -
  obtain b where "t = b @ d # q" using assms(2) by (auto simp: suffix_def)
  then have "skip_ws s = (c # b @ [d]) @ q" using assms(1) by simp
  with assms(3) show ?thesis by blast
qed

lemma bracket_behind:
  "skip_ws s = c # t \<Longrightarrow> suffix u t \<Longrightarrow> suffix u s"
  "strict_suffix r s \<Longrightarrow> suffix u r \<Longrightarrow> suffix u s"
  using ws_suffix suffix_order.less_imp_le suffix_order.trans by blast+

lemma member_behind:
  assumes "skip_ws s = c # k" "string_rest k r" "skip_ws r = d # t" "strict_suffix r2 t" "suffix u r2"
  shows "suffix u s"
proof -
  have "suffix u r" by (rule bracket_behind(1) [OF assms(3) bracket_behind(2) [OF assms(4,5)]])
  then have "suffix u k" by (rule bracket_behind(2) [OF string_rest_suffix [OF assms(2)]])
  then show ?thesis by (rule bracket_behind(1) [OF assms(1)])
qed

lemma value_kind:
  "value_at s ty q \<Longrightarrow> \<exists>w. skip_ws s = w @ q \<and> kind_ok ty w"
  "elements_at s q \<Longrightarrow> suffix (CHR '']'' # q) s"
  "members_at s q \<Longrightarrow> suffix (CHR ''}'' # q) s"
proof (induction rule: value_at_elements_at_members_at.inducts)
  case (string s t q)
  show ?case by (rule bracketed [OF string(1) string_rest_quote [OF string(2)]]) simp
next
  case (word s w q ty)
  then show ?case by (auto simp: json_words_def)
next
  case (number s c t q)
  then have "suffix q t" using number_rest_suffix by simp
  then obtain u where "t = u @ q" by (auto simp: suffix_def)
  then have "skip_ws s = (c # u) @ q" "kind_ok JSON_NUMBER (c # u)" using number(1,2) by simp_all
  then show ?case by blast
next
  case (no_elements s t q)
  then have "suffix (CHR '']'' # q) t" using skip_ws_suffix by metis
  with no_elements(1) show ?case by (rule bracketed) simp
next
  case (elements s t q)
  show ?case by (rule bracketed [OF elements.hyps(1) elements.IH]) simp
next
  case (no_members s t q)
  then have "suffix (CHR ''}'' # q) t" using skip_ws_suffix by metis
  with no_members(1) show ?case by (rule bracketed) simp
next
  case (members s t q)
  show ?case by (rule bracketed [OF members.hyps(1) members.IH]) simp
next
  case (last_element s ty r q)
  have "suffix (CHR '']'' # q) r" using last_element.hyps(2) skip_ws_suffix by metis
  then show ?case by (rule bracket_behind(2) [OF rest_suffix(1) [OF last_element.hyps(1)]])
next
  case (more_elements s ty r t q)
  show ?case
    by (rule bracket_behind(2) [OF rest_suffix(1) bracket_behind(1)]) (rule more_elements)+
next
  case (last_member s k r t ty r2 q)
  have "suffix (CHR ''}'' # q) r2" using last_member.hyps(5) skip_ws_suffix by metis
  from member_behind [OF last_member.hyps(1,2,3) rest_suffix(1) [OF last_member.hyps(4)] this] show ?case .
next
  case (more_members s k r t ty r2 t2 q)
  have "suffix (CHR ''}'' # q) r2" by (rule bracket_behind(1) [OF more_members.hyps(5) more_members.IH(2)])
  from member_behind [OF more_members.hyps(1,2,3) rest_suffix(1) [OF more_members.hyps(4)] this] show ?case .
qed

section \<open>The accessors\<close>

lemma parse_view: "json_parse s = JOk v q \<Longrightarrow> view_ok v"
proof -
  assume "json_parse s = JOk v q"
  then obtain ty where "value_at s ty q" "v = cut_view ty (skip_ws s) q" using json_parse_sound by blast
  with value_kind(1) show ?thesis by (fastforce simp: view_ok_def json_raw_def)
qed

lemma parsed_view [simp]: "view_ok (parsed_val (json_parse s))"
  by (cases "json_parse s") (simp_all add: parsed_val_def parse_view)

lemma get_loop_view: "view_ok (get_loop key s)"
proof (induction key s rule: get_loop.induct)
  case (1 key s)
  show ?case
    by (subst get_loop.simps) (auto simp: Let_def intro: 1 [OF _ refl refl refl refl _ _ _ refl] split: jres.split)
qed

lemma get_view_ok [simp]: "view_ok (json_get v key)"
  by (simp add: json_get_def Let_def get_loop_view)

lemma nth_loop_view: "view_ok (nth_loop s cur i)"
proof (induction s cur i rule: nth_loop.induct)
  case (1 s cur i)
  then show ?case by (subst nth_loop.simps) (simp add: Let_def parse_view split: jres.split)
qed

lemma json_array_get_view [simp]: "view_ok (json_array_get v i)"
  by (simp add: json_array_get_def Let_def nth_loop_view)

text \<open>The values of an iteration.\<close>

fun iterate :: "nat \<Rightarrow> json_iter \<Rightarrow> json_iter" where
  "iterate 0 it = it"
| "iterate (Suc n) it = iterate n (snd (json_obj_iter_next it))"

definition step_ok :: "bool \<times> json_iter \<Rightarrow> bool" where
  "step_ok x \<longleftrightarrow> view_ok (it_val (snd x))"

lemma step_ok_if: "step_ok a \<Longrightarrow> step_ok b \<Longrightarrow> step_ok (if c then a else b)"
  by simp

lemma step_ok_pair: "view_ok (it_val it) \<Longrightarrow> step_ok (b, it)"
  by (simp add: step_ok_def)

lemma step_ok_entry: "(\<And>v r. p = JOk v r \<Longrightarrow> step_ok (f v r)) \<Longrightarrow> step_ok d \<Longrightarrow> step_ok (case p of JOk v r \<Rightarrow> f v r | _ \<Rightarrow> d)"
  by (cases p) simp_all

lemma next_view:
  assumes "view_ok (it_val it)" shows "view_ok (it_val (snd (json_obj_iter_next it)))"
proof -
  have "step_ok (json_obj_iter_next it)"
  proof (cases "it_src it")
    case None
    with assms show ?thesis by (simp add: json_obj_iter_next_def step_ok_def)
  next
    case (Some src)
    then have src: "it_src (it\<lparr>it_key := None\<rparr>) = Some src" by simp
    show ?thesis unfolding json_obj_iter_next_def Let_def src option.case
      by (intro step_ok_if step_ok_entry step_ok_pair) (use assms parse_view in auto)
  qed
  then show ?thesis by (simp add: step_ok_def)
qed

lemma iterate_view: "view_ok (it_val it) \<Longrightarrow> view_ok (it_val (iterate n it))"
  by (induction n arbitrary: it) (simp_all add: next_view)

text \<open>The values the program can get hold of.\<close>

inductive obtained :: "json_val \<Rightarrow> bool" where
  nothing: "obtained null_val"
| parsed: "json_parse s = JOk v q \<Longrightarrow> obtained v"
| rooted: "json_parse_root src = JOk v q \<Longrightarrow> obtained v"
| member: "obtained v \<Longrightarrow> obtained (json_get v key)"
| element: "obtained v \<Longrightarrow> obtained (json_array_get v i)"
| iterated: "obtained v \<Longrightarrow> obtained (it_val (iterate n (json_obj_iter_init v)))"

text \<open>
  C12: Values are well typed. However a value was obtained - by parsing any text, as a member or an element
  of another value, or from an iteration - its text lies inside the buffer and is a value of the kind its
  tag says; a string has both its quotes, so that dropping them never passes the start.
\<close>

theorem values_well_typed:
  assumes "obtained v"
  shows "view_ok v \<and> (jv_type v = JSON_STRING \<longrightarrow> 2 \<le> jv_len v \<and> starts QUOTE (jv_src v) \<and> jv_src v ! (jv_len v - 1) = QUOTE)"
proof -
  have "view_ok v" using assms
  proof (cases rule: obtained.cases)
    case (parsed s q)
    then show ?thesis by (rule parse_view)
  next
    case (rooted src q)
    then obtain s where "json_parse s = JOk v q" by (auto simp: json_parse_root_def split: option.splits jres.splits if_splits)
    then show ?thesis by (rule parse_view)
  next
    case (iterated u n)
    then show ?thesis using iterate_view by (simp add: json_obj_iter_init_def)
  qed simp_all
  moreover have "2 \<le> jv_len v \<and> starts QUOTE (jv_src v) \<and> jv_src v ! (jv_len v - 1) = QUOTE" if string: "jv_type v = JSON_STRING"
  proof -
    obtain b where b: "take (jv_len v) (jv_src v) = QUOTE # b @ [QUOTE]" and l: "jv_len v \<le> length (jv_src v)"
      using \<open>view_ok v\<close> string by (auto simp: view_ok_def json_raw_def)
    then have n: "jv_len v = length b + 2" by (metis add_2_eq_Suc' length_Cons length_append_singleton length_take min.absorb2)
    then obtain r where "jv_src v = QUOTE # b @ QUOTE # r" using b
      by (metis append_Cons append_assoc append_take_drop_id append_Nil)
    with n show ?thesis by (simp add: nth_append)
  qed
  ultimately show ?thesis by blast
qed

lemma values_well_typed_witness:
  "view_ok (json_get \<lparr>jv_type = JSON_BOOL, jv_src = ''true,'', jv_len = 4\<rparr> ''k'')"
proof -
  have "json_parse (''true'' @ '','') = JOk \<lparr>jv_type = JSON_BOOL, jv_src = ''true,'', jv_len = 4\<rparr> '',''"
    by (simp add: json_parse_words make_val_def del: append_Cons append_Nil)
  from obtained.member [OF obtained.parsed [OF this]] show ?thesis using values_well_typed by blast
qed

end
