(* ===== verification/FileSys.thy ===== *)
theory FileSys
  imports CText
begin

text \<open>
  The files the program reads and writes, and the file helpers of c/util.c and c/json.c.  A file
  system maps the path strings the program passes to a file with its bytes or a directory.  Two sets of
  paths hold the permissions: what is in \<open>fs_deny\<close> may neither be read nor written, what is in
  \<open>fs_rdonly\<close> may be read and not written (a file one may write and not read is not modelled).  Paths
  are compared as strings: links, \<open>..\<close> and repeated slashes are not resolved, and a write that starts is
  complete.
\<close>

datatype fnode = FFile string | FDir

record fsys =
  fs_nodes :: "string \<rightharpoonup> fnode"
  fs_deny :: "string \<Rightarrow> bool"
  fs_rdonly :: "string \<Rightarrow> bool"

definition dir_of :: "string \<Rightarrow> string" where
  "dir_of p =
     (case strrchr p (CHR ''/'') of
        None \<Rightarrow> ''.''
      | Some t \<Rightarrow> (let d = take (length p - length t) p in if d = [] then ''/'' else d))"

definition fs_is_dir :: "fsys \<Rightarrow> string \<Rightarrow> bool" where
  "fs_is_dir fs p \<longleftrightarrow> p = ''/'' \<or> p = ''.'' \<or> fs_nodes fs p = Some FDir"

definition fs_get :: "fsys \<Rightarrow> string \<Rightarrow> string option" where
  "fs_get fs p =
     (if fs_deny fs p then None
      else case fs_nodes fs p of Some (FFile b) \<Rightarrow> Some b | _ \<Rightarrow> None)"

definition fs_can_write :: "fsys \<Rightarrow> string \<Rightarrow> bool" where
  "fs_can_write fs p \<longleftrightarrow>
     \<not> fs_deny fs p \<and> \<not> fs_rdonly fs p
     \<and> (case fs_nodes fs p of
          Some (FFile b) \<Rightarrow> True
        | Some FDir \<Rightarrow> False
        | None \<Rightarrow> fs_is_dir fs (dir_of p))"

definition fs_set :: "fsys \<Rightarrow> string \<Rightarrow> string \<Rightarrow> fsys" where
  "fs_set fs p b = fs\<lparr>fs_nodes := (fs_nodes fs)(p \<mapsto> FFile b)\<rparr>"

text \<open>The size \<open>stat\<close> gives; a directory is not empty.\<close>

definition stat_nonempty :: "fsys \<Rightarrow> string \<Rightarrow> bool" where
  "stat_nonempty fs p =
     (case fs_nodes fs p of None \<Rightarrow> False | Some FDir \<Rightarrow> True | Some (FFile b) \<Rightarrow> b \<noteq> [])"

text \<open>\<open>fopen\<close> for reading, which a directory does not refuse.\<close>

definition fs_opens :: "fsys \<Rightarrow> string \<Rightarrow> bool" where
  "fs_opens fs p \<longleftrightarrow> fs_nodes fs p \<noteq> None \<and> \<not> fs_deny fs p"

text \<open>\<open>fopen\<close> for writing and for appending, the bytes written, \<open>fclose\<close>.\<close>

definition fs_write :: "fsys \<Rightarrow> string \<Rightarrow> string \<Rightarrow> fsys option" where
  "fs_write fs p b = (if fs_can_write fs p then Some (fs_set fs p b) else None)"

definition fs_append :: "fsys \<Rightarrow> string \<Rightarrow> string \<Rightarrow> fsys option" where
  "fs_append fs p b =
     (if fs_can_write fs p then Some (fs_set fs p (opt_default [] (fs_get fs p) @ b)) else None)"

lemma fs_get_set [simp]:
  "fs_get (fs_set fs p b) q = (if q = p then (if fs_deny fs p then None else Some b) else fs_get fs q)"
  by (simp add: fs_get_def fs_set_def)

lemma fs_deny_set [simp]: "fs_deny (fs_set fs p b) = fs_deny fs"
  "fs_rdonly (fs_set fs p b) = fs_rdonly fs"
  by (simp_all add: fs_set_def)

lemma fs_is_dir_set: "fs_nodes fs p \<noteq> Some FDir \<Longrightarrow> fs_is_dir (fs_set fs p b) q = fs_is_dir fs q"
  by (auto simp: fs_is_dir_def fs_set_def)

lemma fs_can_write_not_dir: "fs_can_write fs p \<Longrightarrow> fs_nodes fs p \<noteq> Some FDir"
  by (auto simp: fs_can_write_def)

text \<open>Writing a file takes nothing away from what can be written.\<close>

lemma fs_can_write_set: "fs_can_write fs p \<Longrightarrow> fs_can_write fs q \<Longrightarrow> fs_can_write (fs_set fs p b) q"
  using fs_is_dir_set [OF fs_can_write_not_dir, of fs p b]
  by (auto simp: fs_can_write_def fs_set_def split: option.splits fnode.splits)

text \<open>A file that can be read can be written unless that is refused.\<close>

lemma fs_get_can_write: "fs_get fs p = Some b \<Longrightarrow> fs_can_write fs p \<longleftrightarrow> \<not> fs_rdonly fs p"
  by (auto simp: fs_get_def fs_can_write_def split: if_splits option.splits fnode.splits)

text \<open>\<open>fs_same fs fs' P\<close>: outside the paths in \<open>P\<close> nothing changed.\<close>

definition fs_same :: "fsys \<Rightarrow> fsys \<Rightarrow> string set \<Rightarrow> bool" where
  "fs_same fs fs' P \<longleftrightarrow> fs_deny fs' = fs_deny fs \<and> fs_rdonly fs' = fs_rdonly fs
     \<and> (\<forall>q. q \<notin> P \<longrightarrow> fs_nodes fs' q = fs_nodes fs q)"

lemma fs_same_refl [simp]: "fs_same fs fs P"
  by (simp add: fs_same_def)

lemma fs_same_set [simp]: "p \<in> P \<Longrightarrow> fs_same fs (fs_set fs' p b) P = fs_same fs fs' P"
  by (auto simp: fs_same_def fs_set_def)

lemma fs_same_get: "fs_same fs fs' P \<Longrightarrow> q \<notin> P \<Longrightarrow> fs_get fs' q = fs_get fs q"
  by (simp add: fs_same_def fs_get_def)

lemma fs_same_rdonly: "fs_same fs fs' P \<Longrightarrow> fs_rdonly fs' = fs_rdonly fs"
  by (simp add: fs_same_def)

section \<open>c/util.c and c/json.c\<close>

text \<open>\<open>util_read_file\<close> reads all the bytes; its callers see them up to the first NUL.\<close>

definition util_read_file :: "fsys \<Rightarrow> string \<Rightarrow> string option" where
  "util_read_file fs p = map_option c_string (fs_get fs p)"

definition util_read_file_len :: "fsys \<Rightarrow> string \<Rightarrow> string option" where
  "util_read_file_len fs p = fs_get fs p"

definition util_write_file :: "fsys \<Rightarrow> string \<Rightarrow> string \<Rightarrow> int \<times> fsys" where
  "util_write_file fs p content =
     (case fs_write fs p content of None \<Rightarrow> (- 1, fs) | Some fs' \<Rightarrow> (0, fs'))"

definition jsonl_append :: "fsys \<Rightarrow> string \<Rightarrow> string \<Rightarrow> int \<times> fsys" where
  "jsonl_append fs p line =
     (case fs_append fs p (line @ [LF]) of None \<Rightarrow> (- 1, fs) | Some fs' \<Rightarrow> (0, fs'))"

definition touch_file :: "fsys \<Rightarrow> string \<Rightarrow> int \<times> fsys" where
  "touch_file fs p = (case fs_append fs p [] of None \<Rightarrow> (- 1, fs) | Some fs' \<Rightarrow> (0, fs'))"

text \<open>\<open>mkdir\<close>: it succeeds, finds something there (\<open>EEXIST\<close>), or fails otherwise.\<close>

datatype mkres = MkOk | MkExists | MkFail

definition fs_mkdir :: "fsys \<Rightarrow> string \<Rightarrow> mkres \<times> fsys" where
  "fs_mkdir fs p =
     (if fs_nodes fs p \<noteq> None \<or> p = ''/'' \<or> p = ''.'' then (MkExists, fs)
      else if fs_deny fs p \<or> fs_rdonly fs p \<or> \<not> fs_is_dir fs (dir_of p) then (MkFail, fs)
      else (MkOk, fs\<lparr>fs_nodes := (fs_nodes fs)(p \<mapsto> FDir)\<rparr>))"

text \<open>The prefixes \<open>util_mkdirs\<close> cuts at each slash after the first byte, then the path itself.\<close>

fun slash_prefixes :: "string \<Rightarrow> string \<Rightarrow> string list" where
  "slash_prefixes pre [] = []"
| "slash_prefixes pre (c # s) =
     (if c = CHR ''/'' then pre # slash_prefixes (pre @ [c]) s
      else slash_prefixes (pre @ [c]) s)"

fun mkdir_all :: "fsys \<Rightarrow> string list \<Rightarrow> int \<times> fsys" where
  "mkdir_all fs [] = (0, fs)"
| "mkdir_all fs (p # ps) =
     (case fs_mkdir fs p of
        (MkFail, fs') \<Rightarrow> (- 1, fs')
      | (_, fs') \<Rightarrow> mkdir_all fs' ps)"

definition util_mkdirs :: "fsys \<Rightarrow> string \<Rightarrow> int \<times> fsys" where
  "util_mkdirs fs path = mkdir_all fs (slash_prefixes (take 1 path) (drop 1 path) @ [path])"

lemma util_write_file_facts:
  assumes "util_write_file fs p c = (rc, fs')"
  shows "rc = 0 \<longleftrightarrow> fs_can_write fs p" "rc = 0 \<Longrightarrow> fs_get fs' p = Some c \<and> fs' = fs_set fs p c"
    "rc \<noteq> 0 \<Longrightarrow> fs' = fs" "fs_same fs fs' {p}"
  using assms by (auto simp: util_write_file_def fs_write_def fs_can_write_def split: if_splits)

text \<open>Writing over a file that can be read.\<close>

lemma util_write_file_over:
  assumes "util_write_file fs p c = (rc, fs')" "fs_get fs p = Some b"
  shows "fs_get fs' p = Some (if fs_rdonly fs p then b else c)" "fs_rdonly fs' = fs_rdonly fs"
  using util_write_file_facts [OF assms(1)] fs_get_can_write [OF assms(2)] assms(2) by auto

lemma jsonl_append_facts:
  assumes "jsonl_append fs p l = (rc, fs')"
  shows "rc = 0 \<longleftrightarrow> fs_can_write fs p"
    "rc = 0 \<Longrightarrow> fs_get fs' p = Some (opt_default [] (fs_get fs p) @ l @ [LF])"
    "rc \<noteq> 0 \<Longrightarrow> fs' = fs" "fs_same fs fs' {p}"
    "fs_can_write fs q \<Longrightarrow> fs_can_write fs' q"
  using assms by (auto simp: jsonl_append_def fs_append_def fs_can_write_def [of fs p] fs_can_write_set split: if_splits)

text \<open>What exists is not removed by making directories.\<close>

lemma mkdir_all_keeps: "mkdir_all fs ps = (rc, fs') \<Longrightarrow> fs_nodes fs p = Some x \<Longrightarrow> fs_nodes fs' p = Some x"
proof (induction fs ps rule: mkdir_all.induct)
  case (2 fs q ps)
  obtain m fs1 where m: "fs_mkdir fs q = (m, fs1)" by (cases "fs_mkdir fs q")
  then have "fs_nodes fs1 p = Some x"
    using 2 by (auto simp: fs_mkdir_def split: if_splits)
  with 2 m show ?case by (cases m) auto
qed simp

lemma mkdir_all_made:
  "mkdir_all fs ps = (0, fs') \<Longrightarrow> p \<in> set ps \<Longrightarrow> p \<noteq> ''/'' \<Longrightarrow> p \<noteq> ''.'' \<Longrightarrow> fs_nodes fs' p \<noteq> None"
proof (induction fs ps rule: mkdir_all.induct)
  case (2 fs q ps)
  obtain m fs1 where m: "fs_mkdir fs q = (m, fs1)" by (cases "fs_mkdir fs q")
  with 2 have ok: "m \<noteq> MkFail" and rest: "mkdir_all fs1 ps = (0, fs')" by (cases m; auto)+
  show ?case
  proof (cases "p = q")
    case True
    with m ok 2 have "fs_nodes fs1 p \<noteq> None" by (auto simp: fs_mkdir_def split: if_splits)
    with mkdir_all_keeps [OF rest] show ?thesis by blast
  next
    case False
    with 2 m ok rest show ?thesis by (cases m) auto
  qed
qed simp

end
