(* ===== verification/Store.thy ===== *)
theory Store
  imports JsonText FileSys
begin

text \<open>
  c/store.c: the files of a session.  A session is a set of paths; the conversation and the events
  are JSON-lines files, the statistics one JSON object, the summary and the plans plain text.  The
  operations are functions on the file system.  Directory listings, times and the clock are
  arguments.
\<close>

section \<open>Session paths\<close>

record session_paths =
  sp_base_dir :: string
  sp_session_dir :: string
  sp_conversation :: string
  sp_archive :: string
  sp_events :: string
  sp_stats :: string
  sp_summary :: string
  sp_plan :: string
  sp_plan_draft :: string

definition key_allowed :: "char \<Rightarrow> bool" where
  "key_allowed c \<longleftrightarrow> isupper c \<or> islower c \<or> isdigit c \<or> c \<in> set ''._-''"

definition key_char :: "char \<Rightarrow> char" where
  "key_char c = (if c = CHR ''/'' then CHR ''-'' else if \<not> key_allowed c then CHR ''-'' else c)"

fun key_loop :: "char \<Rightarrow> string \<Rightarrow> string" where
  "key_loop prev [] = []"
| "key_loop prev (x # s) =
     (let c = key_char x in
      if c = CHR ''-'' \<and> prev = CHR ''-'' then key_loop prev s else c # key_loop c s)"

definition strip_tail :: "char \<Rightarrow> string \<Rightarrow> string" where
  "strip_tail d s = rev (dropWhile (\<lambda>c. c = d) (rev s))"

definition store_session_project_key :: "string option \<Rightarrow> string" where
  "store_session_project_key cwd =
     (case cwd of
        None \<Rightarrow> ''-''
      | Some c \<Rightarrow>
          if c = [] then ''-''
          else CHR ''-'' # strip_tail (CHR ''-'') (key_loop NUL (dropWhile (\<lambda>x. x = CHR ''/'') c)))"

definition store_session_paths_for :: "string \<Rightarrow> string option \<Rightarrow> string \<Rightarrow> session_paths" where
  "store_session_paths_for home cwd session_id =
     (let base = home @ ''/.bash-agent/projects/'' @ store_session_project_key cwd;
          dir = base @ ''/'' @ session_id
      in \<lparr>sp_base_dir = base, sp_session_dir = dir,
          sp_conversation = dir @ ''/conversation.jsonl'',
          sp_archive = dir @ ''/conversation-archive.jsonl'',
          sp_events = dir @ ''/events.jsonl'',
          sp_stats = dir @ ''/stats.json'',
          sp_summary = dir @ ''/summary.txt'',
          sp_plan = dir @ ''/plan.md'',
          sp_plan_draft = dir @ ''/plan.draft''\<rparr>)"

definition store_session_image_dir :: "session_paths \<Rightarrow> string" where
  "store_session_image_dir p = take 1023 (sp_session_dir p @ ''/images'')"

section \<open>Events\<close>

text \<open>\<open>store_event_append\<close> also prints the line when the stream-json flag is set: the third
  result is what goes to standard output.\<close>

definition store_event_append :: "bool \<Rightarrow> fsys \<Rightarrow> session_paths \<Rightarrow> string \<Rightarrow> int \<times> fsys \<times> string" where
  "store_event_append stream_json fs p line =
     (let (rc, fs') = jsonl_append fs (sp_events p) line
      in (rc, fs', if stream_json then line @ [LF] else []))"

section \<open>Creating and forking a session\<close>

definition initial_stats :: string where
  "initial_stats =
     ''{\"current_turn_count\":0,\"agent_request_count\":0,''
     @ ''\"compact_request_count\":0,\"sub_agent_request_count\":0,''
     @ ''\"total_input_tokens\":0,''
     @ ''\"total_output_tokens\":0,\"total_cache_read_tokens\":0,''
     @ ''\"total_cache_creation_tokens\":0,\"current_context_tokens\":0,''
     @ ''\"last_call_speed_tok_per_sec\":0,\"last_updated\":\"\"}'' @ [LF]"

definition session_start_event :: "session_paths \<Rightarrow> string" where
  "session_start_event p =
     ''{\"type\":\"session_start\",\"session_id\":''
     @ json_quote (case strrchr (sp_session_dir p) (CHR ''/'') of Some s \<Rightarrow> tl s | None \<Rightarrow> []) @ ''}''"

definition touch_all :: "fsys \<Rightarrow> string list \<Rightarrow> fsys" where
  "touch_all fs ps = foldl (\<lambda>f p. snd (touch_file f p)) fs ps"

definition store_session_init :: "bool \<Rightarrow> fsys \<Rightarrow> session_paths \<Rightarrow> bool \<Rightarrow> int \<times> fsys \<times> string" where
  "store_session_init stream_json fs p is_new =
     (let (rc1, fs1) = util_mkdirs fs (sp_base_dir p) in
      if rc1 \<noteq> 0 then (- 1, fs1, [])
      else let (rc2, fs2) = util_mkdirs fs1 (sp_session_dir p) in
      if rc2 \<noteq> 0 then (- 1, fs2, [])
      else
        let fs3 = snd (fs_mkdir fs2 (store_session_image_dir p));
            fs4 = touch_all fs3 [sp_conversation p, sp_archive p, sp_events p, sp_summary p, sp_plan p,
                                 sp_plan_draft p]
        in if is_new then
             (case fs_write fs4 (sp_stats p) initial_stats of
                None \<Rightarrow> (- 1, fs4, [])
              | Some fs5 \<Rightarrow>
                  let (rc, fs6, out) = store_event_append stream_json fs5 p (session_start_event p);
                      fs7 = snd (util_mkdirs fs6 (take 1023 (sp_session_dir p @ ''/images'')))
                  in (0, fs7, out))
           else
             let fs5 = snd (touch_file fs4 (sp_stats p));
                 fs6 = snd (util_mkdirs fs5 (take 1023 (sp_session_dir p @ ''/images'')))
             in (0, fs6, []))"

definition copy_nonempty :: "fsys \<Rightarrow> string \<Rightarrow> string \<Rightarrow> fsys" where
  "copy_nonempty fs src dst =
     (case util_read_file fs src of
        Some b \<Rightarrow> if b \<noteq> [] then snd (util_write_file fs dst b) else fs
      | None \<Rightarrow> fs)"

definition store_session_fork :: "fsys \<Rightarrow> session_paths \<Rightarrow> session_paths \<Rightarrow> int \<times> fsys" where
  "store_session_fork fs parent child =
     (let fs0 = snd (util_mkdirs fs (sp_session_dir child));
          fs1 = copy_nonempty fs0 (sp_conversation parent) (sp_conversation child);
          fs2 = copy_nonempty fs1 (sp_archive parent) (sp_archive child);
          fs3 = copy_nonempty fs2 (sp_summary parent) (sp_summary child)
      in (0, copy_nonempty fs3 (sp_plan parent) (sp_plan child)))"

definition store_session_init_sub ::
    "bool \<Rightarrow> fsys \<Rightarrow> session_paths \<Rightarrow> session_paths \<Rightarrow> bool \<Rightarrow> int \<times> fsys \<times> string" where
  "store_session_init_sub stream_json fs parent sub fork =
     (let fs1 = (if fork then snd (store_session_fork fs parent sub) else fs);
          (rc, fs2, out) = store_session_init stream_json fs1 sub True
      in if rc \<noteq> 0 then (- 1, fs2, out) else (0, fs2, out))"

section \<open>Listing sessions\<close>

text \<open>An entry of the project directory: its name, what \<open>stat\<close> says of it (is it a directory, its
  time), the time of its \<open>events.jsonl\<close>.\<close>

record dirent =
  d_name :: string
  d_stat :: "(bool \<times> int) option"
  d_events :: "int option"

definition session_mtime :: "dirent \<Rightarrow> int option" where
  "session_mtime e =
     (if d_name e \<noteq> [] \<and> hd (d_name e) = CHR ''.'' \<or> starts_with ''sub_'' (d_name e) then None
      else case d_stat e of
        Some (True, t) \<Rightarrow> Some (case d_events e of Some t' \<Rightarrow> t' | None \<Rightarrow> t)
      | _ \<Rightarrow> None)"

definition latest_step :: "string option \<times> int \<Rightarrow> dirent \<Rightarrow> string option \<times> int" where
  "latest_step acc e =
     (case session_mtime e of
        None \<Rightarrow> acc
      | Some t \<Rightarrow> if snd acc < t then (Some (d_name e), t) else acc)"

text \<open>\<open>None\<close> for the entries is a directory that cannot be opened.\<close>

definition store_session_resolve_continue :: "dirent list option \<Rightarrow> string option" where
  "store_session_resolve_continue entries =
     (case entries of None \<Rightarrow> None | Some es \<Rightarrow> fst (foldl latest_step (None, 0) es))"

text \<open>\<open>fgets\<close> with a buffer of 1024 bytes.\<close>

fun fgets :: "nat \<Rightarrow> string \<Rightarrow> string \<times> string" where
  "fgets 0 s = ([], s)"
| "fgets (Suc n) [] = ([], [])"
| "fgets (Suc n) (c # s) = (if c = LF then ([c], s) else (let (l, r) = fgets n s in (c # l, r)))"

lemma fgets_shorter: "fgets (Suc n) (c # s) = (l, r) \<Longrightarrow> length r < length (c # s)"
proof -
  have "length (snd (fgets m t)) \<le> length t" for m t
    by (induction m t rule: fgets.induct) (auto split: prod.splits)
  from this [of n s] show "fgets (Suc n) (c # s) = (l, r) \<Longrightarrow> length r < length (c # s)"
    by (auto split: if_splits prod.splits)
qed

function preview_of :: "string \<Rightarrow> string" where
  "preview_of s =
     (case s of
        [] \<Rightarrow> []
      | _ # _ \<Rightarrow>
          (let (line, r) = fgets 1023 s;
               start = dropWhile isspace (c_string line)
           in if start \<noteq> [] then rev (dropWhile isspace (rev start)) else preview_of r))"
  by pat_completeness auto
termination
proof (relation "measure length", goal_cases)
  case (2 s c t x line r y)
  then show ?case using fgets_shorter [of 1022 c t line r] by simp
qed simp

declare preview_of.simps [simp del]

definition sel_inner :: "int list \<Rightarrow> nat \<Rightarrow> nat list \<Rightarrow> nat list \<Rightarrow> nat list" where
  "sel_inner mtimes i js order =
     foldl (\<lambda>ord j. if mtimes ! (ord ! i) < mtimes ! (ord ! j)
                    then ord[i := ord ! j, j := ord ! i] else ord) order js"

definition sel_sort :: "int list \<Rightarrow> nat \<Rightarrow> nat list" where
  "sel_sort mtimes valid =
     foldl (\<lambda>ord i. sel_inner mtimes i [Suc i..<valid] ord) [0..<valid] [0..<valid - 1]"

definition pad_right :: "nat \<Rightarrow> string \<Rightarrow> string" where
  "pad_right n s = s @ replicate (n - length s) (CHR '' '')"

definition session_row :: "fsys \<Rightarrow> string \<Rightarrow> (string \<Rightarrow> string) \<Rightarrow> string \<Rightarrow> string" where
  "session_row fs dir time_str name =
     (let preview = (case fs_get fs (dir @ ''/'' @ name @ ''/summary.txt'') of
                       None \<Rightarrow> [] | Some b \<Rightarrow> preview_of b)
      in pad_right 40 name @ '' '' @ pad_right 16 (time_str name) @ '' ''
         @ opt_default preview (util_truncate_chars preview 60) @ [LF])"

text \<open>\<open>scandir\<close> with \<open>alphasort\<close> gives the entries in order; \<open>time_str\<close> is \<open>strftime\<close> of an entry's time.\<close>

definition list_valid :: "dirent list \<Rightarrow> (string \<times> int) list" where
  "list_valid es =
     concat (map (\<lambda>e. if d_name e \<noteq> [] \<and> hd (d_name e) = CHR ''.'' then []
                      else case d_stat e of Some (True, t) \<Rightarrow> [(d_name e, t)] | _ \<Rightarrow> []) es)"

definition store_session_list_rows ::
    "fsys \<Rightarrow> string \<Rightarrow> string option \<Rightarrow> dirent list option \<Rightarrow> (string \<Rightarrow> string) \<Rightarrow> int \<times> string" where
  "store_session_list_rows fs home cwd entries time_str =
     (case entries of
        None \<Rightarrow> (0, [])
      | Some es \<Rightarrow>
          (let v = list_valid es;
               order = sel_sort (map snd v) (length v);
               dir = home @ ''/.bash-agent/projects/'' @ store_session_project_key cwd
           in (int (length order), concat (map (\<lambda>i. session_row fs dir time_str (fst (v ! i))) order))))"

section \<open>conversation.jsonl\<close>

definition jstr :: "string option \<Rightarrow> string" where
  "jstr s = (case s of None \<Rightarrow> ''null'' | Some t \<Rightarrow> json_quote t)"

definition store_conv_add_user :: "fsys \<Rightarrow> string \<Rightarrow> string option \<Rightarrow> int \<times> fsys" where
  "store_conv_add_user fs path content =
     jsonl_append fs path (''{\"role\":\"user\",\"content\":'' @ jstr content @ ''}'')"

text \<open>A tool call: id, name and input, where the input is JSON text (\<open>None\<close>: a NULL pointer, for
  which \<open>sb_append\<close> appends nothing).\<close>

type_synonym tool_use = "string option \<times> string option \<times> string option"

definition tool_use_block :: "tool_use \<Rightarrow> string" where
  "tool_use_block tu =
     (case tu of (tid, name, input) \<Rightarrow>
        '',{\"type\":\"tool_use\",\"id\":'' @ jstr tid @ '',\"name\":'' @ jstr name @ '',\"input\":''
        @ opt_default [] input @ ''}'')"

definition assistant_line :: "string option \<Rightarrow> string option \<Rightarrow> tool_use list \<Rightarrow> string" where
  "assistant_line thinking txt tools =
     ''{\"role\":\"assistant\",\"content\":[''
     @ ''{\"type\":\"thinking\",\"thinking\":'' @ json_quote (opt_default [] thinking) @ ''}''
     @ '',{\"type\":\"text\",\"text\":'' @ json_quote (opt_default [] txt) @ ''}''
     @ concat (map tool_use_block tools) @ '']}''"

definition store_conv_add_assistant ::
    "fsys \<Rightarrow> string \<Rightarrow> string option \<Rightarrow> string option \<Rightarrow> tool_use list \<Rightarrow> int \<times> fsys" where
  "store_conv_add_assistant fs path thinking txt tools =
     jsonl_append fs path (assistant_line thinking txt tools)"

definition tool_result_block :: "string option \<times> string option \<Rightarrow> string" where
  "tool_result_block r =
     ''{\"type\":\"tool_result\",\"tool_use_id\":'' @ jstr (fst r) @ '',\"content\":'' @ jstr (snd r) @ ''}''"

definition tool_results_line :: "(string option \<times> string option) list \<Rightarrow> string" where
  "tool_results_line rs =
     ''{\"role\":\"user\",\"content\":['' @ commas (map tool_result_block rs) @ '']}''"

definition store_conv_add_tool_results ::
    "fsys \<Rightarrow> string \<Rightarrow> (string option \<times> string option) list \<Rightarrow> int \<times> fsys" where
  "store_conv_add_tool_results fs path rs = jsonl_append fs path (tool_results_line rs)"

definition store_conv_line_count :: "fsys \<Rightarrow> string \<Rightarrow> int \<times> string list" where
  "store_conv_line_count fs path =
     (case fs_get fs path of
        None \<Rightarrow> (- 1, [])
      | Some b \<Rightarrow> (0, map c_string (fst (split_lines b))))"

fun line_end_loop :: "string \<Rightarrow> nat \<Rightarrow> int \<Rightarrow> int \<Rightarrow> nat" where
  "line_end_loop [] i seen lines = i"
| "line_end_loop (c # s) i seen lines =
     (if c = LF then (if seen + 1 = lines then i + 1 else line_end_loop s (i + 1) (seen + 1) lines)
      else line_end_loop s (i + 1) seen lines)"

definition conv_line_end_offset :: "string \<Rightarrow> int \<Rightarrow> nat" where
  "conv_line_end_offset data lines = (if lines \<le> 0 then 0 else line_end_loop data 0 0 lines)"

definition store_conv_trim_tail :: "fsys \<Rightarrow> string \<Rightarrow> int \<Rightarrow> int \<times> fsys" where
  "store_conv_trim_tail fs path keep_lines =
     (case util_read_file fs path of
        None \<Rightarrow> (- 1, fs)
      | Some data \<Rightarrow>
          (let total_lines = int (length (filter (\<lambda>c. c = LF) data)) in
           if total_lines \<le> keep_lines then (0, fs)
           else
             let split_at = conv_line_end_offset data (total_lines - keep_lines);
                 fs1 = (case strrchr path (CHR ''/'') of
                          None \<Rightarrow> fs
                        | Some t \<Rightarrow>
                            let session_dir = take (length path - length t) path;
                                archive = util_path_join session_dir ''conversation-archive.jsonl''
                            in opt_default fs (fs_append fs archive (take split_at data)))
             in case fs_write fs1 path (drop split_at data) of
                  None \<Rightarrow> (- 1, fs1)
                | Some fs2 \<Rightarrow> (0, fs2)))"

text \<open>The root value of a line, or \<open>None\<close> when it does not parse.\<close>

definition json_root :: "string \<Rightarrow> json_val option" where
  "json_root s = (case json_parse_root (Some s) of JOk v r \<Rightarrow> Some v | _ \<Rightarrow> None)"

definition is_user_turn :: "string \<Rightarrow> bool" where
  "is_user_turn line =
     (case json_root line of
        None \<Rightarrow> False
      | Some v \<Rightarrow>
          json_get_string v ''role'' = Some ''user'' \<and> jv_type (json_get v ''content'') = JSON_STRING)"

definition store_conv_user_turn_count :: "fsys \<Rightarrow> string \<Rightarrow> int" where
  "store_conv_user_turn_count fs path =
     (case store_conv_line_count fs path of
        (rc, lines) \<Rightarrow> if rc \<noteq> 0 then 0 else int (length (filter is_user_turn lines)))"

definition store_conv_total_bytes :: "fsys \<Rightarrow> string \<Rightarrow> int" where
  "store_conv_total_bytes fs path = (case fs_get fs path of None \<Rightarrow> 0 | Some b \<Rightarrow> int (length b))"

definition store_event_lines :: "fsys \<Rightarrow> session_paths \<Rightarrow> int \<times> string list" where
  "store_event_lines fs p = store_conv_line_count fs (sp_events p)"

section \<open>stats.json\<close>

text \<open>The ten integer fields, in the order they are written.\<close>

definition STAT_KEYS :: "string list" where
  "STAT_KEYS =
     [''current_turn_count'', ''agent_request_count'', ''compact_request_count'',
      ''sub_agent_request_count'', ''total_input_tokens'', ''total_output_tokens'',
      ''total_cache_read_tokens'', ''total_cache_creation_tokens'', ''current_context_tokens'',
      ''last_call_speed_tok_per_sec'']"

type_synonym stat_fields = "(string \<times> int) list"

definition store_stats_read :: "fsys \<Rightarrow> string \<Rightarrow> string option" where
  "store_stats_read fs path = util_read_file fs path"

definition stats_text :: "stat_fields \<Rightarrow> string \<Rightarrow> string" where
  "stats_text flds last_updated =
     CHR ''{'' # concat (map (\<lambda>(k, v). QUOTE # k @ QUOTE # CHR '':'' # int_dec v @ '','') flds)
     @ ''\"last_updated\":'' @ json_quote last_updated @ ''}'' @ [LF]"

definition stats_write_canonical :: "fsys \<Rightarrow> string \<Rightarrow> stat_fields \<Rightarrow> string \<Rightarrow> fsys" where
  "stats_write_canonical fs path flds last_updated =
     snd (util_write_file fs path (stats_text flds last_updated))"

definition store_stats_get_int :: "json_val \<Rightarrow> string \<Rightarrow> int" where
  "store_stats_get_int obj key = json_get_int obj key"

definition store_stats_get_file_int :: "fsys \<Rightarrow> string \<Rightarrow> string \<Rightarrow> int" where
  "store_stats_get_file_int fs path key =
     (case store_stats_read fs path of
        None \<Rightarrow> 0
      | Some content \<Rightarrow> (case json_root content of None \<Rightarrow> 0 | Some v \<Rightarrow> json_get_int v key))"

definition stats_load :: "string option \<Rightarrow> stat_fields" where
  "stats_load content =
     (case content of
        None \<Rightarrow> map (\<lambda>k. (k, 0)) STAT_KEYS
      | Some t \<Rightarrow>
          if t = [] then map (\<lambda>k. (k, 0)) STAT_KEYS
          else case json_root t of
            None \<Rightarrow> map (\<lambda>k. (k, 0)) STAT_KEYS
          | Some v \<Rightarrow> map (\<lambda>k. (k, json_get_int v k)) STAT_KEYS)"

definition stats_put :: "stat_fields \<Rightarrow> string \<Rightarrow> int \<Rightarrow> stat_fields" where
  "stats_put flds key value = map (\<lambda>(k, v). (k, if k = key then value else v)) flds"

text \<open>\<open>ts\<close> is the current time as \<open>strftime\<close> prints it.\<close>

definition store_stats_set_int_file :: "fsys \<Rightarrow> string \<Rightarrow> string \<Rightarrow> int \<Rightarrow> string \<Rightarrow> fsys" where
  "store_stats_set_int_file fs path key value ts =
     stats_write_canonical fs path (stats_put (stats_load (store_stats_read fs path)) key value) ts"

text \<open>
  \<open>store_stats_set_int\<close> overwrites a number in the text of the object, padded with blanks, and
  gives up when the new number is longer than the old one.
\<close>

definition store_stats_set_int :: "string \<Rightarrow> string \<Rightarrow> int \<Rightarrow> string" where
  "store_stats_set_int src key value =
     (let search = take 127 (QUOTE # key @ [QUOTE]) in
      case strstr src search of
        None \<Rightarrow> src
      | Some p \<Rightarrow>
          (let val_start = dropWhile (\<lambda>c. c = CHR '' '' \<or> c = CHR '':'') (drop (length search) p);
               old = takeWhile (\<lambda>c. c \<notin> {CHR '','', CHR ''}'', CHR '' '', LF, CR}) val_start;
               new_val = int_dec value
           in if length old < length new_val then src
              else take (length src - length val_start) src
                   @ new_val @ replicate (length old - length new_val) (CHR '' '')
                   @ drop (length old) val_start))"

definition store_stats_add_int :: "string \<Rightarrow> json_val \<Rightarrow> string \<Rightarrow> int \<Rightarrow> string" where
  "store_stats_add_int src obj key delta =
     store_stats_set_int src key (s32 (store_stats_get_int obj key + delta))"

section \<open>Summary and plan\<close>

definition store_summary_get :: "fsys \<Rightarrow> session_paths \<Rightarrow> string option" where
  "store_summary_get fs p =
     (case util_read_file fs (sp_summary p) of
        None \<Rightarrow> None
      | Some s \<Rightarrow>
          (let t = rev (dropWhile (\<lambda>c. c = LF \<or> c = CR) (rev s)) in if t = [] then None else Some t))"

definition store_summary_set :: "fsys \<Rightarrow> session_paths \<Rightarrow> string \<Rightarrow> int \<times> fsys" where
  "store_summary_set fs p content = util_write_file fs (sp_summary p) content"

definition store_plan_draft_read :: "fsys \<Rightarrow> session_paths \<Rightarrow> string option" where
  "store_plan_draft_read fs p = util_read_file fs (sp_plan_draft p)"

definition store_plan_draft_set :: "fsys \<Rightarrow> session_paths \<Rightarrow> string \<Rightarrow> int \<times> fsys" where
  "store_plan_draft_set fs p content = util_write_file fs (sp_plan_draft p) content"

definition store_plan_draft_clear :: "fsys \<Rightarrow> session_paths \<Rightarrow> int \<times> fsys" where
  "store_plan_draft_clear fs p = util_write_file fs (sp_plan_draft p) []"

definition store_plan_set :: "fsys \<Rightarrow> session_paths \<Rightarrow> string \<Rightarrow> int \<times> fsys" where
  "store_plan_set fs p content = util_write_file fs (sp_plan p) content"

definition store_plan_clear :: "fsys \<Rightarrow> session_paths \<Rightarrow> int \<times> fsys" where
  "store_plan_clear fs p = util_write_file fs (sp_plan p) []"

end
