(* ===== verification/StoreProps.thy ===== *)
theory StoreProps
  imports Store
begin

text \<open>
  What the session files promise.  The locale \<open>line_log\<close> is the contract of an append-only file of
  lines; it is interpreted on \<open>jsonl_append\<close> and \<open>store_conv_line_count\<close> of the model.  The lines
  the store writes are texts of JSON terms, so the reader finds the fields again.
\<close>

section \<open>An append-only file of lines\<close>

locale line_log =
  fixes add :: "'s \<Rightarrow> 'l \<Rightarrow> bool \<times> 's"
    and log_lines :: "'s \<Rightarrow> 'l list"
    and line_ok :: "'l \<Rightarrow> bool"
    and ready :: "'s \<Rightarrow> bool"
  assumes add_law: "ready s \<Longrightarrow> line_ok l \<Longrightarrow>
      fst (add s l) \<and> log_lines (snd (add s l)) = log_lines s @ [l] \<and> ready (snd (add s l))"
begin

definition add_all :: "'s \<Rightarrow> 'l list \<Rightarrow> 's" where
  "add_all s ls = foldl (\<lambda>t l. snd (add t l)) s ls"

lemma add_all_lines:
  "ready s \<Longrightarrow> \<forall>l \<in> set ls. line_ok l \<Longrightarrow>
     log_lines (add_all s ls) = log_lines s @ ls \<and> ready (add_all s ls)"
proof (induction ls arbitrary: s)
  case (Cons l ls)
  from add_law [of s l] Cons have "ready (snd (add s l))" "log_lines (snd (add s l)) = log_lines s @ [l]"
    by auto
  with Cons.IH [of "snd (add s l)"] Cons.prems show ?case by (simp add: add_all_def)
qed (simp add: add_all_def)

end

text \<open>A file that holds exactly these lines, and may be appended to.\<close>

definition log_file :: "fsys \<Rightarrow> string \<Rightarrow> string list \<Rightarrow> bool" where
  "log_file fs p ls \<longleftrightarrow>
     fs_get fs p = Some (join_lines ls) \<and> \<not> fs_rdonly fs p \<and> (\<forall>l \<in> set ls. line_ok l)"

definition log_ready :: "string \<Rightarrow> fsys \<Rightarrow> bool" where
  "log_ready p fs \<longleftrightarrow> (\<exists>ls. log_file fs p ls)"

definition jsonl_add :: "string \<Rightarrow> fsys \<Rightarrow> string \<Rightarrow> bool \<times> fsys" where
  "jsonl_add p fs l = (let (rc, fs') = jsonl_append fs p l in (rc = 0, fs'))"

definition jsonl_lines :: "string \<Rightarrow> fsys \<Rightarrow> string list" where
  "jsonl_lines p fs = snd (store_conv_line_count fs p)"

lemma log_file_lines: "log_file fs p ls \<Longrightarrow> store_conv_line_count fs p = (0, ls)"
proof -
  assume f: "log_file fs p ls"
  then have "split_lines (join_lines ls) = (ls, [])"
    using split_lines_join [of ls "[]"] by (auto simp: log_file_def line_ok_def)
  moreover have "map c_string ls = ls" using f by (auto simp: log_file_def line_ok_def intro: map_idI)
  ultimately show ?thesis using f by (simp add: log_file_def store_conv_line_count_def)
qed

lemma log_file_append:
  assumes "log_file fs p ls" "line_ok l"
  shows "\<exists>fs'. jsonl_append fs p l = (0, fs') \<and> log_file fs' p (ls @ [l]) \<and> fs_same fs fs' {p}"
proof -
  obtain rc fs' where r: "jsonl_append fs p l = (rc, fs')" by (cases "jsonl_append fs p l")
  have "fs_can_write fs p" using assms(1) fs_get_can_write by (auto simp: log_file_def)
  then have "rc = 0" using jsonl_append_facts(1) [OF r] by simp
  with r jsonl_append_facts(2,4) [OF r] assms show ?thesis
    by (auto simp: log_file_def fs_same_def)
qed

interpretation jlog: line_log "jsonl_add p" "jsonl_lines p" line_ok "log_ready p" for p
proof (unfold_locales, goal_cases)
  case (1 fs l)
  then obtain ls where ls: "log_file fs p ls" by (auto simp: log_ready_def)
  from log_file_append [OF ls 1(2)] obtain fs' where
    "jsonl_append fs p l = (0, fs')" "log_file fs' p (ls @ [l])" by auto
  with log_file_lines ls show ?case
    by (auto simp: jsonl_add_def jsonl_lines_def log_ready_def)
qed

section \<open>The lines as JSON terms\<close>

definition user_json :: "string \<Rightarrow> json" where
  "user_json c = JObj [(''role'', JStr ''user''), (''content'', JStr c)]"

definition tool_use_json :: "string \<times> string \<times> string \<Rightarrow> json" where
  "tool_use_json tu =
     (case tu of (i, n, inp) \<Rightarrow>
        JObj [(''type'', JStr ''tool_use''), (''id'', JStr i), (''name'', JStr n), (''input'', JRaw inp)])"

definition assistant_json :: "string \<Rightarrow> string \<Rightarrow> (string \<times> string \<times> string) list \<Rightarrow> json" where
  "assistant_json th tx tools =
     JObj [(''role'', JStr ''assistant''),
           (''content'',
            JArr ([JObj [(''type'', JStr ''thinking''), (''thinking'', JStr th)],
                   JObj [(''type'', JStr ''text''), (''text'', JStr tx)]] @ map tool_use_json tools))]"

definition tool_result_json :: "string \<times> string \<Rightarrow> json" where
  "tool_result_json r =
     JObj [(''type'', JStr ''tool_result''), (''tool_use_id'', JStr (fst r)), (''content'', JStr (snd r))]"

definition tool_results_json :: "(string \<times> string) list \<Rightarrow> json" where
  "tool_results_json rs =
     JObj [(''role'', JStr ''user''), (''content'', JArr (map tool_result_json rs))]"

lemma quote_words [simp]:
  "json_quote ''user'' = ''\"user\"''" "json_quote ''assistant'' = ''\"assistant\"''"
  "json_quote ''tool_use'' = ''\"tool_use\"''" "json_quote ''tool_result'' = ''\"tool_result\"''"
  "json_quote ''thinking'' = ''\"thinking\"''" "json_quote ''text'' = ''\"text\"''"
  by (subst json_quote_plain; simp add: ord_def char_defs)+

lemma user_text: "''{\"role\":\"user\",\"content\":'' @ jstr (Some c) @ ''}'' = json_text (user_json c)"
  by (simp add: user_json_def jstr_def QUOTE_def)

lemma store_conv_add_user_text:
  "store_conv_add_user fs path (Some c) = jsonl_append fs path (json_text (user_json c))"
  by (simp only: store_conv_add_user_def user_text)

lemma tool_use_text:
  "tool_use_block (Some i, Some n, Some inp) = CHR '','' # json_text (tool_use_json (i, n, inp))"
  by (simp add: tool_use_block_def tool_use_json_def jstr_def QUOTE_def)

definition some3 :: "string \<times> string \<times> string \<Rightarrow> tool_use" where
  "some3 t = (case t of (i, n, inp) \<Rightarrow> (Some i, Some n, Some inp))"

definition some2 :: "string \<times> string \<Rightarrow> string option \<times> string option" where
  "some2 t = (Some (fst t), Some (snd t))"

lemma commas_append:
  "xs \<noteq> [] \<Longrightarrow> commas (xs @ ys) = commas xs @ concat (map (\<lambda>y. CHR '','' # y) ys)"
  by (induction ys rule: rev_induct) (simp_all add: commas_snoc append_assoc [symmetric] del: append_assoc)

lemma assistant_text:
  "assistant_line (Some th) (Some tx) (map some3 tools) = json_text (assistant_json th tx tools)"
proof -
  have "concat (map tool_use_block (map some3 tools))
      = concat (map (\<lambda>y. CHR '','' # y) (map json_text (map tool_use_json tools)))"
    by (induction tools) (auto simp: some3_def tool_use_text split: prod.splits)
  then show ?thesis
    by (simp add: assistant_line_def assistant_json_def commas_append [of "[x, y]" for x y, simplified] QUOTE_def)
qed

lemma tool_result_text: "tool_result_block (some2 r) = json_text (tool_result_json r)"
  by (simp add: tool_result_block_def tool_result_json_def jstr_def some2_def QUOTE_def)

lemma tool_results_text:
  "tool_results_line (map some2 rs) = json_text (tool_results_json rs)"
  by (simp add: tool_results_line_def tool_results_json_def tool_result_text comp_def QUOTE_def)

definition input_ok :: "string \<Rightarrow> bool" where
  "input_ok s \<longleftrightarrow> raw_ok s \<and> line_ok s"

lemma user_line_ok: "line_ok (json_text (user_json c))"
  by (rule json_text_line_ok) (simp add: user_json_def LF_def NUL_def)

lemma assistant_line_ok:
  "\<forall>t \<in> set tools. input_ok (snd (snd t)) \<Longrightarrow> line_ok (json_text (assistant_json th tx tools))"
  by (rule json_text_line_ok)
    (auto simp: assistant_json_def tool_use_json_def input_ok_def LF_def NUL_def split: prod.splits)

lemma tool_results_line_ok: "line_ok (json_text (tool_results_json rs))"
  by (rule json_text_line_ok) (auto simp: tool_results_json_def tool_result_json_def LF_def NUL_def)

lemma keys_simple [simp]:
  "simple_key ''role''" "simple_key ''content''" "simple_key ''type''" "simple_key ''id''" "simple_key ''name''"
  "simple_key ''input''" "simple_key ''thinking''" "simple_key ''text''" "simple_key ''tool_use_id''"
  by (simp_all add: simple_key_def char_defs)

lemma user_json_ok: "json_ok (user_json c)"
  by (simp add: user_json_def)

lemma assistant_json_ok:
  "\<forall>t \<in> set tools. input_ok (snd (snd t)) \<Longrightarrow> json_ok (assistant_json th tx tools)"
  by (auto simp: assistant_json_def tool_use_json_def input_ok_def split: prod.splits)

lemma tool_results_json_ok: "json_ok (tool_results_json rs)"
  by (auto simp: tool_results_json_def tool_result_json_def)

lemma json_root_text: "json_ok v \<Longrightarrow> json_root (json_text v) = Some (view v [])"
  using parse_text [of v] by (auto simp: reads_def json_root_def json_parse_root_def skip_ws_def dest: spec [of _ "[]"])

lemma fs_same_others: "fs_same fs fs' {p} \<Longrightarrow> q \<noteq> p \<Longrightarrow> fs_get fs' q = fs_get fs q"
  using fs_same_get by fastforce

text \<open>Appending the text of a term to a log: the line is there, and parses as the term.\<close>

lemma log_append_json:
  assumes "log_file fs path ls" "json_ok v" "line_ok (json_text v)"
  shows "\<exists>fs'. jsonl_append fs path (json_text v) = (0, fs') \<and> fs_same fs fs' {path}
    \<and> store_conv_line_count fs' path = (0, ls @ [json_text v]) \<and> json_root (json_text v) = Some (view v [])"
  using log_file_append [OF assms(1,3)] log_file_lines json_root_text [OF assms(2)] by blast

lemma content_view:
  assumes "is_view v (JObj [(''role'', r), (''content'', JArr xs)])" "json_ok r" "\<forall>x \<in> set xs. json_ok x"
  shows "json_array_len (json_get v ''content'') = int (length xs)"
    "k < length xs \<Longrightarrow> is_view (json_array_get (json_get v ''content'') (int k)) (xs ! k)"
proof -
  have ok: "json_ok (JObj [(''role'', r), (''content'', JArr xs)])" using assms by simp
  have c: "is_view (json_get v ''content'') (JArr xs)"
    using json_get_some [OF assms(1) ok, of "''content''"] by simp
  have xs: "json_ok (JArr xs)" using assms(3) by simp
  show "json_array_len (json_get v ''content'') = int (length xs)"
    "k < length xs \<Longrightarrow> is_view (json_array_get (json_get v ''content'') (int k)) (xs ! k)"
    by (rule json_array_view [OF c xs])+
qed

lemma tool_use_view:
  assumes "is_view b (tool_use_json t)" "input_ok (snd (snd t))" "nulfree (fst t)" "nulfree (fst (snd t))"
  shows "json_get_string b ''id'' = Some (fst t)" "json_get_string b ''name'' = Some (fst (snd t))"
    "json_raw (json_get b ''input'') = snd (snd t)"
proof -
  obtain i n inp where t: "t = (i, n, inp)" by (cases t)
  let ?ms = "[(''type'', JStr ''tool_use''), (''id'', JStr i), (''name'', JStr n), (''input'', JRaw inp)]"
  have v: "is_view b (JObj ?ms)" using assms(1) by (simp add: tool_use_json_def t)
  have ok: "json_ok (JObj ?ms)" using assms(2) by (simp add: t input_ok_def)
  show "json_get_string b ''id'' = Some (fst t)" "json_get_string b ''name'' = Some (fst (snd t))"
    using json_get_string_view [OF v ok] assms t by simp_all
  show "json_raw (json_get b ''input'') = snd (snd t)"
    using is_view_raw [OF json_get_some [OF v ok, of "''input''"]] t by simp
qed

lemma block_view:
  assumes "is_view b (JObj [(''type'', JStr ty), (k, JStr s)])" "simple_key k" "k \<noteq> ''type''" "nulfree s"
  shows "json_get_string b k = Some s"
  using json_get_string_view [OF assms(1), of k s] assms by simp

text \<open>What is looked up in the line of a reply.\<close>

lemma assistant_view:
  assumes "nulfree th" "nulfree tx"
    and "\<forall>t \<in> set tools. input_ok (snd (snd t)) \<and> nulfree (fst t) \<and> nulfree (fst (snd t))"
  defines "v \<equiv> view (assistant_json th tx tools) []"
  shows "json_root (json_text (assistant_json th tx tools)) = Some v"
    and "json_get_string v ''role'' = Some ''assistant''" "json_array_len (json_get v ''content'') = int (length tools) + 2"
    and "json_get_string (json_array_get (json_get v ''content'') 0) ''thinking'' = Some th"
    and "json_get_string (json_array_get (json_get v ''content'') 1) ''text'' = Some tx"
    and "\<forall>k < length tools.
      json_get_string (json_array_get (json_get v ''content'') (int k + 2)) ''id'' = Some (fst (tools ! k))
      \<and> json_get_string (json_array_get (json_get v ''content'') (int k + 2)) ''name'' = Some (fst (snd (tools ! k)))
      \<and> json_raw (json_get (json_array_get (json_get v ''content'') (int k + 2)) ''input'') = snd (snd (tools ! k))"
proof -
  have inp: "\<forall>t \<in> set tools. input_ok (snd (snd t))" using assms(3) by blast
  note ok = assistant_json_ok [OF inp, of th tx]
  show "json_root (json_text (assistant_json th tx tools)) = Some v" unfolding v_def by (rule json_root_text [OF ok])
  define xs where "xs = [JObj [(''type'', JStr ''thinking''), (''thinking'', JStr th)],
      JObj [(''type'', JStr ''text''), (''text'', JStr tx)]] @ map tool_use_json tools"
  have vj: "is_view v (JObj [(''role'', JStr ''assistant''), (''content'', JArr xs)])"
    unfolding v_def xs_def assistant_json_def [symmetric] by simp
  have okxs: "\<forall>x \<in> set xs. json_ok x" using ok by (simp add: assistant_json_def xs_def)
  note cv = content_view [OF vj _ okxs, simplified]
  show "json_get_string v ''role'' = Some ''assistant''"
    using json_get_string_view [OF vj, of "''role''"] okxs by (simp add: NUL_def)
  have tool: "is_view (json_array_get (json_get v ''content'') (int k + 2)) (tool_use_json (tools ! k))"
    if "k < length tools" for k
    using cv(2) [of "k + 2"] that by (simp add: xs_def add.commute)
  show "json_get_string (json_array_get (json_get v ''content'') 0) ''thinking'' = Some th"
    using block_view [OF cv(2) [of 0, unfolded xs_def, simplified]] assms(1) by simp
  show "json_get_string (json_array_get (json_get v ''content'') 1) ''text'' = Some tx"
    using block_view [OF cv(2) [of 1, unfolded xs_def, simplified]] assms(2) by simp
  show "\<forall>k < length tools.
      json_get_string (json_array_get (json_get v ''content'') (int k + 2)) ''id'' = Some (fst (tools ! k))
      \<and> json_get_string (json_array_get (json_get v ''content'') (int k + 2)) ''name'' = Some (fst (snd (tools ! k)))
      \<and> json_raw (json_get (json_array_get (json_get v ''content'') (int k + 2)) ''input'') = snd (snd (tools ! k))"
    using tool_use_view [OF tool] assms(3) by simp
  show "json_array_len (json_get v ''content'') = int (length tools) + 2" using cv(1) by (simp add: xs_def)
qed

section \<open>Properties\<close>

text \<open>
  C26: A model reply survives the conversation file.  Appending an assistant message to a file of
  lines adds one line; reading the file back gives the old lines and that one, and the accessors
  find in it the thinking, the text and, for every tool call, its id, its name and its input as
  the very JSON text the model sent.
\<close>

theorem assistant_read_back:
  assumes "log_file fs path ls" "nulfree th" "nulfree tx"
    and "\<forall>t \<in> set tools. input_ok (snd (snd t)) \<and> nulfree (fst t) \<and> nulfree (fst (snd t))"
  shows "\<exists>fs' l v. store_conv_add_assistant fs path (Some th) (Some tx) (map some3 tools) = (0, fs')
    \<and> fs_same fs fs' {path}
    \<and> store_conv_line_count fs' path = (0, ls @ [l]) \<and> json_root l = Some v
    \<and> json_get_string v ''role'' = Some ''assistant''
    \<and> json_array_len (json_get v ''content'') = int (length tools) + 2
    \<and> json_get_string (json_array_get (json_get v ''content'') 0) ''thinking'' = Some th
    \<and> json_get_string (json_array_get (json_get v ''content'') 1) ''text'' = Some tx
    \<and> (\<forall>k < length tools.
         json_get_string (json_array_get (json_get v ''content'') (int k + 2)) ''id'' = Some (fst (tools ! k))
         \<and> json_get_string (json_array_get (json_get v ''content'') (int k + 2)) ''name'' = Some (fst (snd (tools ! k)))
         \<and> json_raw (json_get (json_array_get (json_get v ''content'') (int k + 2)) ''input'') = snd (snd (tools ! k)))"
proof -
  have inp: "\<forall>t \<in> set tools. input_ok (snd (snd t))" using assms(4) by blast
  from log_append_json [OF assms(1) assistant_json_ok [OF inp] assistant_line_ok [OF inp], of th tx] obtain fs' where
    "store_conv_add_assistant fs path (Some th) (Some tx) (map some3 tools) = (0, fs')" "fs_same fs fs' {path}"
    "store_conv_line_count fs' path = (0, ls @ [json_text (assistant_json th tx tools)])"
    by (auto simp: store_conv_add_assistant_def assistant_text)
  then show ?thesis using assistant_view [OF assms(2-4)] by blast
qed

definition demo_fs :: fsys where
  "demo_fs = \<lparr>fs_nodes = [''/s'' \<mapsto> FDir, ''/s/c'' \<mapsto> FFile [], ''/s/log'' \<mapsto> FFile (''a'' @ [LF] @ ''b'' @ [LF] @ ''c'' @ [LF])],
              fs_deny = (\<lambda>_. False), fs_rdonly = (\<lambda>_. False)\<rparr>"

lemma demo_log: "log_file demo_fs ''/s/c'' []" "log_file demo_fs ''/s/log'' [''a'', ''b'', ''c'']"
  by (simp_all add: log_file_def demo_fs_def fs_get_def LF_def NUL_def)

lemma empty_object_raw: "raw_ok ''{}''"
  by (simp add: raw_ok_def json_parse_first skip_ws_def make_val_def is_ws_def char_defs)

lemma assistant_read_back_witness:
  "\<exists>fs' l v. store_conv_add_assistant demo_fs ''/s/c'' (Some ''t'') (Some ''x'') [(Some ''1'', Some ''Read'', Some ''{}'')] = (0, fs')
     \<and> store_conv_line_count fs' ''/s/c'' = (0, [l]) \<and> json_root l = Some v
     \<and> json_array_len (json_get v ''content'') = 3"
proof -
  have "input_ok ''{}''" by (simp add: input_ok_def empty_object_raw LF_def NUL_def)
  then show ?thesis
    using assistant_read_back [OF demo_log(1), of "''t''" "''x''" "[(''1'', ''Read'', ''{}'')]"]
    by (fastforce simp: NUL_def some3_def)
qed

text \<open>What is looked up in a line of the user and in a line of tool results.\<close>

lemma user_view:
  assumes "nulfree c"
  shows "json_get_string (view (user_json c) []) ''role'' = Some ''user''" "json_get_string (view (user_json c) []) ''content'' = Some c"
    "jv_type (json_get (view (user_json c) []) ''content'') = JSON_STRING"
proof -
  have v: "is_view (view (user_json c) []) (JObj [(''role'', JStr ''user''), (''content'', JStr c)])"
    by (simp add: user_json_def)
  have ok: "json_ok (JObj [(''role'', JStr ''user''), (''content'', JStr c)])" by simp
  show "json_get_string (view (user_json c) []) ''role'' = Some ''user''" "json_get_string (view (user_json c) []) ''content'' = Some c"
    using json_get_string_view [OF v ok] assms by (simp_all add: NUL_def)
  show "jv_type (json_get (view (user_json c) []) ''content'') = JSON_STRING"
    using is_view_type [OF json_get_some [OF v ok, of "''content''"]] by simp
qed

lemma tool_results_view:
  assumes "\<forall>r \<in> set rs. nulfree (fst r) \<and> nulfree (snd r)"
  shows "jv_type (json_get (view (tool_results_json rs) []) ''content'') \<noteq> JSON_STRING"
    "json_array_len (json_get (view (tool_results_json rs) []) ''content'') = int (length rs)"
    "k < length rs \<Longrightarrow> let b = json_array_get (json_get (view (tool_results_json rs) []) ''content'') (int k) in
      json_get_string b ''tool_use_id'' = Some (fst (rs ! k)) \<and> json_get_string b ''content'' = Some (snd (rs ! k))"
proof -
  let ?c = "json_get (view (tool_results_json rs) []) ''content''" and ?xs = "map tool_result_json rs"
  have v: "is_view (view (tool_results_json rs) []) (JObj [(''role'', JStr ''user''), (''content'', JArr ?xs)])"
    by (simp add: tool_results_json_def)
  have okxs: "\<forall>x \<in> set ?xs. json_ok x" by (auto simp: tool_result_json_def)
  note cv = content_view [OF v _ okxs, simplified]
  have "is_view ?c (JArr ?xs)" using json_get_some [OF v, of "''content''"] okxs by simp
  then show "jv_type ?c \<noteq> JSON_STRING" by (simp add: is_view_type)
  show "json_array_len ?c = int (length rs)" using cv(1) by simp
  assume k: "k < length rs"
  then have b: "is_view (json_array_get ?c (int k))
      (JObj [(''type'', JStr ''tool_result''), (''tool_use_id'', JStr (fst (rs ! k))), (''content'', JStr (snd (rs ! k)))])"
    using cv(2) [OF k] by (simp add: tool_result_json_def)
  have "nulfree (fst (rs ! k))" "nulfree (snd (rs ! k))" using assms k by auto
  then show "let b = json_array_get ?c (int k) in
      json_get_string b ''tool_use_id'' = Some (fst (rs ! k)) \<and> json_get_string b ''content'' = Some (snd (rs ! k))"
    using json_get_string_view [OF b] by (simp add: Let_def)
qed

text \<open>
  C27: User messages and tool results survive the conversation file: the appended line parses to a
  user message whose content is the text, or the list of the results with their call ids.
\<close>

theorem user_lines_read_back:
  assumes "log_file fs path ls"
  shows "(nulfree c \<longrightarrow> (\<exists>fs' l v. store_conv_add_user fs path (Some c) = (0, fs')
       \<and> store_conv_line_count fs' path = (0, ls @ [l]) \<and> json_root l = Some v \<and> is_user_turn l
       \<and> json_get_string v ''content'' = Some c))
    \<and> ((\<forall>r \<in> set rs. nulfree (fst r) \<and> nulfree (snd r)) \<longrightarrow>
       (\<exists>fs' l v. store_conv_add_tool_results fs path (map some2 rs) = (0, fs')
       \<and> store_conv_line_count fs' path = (0, ls @ [l]) \<and> json_root l = Some v \<and> \<not> is_user_turn l
       \<and> json_array_len (json_get v ''content'') = int (length rs)
       \<and> (\<forall>k < length rs. let b = json_array_get (json_get v ''content'') (int k) in
            json_get_string b ''tool_use_id'' = Some (fst (rs ! k))
            \<and> json_get_string b ''content'' = Some (snd (rs ! k)))))"
proof (intro conjI impI)
  assume "nulfree c"
  from user_view [OF this] log_append_json [OF assms user_json_ok user_line_ok, of c] show
    "\<exists>fs' l v. store_conv_add_user fs path (Some c) = (0, fs')
       \<and> store_conv_line_count fs' path = (0, ls @ [l]) \<and> json_root l = Some v \<and> is_user_turn l
       \<and> json_get_string v ''content'' = Some c"
    by (auto simp: store_conv_add_user_text is_user_turn_def)
next
  assume "\<forall>r \<in> set rs. nulfree (fst r) \<and> nulfree (snd r)"
  from tool_results_view [OF this] log_append_json [OF assms tool_results_json_ok tool_results_line_ok, of rs] show
    "\<exists>fs' l v. store_conv_add_tool_results fs path (map some2 rs) = (0, fs')
       \<and> store_conv_line_count fs' path = (0, ls @ [l]) \<and> json_root l = Some v \<and> \<not> is_user_turn l
       \<and> json_array_len (json_get v ''content'') = int (length rs)
       \<and> (\<forall>k < length rs. let b = json_array_get (json_get v ''content'') (int k) in
            json_get_string b ''tool_use_id'' = Some (fst (rs ! k))
            \<and> json_get_string b ''content'' = Some (snd (rs ! k)))"
    by (auto simp: store_conv_add_tool_results_def tool_results_text is_user_turn_def)
qed

lemma user_lines_read_back_witness:
  "\<exists>fs' l v. store_conv_add_user demo_fs ''/s/c'' (Some ''hi'') = (0, fs')
     \<and> store_conv_line_count fs' ''/s/c'' = (0, [l]) \<and> json_root l = Some v
     \<and> json_get_string v ''content'' = Some ''hi''"
  using user_lines_read_back [OF demo_log(1), of "''hi''" "[]"] by (fastforce simp: NUL_def)

text \<open>
  The number of user turns is the number of lines that are user messages with a string as
  content; each user message appended adds one, tool results and replies add none.
\<close>

lemma turn_count_steps:
  assumes "log_file fs path ls"
  shows "store_conv_user_turn_count fs path = int (length (filter is_user_turn ls))
    \<and> (line_ok l \<longrightarrow> store_conv_user_turn_count (snd (jsonl_append fs path l)) path
         = store_conv_user_turn_count fs path + (if is_user_turn l then 1 else 0))"
proof -
  have "store_conv_user_turn_count fs path = int (length (filter is_user_turn ls))"
    using log_file_lines [OF assms] by (simp add: store_conv_user_turn_count_def)
  moreover have "store_conv_user_turn_count (snd (jsonl_append fs path l)) path
      = int (length (filter is_user_turn (ls @ [l])))" if l: "line_ok l"
    using log_file_append [OF assms l] log_file_lines by (auto simp: store_conv_user_turn_count_def)
  ultimately show ?thesis by auto
qed

lemma turn_count_steps_witness:
  "store_conv_user_turn_count (snd (jsonl_append demo_fs ''/s/c'' ''x'')) ''/s/c''
     = store_conv_user_turn_count demo_fs ''/s/c'' + (if is_user_turn ''x'' then 1 else 0)"
  using turn_count_steps [OF demo_log(1), of "''x''"] by (simp add: LF_def NUL_def)

section \<open>Trimming\<close>

lemma line_end_loop_join:
  "\<forall>l \<in> set ls. LF \<notin> set l \<Longrightarrow> 0 < n \<Longrightarrow> n \<le> length ls \<Longrightarrow>
     line_end_loop (join_lines ls) i seen (seen + int n) = i + length (join_lines (take n ls))"
proof (induction ls arbitrary: i seen n)
  case (Cons l ls)
  have skip: "line_end_loop (l @ LF # s) i seen m
      = (if seen + 1 = m then i + length l + 1 else line_end_loop s (i + length l + 1) (seen + 1) m)"
    if "LF \<notin> set l" for l s i seen m
    using that by (induction l arbitrary: i) auto
  obtain k where k: "n = Suc k" using Cons.prems(2) by (cases n) auto
  show ?case
  proof (cases "k = 0")
    case True
    then show ?thesis using Cons.prems k skip [of l "join_lines ls" i seen] by simp
  next
    case False
    then have "line_end_loop (join_lines ls) (i + length l + 1) (seen + 1) (seen + 1 + int k)
        = (i + length l + 1) + length (join_lines (take k ls))"
      using Cons k by (intro Cons.IH) auto
    then show ?thesis
      using Cons.prems k False skip [of l "join_lines ls" i seen] by (simp add: add.assoc)
  qed
qed simp

lemma count_LF_join: "\<forall>l \<in> set ls. LF \<notin> set l \<Longrightarrow> length (filter (\<lambda>c. c = LF) (join_lines ls)) = length ls"
proof (induction ls)
  case (Cons l ls)
  then have "filter (\<lambda>c. c = LF) l = []" by (auto simp: filter_empty_conv)
  with Cons show ?case by simp
qed simp

lemma nulfree_join: "\<forall>l \<in> set ls. nulfree l \<Longrightarrow> nulfree (join_lines ls)"
  by (induction ls) (auto simp: LF_def NUL_def)

definition archive_of :: "string \<Rightarrow> string" where
  "archive_of dir = dir @ ''/conversation-archive.jsonl''"

lemma strrchr_last: "CHR ''/'' \<notin> set b \<Longrightarrow> strrchr (a @ CHR ''/'' # b) (CHR ''/'') = Some (CHR ''/'' # b)"
proof -
  assume b: "CHR ''/'' \<notin> set b"
  then have "strrchr b (CHR ''/'') = None" by (induction b) auto
  then show ?thesis by (induction a) auto
qed

lemma join_split:
  "join_lines ls = join_lines (take n ls) @ join_lines (drop n ls)"
  "take (length (join_lines (take n ls))) (join_lines ls) = join_lines (take n ls)"
  "drop (length (join_lines (take n ls))) (join_lines ls) = join_lines (drop n ls)"
proof -
  show s: "join_lines ls = join_lines (take n ls) @ join_lines (drop n ls)"
    by (metis append_take_drop_id join_lines_simps(3))
  show "take (length (join_lines (take n ls))) (join_lines ls) = join_lines (take n ls)"
    "drop (length (join_lines (take n ls))) (join_lines ls) = join_lines (drop n ls)"
    using s by (metis append_eq_conv_conj)+
qed

lemma line_end_split:
  assumes "\<forall>l \<in> set ls. LF \<notin> set l" "0 < n" "n \<le> length ls"
  shows "conv_line_end_offset (join_lines ls) (int n) = length (join_lines (take n ls))"
proof -
  have "line_end_loop (join_lines ls) 0 0 (int n) = length (join_lines (take n ls))"
    using line_end_loop_join [OF assms, of 0 0] by simp
  then show ?thesis unfolding conv_line_end_offset_def using assms(2) by auto
qed

text \<open>The two writes of the trimming: the archive grows by the first lines, the rest is kept.\<close>

lemma trim_writes:
  assumes "log_file fs p ls" "log_file fs a as" "a \<noteq> p"
    and fs1: "fs1 = fs_set fs a (join_lines as @ join_lines (take n ls))"
  shows "fs_append fs a (join_lines (take n ls)) = Some fs1" "fs_can_write fs1 p"
    "log_file (fs_set fs1 p (join_lines (drop n ls))) p (drop n ls)"
    "log_file (fs_set fs1 p (join_lines (drop n ls))) a (as @ take n ls)"
    "fs_same fs (fs_set fs1 p (join_lines (drop n ls))) {p, a}"
proof -
  show "fs_append fs a (join_lines (take n ls)) = Some fs1"
    using assms(2) fs_get_can_write by (auto simp: fs_append_def log_file_def fs1)
  have "fs_can_write fs a" "fs_can_write fs p"
    using assms(1,2) fs_get_can_write by (auto simp: log_file_def)
  then show "fs_can_write fs1 p" unfolding fs1 by (rule fs_can_write_set)
  have "\<not> fs_deny fs p" "\<not> fs_deny fs a"
    using assms(1,2) by (auto simp: log_file_def fs_get_def split: if_splits)
  moreover have "\<forall>l \<in> set (drop n ls). line_ok l" "\<forall>l \<in> set (as @ take n ls). line_ok l"
    using assms(1,2) set_drop_subset [of n ls] set_take_subset [of n ls]
    unfolding log_file_def set_append by blast+
  moreover have "\<not> fs_rdonly fs p" "\<not> fs_rdonly fs a" using assms(1,2) by (auto simp: log_file_def)
  ultimately show "log_file (fs_set fs1 p (join_lines (drop n ls))) p (drop n ls)"
    "log_file (fs_set fs1 p (join_lines (drop n ls))) a (as @ take n ls)"
    using assms(3) unfolding log_file_def fs1 by simp_all
  show "fs_same fs (fs_set fs1 p (join_lines (drop n ls))) {p, a}" by (simp add: fs1)
qed

lemma trim_log_files:
  assumes "log_file fs (d @ ''/conversation.jsonl'') ls" "log_file fs (archive_of d) as"
    and "d \<noteq> []" "last d \<noteq> CHR ''/''" "0 \<le> k"
  shows "\<exists>fs'. store_conv_trim_tail fs (d @ ''/conversation.jsonl'') k = (0, fs')
    \<and> log_file fs' (d @ ''/conversation.jsonl'') (drop (length ls - nat k) ls)
    \<and> log_file fs' (archive_of d) (as @ take (length ls - nat k) ls)
    \<and> fs_same fs fs' {d @ ''/conversation.jsonl'', archive_of d}"
proof -
  let ?p = "d @ ''/conversation.jsonl''" and ?n = "length ls - nat k"
  have ok: "\<forall>l \<in> set ls. LF \<notin> set l" "\<forall>l \<in> set ls. nulfree l" using assms(1) by (auto simp: log_file_def line_ok_def)
  have rd: "util_read_file fs ?p = Some (join_lines ls)"
    using assms(1) nulfree_join [OF ok(2)] by (simp add: log_file_def util_read_file_def)
  have tot: "int (length (filter (\<lambda>c. c = LF) (join_lines ls))) = int (length ls)"
    using count_LF_join [OF ok(1)] by simp
  show ?thesis
  proof (cases "int (length ls) \<le> k")
    case True
    then have "?n = 0" by simp
    with True rd tot assms(1,2) show ?thesis by (simp add: store_conv_trim_tail_def)
  next
    case False
    then have n: "0 < ?n" "?n \<le> length ls" "int (length ls) - k = int ?n" using assms(5) by auto
    have sp: "conv_line_end_offset (join_lines ls) (int (length ls) - k) = length (join_lines (take ?n ls))"
      unfolding n(3) by (rule line_end_split [OF ok(1) n(1,2)])
    have ar: "(case strrchr ?p (CHR ''/'') of None \<Rightarrow> fs | Some t \<Rightarrow>
        let session_dir = take (length ?p - length t) ?p;
            archive = util_path_join session_dir ''conversation-archive.jsonl''
        in opt_default fs (fs_append fs archive x)) = opt_default fs (fs_append fs (archive_of d) x)" for x
      using strrchr_last [of "''conversation.jsonl''" d] assms(3,4)
      by (simp add: Let_def util_path_join_def archive_of_def)
    have "archive_of d \<noteq> ?p" by (simp add: archive_of_def)
    note w = trim_writes [OF assms(1,2) this refl, of ?n]
    let ?fs1 = "fs_set fs (archive_of d) (join_lines as @ join_lines (take ?n ls))"
    have "store_conv_trim_tail fs ?p k = (0, fs_set ?fs1 ?p (join_lines (drop ?n ls)))"
      using False rd tot
      by (simp add: store_conv_trim_tail_def ar sp join_split(2,3) w(1,2) fs_write_def Let_def)
    then show ?thesis using w(3-5) by blast
  qed
qed

text \<open>
  Trimming moves lines, it loses none.  When the conversation has more lines than are kept, the
  first ones are appended to the archive beside it, in order, and the conversation keeps exactly
  the last \<open>k\<close>; otherwise nothing changes.
\<close>

lemma trim_moves_lines:
  assumes "log_file fs (d @ ''/conversation.jsonl'') ls" "log_file fs (archive_of d) as"
    and "d \<noteq> []" "last d \<noteq> CHR ''/''" "0 \<le> k"
  shows "\<exists>fs'. store_conv_trim_tail fs (d @ ''/conversation.jsonl'') k = (0, fs')
    \<and> log_file fs' (d @ ''/conversation.jsonl'') (drop (length ls - nat k) ls)
    \<and> log_file fs' (archive_of d) (as @ take (length ls - nat k) ls)
    \<and> fs_same fs fs' {d @ ''/conversation.jsonl'', archive_of d}"
  by (rule trim_log_files [OF assms])

definition trim_fs :: fsys where
  "trim_fs = \<lparr>fs_nodes = [''/s'' \<mapsto> FDir, ''/s/conversation.jsonl'' \<mapsto> FFile (join_lines [''a'', ''b'', ''c'']),
                       ''/s/conversation-archive.jsonl'' \<mapsto> FFile (join_lines [''z''])],
              fs_deny = (\<lambda>_. False), fs_rdonly = (\<lambda>_. False)\<rparr>"

lemma trim_moves_lines_witness:
  "\<exists>fs'. store_conv_trim_tail trim_fs ''/s/conversation.jsonl'' 1 = (0, fs')
     \<and> log_file fs' ''/s/conversation.jsonl'' [''c'']
     \<and> log_file fs' (archive_of ''/s'') [''z'', ''a'', ''b'']"
proof -
  have "log_file trim_fs (''/s'' @ ''/conversation.jsonl'') [''a'', ''b'', ''c'']"
    "log_file trim_fs (archive_of ''/s'') [''z'']"
    by (simp_all add: log_file_def trim_fs_def fs_get_def archive_of_def LF_def NUL_def)
  from trim_moves_lines [OF this, of 1] show ?thesis by (auto simp: archive_of_def)
qed

section \<open>Statistics\<close>

definition stats_json :: "stat_fields \<Rightarrow> string \<Rightarrow> json" where
  "stats_json flds ts = JObj (map (\<lambda>(k, v). (k, JInt v)) flds @ [(''last_updated'', JStr ts)])"

lemma commas_snoc_concat: "commas (xs @ [y]) = concat (map (\<lambda>x. x @ '','') xs) @ y"
  by (induction xs) (auto simp: commas_Cons)

lemma stats_text_json: "stats_text flds ts = json_text (stats_json flds ts) @ [LF]"
proof -
  have "concat (map (\<lambda>(k, v). QUOTE # k @ QUOTE # CHR '':'' # int_dec v @ '','') flds)
      = concat (map (\<lambda>x. x @ '','') (map member_text (map (\<lambda>(k, v). (k, JInt v)) flds)))"
    by (induction flds) (auto simp: member_text_def)
  then show ?thesis
    by (simp add: stats_text_def stats_json_def json_text_obj commas_snoc_concat member_text_def QUOTE_def
        del: json_text.simps(7))
qed

lemma double_to_int_range: "- (2 ^ 31) \<le> double_to_int x \<and> double_to_int x < 2 ^ 31"
  by (simp add: double_to_int_def Let_def)

lemma json_get_int_range: "- (2 ^ 31) \<le> json_get_int v k \<and> json_get_int v k < 2 ^ 31"
  using double_to_int_range by (auto simp: json_get_int_def split: option.splits)

lemma STAT_KEYS_ok: "k \<in> set STAT_KEYS \<Longrightarrow> simple_key k" "''last_updated'' \<notin> set STAT_KEYS" "distinct STAT_KEYS"
  by (auto simp: STAT_KEYS_def simple_key_def char_defs)

text \<open>What the file says before: each field is what \<open>store_stats_get_file_int\<close> answers.\<close>

lemma stats_load_get:
  "stats_load (store_stats_read fs path) = map (\<lambda>k. (k, store_stats_get_file_int fs path k)) STAT_KEYS"
proof -
  have nil: "json_root [] = None"
    by (simp add: json_root_def json_parse_root_def json_parse_eq skip_ws_def)
  show ?thesis
    using nil by (auto simp: stats_load_def store_stats_get_file_int_def split: option.splits)
qed

lemma stats_put_keys: "stats_put (map (\<lambda>k. (k, f k)) ks) key v = map (\<lambda>k. (k, (f(key := v)) k)) ks"
  by (auto simp: stats_put_def)

lemma stats_read_back:
  assumes "fs_can_write fs path" "nulfree ts" "k \<in> set STAT_KEYS" "- (2 ^ 31) \<le> f k" "f k < 2 ^ 31"
  shows "store_stats_get_file_int (stats_write_canonical fs path (map (\<lambda>k. (k, f k)) STAT_KEYS) ts) path k = f k"
proof -
  let ?flds = "map (\<lambda>k. (k, f k)) STAT_KEYS"
  let ?j = "stats_json ?flds ts"
  let ?ms = "map (\<lambda>k. (k, JInt (f k))) STAT_KEYS @ [(''last_updated'', JStr ts)]"
  have j: "?j = JObj ?ms" by (simp add: stats_json_def)
  have ok: "json_ok ?j"
    using STAT_KEYS_ok(1) by (auto simp: j) (simp add: simple_key_def char_defs)
  have "line_ok (json_text ?j)"
    unfolding j by (rule json_text_line_ok) (simp add: STAT_KEYS_def LF_def NUL_def)
  then have nf: "nulfree (json_text ?j @ [LF])" by (simp add: line_ok_def LF_def NUL_def)
  have "fs_get (fs_set fs path (json_text ?j @ [LF])) path = Some (json_text ?j @ [LF])"
    using assms(1) by (simp add: fs_can_write_def)
  then have rd: "store_stats_read (stats_write_canonical fs path ?flds ts) path = Some (json_text ?j @ [LF])"
    using assms(1) nf by (simp add: stats_write_canonical_def util_write_file_def fs_write_def stats_text_json
        store_stats_read_def util_read_file_def del: nulfree_simps)
  have "json_root (json_text ?j @ [LF]) = Some (view ?j [LF])"
    using parse_text [OF ok] by (simp add: reads_def json_root_def json_parse_root_def skip_ws_def is_ws_def j)
  moreover have "json_get_int (view ?j [LF]) k = f k"
  proof (rule json_get_int_view)
    show "is_view (view ?j [LF]) (JObj ?ms)" by (simp add: j)
    show "json_ok (JObj ?ms)" using ok j by simp
    show "map_of ?ms k = Some (JInt (f k))"
      using assms(3) by (simp add: map_add_def map_of_map_restrict split: option.splits)
  qed (use assms in simp_all)
  ultimately show ?thesis using rd by (simp add: store_stats_get_file_int_def)
qed

lemma stats_file_set_get:
  assumes "fs_can_write fs path" "nulfree ts" "key \<in> set STAT_KEYS" "- (2 ^ 31) \<le> v" "v < 2 ^ 31"
    and "k \<in> set STAT_KEYS"
  shows "store_stats_get_file_int (store_stats_set_int_file fs path key v ts) path k
    = (if k = key then v else store_stats_get_file_int fs path k)"
proof -
  let ?f = "(store_stats_get_file_int fs path)(key := v)"
  have "- (2 ^ 31) \<le> store_stats_get_file_int fs path k \<and> store_stats_get_file_int fs path k < 2 ^ 31"
    using json_get_int_range by (simp add: store_stats_get_file_int_def split: option.splits)
  then have "- (2 ^ 31) \<le> ?f k" "?f k < 2 ^ 31" using assms by simp_all
  from stats_read_back [of fs path ts k ?f, OF assms(1,2,6) this]
  have "store_stats_get_file_int (stats_write_canonical fs path (map (\<lambda>k. (k, ?f k)) STAT_KEYS) ts) path k = ?f k" .
  then show ?thesis
    unfolding store_stats_set_int_file_def stats_load_get stats_put_keys by simp
qed

text \<open>
  The statistics file behaves as a record of ten integers.  After \<open>store_stats_set_int_file\<close> a
  read of that key gives the value set, and a read of every other key gives what it gave before,
  also when the file was missing, empty or damaged (then 0).
\<close>

lemma stats_set_get:
  assumes "fs_can_write fs path" "nulfree ts" "key \<in> set STAT_KEYS" "- (2 ^ 31) \<le> v" "v < 2 ^ 31"
    and "k \<in> set STAT_KEYS"
  shows "store_stats_get_file_int (store_stats_set_int_file fs path key v ts) path k
    = (if k = key then v else store_stats_get_file_int fs path k)"
  by (rule stats_file_set_get [OF assms])

lemma stats_set_get_witness:
  "store_stats_get_file_int (store_stats_set_int_file demo_fs ''/s/stats.json'' ''total_input_tokens'' 12345 ''now'')
     ''/s/stats.json'' ''total_input_tokens'' = 12345"
proof -
  have "fs_can_write demo_fs ''/s/stats.json''"
    by (simp add: fs_can_write_def demo_fs_def fs_is_dir_def dir_of_def Let_def)
  from stats_set_get [OF this, of "''now''" "''total_input_tokens''" 12345 "''total_input_tokens''"]
  show ?thesis by (simp add: STAT_KEYS_def NUL_def)
qed

text \<open>
  A tool call whose input is a NULL pointer (a call with no argument text) makes
  \<open>store_conv_add_assistant\<close> write a line that the program's own parser rejects: the reply is lost
  for every later reader of the conversation.
\<close>

lemma empty_input_breaks_line:
  "\<exists>fs' l. store_conv_add_assistant demo_fs ''/s/c'' None None [(Some ''1'', Some ''Bash'', None)] = (0, fs')
     \<and> store_conv_line_count fs' ''/s/c'' = (0, [l]) \<and> json_root l = None"
proof -
  let ?l = "assistant_line None None [(Some ''1'', Some ''Bash'', None)]"
  have q: "json_quote [] = ''\"\"''" "json_quote ''1'' = ''\"1\"''" "json_quote ''Bash'' = ''\"Bash\"''"
    by (subst json_quote_plain; simp add: ord_def char_defs)+
  have lit: "?l = ''{\"role\":\"assistant\",\"content\":[{\"type\":\"thinking\",\"thinking\":\"\"},{\"type\":\"text\",\"text\":\"\"},{\"type\":\"tool_use\",\"id\":\"1\",\"name\":\"Bash\",\"input\":}]}''"
    by (simp add: assistant_line_def tool_use_block_def jstr_def q)
  have "json_root ?l = None" unfolding lit by code_simp
  moreover have "line_ok ?l" unfolding lit by (simp add: LF_def NUL_def)
  ultimately show ?thesis
    using log_file_append [OF demo_log(1), of ?l] log_file_lines
    unfolding store_conv_add_assistant_def by fastforce
qed

end
