(* ===== verification/StoreSessions.thy ===== *)
theory StoreSessions
  imports StoreProps "HOL-Library.Multiset"
begin

text \<open>
  The sessions of a project: the key a working directory is mapped to, the choice of the session
  to continue, the order of the list, and what forking copies.
\<close>

section \<open>The project key\<close>

definition no_double :: "char \<Rightarrow> string \<Rightarrow> bool" where
  "no_double d s \<longleftrightarrow> (\<forall>i. Suc i < length s \<longrightarrow> \<not> (s ! i = d \<and> s ! Suc i = d))"

lemma no_double_simps [simp]:
  "no_double d []" "no_double d [a]"
  "no_double d (a # b # s) \<longleftrightarrow> \<not> (a = d \<and> b = d) \<and> no_double d (b # s)"
  by (auto simp: no_double_def less_Suc_eq_0_disj nth_Cons split: nat.splits)

lemma key_char_allowed: "key_allowed (key_char c)"
  by (auto simp: key_char_def key_allowed_def)

lemma key_loop_allowed: "c \<in> set (key_loop prev s) \<Longrightarrow> key_allowed c"
  by (induction prev s rule: key_loop.induct) (auto simp: Let_def key_char_allowed split: if_splits)

lemma key_loop_first: "key_loop (CHR ''-'') s = c # t \<Longrightarrow> c \<noteq> CHR ''-''"
  by (induction "CHR ''-''" s rule: key_loop.induct) (auto simp: Let_def split: if_splits)

lemma key_loop_no_double: "no_double (CHR ''-'') (key_loop prev s)"
proof (induction prev s rule: key_loop.induct)
  case (2 prev x s)
  show ?case
  proof (cases "key_char x = CHR ''-'' \<and> prev = CHR ''-''")
    case True
    with 2 show ?thesis by (simp add: Let_def)
  next
    case False
    with 2 have "no_double (CHR ''-'') (key_loop (key_char x) s)" by simp
    with False key_loop_first [of s] show ?thesis
      by (cases "key_loop (key_char x) s"; cases "key_char x = CHR ''-''") (auto simp: Let_def)
  qed
qed simp

lemma strip_tail_prefix: "\<exists>t. s = strip_tail d s @ t"
proof -
  have "rev s = takeWhile (\<lambda>c. c = d) (rev s) @ dropWhile (\<lambda>c. c = d) (rev s)" by simp
  then have "s = strip_tail d s @ rev (takeWhile (\<lambda>c. c = d) (rev s))"
    unfolding strip_tail_def by (metis rev_append rev_rev_ident)
  then show ?thesis by blast
qed

lemma strip_tail_last: "strip_tail d s \<noteq> [] \<Longrightarrow> last (strip_tail d s) \<noteq> d"
  using hd_dropWhile [of "\<lambda>c. c = d" "rev s"] by (simp add: strip_tail_def last_rev)

lemma no_double_prefix: "no_double d (a @ b) \<Longrightarrow> no_double d a"
proof -
  assume "no_double d (a @ b)"
  then have "\<not> ((a @ b) ! i = d \<and> (a @ b) ! Suc i = d)" if "Suc i < length a" for i
    using that by (simp add: no_double_def)
  then show ?thesis by (simp add: no_double_def nth_append)
qed

text \<open>
  The project key is one safe directory name: it starts with a dash, has only letters, digits,
  dot, underscore and dash, hence no slash, no doubled dash after the first byte, and no dash at
  the end unless it is the dash alone.
\<close>

lemma project_key_safe:
  "\<exists>k. store_session_project_key cwd = CHR ''-'' # k
     \<and> (\<forall>c \<in> set k. key_allowed c) \<and> CHR ''/'' \<notin> set (store_session_project_key cwd)
     \<and> no_double (CHR ''-'') k \<and> (k = [] \<or> last k \<noteq> CHR ''-'')"
proof -
  have slash: "\<not> key_allowed (CHR ''/'')"
    by (simp add: key_allowed_def isupper_def islower_def isdigit_def ord_def)
  consider "store_session_project_key cwd = ''-''"
    | c where "store_session_project_key cwd
        = CHR ''-'' # strip_tail (CHR ''-'') (key_loop NUL (dropWhile (\<lambda>x. x = CHR ''/'') c))"
    by (cases cwd; cases "the cwd = []") (auto simp: store_session_project_key_def)
  then show ?thesis
  proof cases
    case 1
    then show ?thesis by simp
  next
    case (2 c)
    let ?u = "key_loop NUL (dropWhile (\<lambda>x. x = CHR ''/'') c)"
    obtain t where t: "?u = strip_tail (CHR ''-'') ?u @ t" using strip_tail_prefix by blast
    have al: "\<forall>c \<in> set (strip_tail (CHR ''-'') ?u). key_allowed c"
      using key_loop_allowed t by (metis UnCI set_append)
    moreover have "no_double (CHR ''-'') (strip_tail (CHR ''-'') ?u)"
      using key_loop_no_double t no_double_prefix by metis
    ultimately show ?thesis using 2 slash strip_tail_last [of "CHR ''-''" ?u] by auto
  qed
qed

lemma project_key_safe_witness:
  "\<exists>k. store_session_project_key (Some ''/home/me/a b'') = CHR ''-'' # k
     \<and> (\<forall>c \<in> set k. key_allowed c)
     \<and> CHR ''/'' \<notin> set (store_session_project_key (Some ''/home/me/a b''))
     \<and> no_double (CHR ''-'') k \<and> (k = [] \<or> last k \<noteq> CHR ''-'')"
  by (rule project_key_safe)

text \<open>
  The comment above \<open>store_session_project_key\<close> says the algorithm also removes leading dashes
  before it adds its own.  The code does not: for a directory whose first byte is not allowed the
  key starts with two dashes, so it names another directory than the algorithm of the comment.
\<close>

lemma project_key_keeps_leading_dash:
  assumes "\<not> key_allowed x" "x \<noteq> CHR ''/''"
  shows "store_session_project_key (Some (CHR ''/'' # x # ''a'')) = ''--a''"
proof -
  have "key_char x = CHR ''-''" using assms by (simp add: key_char_def)
  moreover have "key_char (CHR ''a'') = CHR ''a''" "NUL \<noteq> CHR ''-''"
    by (simp_all add: key_char_def key_allowed_def islower_def ord_def NUL_def)
  ultimately show ?thesis
    using assms(2) by (simp add: store_session_project_key_def strip_tail_def Let_def)
qed

lemma project_key_keeps_leading_dash_witness:
  "store_session_project_key (Some ''/@a'') = ''--a''"
  by (rule project_key_keeps_leading_dash)
    (simp_all add: key_allowed_def isupper_def islower_def isdigit_def ord_def)

section \<open>The session to continue\<close>

lemma latest_step_inv:
  "fst (foldl latest_step (m, t) es) = n \<Longrightarrow> snd (foldl latest_step (m, t) es) = u \<Longrightarrow>
     t \<le> u \<and> (\<forall>e \<in> set es. \<forall>x. session_mtime e = Some x \<longrightarrow> x \<le> u)
     \<and> (n = m \<and> u = t \<or> t < u \<and> (\<exists>e \<in> set es. session_mtime e = Some u \<and> n = Some (d_name e)))"
proof (induction es arbitrary: m t)
  case (Cons e es)
  obtain m' t' where s: "latest_step (m, t) e = (m', t')" by (cases "latest_step (m, t) e")
  from Cons.IH [of m' t'] Cons.prems s
  have IH: "t' \<le> u \<and> (\<forall>e \<in> set es. \<forall>x. session_mtime e = Some x \<longrightarrow> x \<le> u)
     \<and> (n = m' \<and> u = t' \<or> t' < u \<and> (\<exists>e \<in> set es. session_mtime e = Some u \<and> n = Some (d_name e)))"
    by simp
  show ?case
  proof (cases "session_mtime e")
    case None
    with s IH show ?thesis by (auto simp: latest_step_def)
  next
    case (Some x)
    with s IH show ?thesis by (cases "t < x") (auto simp: latest_step_def)
  qed
qed simp

text \<open>
  Continuing picks a most recent session.  The name returned belongs to an entry that is a
  visible directory and no sub-agent's, whose time (that of its events file when there is one) no
  other candidate exceeds; there is no answer only when no candidate has a positive time.
\<close>

lemma continue_latest:
  "case store_session_resolve_continue (Some es) of
     None \<Rightarrow> (\<forall>e \<in> set es. \<forall>x. session_mtime e = Some x \<longrightarrow> x \<le> 0)
   | Some n \<Rightarrow> (\<exists>e \<in> set es. d_name e = n \<and> \<not> starts_with ''sub_'' n \<and> \<not> starts_with ''.'' n
        \<and> (\<exists>t. session_mtime e = Some t \<and> 0 < t
             \<and> (\<forall>e' \<in> set es. \<forall>x. session_mtime e' = Some x \<longrightarrow> x \<le> t)))"
proof -
  have names: "session_mtime e = Some t \<Longrightarrow> \<not> starts_with ''sub_'' (d_name e) \<and> \<not> starts_with ''.'' (d_name e)" for e t
    by (cases "d_name e") (auto simp: session_mtime_def split: if_splits)
  define n u where "n = fst (foldl latest_step (None, 0) es)" and "u = snd (foldl latest_step (None, 0) es)"
  have inv: "\<forall>e \<in> set es. \<forall>x. session_mtime e = Some x \<longrightarrow> x \<le> u"
    "n = None \<and> u = 0 \<or> 0 < u \<and> (\<exists>e \<in> set es. session_mtime e = Some u \<and> n = Some (d_name e))"
    using latest_step_inv [of None 0 es n u] by (simp_all add: n_def u_def)
  have res: "store_session_resolve_continue (Some es) = n"
    by (simp add: store_session_resolve_continue_def n_def)
  from inv(2) show ?thesis
  proof
    assume "n = None \<and> u = 0"
    with inv(1) res show ?thesis by simp
  next
    assume "0 < u \<and> (\<exists>e \<in> set es. session_mtime e = Some u \<and> n = Some (d_name e))"
    then obtain e where e: "e \<in> set es" "session_mtime e = Some u" "n = Some (d_name e)" "0 < u" by blast
    show ?thesis
      using e names [OF e(2)] inv(1) res by auto
  qed
qed

lemma continue_latest_witness:
  "store_session_resolve_continue (Some [\<lparr>d_name = ''a'', d_stat = Some (True, 5), d_events = Some 9\<rparr>,
      \<lparr>d_name = ''b'', d_stat = Some (True, 7), d_events = None\<rparr>]) = Some ''a''
   \<and> \<not> starts_with ''sub_'' ''a''"
proof -
  let ?es = "[\<lparr>d_name = ''a'', d_stat = Some (True, 5), d_events = Some 9\<rparr>,
      \<lparr>d_name = ''b'', d_stat = Some (True, 7), d_events = None\<rparr>]"
  have r: "store_session_resolve_continue (Some ?es) = Some ''a''"
    by (simp add: store_session_resolve_continue_def latest_step_def session_mtime_def)
  with continue_latest [of ?es] show ?thesis by auto
qed

section \<open>The order of the list\<close>

text \<open>One comparison of the selection sort, and its effect on the position \<open>i\<close>.\<close>

definition sel_swap :: "int list \<Rightarrow> nat \<Rightarrow> nat list \<Rightarrow> nat \<Rightarrow> nat list" where
  "sel_swap mt i od j =
     (if mt ! (od ! i) < mt ! (od ! j) then od[i := od ! j, j := od ! i] else od)"

lemma sel_inner_foldl: "sel_inner mt i js od = foldl (sel_swap mt i) od js"
  by (simp add: sel_inner_def sel_swap_def [abs_def])

lemma sel_swap_mset:
  "i < length od \<Longrightarrow> j < length od \<Longrightarrow>
     mset (sel_swap mt i od j) = mset od \<and> length (sel_swap mt i od j) = length od"
  by (simp add: sel_swap_def mset_swap)

lemma in_set_drop_nth: "x \<in> set (drop m xs) \<longleftrightarrow> (\<exists>k. m \<le> k \<and> k < length xs \<and> x = xs ! k)"
proof
  assume "x \<in> set (drop m xs)"
  then obtain j where "j < length (drop m xs)" "x = drop m xs ! j" by (auto simp: in_set_conv_nth)
  then show "\<exists>k. m \<le> k \<and> k < length xs \<and> x = xs ! k"
    by (intro exI [of _ "m + j"]) auto
next
  assume "\<exists>k. m \<le> k \<and> k < length xs \<and> x = xs ! k"
  then obtain k where k: "m \<le> k" "k < length xs" "x = xs ! k" by blast
  then have "drop m xs ! (k - m) = x" "k - m < length (drop m xs)" by simp_all
  then show "x \<in> set (drop m xs)" using nth_mem by blast
qed

lemma tail_bound:
  assumes "mset r = mset q" "take m r = take m q" "length r = v" "length q = v"
    and "\<And>k. m \<le> k \<Longrightarrow> k < v \<Longrightarrow> mt ! (q ! k) \<le> x" "m \<le> b" "b < v"
  shows "mt ! (r ! b) \<le> (x :: int)"
proof -
  have "mset (take m r) + mset (drop m r) = mset (take m q) + mset (drop m q)"
    using assms(1) by (simp only: mset_append [symmetric] append_take_drop_id)
  then have "mset (drop m r) = mset (drop m q)" using assms(2) by simp
  then have eq: "set (drop m r) = set (drop m q)" by (rule mset_eq_setD)
  have "r ! b \<in> set (drop m r)" unfolding in_set_drop_nth using assms(3,6,7) by (intro exI [of _ b]) simp
  then have "r ! b \<in> set (drop m q)" unfolding eq .
  then obtain k where "m \<le> k" "k < v" "r ! b = q ! k" unfolding in_set_drop_nth assms(4) by blast
  with assms(5) show ?thesis by simp
qed

text \<open>After the inner loop the value at \<open>i\<close> is the largest of the values from \<open>i\<close> on.\<close>

lemma sel_inner_inv:
  assumes "i < n" "length od = n"
  shows "i < m \<Longrightarrow> m \<le> n \<Longrightarrow>
    (let r = foldl (sel_swap mt i) od [Suc i..<m] in
       mset r = mset od \<and> length r = n \<and> (\<forall>k < i. r ! k = od ! k)
       \<and> (\<forall>k. m \<le> k \<longrightarrow> k < n \<longrightarrow> r ! k = od ! k)
       \<and> (\<forall>k. i \<le> k \<longrightarrow> k < m \<longrightarrow> mt ! (r ! k) \<le> mt ! (r ! i)))"
proof (induction m)
  case (Suc m)
  show ?case
  proof (cases "i = m")
    case True
    have "\<forall>k. m \<le> k \<longrightarrow> k < Suc m \<longrightarrow> mt ! (od ! k) \<le> mt ! (od ! m)"
      by (metis le_antisym less_Suc_eq_le order_refl)
    with True assms show ?thesis by (simp add: Let_def)
  next
    case False
    let ?r = "foldl (sel_swap mt i) od [Suc i..<m]"
    have IH: "mset ?r = mset od" "length ?r = n" "\<forall>k < i. ?r ! k = od ! k"
      "\<forall>k. m \<le> k \<longrightarrow> k < n \<longrightarrow> ?r ! k = od ! k"
      "\<forall>k. i \<le> k \<longrightarrow> k < m \<longrightarrow> mt ! (?r ! k) \<le> mt ! (?r ! i)"
      using Suc False by (simp_all add: Let_def)
    have up: "foldl (sel_swap mt i) od [Suc i..<Suc m] = sel_swap mt i ?r m"
      using Suc.prems False by simp
    have ms: "mset (sel_swap mt i ?r m) = mset od" "length (sel_swap mt i ?r m) = n"
      using sel_swap_mset [of i ?r m mt] IH assms Suc.prems by simp_all
    have rest: "\<forall>k < i. sel_swap mt i ?r m ! k = od ! k"
      "\<forall>k. Suc m \<le> k \<longrightarrow> k < n \<longrightarrow> sel_swap mt i ?r m ! k = od ! k"
      using IH Suc.prems False by (auto simp: sel_swap_def)
    have big: "mt ! (sel_swap mt i ?r m ! k) \<le> mt ! (sel_swap mt i ?r m ! i)" if "i \<le> k" "k < Suc m" for k
    proof (cases "mt ! (?r ! i) < mt ! (?r ! m)")
      case True
      then have "sel_swap mt i ?r m ! i = ?r ! m" "sel_swap mt i ?r m ! m = ?r ! i"
        "k \<noteq> i \<Longrightarrow> k \<noteq> m \<Longrightarrow> sel_swap mt i ?r m ! k = ?r ! k"
        using IH(2) assms Suc.prems False by (simp_all add: sel_swap_def)
      with True IH(5) that show ?thesis by (cases "k = i"; cases "k = m") force+
    next
      case no: False
      then have "sel_swap mt i ?r m = ?r" by (simp add: sel_swap_def)
      with no IH(5) that show ?thesis by (cases "k = m") auto
    qed
    from up ms rest big show ?thesis by (simp add: Let_def)
  qed
qed simp

text \<open>
  The session list is a permutation of the valid entries in descending order of their times,
  whatever the number of sessions.
\<close>

lemma sel_sort_sorts:
  "mset (sel_sort mtimes valid) = mset [0..<valid]
   \<and> (\<forall>a b. a \<le> b \<and> b < valid \<longrightarrow> mtimes ! (sel_sort mtimes valid ! b) \<le> mtimes ! (sel_sort mtimes valid ! a))"
proof -
  let ?st = "\<lambda>m. foldl (\<lambda>od i. sel_inner mtimes i [Suc i..<valid] od) [0..<valid] [0..<m]"
  have inv: "m \<le> valid - 1 \<Longrightarrow>
      mset (?st m) = mset [0..<valid] \<and> length (?st m) = valid
      \<and> (\<forall>a b. a \<le> b \<and> a < m \<and> b < valid \<longrightarrow> mtimes ! (?st m ! b) \<le> mtimes ! (?st m ! a))" for m
  proof (induction m)
    case (Suc m)
    let ?o = "?st m" and ?r = "foldl (sel_swap mtimes m) (?st m) [Suc m..<valid]"
    have IH: "mset ?o = mset [0..<valid]" "length ?o = valid"
      "\<And>a b. a \<le> b \<Longrightarrow> a < m \<Longrightarrow> b < valid \<Longrightarrow> mtimes ! (?o ! b) \<le> mtimes ! (?o ! a)"
      using Suc by auto
    have st: "?st (Suc m) = ?r" by (simp add: sel_inner_foldl)
    from sel_inner_inv [of m valid ?o valid mtimes] IH(2) Suc.prems
    have R: "mset ?r = mset ?o" "length ?r = valid" "\<forall>k < m. ?r ! k = ?o ! k"
      "\<forall>k. m \<le> k \<longrightarrow> k < valid \<longrightarrow> mtimes ! (?r ! k) \<le> mtimes ! (?r ! m)"
      by (simp_all add: Let_def)
    have "mtimes ! (?r ! b) \<le> mtimes ! (?r ! a)" if ab: "a \<le> b" "a < Suc m" "b < valid" for a b
    proof (cases "a = m")
      case True
      with R(4) ab show ?thesis by simp
    next
      case False
      then have a: "a < m" "?r ! a = ?o ! a" using ab R(3) by auto
      show ?thesis
      proof (cases "b < m")
        case True
        with a ab IH(3) R(3) show ?thesis by simp
      next
        case b: False
        have take_eq: "take m ?r = take m ?o"
          by (rule nth_take_lemma) (use R(2,3) IH(2) Suc.prems in simp_all)
        have "mtimes ! (?r ! b) \<le> mtimes ! (?o ! a)"
          by (rule tail_bound [OF R(1) take_eq R(2) IH(2)]) (use IH(3) a(1) b ab(3) in simp_all)
        then show ?thesis unfolding a(2) .
      qed
    qed
    with st R IH show ?case by simp
  qed simp
  from inv [of "valid - 1"] have I: "mset (sel_sort mtimes valid) = mset [0..<valid]"
    "\<And>a b. a \<le> b \<Longrightarrow> a < valid - 1 \<Longrightarrow> b < valid \<Longrightarrow>
       mtimes ! (sel_sort mtimes valid ! b) \<le> mtimes ! (sel_sort mtimes valid ! a)"
    by (simp_all add: sel_sort_def)
  have "mtimes ! (sel_sort mtimes valid ! b) \<le> mtimes ! (sel_sort mtimes valid ! a)"
    if "a \<le> b" "b < valid" for a b
    using that I(2) by (cases "a = b") auto
  with I(1) show ?thesis by blast
qed

lemma sel_sort_sorts_witness:
  "mset (sel_sort [3, 9, 5] 3) = mset [0..<3]
   \<and> [3, 9, 5] ! (sel_sort [3, 9, 5] 3 ! 2) \<le> [3, 9, 5 :: int] ! (sel_sort [3, 9, 5] 3 ! 0)"
  using sel_sort_sorts [of "[3, 9, 5]" 3] by (metis le0 lessI numeral_2_eq_2 numeral_3_eq_3)

section \<open>Names of new sessions\<close>

text \<open>The broken-down time of \<open>localtime\<close>, and numbers printed with leading zeros.\<close>

record broken_time =
  bt_year :: int
  bt_mon :: int
  bt_mday :: int
  bt_hour :: int
  bt_min :: int
  bt_sec :: int

definition zero_padded :: "nat \<Rightarrow> int \<Rightarrow> string" where
  "zero_padded k i = replicate (k - length (int_dec i)) (CHR ''0'') @ int_dec i"

definition session_id_text :: "broken_time \<Rightarrow> nat \<Rightarrow> string" where
  "session_id_text t r =
     zero_padded 4 (bt_year t + 1900) @ zero_padded 2 (bt_mon t + 1) @ zero_padded 2 (bt_mday t) @ ''-''
     @ zero_padded 2 (bt_hour t) @ zero_padded 2 (bt_min t) @ zero_padded 2 (bt_sec t) @ ''-'' @ hex4 r"

definition session_new_id :: "broken_time \<Rightarrow> nat \<Rightarrow> string" where
  "session_new_id t random = session_id_text t (random mod 0xFFFF)"

definition util_new_session_id :: "broken_time \<Rightarrow> nat \<Rightarrow> string" where
  "util_new_session_id t random = session_id_text t (random mod 0x10000)"

definition util_timestamp_now :: "broken_time \<Rightarrow> string" where
  "util_timestamp_now t =
     zero_padded 4 (bt_year t + 1900) @ ''-'' @ zero_padded 2 (bt_mon t + 1) @ ''-'' @ zero_padded 2 (bt_mday t) @ ''T''
     @ zero_padded 2 (bt_hour t) @ '':'' @ zero_padded 2 (bt_min t) @ '':'' @ zero_padded 2 (bt_sec t)"

definition id_char :: "char \<Rightarrow> bool" where
  "id_char c \<longleftrightarrow> isdigit c \<or> c = CHR ''-'' \<or> (97 \<le> ord c \<and> ord c \<le> 102)"

lemma id_char_padded: "0 \<le> i \<Longrightarrow> list_all id_char (zero_padded k i) \<and> zero_padded k i \<noteq> [] \<and> isdigit (hd (zero_padded k i))"
  using nat_dec_digits [of "nat i"] nat_dec_nonempty [of "nat i"]
  by (auto simp: zero_padded_def int_dec_def id_char_def list_all_iff hd_append isdigit_def ord_def)

lemma id_char_hex: "list_all id_char (hex4 r)"
proof -
  have "id_char (hex_char d)" if "d < 16" for d
    using ord_hex_char [OF that] that by (cases "d < 10") (simp_all add: id_char_def isdigit_def ord_def)
  then show ?thesis by (simp add: hex4_def)
qed

text \<open>The name of a new session is one directory name, and not an option on the command line.\<close>

lemma new_session_name:
  assumes "\<forall>i \<in> {bt_year t + 1900, bt_mon t + 1, bt_mday t, bt_hour t, bt_min t, bt_sec t}. 0 \<le> i"
    and "s = session_new_id t r \<or> s = util_new_session_id t r"
  shows "s \<noteq> [] \<and> isdigit (hd s) \<and> CHR ''/'' \<notin> set s \<and> NUL \<notin> set s"
proof -
  have "\<exists>n. s = session_id_text t n" using assms(2) by (auto simp: session_new_id_def util_new_session_id_def)
  then have "s \<noteq> [] \<and> isdigit (hd s) \<and> list_all id_char s"
    using assms(1) by (auto simp only: session_id_text_def) (simp_all add: id_char_padded id_char_hex, simp_all add: id_char_def)
  moreover have "\<not> id_char (CHR ''/'')" "\<not> id_char NUL" by (simp_all add: id_char_def isdigit_def ord_def NUL_def)
  ultimately show ?thesis unfolding list_all_iff by metis
qed

end
