(* ===== verification/Protocol.thy ===== *)
theory Protocol
  imports CText
begin

text \<open>
  The messages between the threads (c/protocol.c, c/protocol.h).  A tagged union is a datatype, a
  \<open>char *\<close> field is a \<open>string option\<close> (\<open>None\<close> is NULL); \<open>util_strdup\<close> copies, so a field holds the
  string itself and \<open>util_strdup(NULL)\<close> is NULL.  The three pointers of a flush barrier are the
  identity of the waiter.
\<close>

section \<open>Messages into the agent\<close>

record agent_result =
  ar_session_id :: "string option"
  ar_status :: "string option"
  ar_thinking :: "string option"
  ar_text :: "string option"
  ar_in_tokens :: int
  ar_out_tokens :: int
  ar_cache_read_tokens :: int
  ar_cache_creation_tokens :: int
  ar_request_count :: int

datatype input_message =
  MSG_USER_INPUT "string option"
| MSG_AGENT_RESULT agent_result
| MSG_ASYNC_TASK_RESULT "string option" int "string option"
| MSG_USER_NOTIFY "string option"
| MSG_NOTIFY_PENDING

fun input_message_free :: "input_message \<Rightarrow> input_message" where
  "input_message_free (MSG_USER_INPUT t) = MSG_USER_INPUT None"
| "input_message_free (MSG_AGENT_RESULT r) =
     MSG_AGENT_RESULT (r\<lparr>ar_session_id := None, ar_status := None, ar_thinking := None, ar_text := None\<rparr>)"
| "input_message_free (MSG_ASYNC_TASK_RESULT i c out) = MSG_ASYNC_TASK_RESULT None c None"
| "input_message_free (MSG_USER_NOTIFY t) = MSG_USER_NOTIFY None"
| "input_message_free MSG_NOTIFY_PENDING = MSG_NOTIFY_PENDING"

section \<open>Messages to the display\<close>

datatype display_type =
  DISPLAY_TEXT | DISPLAY_THINKING | DISPLAY_TOOL_CALL | DISPLAY_TOOL_RESULT | DISPLAY_USAGE
| DISPLAY_STOP | DISPLAY_ERROR | DISPLAY_SUB_AGENT_RESULT | DISPLAY_SUB_AGENT_START
| DISPLAY_ASYNC_TASK_RESULT | DISPLAY_CONTEXT_UPDATE | DISPLAY_FLUSH | DISPLAY_USER_NOTIFY

record display_message =
  dm_type :: display_type
  dm_content :: "string option"
  dm_tool_name :: "string option"
  dm_tool_id :: "string option"
  dm_tool_input :: "string option"
  dm_tool_exit_code :: int
  dm_in_tokens :: int
  dm_out_tokens :: int
  dm_cache_read_tokens :: int
  dm_cache_creation_tokens :: int
  dm_session_id :: "string option"
  dm_flush :: "nat option"

text \<open>\<open>memset(&m, 0, sizeof(m))\<close> and the type.\<close>

definition display_blank :: "display_type \<Rightarrow> display_message" where
  "display_blank ty =
     \<lparr>dm_type = ty, dm_content = None, dm_tool_name = None, dm_tool_id = None, dm_tool_input = None,
      dm_tool_exit_code = 0, dm_in_tokens = 0, dm_out_tokens = 0, dm_cache_read_tokens = 0,
      dm_cache_creation_tokens = 0, dm_session_id = None, dm_flush = None\<rparr>"

definition display_msg_text :: "string option \<Rightarrow> display_message" where
  "display_msg_text content = (display_blank DISPLAY_TEXT)\<lparr>dm_content := content\<rparr>"

definition display_msg_thinking :: "string option \<Rightarrow> display_message" where
  "display_msg_thinking content = (display_blank DISPLAY_THINKING)\<lparr>dm_content := content\<rparr>"

definition display_msg_tool_call :: "string option \<Rightarrow> string option \<Rightarrow> string option \<Rightarrow> display_message" where
  "display_msg_tool_call tid name inp =
     (display_blank DISPLAY_TOOL_CALL)\<lparr>dm_content := inp, dm_tool_id := tid, dm_tool_name := name,
        dm_tool_input := inp\<rparr>"

definition display_msg_tool_result :: "string option \<Rightarrow> int \<Rightarrow> display_message" where
  "display_msg_tool_result content exit_code =
     (display_blank DISPLAY_TOOL_RESULT)\<lparr>dm_content := content, dm_tool_exit_code := exit_code\<rparr>"

definition display_msg_usage :: "int \<Rightarrow> int \<Rightarrow> int \<Rightarrow> int \<Rightarrow> display_message" where
  "display_msg_usage in_tok out_tok cache_read cache_creation =
     (display_blank DISPLAY_USAGE)\<lparr>dm_in_tokens := in_tok, dm_out_tokens := out_tok,
        dm_cache_read_tokens := cache_read, dm_cache_creation_tokens := cache_creation\<rparr>"

definition display_msg_stop :: "string option \<Rightarrow> display_message" where
  "display_msg_stop reason = (display_blank DISPLAY_STOP)\<lparr>dm_content := reason\<rparr>"

definition display_msg_error :: "string option \<Rightarrow> display_message" where
  "display_msg_error content = (display_blank DISPLAY_ERROR)\<lparr>dm_content := content\<rparr>"

definition display_msg_sub_agent_start :: "string option \<Rightarrow> string option \<Rightarrow> display_message" where
  "display_msg_sub_agent_start sid desc =
     (display_blank DISPLAY_SUB_AGENT_START)\<lparr>dm_session_id := sid, dm_content := desc\<rparr>"

text \<open>The status is compared with \<open>strcmp\<close> and is never NULL at the calls; the thinking text
  travels in the field of the tool name.\<close>

definition display_msg_sub_agent_result ::
    "string option \<Rightarrow> string \<Rightarrow> string option \<Rightarrow> string option \<Rightarrow> int \<Rightarrow> int \<Rightarrow> display_message" where
  "display_msg_sub_agent_result sid status thinking body in_tokens out_tokens =
     (display_blank DISPLAY_SUB_AGENT_RESULT)\<lparr>dm_session_id := sid,
        dm_content := Some (opt_default [] body),
        dm_tool_exit_code := (if status = ''ok'' then 0 else 1),
        dm_in_tokens := in_tokens, dm_out_tokens := out_tokens,
        dm_tool_name := Some (opt_default [] thinking)\<rparr>"

definition display_msg_async_task_result :: "string option \<Rightarrow> int \<Rightarrow> string option \<Rightarrow> display_message" where
  "display_msg_async_task_result task_id exit_code output =
     (display_blank DISPLAY_ASYNC_TASK_RESULT)\<lparr>dm_session_id := task_id, dm_tool_exit_code := exit_code,
        dm_content := Some (opt_default [] output)\<rparr>"

definition display_msg_user_notify :: "string option \<Rightarrow> display_message" where
  "display_msg_user_notify body =
     (display_blank DISPLAY_USER_NOTIFY)\<lparr>dm_content := Some (opt_default [] body)\<rparr>"

definition display_msg_context_update :: "string option \<Rightarrow> display_message" where
  "display_msg_context_update trigger =
     (display_blank DISPLAY_CONTEXT_UPDATE)\<lparr>dm_tool_name := Some (opt_default ''auto'' trigger)\<rparr>"

definition display_message_free :: "display_message \<Rightarrow> display_message" where
  "display_message_free m =
     m\<lparr>dm_content := None, dm_tool_name := None, dm_tool_id := None, dm_tool_input := None,
       dm_session_id := None\<rparr>"

lemmas display_msg_defs =
  display_blank_def display_msg_text_def display_msg_thinking_def display_msg_tool_call_def
  display_msg_tool_result_def display_msg_usage_def display_msg_stop_def display_msg_error_def
  display_msg_sub_agent_start_def display_msg_sub_agent_result_def display_msg_async_task_result_def
  display_msg_user_notify_def display_msg_context_update_def

end
