(* ===== verification/Prompt.thy ===== *)
theory Prompt
  imports Store
begin

text \<open>
  The system prompt (c/agent.c, \<open>agent_build_prompt\<close> and its helpers): sections between tags, the
  instruction files, the index of skills and the chosen skills.  The environment variables, the
  kernel name and the directory listings are arguments; bytes outside ASCII are written as codes.
\<close>

section \<open>Sections\<close>

definition prompt_append_attr_escaped :: "string \<Rightarrow> string" where
  "prompt_append_attr_escaped src =
     concat (map (\<lambda>c.
       if c = QUOTE then [BSLASH, QUOTE]
       else if c = BSLASH then [BSLASH, BSLASH]
       else if c = CHR 0x08 then [BSLASH, CHR ''b'']
       else if c = CHR 0x0C then [BSLASH, CHR ''f'']
       else if c = LF then [BSLASH, CHR ''n'']
       else if c = CR then [BSLASH, CHR ''r'']
       else if c = TAB then [BSLASH, CHR ''t'']
       else if ord c < 0x20 then BSLASH # CHR ''u'' # hex4 (ord c)
       else [c]) src)"

definition strip_eol :: "string \<Rightarrow> string" where
  "strip_eol s = rev (dropWhile (\<lambda>c. c = LF \<or> c = CR) (rev s))"

definition prompt_append_section :: "string \<Rightarrow> string option \<Rightarrow> string option \<Rightarrow> string" where
  "prompt_append_section tag content name =
     (if \<not> nonempty_opt content then []
      else let body = strip_eol (the content) in
        if body = [] then []
        else (if nonempty_opt name
              then CHR ''<'' # tag @ '' name='' @ QUOTE # prompt_append_attr_escaped (the name) @ [QUOTE] @ ''>'' @ [LF]
              else CHR ''<'' # tag @ ''>'' @ [LF])
             @ body @ LF # ''</'' @ tag @ ''>'' @ [LF])"

section \<open>Locale and instruction files\<close>

type_synonym getenv = "string \<Rightarrow> string option"

definition detect_locale :: "getenv \<Rightarrow> string" where
  "detect_locale env =
     (let loc = (if nonempty_opt (env ''LC_ALL'') then the (env ''LC_ALL'')
                 else if nonempty_opt (env ''LC_MESSAGES'') then the (env ''LC_MESSAGES'')
                 else if nonempty_opt (env ''LANG'') then the (env ''LANG'') else ''en_US'')
      in before (CHR ''.'') (take 127 loc))"

definition instruction_names :: "string list" where
  "instruction_names = [''AGENTS.md'', ''AGENT.md'', ''CLAUDE.md'', ''.claude/CLAUDE.md'']"

definition find_instruction_file :: "fsys \<Rightarrow> string \<Rightarrow> string option" where
  "find_instruction_file fs dir =
     (case filter (\<lambda>p. fs_get fs p \<noteq> None) (map (util_path_join dir) instruction_names) of
        [] \<Rightarrow> None
      | p # ps \<Rightarrow> Some p)"

section \<open>Skills\<close>

text \<open>A line of at most 1023 bytes and what follows it; a longer line goes on in the next piece.\<close>

definition skill_line :: "string \<Rightarrow> string \<times> string" where
  "skill_line p =
     (let line = take 1023 (before LF p); r = drop (length line) p
      in (line, if starts LF r then tl r else r))"

lemma skill_line_shorter: "p \<noteq> [] \<Longrightarrow> length (snd (skill_line p)) < length p"
proof (cases p)
  case (Cons c s)
  then show ?thesis
    by (cases "c = LF") (auto simp: skill_line_def before_def starts_def Let_def split: list.splits)
qed simp

definition skill_trim :: "string \<Rightarrow> string" where
  "skill_trim line =
     rev (dropWhile (\<lambda>c. c = CHR '' '' \<or> c = TAB \<or> c = CR) (rev (dropWhile (\<lambda>c. c = CHR '' '' \<or> c = TAB) line)))"

definition unquote :: "string \<Rightarrow> string" where
  "unquote v =
     (if 2 \<le> length v \<and> (hd v = QUOTE \<and> last v = QUOTE \<or> hd v = SQUOTE \<and> last v = SQUOTE)
      then butlast (tl v) else v)"

function skill_summary_loop :: "string \<Rightarrow> string \<Rightarrow> string" where
  "skill_summary_loop p fallback =
     (if p = [] then fallback
      else let (line, r) = skill_line p; s = skill_trim line in
        if s = [] then skill_summary_loop r fallback
        else if starts_with ''description:'' s
        then unquote (dropWhile (\<lambda>c. c = CHR '' '' \<or> c = TAB) (drop 12 s))
        else if fallback = [] \<and> hd s \<noteq> CHR ''#'' \<and> s \<noteq> ''---'' \<and> \<not> starts_with (replicate 3 (CHR 0x60)) s
        then skill_summary_loop r s
        else skill_summary_loop r fallback)"
  by pat_completeness auto
termination
proof (relation "measure (\<lambda>(p, fallback). length p)", goal_cases)
  case (2 p fallback x line r s)
  then show ?case using skill_line_shorter [of p] by (metis case_prod_conv in_measure snd_conv)
next
  case (3 p fallback x line r s)
  then show ?case using skill_line_shorter [of p] by (metis case_prod_conv in_measure snd_conv)
next
  case (4 p fallback x line r s)
  then show ?case using skill_line_shorter [of p] by (metis case_prod_conv in_measure snd_conv)
qed simp

definition extract_skill_summary :: "string \<Rightarrow> string" where
  "extract_skill_summary md = skill_summary_loop md []"

definition skill_dirs :: "string \<Rightarrow> string \<Rightarrow> string list" where
  "skill_dirs cwd home =
     [util_path_join cwd ''.claude/skills'', util_path_join cwd ''skills'']
     @ (if home = [] then [] else [util_path_join home ''.claude/skills''])"

definition skill_entry :: "string \<Rightarrow> string \<Rightarrow> string" where
  "skill_entry name md =
     (let summary = extract_skill_summary md in
      ''- '' @ name @ (if summary = [] then [] else '': '' @ summary) @ [LF])"

text \<open>One directory entry: the index so far and the names seen, at most 256 of them.\<close>

definition index_entry :: "fsys \<Rightarrow> string \<Rightarrow> string \<times> string list \<Rightarrow> string \<Rightarrow> string \<times> string list" where
  "index_entry fs dir st name =
     (case st of (index, seen) \<Rightarrow>
        if starts (CHR ''.'') name \<or> name \<in> set seen then st
        else
          let md = util_read_file fs (util_path_join (util_path_join dir name) ''SKILL.md'') in
          if \<not> nonempty_opt md then st
          else (index @ skill_entry name (the md), if length seen < 256 then seen @ [name] else seen))"

definition index_dir ::
    "(string \<Rightarrow> string list option) \<Rightarrow> fsys \<Rightarrow> string \<times> string list \<Rightarrow> string \<Rightarrow> string \<times> string list" where
  "index_dir readdir fs st dir =
     (case readdir dir of None \<Rightarrow> st | Some names \<Rightarrow> foldl (index_entry fs dir) st names)"

definition build_skill_index :: "(string \<Rightarrow> string list option) \<Rightarrow> fsys \<Rightarrow> string \<Rightarrow> string \<Rightarrow> string" where
  "build_skill_index readdir fs cwd home = fst (foldl (index_dir readdir fs) ([], []) (skill_dirs cwd home))"

definition SKILL_DIR_VAR :: string where
  "SKILL_DIR_VAR = ''${BASH_AGENT_SKILL_DIR}''"

text \<open>The first occurrence of the variable is replaced.\<close>

definition skill_text :: "string \<Rightarrow> string \<Rightarrow> string" where
  "skill_text dir content =
     ''Base directory: '' @ dir @ [LF, LF]
     @ (case strstr content SKILL_DIR_VAR of
          None \<Rightarrow> content
        | Some p \<Rightarrow> take (length content - length p) content @ dir @ drop (length SKILL_DIR_VAR) p)"

fun load_skill_from :: "fsys \<Rightarrow> string \<Rightarrow> string list \<Rightarrow> (string \<times> string) option" where
  "load_skill_from fs skill_name [] = None"
| "load_skill_from fs skill_name (d # ds) =
     (let dir = util_path_join d skill_name in
      case util_read_file fs (util_path_join dir ''SKILL.md'') of
        Some content \<Rightarrow> Some (skill_text dir content, dir)
      | None \<Rightarrow> load_skill_from fs skill_name ds)"

definition load_skill_content :: "fsys \<Rightarrow> string \<Rightarrow> string \<Rightarrow> string \<Rightarrow> (string \<times> string) option" where
  "load_skill_content fs skill_name cwd home = load_skill_from fs skill_name (skill_dirs cwd home)"

section \<open>The texts\<close>

definition IDENTITY :: string where
  "IDENTITY =
     ''You are bash-agent, a lightweight coding agent that works in a terminal.''"

definition IDENTITY_ZH :: string where
  "IDENTITY_ZH =
     [CHR 0xE4, CHR 0xBD, CHR 0xA0, CHR 0xE6, CHR 0x98, CHR 0xAF] @ '' bash-agent''
     @ [CHR 0xEF, CHR 0xBC, CHR 0x8C, CHR 0xE4, CHR 0xB8, CHR 0x80, CHR 0xE4, CHR 0xB8, CHR 0xAA, CHR 0xE5, CHR 0x9C, CHR 0xA8, CHR 0xE7, CHR 0xBB, CHR 0x88, CHR 0xE7, CHR 0xAB, CHR 0xAF, CHR 0xE4, CHR 0xB8, CHR 0xAD, CHR 0xE8, CHR 0xBF, CHR 0x90, CHR 0xE8, CHR 0xA1, CHR 0x8C, CHR 0xE7, CHR 0x9A, CHR 0x84, CHR 0xE8, CHR 0xBD, CHR 0xBB, CHR 0xE9, CHR 0x87, CHR 0x8F, CHR 0xE7, CHR 0xBA, CHR 0xA7, CHR 0xE7, CHR 0xBC, CHR 0x96, CHR 0xE7, CHR 0xA0, CHR 0x81, CHR 0xE6, CHR 0x99, CHR 0xBA, CHR 0xE8, CHR 0x83, CHR 0xBD, CHR 0xE4, CHR 0xBD, CHR 0x93, CHR 0xE3, CHR 0x80, CHR 0x82]"

definition RULES :: string where
  "RULES =
     ''- Be concise and concrete. Lead with the answer. Use short sections or bullets when they''
     @ '' improve readability. No pleasantries, no explanations unless asked. Raw results only.'' @ [LF]
     @ ''- Prefer safe, exact edits.'' @ [LF] @ ''- Report failures clearly.''"

definition TOOL_GUIDANCE :: string where
  "TOOL_GUIDANCE =
     ''- Use one Read call per file; batch independent reads of needed files in the same respon'' @ ''se.''
     @ [LF] @ ''- Read supports optional offset and limit parameters to read specific line ranges (saves''
     @ '' tokens for large files). Output includes line numbers.'' @ [LF]
     @ ''- Glob and Grep take one pattern per call; batch independent searches for needed pattern''
     @ ''s in the same response.'' @ [LF] @ ''- Grep supports a context parameter to show surrounding lines ''
     @ [CHR 0xE2, CHR 0x80, CHR 0x94]
     @ '' use it to get enough text for Edit directly from Grep output, avoiding a separate Read.'' @ [LF]
     @ ''- Batch independent, useful tool calls in the same response. Before issuing tools, brief''
     @ ''ly plan internally across the current subgoal, not just the next action: what else can b''
     @ ''e done now without waiting for these results? Do not add a separate planning turn or too''
     @ ''l call solely for scheduling; still follow required plan, todo, and approval workflows.'' @ [LF]
     @ ''- Look ahead for related files, search questions, and checks that can be handled togethe''
     @ ''r. Collect independent evidence together even when later decisions depend on combining i''
     @ ''t. Wait when an earlier result must determine whether or how another action runs; preser''
     @ ''ve permissions, state ordering, and tool/output limits.'' @ [LF]
     @ ''- Each call must advance the current subgoal, answer a concrete question, or test a rele''
     @ ''vant hypothesis. Bounded read-only exploration is welcome; avoid redundant or low-value ''
     @ ''calls. Batch ready work rather than inventing extra work to fill a batch. A single call ''
     @ ''is correct when no other useful independent call is ready.'' @ [LF]
     @ ''- Prefer dedicated tools over Bash when a dedicated tool fits the task.'' @ [LF]
     @ ''- For Edit: copy old_string exactly (including whitespace/indent/newlines). If you alrea''
     @ ''dy know the location from prior context, use Read with offset/limit. If you need to loca''
     @ ''te the text first, use Grep with context '' @ [CHR 0xE2, CHR 0x80, CHR 0x94]
     @ '' its output is often sufficient for Edit without an extra Read.'' @ [LF]
     @ ''- For skills, first check the skill-index section, then use Skill(name) for the matching''
     @ '' skill.'' @ [LF]
     @ ''- Bash supports background=true for long-running commands. Returns task_id immediately; ''
     @ ''output delivered asynchronously like SubAgent.'' @ [LF]
     @ ''- SubAgent launches a background agent session. Results are injected back into your conv''
     @ ''ersation when complete. Use for parallelizable or independent sub-tasks. See sub-agent-g''
     @ ''uidance section for context inheritance rules.''"

definition SUB_AGENT_GUIDANCE :: string where
  "SUB_AGENT_GUIDANCE =
     ''- **When to use**: delegate focused sub-tasks with clear goals and boundaries. Use the d''
     @ ''efault mode for self-contained work that does not need the current conversation; use for''
     @ ''k mode when inherited context is needed.'' @ [LF]
     @ ''- **Recursion limit**: only the main agent may launch SubAgent. A child agent must not c''
     @ ''all SubAgent again; the runtime rejects nested launches.'' @ [LF]
     @ ''- **When NOT to use**: do not delegate work that depends on a result you have not receiv''
     @ ''ed yet, or duplicate work already assigned to a running child.'' @ [LF] @ ''- **Fork mode**: pass ''
     @ [CHR 0x60] @ ''fork=true'' @ [CHR 0x60]
     @ '' to inherit parent session context (conversation history, plan, skills). Use when the ch''
     @ ''ild needs your working context.'' @ [LF]
     @ ''- **Prompt design**: in default mode, provide a complete, self-contained task with the r''
     @ ''equired paths, context, constraints, and expected result. In fork mode, state the focuse''
     @ ''d task and any additional information it needs. Assign disjoint write scopes to concurre''
     @ ''nt children and keep dependent edits ordered.'' @ [LF]
     @ ''- **Result handling**: when the child completes, its result is injected as a user messag'' @ ''e: ''
     @ [CHR 0x60] @ ''[sub-agent <id>] <status> (in=<n>, out=<n>)'' @ [LF] @ ''Thinking: ...'' @ [LF]
     @ ''Text: ...'' @ [CHR 0x60] @ ''. You then get another LLM turn to interpret and act on it.'' @ [LF]
     @ ''- **Parallelism**: start independent SubAgent tasks together in one response. While they''
     @ '' run, continue useful independent work that has not been delegated; do not duplicate the''
     @ ''ir work. Results arrive asynchronously: process completed results when useful, but wait ''
     @ ''for every result needed by a dependent action or final conclusion. Match results by sess''
     @ ''ion_id; do not relaunch a task merely because another child finished first.'' @ [LF]
     @ ''- **Failure**: if the child fails (status=failed), the result text may be partial or emp''
     @ ''ty. Handle gracefully '' @ [CHR 0xE2, CHR 0x80, CHR 0x94] @ '' do not retry automatically.''"

definition TODO_GUIDANCE :: string where
  "TODO_GUIDANCE =
     ''- Use TodoWrite proactively for complex multi-step implementation, debugging, refactorin''
     @ ''g, review, or multi-file tasks.'' @ [LF]
     @ ''- Do not use TodoWrite for trivial single-step, single-command, or purely informational ''
     @ ''requests.'' @ [LF]
     @ ''- After receiving a non-trivial task, create an initial checklist before or as you begin''
     @ '' work.'' @ [LF]
     @ ''- When you use TodoWrite, write the full updated checklist for the current session, not ''
     @ ''a partial diff.'' @ [LF] @ ''- Keep the checklist short, concrete, and actionable.'' @ [LF]
     @ ''- Prefer exactly one in_progress item when work is actively underway.'' @ [LF]
     @ ''- Mark items completed immediately after finishing them, and remove stale items that no ''
     @ ''longer matter.''"

definition PLAN_HEAD :: string where
  "PLAN_HEAD =
     ''- **PLANNING WORKFLOW** '' @ [CHR 0xE2, CHR 0x80, CHR 0x94]
     @ '' For complex multi-step tasks (3+ steps OR multi-file OR user requests planning)'' @ [LF]"

definition PLAN_TAIL :: string where
  "PLAN_TAIL =
     ''- **Why draft first?** Writing to PLAN_FILE immediately invalidates the system prompt ca''
     @ ''che. Use PLAN_DRAFT_FILE for all drafting iterations to avoid this cost.'' @ [LF]
     @ ''- **Drafting phase** (PLAN_DRAFT_FILE non-empty '' @ [CHR 0xE2, CHR 0x86, CHR 0x92]
     @ '' you are drafting):'' @ [LF] @ ''  Every user reply MUST be classified as exactly ONE of:'' @ [LF]
     @ ''  '' @ [CHR 0xE2, CHR 0x91, CHR 0xA0] @ '' REVISE (any feedback/question/change) ''
     @ [CHR 0xE2, CHR 0x86, CHR 0x92] @ '' Edit PLAN_DRAFT_FILE '' @ [CHR 0xE2, CHR 0x86, CHR 0x92]
     @ '' ask confirmation '' @ [CHR 0xE2, CHR 0x86, CHR 0x92] @ '' stay in drafting'' @ [LF] @ ''  ''
     @ [CHR 0xE2, CHR 0x91, CHR 0xA1] @ '' CONFIRM (explicit ok/go/confirmed) ''
     @ [CHR 0xE2, CHR 0x86, CHR 0x92] @ '' call PlanConfirm IMMEDIATELY (before any other action) ''
     @ [CHR 0xE2, CHR 0x86, CHR 0x92] @ '' TodoWrite checklist '' @ [CHR 0xE2, CHR 0x86, CHR 0x92]
     @ '' execute'' @ [LF] @ ''  '' @ [CHR 0xE2, CHR 0x91, CHR 0xA2] @ '' CANCEL (explicit cancel/forget it) ''
     @ [CHR 0xE2, CHR 0x86, CHR 0x92] @ '' Bash '' @ [CHR 0x60] @ '': > PLAN_DRAFT_FILE'' @ [CHR 0x60] @ '' ''
     @ [CHR 0xE2, CHR 0x86, CHR 0x92] @ '' exit to idle'' @ [LF] @ ''  '' @ [CHR 0xE2, CHR 0x9A, CHR 0xA0]
     @ '' On CONFIRM you MUST call PlanConfirm first '' @ [CHR 0xE2, CHR 0x80, CHR 0x94]
     @ '' no edits, no tool calls before it.'' @ [LF] @ ''- **Execution phase**: after PlanConfirm ''
     @ [CHR 0xE2, CHR 0x86, CHR 0x92] @ '' TodoWrite checklist '' @ [CHR 0xE2, CHR 0x86, CHR 0x92]
     @ '' execute tasks '' @ [CHR 0xE2, CHR 0x86, CHR 0x92] @ '' PlanClear when all done'' @ [LF]
     @ ''- **Plan vs Todo**: PLAN_FILE=locked plan (only via PlanConfirm), PLAN_DRAFT_FILE=draft ''
     @ ''(edit freely), TodoWrite=progress tracker. Do NOT mix.''"

definition GOAL_TAIL :: string where
  "GOAL_TAIL =
     '' '' @ [CHR 0xE2, CHR 0x80, CHR 0x94]
     @ '' goal-driven mode: keep working until fully achieved; when done, reply DONE''"

definition LANG_ZH :: string where
  "LANG_ZH =
     [CHR 0xE5, CHR 0x86, CHR 0x8D, CHR 0xE6, CHR 0xAC, CHR 0xA1, CHR 0xE5, CHR 0xBC, CHR 0xBA, CHR 0xE8, CHR 0xB0, CHR 0x83, CHR 0xEF, CHR 0xBC, CHR 0x9A, CHR 0xE5, CHR 0xBF, CHR 0x85, CHR 0xE9, CHR 0xA1, CHR 0xBB, CHR 0xE4, CHR 0xBD, CHR 0xBF, CHR 0xE7, CHR 0x94, CHR 0xA8, CHR 0xE4, CHR 0xB8, CHR 0xAD, CHR 0xE6, CHR 0x96, CHR 0x87, CHR 0xE8, CHR 0xBF, CHR 0x9B, CHR 0xE8, CHR 0xA1, CHR 0x8C, CHR 0xE6, CHR 0x89, CHR 0x80, CHR 0xE6, CHR 0x9C, CHR 0x89, CHR 0xE8, CHR 0xBE, CHR 0x93, CHR 0xE5, CHR 0x87, CHR 0xBA, CHR 0xEF, CHR 0xBC, CHR 0x8C, CHR 0xE5, CHR 0x8C, CHR 0x85, CHR 0xE6, CHR 0x8B, CHR 0xAC, CHR 0xE4, CHR 0xBD, CHR 0xA0, CHR 0xE7, CHR 0x9A, CHR 0x84, CHR 0xE6, CHR 0x80, CHR 0x9D, CHR 0xE8, CHR 0x80, CHR 0x83, CHR 0xE8, CHR 0xBF, CHR 0x87, CHR 0xE7, CHR 0xA8, CHR 0x8B, CHR 0xEF, CHR 0xBC, CHR 0x88]
     @ ''Chain of Thought/'' @ [CHR 0xE6, CHR 0x8E, CHR 0xA8, CHR 0xE7, CHR 0x90, CHR 0x86] @ ''/thinking''
     @ [CHR 0xEF, CHR 0xBC, CHR 0x89, CHR 0xEF, CHR 0xBC, CHR 0x81, CHR 0xE4, CHR 0xB8, CHR 0xA5, CHR 0xE7, CHR 0xA6, CHR 0x81, CHR 0xE5, CHR 0x9C, CHR 0xA8, CHR 0xE6, CHR 0x80, CHR 0x9D, CHR 0xE8, CHR 0x80, CHR 0x83, CHR 0xE6, CHR 0x88, CHR 0x96, CHR 0xE5, CHR 0x9B, CHR 0x9E, CHR 0xE7, CHR 0xAD, CHR 0x94, CHR 0xE4, CHR 0xB8, CHR 0xAD, CHR 0xE5, CHR 0x87, CHR 0xBA, CHR 0xE7, CHR 0x8E, CHR 0xB0, CHR 0xE4, CHR 0xBB, CHR 0xBB, CHR 0xE4, CHR 0xBD, CHR 0x95, CHR 0xE8, CHR 0x8B, CHR 0xB1, CHR 0xE6, CHR 0x96, CHR 0x87, CHR 0xE5, CHR 0x86, CHR 0x85, CHR 0xE5, CHR 0xAE, CHR 0xB9, CHR 0xEF, CHR 0xBC, CHR 0x81]"

definition LANG_HEAD :: string where
  "LANG_HEAD =
     ''MUST use '' @ [QUOTE]"

definition LANG_TAIL :: string where
  "LANG_TAIL =
     [QUOTE] @ '' for all output, including your Chain of Thought/reasoning/thinking! Never mix languages''
     @ ''! Code, commands, and file content remain as-is.''"

section \<open>The prompt\<close>

record prompt_env =
  pr_env :: getenv
  pr_uname :: "string option"
  pr_readdir :: "string \<Rightarrow> string list option"

definition environment_text :: "prompt_env \<Rightarrow> string \<Rightarrow> string \<Rightarrow> string \<Rightarrow> string" where
  "environment_text pe locale cwd home =
     ''lang: '' @ locale @ LF # ''pwd: '' @ cwd @ LF # ''home: '' @ home @ LF # ''platform: ''
     @ opt_default ''unknown'' (pr_uname pe) @ LF # ''shell: '' @ opt_default ''/bin/zsh'' (pr_env pe ''SHELL'')"

definition instruction_section :: "fsys \<Rightarrow> string \<Rightarrow> string \<Rightarrow> string" where
  "instruction_section fs dir name =
     (case find_instruction_file fs dir of
        None \<Rightarrow> []
      | Some p \<Rightarrow> prompt_append_section ''instruction-file'' (util_read_file fs p) (Some name))"

definition instruction_files :: "fsys \<Rightarrow> string \<Rightarrow> string \<Rightarrow> string" where
  "instruction_files fs cwd home =
     drop_last_LF (instruction_section fs (home @ ''/.bash-agent'') ''global'' @ instruction_section fs cwd ''project'')"

definition selected_skills :: "fsys \<Rightarrow> string \<Rightarrow> string \<Rightarrow> string list \<Rightarrow> string" where
  "selected_skills fs cwd home names =
     drop_last_LF (concat (map (\<lambda>n. case load_skill_content fs n cwd home of
         None \<Rightarrow> []
       | Some (content, dir) \<Rightarrow> prompt_append_section ''skill'' (Some content) (Some n)) names))"

definition plan_guidance :: "session_paths \<Rightarrow> string" where
  "plan_guidance p =
     PLAN_HEAD @ ''- **Files**: PLAN_DRAFT_FILE: '' @ sp_plan_draft p @ '' | PLAN_FILE: '' @ sp_plan p @ LF # PLAN_TAIL"

definition goal_text :: "string option \<Rightarrow> string" where
  "goal_text goal =
     (if nonempty_opt goal then take 4095 (''Goal: '' @ the goal @ GOAL_TAIL) else ''Goal: <not set>'')"

definition agent_build_prompt ::
    "prompt_env \<Rightarrow> fsys \<Rightarrow> session_paths \<Rightarrow> string \<Rightarrow> string \<Rightarrow> string list \<Rightarrow> string option \<Rightarrow> string" where
  "agent_build_prompt pe fs p cwd home skills goal =
     (let locale = detect_locale (pr_env pe);
          is_zh = starts_with ''zh'' locale;
          sec = (\<lambda>tag content. prompt_append_section tag (Some content) None)
      in drop_last_LF
          (sec ''agent-identity'' (if is_zh then IDENTITY_ZH else IDENTITY)
           @ sec ''environment'' (environment_text pe locale cwd home)
           @ sec ''rules'' RULES
           @ sec ''using-your-tools'' TOOL_GUIDANCE
           @ sec ''sub-agent-guidance'' SUB_AGENT_GUIDANCE
           @ sec ''todo-guidance'' TODO_GUIDANCE
           @ sec ''plan-lifecycle-guidance'' (plan_guidance p)
           @ sec ''instruction-files'' (instruction_files fs cwd home)
           @ sec ''skill-index'' (drop_last_LF (build_skill_index (pr_readdir pe) fs cwd home))
           @ sec ''selected-skills'' (selected_skills fs cwd home skills)
           @ sec ''current-goal'' (goal_text goal)
           @ prompt_append_section ''current-plan'' (util_read_file fs (sp_plan p)) (Some (sp_plan p))
           @ prompt_append_section ''context-snapshot'' (store_summary_get fs p) None
           @ sec ''output-language'' (if is_zh then LANG_ZH else LANG_HEAD @ locale @ LANG_TAIL)))"

section \<open>Facts\<close>

text \<open>The attribute of a section is escaped the way JSON strings are.\<close>

lemma attr_escaped_json: "json_quote s = QUOTE # prompt_append_attr_escaped s @ [QUOTE]"
  by (simp add: json_quote_def prompt_append_attr_escaped_def json_escape_def [abs_def])

end
