(* ===== verification/Sse.thy ===== *)
theory Sse
  imports JsonText
begin

text \<open>
  Server-sent events (c/transport.c): the events the parsers emit, the parsers of the three
  protocols (Claude, OpenAI chat, OpenAI responses) and the accumulator of \<open>sse_accum_callback\<close>.
  A callback call is an element of the list of events a parser returns, in the order of the calls.
  A clock reading (\<open>now_ms()\<close>) is an argument: a data line takes at most one.
\<close>

section \<open>Events\<close>

datatype sse_type =
  SSE_TEXT | SSE_THINKING | SSE_TOOL_CALL_START | SSE_TOOL_INPUT_DELTA | SSE_TOOL_CALL
| SSE_USAGE | SSE_STOP | SSE_ERROR | SSE_RETRY

record sse_event =
  ev_type :: sse_type
  ev_content :: "string option"
  ev_tool_id :: "string option"
  ev_tool_name :: "string option"
  ev_tool_input :: "string option"
  ev_in_tokens :: int
  ev_out_tokens :: int
  ev_cache_read_tokens :: int
  ev_cache_creation_tokens :: int
  ev_start_ms :: int
  ev_end_ms :: int
  ev_speed_ready :: bool

definition event_blank :: "sse_type \<Rightarrow> sse_event" where
  "event_blank ty =
     \<lparr>ev_type = ty, ev_content = None, ev_tool_id = None, ev_tool_name = None, ev_tool_input = None,
      ev_in_tokens = 0, ev_out_tokens = 0, ev_cache_read_tokens = 0, ev_cache_creation_tokens = 0,
      ev_start_ms = 0, ev_end_ms = 0, ev_speed_ready = False\<rparr>"

definition emit_simple_event :: "sse_type \<Rightarrow> string option \<Rightarrow> sse_event" where
  "emit_simple_event ty content = (event_blank ty)\<lparr>ev_content := content\<rparr>"

text \<open>\<open>if (p) emit_simple_event(..., p)\<close>.\<close>

definition emit_if :: "sse_type \<Rightarrow> string option \<Rightarrow> sse_event list" where
  "emit_if ty m = (case m of None \<Rightarrow> [] | Some t \<Rightarrow> [emit_simple_event ty (Some t)])"

definition call_event :: "string option \<Rightarrow> string option \<Rightarrow> string \<Rightarrow> sse_event" where
  "call_event i n inp =
     (event_blank SSE_TOOL_CALL)\<lparr>ev_tool_id := i, ev_tool_name := n, ev_tool_input := Some inp\<rparr>"

section \<open>Claude events and the OpenAI branch of \<open>sse_parse_event\<close>\<close>

definition usage_claude_delta :: "json_val \<Rightarrow> int \<Rightarrow> int \<Rightarrow> sse_event" where
  "usage_claude_delta usage start_ms now =
     (let it = json_get_int usage ''input_tokens'';
          cr = json_get_int usage ''cache_read_input_tokens'';
          cc = json_get_int usage ''cache_creation_input_tokens''
      in (event_blank SSE_USAGE)\<lparr>ev_out_tokens := json_get_int usage ''output_tokens'',
           ev_in_tokens := (if 0 < it then it else 0),
           ev_cache_read_tokens := (if 0 < cr then cr else 0),
           ev_cache_creation_tokens := (if 0 < cc then cc else 0),
           ev_start_ms := start_ms, ev_end_ms := now\<rparr>)"

definition usage_claude_start :: "json_val \<Rightarrow> int \<Rightarrow> int \<Rightarrow> sse_event" where
  "usage_claude_start usage start_ms now =
     (event_blank SSE_USAGE)\<lparr>ev_in_tokens := json_get_int usage ''input_tokens'',
        ev_cache_read_tokens := json_get_int usage ''cache_read_input_tokens'',
        ev_cache_creation_tokens := json_get_int usage ''cache_creation_input_tokens'',
        ev_start_ms := start_ms, ev_end_ms := now\<rparr>"

definition claude_delta_events :: "json_val \<Rightarrow> sse_event list" where
  "claude_delta_events jr =
     (let delta = json_get jr ''delta''; dtype = json_get_string delta ''type'' in
      if dtype = Some ''text_delta'' then emit_if SSE_TEXT (json_get_string delta ''text'')
      else if dtype = Some ''thinking_delta'' then
        emit_if SSE_THINKING (json_get_string delta ''thinking'')
      else if dtype = Some ''input_json_delta'' then
        emit_if SSE_TOOL_INPUT_DELTA (json_get_string delta ''partial_json'')
      else [])"

definition claude_start_events :: "json_val \<Rightarrow> sse_event list" where
  "claude_start_events jr =
     (let cb = json_get jr ''content_block'' in
      if json_get_string cb ''type'' = Some ''tool_use''
      then [(event_blank SSE_TOOL_CALL_START)\<lparr>ev_tool_id := json_get_string cb ''id'',
              ev_tool_name := json_get_string cb ''name''\<rparr>]
      else [])"

definition claude_events :: "json_val \<Rightarrow> int \<Rightarrow> int \<Rightarrow> sse_event list" where
  "claude_events jr start_ms now =
     (case json_get_string jr ''type'' of
        None \<Rightarrow> []
      | Some ty \<Rightarrow>
          if ty = ''content_block_delta'' then claude_delta_events jr
          else if ty = ''content_block_start'' then claude_start_events jr
          else if ty = ''content_block_stop'' then []
          else if ty = ''message_delta'' then
            (let usage = json_get jr ''usage'' in
             emit_if SSE_STOP (json_get_string (json_get jr ''delta'') ''stop_reason'')
             @ (if jv_type usage \<noteq> JSON_NULL then [usage_claude_delta usage start_ms now] else []))
          else if ty = ''message_start'' then
            (let usage = json_get (json_get jr ''message'') ''usage'' in
             if jv_type usage \<noteq> JSON_NULL then [usage_claude_start usage start_ms now] else [])
          else if ty = ''error'' then
            (let msg = (case json_get_string jr ''error'' of
                          Some m \<Rightarrow> Some m | None \<Rightarrow> json_get_string jr ''message'') in
             [emit_simple_event SSE_ERROR (Some (opt_default ''unknown error'' msg))])
          else [])"

definition openai_cached_tokens :: "json_val \<Rightarrow> int" where
  "openai_cached_tokens usage =
     (let cached = json_get_int usage ''cached_tokens''; details = json_get usage ''prompt_tokens_details'' in
      if 0 < cached then cached
      else if jv_type details \<noteq> JSON_NULL then json_get_int details ''cached_tokens''
      else cached)"

definition fill_openai_usage_event :: "sse_event \<Rightarrow> json_val \<Rightarrow> sse_event" where
  "fill_openai_usage_event evt usage =
     (let prompt = json_get_int usage ''prompt_tokens''; cached = openai_cached_tokens usage;
          evt' = evt\<lparr>ev_out_tokens := json_get_int usage ''completion_tokens'',
                     ev_cache_read_tokens := cached\<rparr>
      in if 0 < prompt
         then evt'\<lparr>ev_in_tokens := (if s32 (prompt - cached) < 0 then 0 else s32 (prompt - cached))\<rparr>
         else evt')"

definition openai_stop :: "string \<Rightarrow> string" where
  "openai_stop f =
     (if f = ''tool_calls'' then ''tool_use''
      else if f = ''stop'' then ''end_turn''
      else if f = ''length'' then ''max_tokens''
      else f)"

text \<open>\<open>reasoning_content\<close>, or \<open>reasoning\<close> when it is missing.\<close>

definition reasoning_of :: "json_val \<Rightarrow> string option" where
  "reasoning_of delta =
     (case json_get_string delta ''reasoning_content'' of
        Some r \<Rightarrow> Some r | None \<Rightarrow> json_get_string delta ''reasoning'')"

text \<open>The elements a loop over a JSON array visits.\<close>

definition json_elems :: "json_val \<Rightarrow> json_val list" where
  "json_elems arr = map (\<lambda>i. json_array_get arr (int i)) [0..<nat (json_array_len arr)]"

definition openai_start_events :: "json_val \<Rightarrow> sse_event list" where
  "openai_start_events tc =
     (let fn = json_get tc ''function''; i = json_get_string tc ''id''; n = json_get_string fn ''name'' in
      (if i \<noteq> None \<or> n \<noteq> None
       then [(event_blank SSE_TOOL_CALL_START)\<lparr>ev_tool_id := i, ev_tool_name := n\<rparr>] else [])
      @ emit_if SSE_TOOL_INPUT_DELTA (json_get_string fn ''arguments''))"

definition openai_chunk_events :: "json_val \<Rightarrow> sse_event list" where
  "openai_chunk_events jr =
     (if json_get_string jr ''object'' = Some ''chat.completion.chunk'' then
        (let choices = json_get jr ''choices''; choice = json_array_get choices 0;
             delta = json_get choice ''delta''; tool_calls = json_get delta ''tool_calls'';
             usage = json_get jr ''usage''
         in (if jv_type choices = JSON_ARRAY
             then emit_if SSE_TEXT (json_get_string delta ''content'')
                  @ emit_if SSE_THINKING (reasoning_of delta)
                  @ (if jv_type tool_calls = JSON_ARRAY
                     then concat (map openai_start_events (json_elems tool_calls)) else [])
                  @ emit_if SSE_STOP (map_option openai_stop (json_get_string choice ''finish_reason''))
             else [])
            @ (if jv_type usage \<noteq> JSON_NULL
               then [fill_openai_usage_event (event_blank SSE_USAGE) usage] else []))
      else [])"

definition sse_parse_event :: "string \<Rightarrow> string \<Rightarrow> int \<Rightarrow> int \<Rightarrow> sse_event list" where
  "sse_parse_event provider data start_ms now =
     (if data = [] then []
      else if data = ''[DONE]'' then
        (if provider = ''claude'' then [emit_simple_event SSE_STOP (Some ''end_turn'')] else [])
      else case json_parse data of
             JOk jr r \<Rightarrow>
               if provider = ''claude'' then claude_events jr start_ms now else openai_chunk_events jr
           | _ \<Rightarrow> [])"

section \<open>The accumulator\<close>

record tool_accum =
  ta_id :: "string option"
  ta_name :: "string option"
  ta_input :: strbuf

text \<open>\<open>acc_tools\<close> are the slots in use, \<open>acc_tool_cap\<close> the allocated ones.\<close>

record sse_accum =
  acc_text :: strbuf
  acc_thinking :: strbuf
  acc_tools :: "tool_accum list"
  acc_tool_cap :: nat
  acc_in_tokens :: int
  acc_out_tokens :: int
  acc_cache_read_tokens :: int
  acc_cache_creation_tokens :: int
  acc_start_ms :: int
  acc_end_ms :: int
  acc_stop_reason :: "string option"
  acc_error :: "string option"
  acc_stopped :: bool
  acc_speed_ready :: bool

definition sse_accum_init :: sse_accum where
  "sse_accum_init =
     \<lparr>acc_text = sb_init, acc_thinking = sb_init, acc_tools = [], acc_tool_cap = 8,
      acc_in_tokens = 0, acc_out_tokens = 0, acc_cache_read_tokens = 0, acc_cache_creation_tokens = 0,
      acc_start_ms = 0, acc_end_ms = 0, acc_stop_reason = None, acc_error = None,
      acc_stopped = False, acc_speed_ready = False\<rparr>"

definition sse_accum_free :: "sse_accum \<Rightarrow> sse_accum" where
  "sse_accum_free acc =
     acc\<lparr>acc_text := sb_free (acc_text acc), acc_thinking := sb_free (acc_thinking acc),
         acc_tools := [], acc_stop_reason := None, acc_error := None\<rparr>"

definition accum_push_tool :: "sse_accum \<Rightarrow> tool_accum \<Rightarrow> sse_accum" where
  "accum_push_tool acc tc =
     acc\<lparr>acc_tool_cap := (if acc_tool_cap acc \<le> length (acc_tools acc) then acc_tool_cap acc * 2
                         else acc_tool_cap acc),
         acc_tools := acc_tools acc @ [tc]\<rparr>"

definition keep_pos :: "int \<Rightarrow> int \<Rightarrow> int" where
  "keep_pos old new = (if 0 < new then new else old)"

definition sse_accum_callback :: "sse_accum \<Rightarrow> sse_event \<Rightarrow> sse_accum" where
  "sse_accum_callback acc evt =
     (case ev_type evt of
        SSE_TEXT \<Rightarrow> acc\<lparr>acc_text := sb_append (acc_text acc) (ev_content evt)\<rparr>
      | SSE_THINKING \<Rightarrow> acc\<lparr>acc_thinking := sb_append (acc_thinking acc) (ev_content evt)\<rparr>
      | SSE_TOOL_CALL_START \<Rightarrow>
          accum_push_tool acc \<lparr>ta_id = ev_tool_id evt, ta_name = ev_tool_name evt, ta_input = sb_init\<rparr>
      | SSE_TOOL_INPUT_DELTA \<Rightarrow>
          if acc_tools acc \<noteq> [] \<and> ev_content evt \<noteq> None
          then acc\<lparr>acc_tools := butlast (acc_tools acc)
                     @ [(last (acc_tools acc))\<lparr>ta_input := sb_append (ta_input (last (acc_tools acc))) (ev_content evt)\<rparr>]\<rparr>
          else acc
      | SSE_TOOL_CALL \<Rightarrow>
          accum_push_tool acc
            \<lparr>ta_id = Some (opt_default [] (ev_tool_id evt)), ta_name = Some (opt_default [] (ev_tool_name evt)),
             ta_input = sb_append sb_init (Some (opt_default ''{}'' (ev_tool_input evt)))\<rparr>
      | SSE_USAGE \<Rightarrow>
          acc\<lparr>acc_in_tokens := keep_pos (acc_in_tokens acc) (ev_in_tokens evt),
              acc_out_tokens := keep_pos (acc_out_tokens acc) (ev_out_tokens evt),
              acc_cache_read_tokens := keep_pos (acc_cache_read_tokens acc) (ev_cache_read_tokens evt),
              acc_cache_creation_tokens :=
                keep_pos (acc_cache_creation_tokens acc) (ev_cache_creation_tokens evt),
              acc_start_ms := ev_start_ms evt, acc_end_ms := ev_end_ms evt,
              acc_speed_ready := ev_speed_ready evt\<rparr>
      | SSE_STOP \<Rightarrow>
          acc\<lparr>acc_stopped := True,
              acc_stop_reason := (if ev_content evt = None then acc_stop_reason acc else ev_content evt)\<rparr>
      | SSE_ERROR \<Rightarrow> acc\<lparr>acc_error := Some (opt_default ''unknown error'' (ev_content evt))\<rparr>
      | SSE_RETRY \<Rightarrow>
          acc\<lparr>acc_text := sb_truncate (acc_text acc) 0, acc_thinking := sb_truncate (acc_thinking acc) 0,
              acc_tools := [], acc_stopped := False, acc_speed_ready := False, acc_stop_reason := None,
              acc_in_tokens := 0, acc_out_tokens := 0, acc_cache_read_tokens := 0,
              acc_cache_creation_tokens := 0\<rparr>)"

definition accumulate :: "sse_accum \<Rightarrow> sse_event list \<Rightarrow> sse_accum" where
  "accumulate acc evs = foldl sse_accum_callback acc evs"

lemma accumulate_simps [simp]:
  "accumulate acc [] = acc"
  "accumulate acc (e # es) = accumulate (sse_accum_callback acc e) es"
  "accumulate acc (es @ fs) = accumulate (accumulate acc es) fs"
  by (simp_all add: accumulate_def)

end
