(* ===== verification/Stream.thy ===== *)
theory Stream
  imports Sse
begin

text \<open>
  Reading a stream (c/transport.c): the reassembly of tool calls from OpenAI and responses chunks,
  the curl write callback \<open>stream_cb\<close> that cuts the bytes into lines, the fallback for a plain JSON
  body, and the retry loop of \<open>http_post_sse\<close>.

  Curl itself is not modelled: an \<open>attempt\<close> holds what one \<open>curl_easy_perform\<close> does (the chunks it
  hands to the callback, the code it returns when no callback stops it) and every reading of the
  clock and of the flag that a signal handler may set at any time.
\<close>

section \<open>Reassembling tool calls\<close>

record openai_tool =
  ot_index :: int
  ot_id :: "string option"
  ot_name :: "string option"
  ot_arguments :: strbuf

text \<open>A slot of zero bytes.\<close>

definition tool_zero :: openai_tool where
  "tool_zero = \<lparr>ot_index = 0, ot_id = None, ot_name = None, ot_arguments = sb_init\<rparr>"

text \<open>\<open>sc_tools\<close> are all allocated slots, the first \<open>sc_tool_count\<close> are in use.  \<open>sc_items\<close> are the
  item ids of a responses stream with their output indexes.\<close>

record stream_ctx =
  sc_line_buf :: strbuf
  sc_event :: "string option"
  sc_provider :: string
  sc_tools :: "openai_tool list"
  sc_tool_count :: nat
  sc_saw_text :: bool
  sc_terminal :: bool
  sc_complete :: bool
  sc_finished :: bool
  sc_in_tokens :: int
  sc_out_tokens :: int
  sc_cache_read_tokens :: int
  sc_items :: "(string \<times> int) list"
  sc_start_ms :: int

definition stream_ctx_init :: "string \<Rightarrow> int \<Rightarrow> stream_ctx" where
  "stream_ctx_init provider start_ms =
     \<lparr>sc_line_buf = sb_init, sc_event = None, sc_provider = provider, sc_tools = [], sc_tool_count = 0,
      sc_saw_text = False, sc_terminal = False, sc_complete = False, sc_finished = False,
      sc_in_tokens = 0, sc_out_tokens = 0, sc_cache_read_tokens = 0, sc_items = [],
      sc_start_ms = start_ms\<rparr>"

definition streamctx_free_openai_tools :: "stream_ctx \<Rightarrow> stream_ctx" where
  "streamctx_free_openai_tools sctx = sctx\<lparr>sc_items := [], sc_tools := [], sc_tool_count := 0\<rparr>"

definition streamctx_reset_openai_tool :: "openai_tool \<Rightarrow> openai_tool" where
  "streamctx_reset_openai_tool tool = tool_zero"

fun find_tool :: "openai_tool list \<Rightarrow> int \<Rightarrow> nat option" where
  "find_tool [] idx = None"
| "find_tool (t # ts) idx = (if ot_index t = idx then Some 0 else map_option Suc (find_tool ts idx))"

text \<open>A new slot keeps the id and the name it had.\<close>

definition streamctx_ensure_openai_tool :: "stream_ctx \<Rightarrow> int \<Rightarrow> stream_ctx \<times> nat" where
  "streamctx_ensure_openai_tool sctx idx =
     (case find_tool (take (sc_tool_count sctx) (sc_tools sctx)) idx of
        Some i \<Rightarrow> (sctx, i)
      | None \<Rightarrow>
          (let n = sc_tool_count sctx; cap = length (sc_tools sctx);
               slots = (if cap \<le> n
                        then sc_tools sctx @ replicate ((if cap = 0 then 4 else cap * 2) - cap) tool_zero
                        else sc_tools sctx)
           in (sctx\<lparr>sc_tools := slots[n := (slots ! n)\<lparr>ot_index := idx, ot_arguments := sb_init\<rparr>],
                    sc_tool_count := n + 1\<rparr>, n)))"

definition update_tool :: "nat \<Rightarrow> (openai_tool \<Rightarrow> openai_tool) \<Rightarrow> stream_ctx \<Rightarrow> stream_ctx" where
  "update_tool i f sctx = sctx\<lparr>sc_tools := (sc_tools sctx)[i := f (sc_tools sctx ! i)]\<rparr>"

text \<open>\<open>if (p && p[0])\<close> the new value replaces the old one.\<close>

definition or_keep :: "string option \<Rightarrow> string option \<Rightarrow> string option" where
  "or_keep new old = (if nonempty_opt new then new else old)"

definition tool_ready :: "openai_tool \<Rightarrow> bool" where
  "tool_ready t \<longleftrightarrow> sb_len (ot_arguments t) \<noteq> 0"

definition tool_event :: "openai_tool \<Rightarrow> sse_event" where
  "tool_event t =
     call_event (Some (opt_default [] (ot_id t))) (Some (opt_default [] (ot_name t)))
       (opt_default ''{}'' (sb_data (ot_arguments t)))"

definition streamctx_emit_openai_tool_calls :: "stream_ctx \<Rightarrow> sse_event list \<times> stream_ctx" where
  "streamctx_emit_openai_tool_calls sctx =
     (let used = take (sc_tool_count sctx) (sc_tools sctx) in
      (map tool_event (filter tool_ready used),
       sctx\<lparr>sc_tools := map (\<lambda>t. if tool_ready t then streamctx_reset_openai_tool t else t) used
                       @ drop (sc_tool_count sctx) (sc_tools sctx),
            sc_tool_count := 0\<rparr>))"

section \<open>OpenAI chunks\<close>

definition openai_tool_delta :: "stream_ctx \<Rightarrow> json_val \<Rightarrow> stream_ctx" where
  "openai_tool_delta sctx0 tc =
     (let idx = json_get_int tc ''index''; fn = json_get tc ''function'';
          (sctx, i) = streamctx_ensure_openai_tool sctx0 idx
      in update_tool i (\<lambda>t. t\<lparr>ot_id := or_keep (json_get_string tc ''id'') (ot_id t),
                              ot_name := or_keep (json_get_string fn ''name'') (ot_name t),
                              ot_arguments := sb_append (ot_arguments t) (json_get_string fn ''arguments'')\<rparr>)
           sctx)"

definition openai_finish :: "stream_ctx \<Rightarrow> string option \<Rightarrow> sse_event list \<times> stream_ctx" where
  "openai_finish sctx0 finish =
     (case finish of
        None \<Rightarrow> ([], sctx0)
      | Some f \<Rightarrow>
          if f = [] then ([], sctx0)
          else let sctx = sctx0\<lparr>sc_finished := True\<rparr> in
            if f = ''tool_calls'' then
              (let (evs, sctx') = streamctx_emit_openai_tool_calls sctx
               in (evs @ [emit_simple_event SSE_STOP (Some ''tool_use'')], sctx'))
            else ([emit_simple_event SSE_STOP (Some (openai_stop f))], sctx))"

definition openai_choice :: "stream_ctx \<Rightarrow> json_val \<Rightarrow> sse_event list \<times> stream_ctx" where
  "openai_choice sctx0 choice =
     (let delta = json_get choice ''delta''; tool_calls = json_get delta ''tool_calls'';
          sctx1 = (if jv_type tool_calls = JSON_ARRAY
                   then foldl openai_tool_delta sctx0 (json_elems tool_calls) else sctx0);
          (evs, sctx2) = openai_finish sctx1 (json_get_string choice ''finish_reason'')
      in (emit_if SSE_TEXT (json_get_string delta ''content'')
          @ emit_if SSE_THINKING (reasoning_of delta) @ evs, sctx2))"

definition openai_usage :: "stream_ctx \<Rightarrow> json_val \<Rightarrow> int \<Rightarrow> sse_event list" where
  "openai_usage sctx usage now =
     (if jv_type usage \<noteq> JSON_NULL
      then [(fill_openai_usage_event (event_blank SSE_USAGE) usage)
              \<lparr>ev_start_ms := sc_start_ms sctx, ev_end_ms := now\<rparr>]
      else [])"

definition parse_openai_sse_event :: "stream_ctx \<Rightarrow> string \<Rightarrow> int \<Rightarrow> sse_event list \<times> stream_ctx" where
  "parse_openai_sse_event sctx data now =
     (if data = [] then ([], sctx)
      else if data = ''[DONE]'' then ([], sctx\<lparr>sc_complete := sc_finished sctx\<rparr>)
      else case json_parse data of
             JOk jr r \<Rightarrow>
               if json_get_string jr ''object'' = Some ''chat.completion.chunk'' then
                 (let choices = json_get jr ''choices'';
                      (evs, sctx1) = (if jv_type choices = JSON_ARRAY
                                      then openai_choice sctx (json_array_get choices 0) else ([], sctx))
                  in (evs @ openai_usage sctx1 (json_get jr ''usage'') now, sctx1))
               else ([], sctx)
           | _ \<Rightarrow> ([], sctx))"

section \<open>Responses events\<close>

definition responses_item_id :: "json_val \<Rightarrow> json_val \<Rightarrow> string option" where
  "responses_item_id jr item =
     (case json_get_string jr ''item_id'' of
        Some i \<Rightarrow> Some i
      | None \<Rightarrow> if jv_type item \<noteq> JSON_NULL then json_get_string item ''id'' else None)"

definition responses_output_index :: "json_val \<Rightarrow> int" where
  "responses_output_index jr =
     (if jv_type (json_get jr ''output_index'') = JSON_NUMBER then json_get_int jr ''output_index'' else -1)"

definition responses_tool_index :: "stream_ctx \<Rightarrow> json_val \<Rightarrow> json_val \<Rightarrow> stream_ctx \<times> int" where
  "responses_tool_index sctx jr item =
     (let idx = responses_output_index jr in
      case responses_item_id jr item of
        None \<Rightarrow> (sctx, idx)
      | Some i \<Rightarrow>
          (case map_of (sc_items sctx) i of
             Some known \<Rightarrow> (sctx, if idx < 0 then known else idx)
           | None \<Rightarrow> if 0 \<le> idx then (sctx\<lparr>sc_items := sc_items sctx @ [(i, idx)]\<rparr>, idx) else (sctx, idx)))"

definition responses_record_usage :: "stream_ctx \<Rightarrow> json_val \<Rightarrow> stream_ctx" where
  "responses_record_usage sctx response =
     (let u = json_get response ''usage''; usage = (if jv_type u = JSON_NULL then response else u);
          details = json_get usage ''input_tokens_details'';
          nested = (if jv_type details = JSON_NULL then 0 else json_get_int details ''cached_tokens'');
          cached = (if 0 < nested then nested else json_get_int usage ''cached_tokens'');
          inp = s32 (json_get_int usage ''input_tokens'' - cached)
      in sctx\<lparr>sc_out_tokens := json_get_int usage ''output_tokens'', sc_cache_read_tokens := cached,
              sc_in_tokens := (if inp < 0 then 0 else inp)\<rparr>)"

definition responses_emit_usage :: "stream_ctx \<Rightarrow> int \<Rightarrow> sse_event" where
  "responses_emit_usage sctx now =
     (event_blank SSE_USAGE)\<lparr>ev_in_tokens := sc_in_tokens sctx, ev_out_tokens := sc_out_tokens sctx,
        ev_cache_read_tokens := sc_cache_read_tokens sctx, ev_start_ms := sc_start_ms sctx,
        ev_end_ms := now\<rparr>"

definition responses_text_delta :: "stream_ctx \<Rightarrow> string option \<Rightarrow> sse_event list \<times> stream_ctx" where
  "responses_text_delta sctx delta =
     (case delta of
        None \<Rightarrow> ([], sctx)
      | Some d \<Rightarrow>
          (let t = (if sc_saw_text sctx then d else dropWhile (\<lambda>c. c = LF \<or> c = CR) d) in
           if t \<noteq> [] then ([emit_simple_event SSE_TEXT (Some t)], sctx\<lparr>sc_saw_text := True\<rparr>)
           else ([], sctx)))"

definition responses_item :: "stream_ctx \<Rightarrow> json_val \<Rightarrow> stream_ctx" where
  "responses_item sctx0 jr =
     (let item = json_get jr ''item'' in
      if json_get_string item ''type'' = Some ''function_call'' then
        (let (sctx1, idx) = responses_tool_index sctx0 jr item in
         if idx < 0 then sctx1
         else let (sctx, i) = streamctx_ensure_openai_tool sctx1 idx;
                  args = json_get_string item ''arguments''
              in update_tool i
                   (\<lambda>t. t\<lparr>ot_id := or_keep (json_get_string item ''call_id'') (ot_id t),
                          ot_name := or_keep (json_get_string item ''name'') (ot_name t),
                          ot_arguments := (if nonempty_opt args
                                           then sb_append (sb_truncate (ot_arguments t) 0) args
                                           else ot_arguments t)\<rparr>) sctx)
      else sctx0)"

definition responses_arguments :: "stream_ctx \<Rightarrow> json_val \<Rightarrow> stream_ctx" where
  "responses_arguments sctx0 jr =
     (let (sctx1, idx) = responses_tool_index sctx0 jr (json_get jr ''item'') in
      if idx < 0 then sctx1
      else let (sctx, i) = streamctx_ensure_openai_tool sctx1 idx
           in update_tool i
                (\<lambda>t. t\<lparr>ot_arguments := sb_append (ot_arguments t) (json_get_string jr ''delta'')\<rparr>) sctx)"

definition response_of :: "json_val \<Rightarrow> json_val" where
  "response_of jr = (let r = json_get jr ''response'' in if jv_type r = JSON_NULL then jr else r)"

definition responses_completed :: "stream_ctx \<Rightarrow> json_val \<Rightarrow> int \<Rightarrow> sse_event list \<times> stream_ctx" where
  "responses_completed sctx0 jr now =
     (let sctx1 = responses_record_usage sctx0 (response_of jr);
          has_tools = 0 < sc_tool_count sctx1;
          (evs, sctx2) = streamctx_emit_openai_tool_calls sctx1
      in (evs @ [responses_emit_usage sctx2 now,
                 emit_simple_event SSE_STOP (Some (if has_tools then ''tool_use'' else ''end_turn''))],
          sctx2\<lparr>sc_terminal := True, sc_complete := True\<rparr>))"

definition responses_failed :: "stream_ctx \<Rightarrow> string \<Rightarrow> json_val \<Rightarrow> int \<Rightarrow> sse_event list \<times> stream_ctx" where
  "responses_failed sctx0 event jr now =
     (let response = response_of jr; sctx = responses_record_usage sctx0 response;
          message = (case json_get_string (json_get response ''error'') ''message'' of
                       Some m \<Rightarrow> m
                     | None \<Rightarrow> (case json_get_string response ''message'' of
                         Some m \<Rightarrow> m
                       | None \<Rightarrow> (case json_get_string response ''reason'' of
                           Some m \<Rightarrow> m
                         | None \<Rightarrow> if event = ''response.incomplete'' then ''Response incomplete''
                                   else if event = ''error'' then ''Stream error'' else ''Response failed'')))
      in ([emit_simple_event SSE_ERROR (Some message), responses_emit_usage sctx now,
           emit_simple_event SSE_STOP (Some ''error'')], sctx\<lparr>sc_terminal := True\<rparr>))"

definition parse_responses_sse_event ::
    "stream_ctx \<Rightarrow> string \<Rightarrow> string \<Rightarrow> int \<Rightarrow> sse_event list \<times> stream_ctx" where
  "parse_responses_sse_event sctx event data now =
     (if data = [] then ([], sctx)
      else case json_parse data of
        JOk jr r \<Rightarrow>
          if event = ''response.reasoning_text.delta'' then
            (let delta = json_get_string jr ''delta'' in
             (if nonempty_opt delta then [emit_simple_event SSE_THINKING delta] else [], sctx))
          else if event = ''response.output_text.delta'' then
            responses_text_delta sctx (json_get_string jr ''delta'')
          else if event = ''response.output_item.added'' \<or> event = ''response.output_item.done'' then
            ([], responses_item sctx jr)
          else if event = ''response.function_call_arguments.delta'' then ([], responses_arguments sctx jr)
          else if event = ''response.completed'' then responses_completed sctx jr now
          else if event = ''response.failed'' \<or> event = ''response.incomplete'' \<or> event = ''error'' then
            responses_failed sctx event jr now
          else ([], sctx)
      | _ \<Rightarrow> ([], sctx))"

end
