(* ===== verification/Http.thy ===== *)
theory Http
  imports Stream
begin

text \<open>
  The write callbacks, the plain JSON fallback and the retry loop (c/transport.c).
\<close>

section \<open>Lines of a stream\<close>

definition parse_claude_stream_event :: "stream_ctx \<Rightarrow> string \<Rightarrow> int \<Rightarrow> sse_event list \<times> stream_ctx" where
  "parse_claude_stream_event sctx data now =
     (let stop = (case json_parse data of
                    JOk jr r \<Rightarrow> json_get_string jr ''type'' = Some ''message_stop'' | _ \<Rightarrow> False)
      in (sse_parse_event (sc_provider sctx) data (sc_start_ms sctx) now,
          if stop then sctx\<lparr>sc_complete := True\<rparr> else sctx))"

definition stream_data :: "stream_ctx \<Rightarrow> string \<Rightarrow> int \<Rightarrow> sse_event list \<times> stream_ctx" where
  "stream_data sctx data now =
     (if sc_provider sctx = ''openai'' then parse_openai_sse_event sctx data now
      else if sc_provider sctx = ''responses'' then
        parse_responses_sse_event sctx (opt_default [] (sc_event sctx)) data now
      else parse_claude_stream_event sctx data now)"

definition strip_cr :: "string \<Rightarrow> string" where
  "strip_cr s = (if s \<noteq> [] \<and> last s = CR then butlast s else s)"

definition stream_line :: "stream_ctx \<Rightarrow> string \<Rightarrow> int \<Rightarrow> sse_event list \<times> stream_ctx" where
  "stream_line sctx line now =
     (if starts_with ''event: '' line \<and> sc_provider sctx = ''responses''
      then ([], sctx\<lparr>sc_event := Some (drop 7 line)\<rparr>)
      else if starts_with ''data: '' line then stream_data sctx (drop 6 line) now
      else if starts_with ''data:'' line then
        stream_data sctx (dropWhile (\<lambda>c. c = CHR '' '') (drop 5 line)) now
      else ([], sctx))"

text \<open>A byte as it arrives: the flag at the check before it, the clock, the byte.\<close>

type_synonym feed = "bool \<times> int \<times> char"

text \<open>One byte.  \<open>None\<close> is \<open>strlen(NULL)\<close>: a line feed while the line buffer was never allocated.\<close>

definition stream_byte :: "stream_ctx \<Rightarrow> int \<Rightarrow> char \<Rightarrow> (sse_event list \<times> stream_ctx) option" where
  "stream_byte sctx now c =
     (if c = LF then
        (case sb_data (sc_line_buf sctx) of
           None \<Rightarrow> None
         | Some d \<Rightarrow>
             (let (evs, sctx') = stream_line sctx (strip_cr (c_string d)) now
              in Some (evs, sctx'\<lparr>sc_line_buf := sb_truncate (sc_line_buf sctx') 0\<rparr>)))
      else Some ([], sctx\<lparr>sc_line_buf := sb_append_char (sc_line_buf sctx) c\<rparr>))"

fun stream_loop :: "stream_ctx \<Rightarrow> feed list \<Rightarrow> (bool \<times> sse_event list \<times> stream_ctx) option" where
  "stream_loop sctx [] = Some (True, [], sctx)"
| "stream_loop sctx ((cancelled, now, c) # fs) =
     (if cancelled then Some (False, [], sctx)
      else case stream_byte sctx now c of
        None \<Rightarrow> None
      | Some (evs, sctx1) \<Rightarrow>
          (case stream_loop sctx1 fs of
             None \<Rightarrow> None
           | Some (ok, evs', sctx2) \<Rightarrow> Some (ok, evs @ evs', sctx2)))"

text \<open>The value returned, the events, the new context.\<close>

definition stream_cb :: "stream_ctx \<Rightarrow> bool \<Rightarrow> feed list \<Rightarrow> (nat \<times> sse_event list \<times> stream_ctx) option" where
  "stream_cb sctx cancelled fs =
     (if cancelled then Some (0, [], sctx)
      else case stream_loop sctx fs of
        None \<Rightarrow> None
      | Some (ok, evs, sctx') \<Rightarrow> Some (if ok then length fs else 0, evs, sctx'))"

definition CURLE_OK :: int where "CURLE_OK = 0"
definition CURLE_WRITE_ERROR :: int where "CURLE_WRITE_ERROR = 23"

definition stream_speed_ready :: "stream_ctx \<Rightarrow> int \<Rightarrow> int \<Rightarrow> bool \<Rightarrow> bool" where
  "stream_speed_ready sctx rc http_code cancelled \<longleftrightarrow>
     rc = CURLE_OK \<and> 200 \<le> http_code \<and> http_code < 300 \<and> \<not> cancelled \<and> sc_complete sctx"

section \<open>A plain JSON body\<close>

definition residual_claude_block :: "json_val \<Rightarrow> sse_event list" where
  "residual_claude_block block =
     (let btype = json_get_string block ''type'' in
      if btype = Some ''text'' then emit_if SSE_TEXT (json_get_string block ''text'')
      else if btype = Some ''thinking'' then emit_if SSE_THINKING (json_get_string block ''thinking'')
      else if btype = Some ''tool_use'' then
        [call_event (json_get_string block ''id'') (json_get_string block ''name'') ''{}'']
      else [])"

definition residual_claude :: "json_val \<Rightarrow> int \<Rightarrow> int \<Rightarrow> sse_event list" where
  "residual_claude jr start_ms now =
     (let content = json_get jr ''content''; usage = json_get jr ''usage'' in
      (if jv_type content = JSON_ARRAY then concat (map residual_claude_block (json_elems content)) else [])
      @ emit_if SSE_STOP (json_get_string jr ''stop_reason'')
      @ (if jv_type usage \<noteq> JSON_NULL
         then [(event_blank SSE_USAGE)\<lparr>ev_in_tokens := json_get_int usage ''input_tokens'',
                 ev_out_tokens := json_get_int usage ''output_tokens'',
                 ev_cache_read_tokens := json_get_int usage ''cache_read_input_tokens'',
                 ev_cache_creation_tokens := json_get_int usage ''cache_creation_input_tokens'',
                 ev_start_ms := start_ms, ev_end_ms := now\<rparr>] else []))"

definition residual_stop :: "string \<Rightarrow> string" where
  "residual_stop f = (if f = ''tool_calls'' then ''tool_use'' else if f = ''stop'' then ''end_turn'' else f)"

definition residual_call :: "json_val \<Rightarrow> sse_event" where
  "residual_call tc =
     (let fn = json_get tc ''function'' in
      call_event (json_get_string tc ''id'') (json_get_string fn ''name'')
        (opt_default ''{}'' (json_get_string fn ''arguments'')))"

definition residual_openai :: "json_val \<Rightarrow> int \<Rightarrow> int \<Rightarrow> sse_event list" where
  "residual_openai jr start_ms now =
     (let choices = json_get jr ''choices''; choice = json_array_get choices 0;
          msg = json_get choice ''message''; tool_calls = json_get msg ''tool_calls'';
          usage = json_get jr ''usage''
      in (if jv_type choices = JSON_ARRAY
          then emit_if SSE_TEXT (json_get_string msg ''content'')
               @ emit_if SSE_THINKING (reasoning_of msg)
               @ (if jv_type tool_calls = JSON_ARRAY then map residual_call (json_elems tool_calls) else [])
               @ emit_if SSE_STOP (map_option residual_stop (json_get_string choice ''finish_reason''))
          else [])
         @ (if jv_type usage \<noteq> JSON_NULL
            then [(fill_openai_usage_event (event_blank SSE_USAGE) usage)
                    \<lparr>ev_start_ms := start_ms, ev_end_ms := now\<rparr>] else []))"

definition process_residual_json :: "stream_ctx \<Rightarrow> string \<Rightarrow> int \<Rightarrow> sse_event list" where
  "process_residual_json sctx provider now =
     (case sb_data (sc_line_buf sctx) of
        None \<Rightarrow> []
      | Some d \<Rightarrow>
          if sb_len (sc_line_buf sctx) = 0 then []
          else
            (let residual = dropWhile (\<lambda>c. c = CHR '' '' \<or> c = TAB \<or> c = CR \<or> c = LF) (c_string d) in
             if \<not> starts (CHR ''{'') residual then []
             else case json_parse residual of
               JOk jr r \<Rightarrow>
                 (case json_get_string jr ''error'' of
                    Some m \<Rightarrow> [emit_simple_event SSE_ERROR (Some m)]
                  | None \<Rightarrow>
                      if provider = ''claude'' then residual_claude jr (sc_start_ms sctx) now
                      else residual_openai jr (sc_start_ms sctx) now)
             | _ \<Rightarrow> []))"

section \<open>The retry loop\<close>

text \<open>
  What one pass of the loop meets: whether \<open>curl_easy_init\<close> succeeds, the chunks curl hands to the
  callback with the flag at the callback's start, the code curl returns when no callback refuses a
  chunk, the HTTP status, the clock reading of the fallback parser, curl's two timers in
  microseconds, the reading of the flag at each of the four places that test it after the transfer
  (retry decision, speed, end of the last attempt, before a retry), and the milliseconds
  since the start.
\<close>

record attempt =
  at_init :: bool
  at_chunks :: "(bool \<times> feed list) list"
  at_rc :: int
  at_http :: int
  at_now :: int
  at_total_us :: int
  at_ttfb_us :: int
  at_cancelled :: "nat \<Rightarrow> bool"
  at_elapsed_ms :: int

text \<open>\<open>curl_easy_perform\<close>: a callback that does not take its whole chunk stops the transfer.\<close>

fun perform :: "stream_ctx \<Rightarrow> (bool \<times> feed list) list \<Rightarrow> int \<Rightarrow> (int \<times> sse_event list \<times> stream_ctx) option" where
  "perform sctx [] rc = Some (rc, [], sctx)"
| "perform sctx ((cancelled, fs) # chunks) rc =
     (case stream_cb sctx cancelled fs of
        None \<Rightarrow> None
      | Some (n, evs, sctx1) \<Rightarrow>
          if n \<noteq> length fs then Some (CURLE_WRITE_ERROR, evs, sctx1)
          else (case perform sctx1 chunks rc of
                  None \<Rightarrow> None
                | Some (rc', evs', sctx2) \<Rightarrow> Some (rc', evs @ evs', sctx2)))"

definition MAX_RETRIES :: nat where "MAX_RETRIES = 2"
definition RETRY_MAX_TIME_MS :: int where "RETRY_MAX_TIME_MS = 20000"

definition speed_event :: "attempt \<Rightarrow> stream_ctx \<Rightarrow> int \<Rightarrow> int \<Rightarrow> sse_event" where
  "speed_event att sctx rc code =
     (let dur = at_total_us att - at_ttfb_us att in
      (event_blank SSE_USAGE)
        \<lparr>ev_speed_ready := stream_speed_ready sctx rc code (at_cancelled att 1),
         ev_end_ms := (if 0 < dur then (dur + 999) div 1000 else 0)\<rparr>)"

text \<open>The result code after the last attempt.\<close>

definition final_code :: "int \<Rightarrow> int \<Rightarrow> int" where
  "final_code rc code = (if rc \<noteq> CURLE_OK then -1 else if 400 \<le> code then code else 0)"

definition finish_attempt :: "string \<Rightarrow> attempt \<Rightarrow> int \<Rightarrow> int \<Rightarrow> stream_ctx \<Rightarrow> int \<times> sse_event list" where
  "finish_attempt provider att rc code sctx =
     (let evs = (if rc = CURLE_OK
                 then process_residual_json sctx provider (at_now att) @ [speed_event att sctx rc code] else [])
      in if rc = CURLE_WRITE_ERROR \<and> at_cancelled att 2
         then (0, evs @ [emit_simple_event SSE_STOP (Some ''interrupted'')])
         else if final_code rc code \<noteq> 0 then (final_code rc code, evs)
         else if provider = ''responses'' \<and> \<not> sc_terminal sctx
         then (0, evs @ [emit_simple_event SSE_ERROR (Some ''Stream interrupted (no response.completed received)''),
                         emit_simple_event SSE_STOP (Some ''error'')])
         else (0, evs))"

definition should_retry :: "attempt \<Rightarrow> int \<Rightarrow> int \<Rightarrow> bool" where
  "should_retry att rc code \<longleftrightarrow>
     (if rc \<noteq> CURLE_OK then \<not> (rc = CURLE_WRITE_ERROR \<and> at_cancelled att 0) else 500 \<le> code)"

text \<open>One pass: the events, and the result code, or \<open>None\<close> to try again.\<close>

definition sse_attempt ::
    "string \<Rightarrow> int \<Rightarrow> nat \<Rightarrow> attempt \<Rightarrow> (int option \<times> sse_event list) option" where
  "sse_attempt provider start_ms k att =
     (if \<not> at_init att then Some (Some (-1), [])
      else case perform (stream_ctx_init provider start_ms) (at_chunks att) (at_rc att) of
        None \<Rightarrow> None
      | Some (rc, evs, sctx) \<Rightarrow>
          (let code = (if rc = CURLE_OK then at_http att else 0) in
           if \<not> should_retry att rc code then
             (let (res, evs') = finish_attempt provider att rc code sctx in Some (Some res, evs @ evs'))
           else if rc = CURLE_WRITE_ERROR \<and> at_cancelled att 3 then
             Some (Some 0, evs @ [emit_simple_event SSE_STOP (Some ''interrupted'')])
           else if MAX_RETRIES \<le> k \<or> RETRY_MAX_TIME_MS \<le> at_elapsed_ms att then
             Some (Some (final_code rc code), evs)
           else Some (None, evs @ [event_blank SSE_RETRY])))"

text \<open>The passes from number \<open>k\<close> on, \<open>n\<close> of them left; after the last one -1 is returned.\<close>

fun sse_attempts ::
    "string \<Rightarrow> int \<Rightarrow> (nat \<Rightarrow> attempt) \<Rightarrow> nat \<Rightarrow> nat \<Rightarrow> (int \<times> sse_event list) option" where
  "sse_attempts provider start_ms env k 0 = Some (-1, [])"
| "sse_attempts provider start_ms env k (Suc n) =
     (case sse_attempt provider start_ms k (env k) of
        None \<Rightarrow> None
      | Some (Some res, evs) \<Rightarrow> Some (res, evs)
      | Some (None, evs) \<Rightarrow>
          (case sse_attempts provider start_ms env (Suc k) n of
             None \<Rightarrow> None
           | Some (res, evs') \<Rightarrow> Some (res, evs @ evs')))"

definition http_post_sse :: "string \<Rightarrow> int \<Rightarrow> (nat \<Rightarrow> attempt) \<Rightarrow> (int \<times> sse_event list) option" where
  "http_post_sse provider start_ms env = sse_attempts provider start_ms env 0 (MAX_RETRIES + 1)"

section \<open>A plain request\<close>

record curl_buffer =
  cb_data :: "string option"
  cb_len :: nat
  cb_cap :: nat

definition write_cb :: "curl_buffer \<Rightarrow> string \<Rightarrow> nat \<times> curl_buffer" where
  "write_cb buf chunk =
     (let total = length chunk; need = cb_len buf + total + 1 in
      (total, buf\<lparr>cb_cap := (if cb_cap buf < need
                             then grow_cap (if cb_cap buf = 0 then 4096 else cb_cap buf * 2) need
                             else cb_cap buf),
                 cb_data := Some (opt_default [] (cb_data buf) @ chunk), cb_len := cb_len buf + total\<rparr>))"

record http_response =
  hr_status :: int
  hr_body :: "string option"

definition http_response_free :: "http_response \<Rightarrow> http_response" where
  "http_response_free r = r\<lparr>hr_body := None\<rparr>"

text \<open>Curl's part: whether it can be initialised, the chunks, its code with the message for it, the
  status.\<close>

definition http_post :: "bool \<Rightarrow> string list \<Rightarrow> int \<Rightarrow> (int \<Rightarrow> string) \<Rightarrow> int \<Rightarrow> http_response" where
  "http_post init chunks rc strerror code =
     (if \<not> init then \<lparr>hr_status = 0, hr_body = Some ''curl init failed''\<rparr>
      else let buf = foldl (\<lambda>b c. snd (write_cb b c)) \<lparr>cb_data = None, cb_len = 0, cb_cap = 0\<rparr> chunks in
        if rc \<noteq> CURLE_OK then \<lparr>hr_status = 0, hr_body = Some (strerror rc)\<rparr>
        else \<lparr>hr_status = s32 code, hr_body = Some (opt_default [] (cb_data buf))\<rparr>)"

end
