(* ===== verification/Request.thy ===== *)
theory Request
  imports StoreProps
begin

text \<open>
  Building the request body (c/transport.c): the expansion of attached images into base64 blocks and
  \<open>build_claude_request\<close>.  The buffers of the code are only appended to, so they are strings here;
  \<open>None\<close> is a buffer that was never allocated (nothing but empty strings were appended).
\<close>

section \<open>Attached images\<close>

lemma strstr_length: "strstr s n = Some t \<Longrightarrow> length n \<le> length t \<and> length t \<le> length s"
  using strstr_Some [of s n t] by (auto simp: starts_with_iff)

text \<open>The last of the occurrences of \<open>/images/\<close> that the loop meets.\<close>

function last_images :: "string \<Rightarrow> string option" where
  "last_images s =
     (case strstr s ''/images/'' of
        None \<Rightarrow> None
      | Some t \<Rightarrow> (case last_images (drop 8 t) of None \<Rightarrow> Some t | Some u \<Rightarrow> Some u))"
  by pat_completeness auto
termination
proof (relation "measure length", goal_cases)
  case (2 s t)
  then have "length ''/images/'' \<le> length t" "length t \<le> length s" using strstr_length by blast+
  then show ?case by simp
qed simp

declare last_images.simps [simp del]

definition vision_is_mapping_line :: "string \<Rightarrow> bool" where
  "vision_is_mapping_line line \<longleftrightarrow>
     starts_with ''[Image #'' line \<and>
     (let p = drop 8 line in
      case strchr p (CHR '']'') of
        None \<Rightarrow> False
      | Some h \<Rightarrow>
          (let digits = take (length p - length h) p; q = tl h; path = drop 5 q; n = length path in
           digits \<noteq> [] \<and> list_all isdigit digits \<and> starts_with '' => /'' q
           \<and> 13 \<le> n \<and> drop (n - 4) path = ''.png''
           \<and> (case last_images path of
                None \<Rightarrow> False
              | Some imgs \<Rightarrow>
                  (let num = drop 8 imgs in
                   4 < length num \<and> list_all isdigit (take (length num - 4) num)))))"

definition IMG_OPEN :: string where "IMG_OPEN = ''<attached-images>'' @ [LF]"
definition IMG_CLOSE :: string where "IMG_CLOSE = ''</attached-images>''"

definition image_block :: "string \<Rightarrow> string" where
  "image_block d =
     ''{\"type\":\"image\",\"source\":{\"type\":\"base64\",\"media_type\":\"image/png\",\"data\":\"'' @ d @ ''\"}}''"

definition sep_append :: "string \<Rightarrow> string \<Rightarrow> string" where
  "sep_append buf s = (if buf = [] then s else buf @ CHR '','' # s)"

text \<open>The lines of a section: a last line that does not end in a line feed counts when it is not empty.\<close>

definition section_lines :: "string \<Rightarrow> string list" where
  "section_lines sec = (let (ls, r) = split_lines sec in if r = [] then ls else ls @ [r])"

definition mapping_path :: "string \<Rightarrow> string" where
  "mapping_path line = (case strstr line '' => '' of Some a \<Rightarrow> drop 4 a | None \<Rightarrow> line)"

text \<open>The image buffer and the count after the mapping lines, \<open>None\<close> when an attachment cannot be read.\<close>

fun vision_lines :: "fsys \<Rightarrow> string list \<Rightarrow> string \<Rightarrow> nat \<Rightarrow> (string \<times> nat) option" where
  "vision_lines fs [] img n = Some (img, n)"
| "vision_lines fs (l # ls) img n =
     (if vision_is_mapping_line l then
        (case util_read_file_len fs (mapping_path l) of
           None \<Rightarrow> None
         | Some b \<Rightarrow> vision_lines fs ls (sep_append img (image_block (util_base64_encode b))) (n + 1))
      else vision_lines fs ls img n)"

definition strip_gap :: "string \<Rightarrow> string" where
  "strip_gap s =
     (if 2 \<le> length s \<and> drop (length s - 2) s = [LF, LF] then take (length s - 2) s else s)"

function vision_loop :: "fsys \<Rightarrow> string \<Rightarrow> string \<Rightarrow> nat \<Rightarrow> (string \<times> string \<times> nat) option" where
  "vision_loop fs rest img n =
     (case strstr rest IMG_OPEN of
        None \<Rightarrow> Some (rest, img, n)
      | Some start \<Rightarrow>
          (let pre = take (length rest - length start) rest; sect = drop (length IMG_OPEN) start in
           case strstr sect IMG_CLOSE of
             None \<Rightarrow> Some (rest, img, n)
           | Some stop \<Rightarrow>
               (let sec = take (length sect - length stop) sect in
                case vision_lines fs (section_lines sec) img n of
                  None \<Rightarrow> None
                | Some (img', n') \<Rightarrow>
                    (case vision_loop fs (drop (length IMG_CLOSE) stop) img' n' of
                       None \<Rightarrow> None
                     | Some (cleaned, img'', n'') \<Rightarrow>
                         Some ((if n < n' then strip_gap pre else pre @ IMG_OPEN @ sec @ IMG_CLOSE) @ cleaned,
                               img'', n'')))))"
  by pat_completeness auto
termination
proof (relation "measure (\<lambda>(fs, rest, img, n). length rest)", goal_cases)
  case (2 fs rest img n start pre sect stop sec p img' n')
  then have "length IMG_OPEN \<le> length start" "length start \<le> length rest" "length stop \<le> length sect"
    using strstr_length by blast+
  then show ?case using 2 by (simp add: IMG_OPEN_def)
qed simp

declare vision_loop.simps [simp del]

text \<open>The new text (\<open>None\<close> for a NULL pointer), the images, their number; \<open>None\<close> for a failure.\<close>

definition vision_convert_text :: "fsys \<Rightarrow> string \<Rightarrow> string \<Rightarrow> nat \<Rightarrow> (string option \<times> string \<times> nat) option" where
  "vision_convert_text fs t img n =
     map_option (\<lambda>(cleaned, img', n'). (if cleaned = [] then None else Some cleaned, img', n'))
       (vision_loop fs t img n)"

definition text_block :: "string \<Rightarrow> string" where
  "text_block t = ''{\"type\":\"text\",\"text\":'' @ json_quote t @ ''}''"

text \<open>One block of a content array: the output so far and the images.  \<open>wrote\<close> is true once a block
  was written, which is when the output is not empty: the blocks are.\<close>

definition vision_block ::
    "fsys \<Rightarrow> string \<times> string \<times> nat \<Rightarrow> json_val \<Rightarrow> (string \<times> string \<times> nat) option" where
  "vision_block fs st block =
     (case st of (out, img, n) \<Rightarrow>
        let raw = Some (sep_append out (json_raw block), img, n) in
        if jv_type block = JSON_OBJECT \<and> json_get_string block ''type'' = Some ''text'' then
          (case json_string_val (json_get block ''text'') of
             None \<Rightarrow> raw
           | Some t \<Rightarrow>
               (case vision_convert_text fs t img n of
                  None \<Rightarrow> None
                | Some (new, img', n') \<Rightarrow>
                    if new = Some [] then Some (out, img', n')
                    else Some (sep_append out
                                 (case new of
                                    Some t' \<Rightarrow> if t' \<noteq> t then text_block t' else json_raw block
                                  | None \<Rightarrow> json_raw block), img', n')))
        else raw)"

fun vision_blocks ::
    "fsys \<Rightarrow> json_val list \<Rightarrow> string \<times> string \<times> nat \<Rightarrow> (string \<times> string \<times> nat) option" where
  "vision_blocks fs [] st = Some st"
| "vision_blocks fs (b # bs) st =
     (case vision_block fs st b of None \<Rightarrow> None | Some st' \<Rightarrow> vision_blocks fs bs st')"

text \<open>The result of \<open>expand_vision_line\<close>: keep the line, replace it, or do not send at all.\<close>

datatype vision = VKeep | VLine string | VFail

definition user_line :: "string \<Rightarrow> string" where
  "user_line content = ''{\"role\":\"user\",\"content\":'' @ content @ ''}''"

definition expand_vision_line :: "fsys \<Rightarrow> string \<Rightarrow> vision" where
  "expand_vision_line fs line =
     (case json_parse_root (Some line) of
        JOk v r \<Rightarrow>
          if jv_type v = JSON_OBJECT \<and> json_get_string v ''role'' = Some ''user'' then
            (let content = json_get v ''content'' in
             if jv_type content = JSON_STRING then
               (case json_string_val content of
                  None \<Rightarrow> VKeep
                | Some t \<Rightarrow>
                    (case vision_convert_text fs t [] 0 of
                       None \<Rightarrow> VFail
                     | Some (new, img, n) \<Rightarrow>
                         if n = 0 then VKeep
                         else VLine (user_line (''['' @ (if nonempty_opt new then text_block (the new) @ '','' else [])
                                                @ img @ '']''))))
             else if jv_type content = JSON_ARRAY then
               (case vision_blocks fs
                       (map (\<lambda>i. json_array_get content (int i)) [0..<nat (json_array_len content)]) ([], [], 0) of
                  None \<Rightarrow> VFail
                | Some (out, img, n) \<Rightarrow>
                    if n = 0 then VKeep else VLine (user_line (''['' @ sep_append out img @ '']'')))
             else VKeep)
          else VKeep
      | _ \<Rightarrow> VKeep)"

section \<open>The request\<close>

text \<open>The messages, joined by commas; \<open>None\<close> when an attachment cannot be read.\<close>

fun request_messages :: "fsys \<Rightarrow> bool \<Rightarrow> string option list \<Rightarrow> string list option" where
  "request_messages fs vision_on [] = Some []"
| "request_messages fs vision_on (l # ls) =
     (case l of
        None \<Rightarrow> request_messages fs vision_on ls
      | Some line \<Rightarrow>
          if line = [] then request_messages fs vision_on ls
          else
            (case (if vision_on then expand_vision_line fs line else VKeep) of
               VFail \<Rightarrow> None
             | VLine new \<Rightarrow> map_option ((#) new) (request_messages fs vision_on ls)
             | VKeep \<Rightarrow> map_option ((#) line) (request_messages fs vision_on ls)))"

definition build_claude_request ::
    "fsys \<Rightarrow> string option \<Rightarrow> string option \<Rightarrow> string option \<Rightarrow> string option list \<Rightarrow> int
       \<Rightarrow> string option \<Rightarrow> string option \<Rightarrow> string option \<Rightarrow> string option" where
  "build_claude_request fs model system_prompt tools_json conv_lines max_tokens thinking effort vision =
     (case request_messages fs (vision = Some ''on'') conv_lines of
        None \<Rightarrow> None
      | Some msgs \<Rightarrow>
          (let think = (thinking \<noteq> None \<and> thinking \<noteq> Some ''disabled'') in
           Some (''{\"max_tokens\":'' @ int_dec max_tokens
             @ '',\"messages\":['' @ commas msgs @ '']''
             @ '',\"model\":'' @ jstr model
             @ (if think then '',\"output_config\":{\"effort\":'' @ json_quote (opt_default ''high'' effort) @ ''}'' else [])
             @ '',\"stream\":true''
             @ (if nonempty_opt system_prompt then '',\"system\":'' @ jstr system_prompt else [])
             @ (if think then '',\"thinking\":{\"type\":'' @ jstr thinking @ ''}'' else [])
             @ (case tools_json of None \<Rightarrow> [] | Some t \<Rightarrow> '',\"tools\":'' @ t)
             @ ''}'')))"

end
