(* ===== verification/AgentText.thy ===== *)
theory AgentText
  imports Protocol Prompt Http Request
begin

text \<open>
  What the agent writes and shows (c/agent.c): the summary of a tool call, the event line of a display
  message, the replay of recorded events, the list of attached images and the terminal title.
\<close>

section \<open>Summaries of tool calls\<close>

definition count_done :: "json_val \<Rightarrow> nat" where
  "count_done arr =
     length (filter (\<lambda>i. json_get_string (json_array_get arr i) ''status'' = Some ''completed'')
       [0 .. json_array_len arr - 1])"

definition display_field :: "string \<Rightarrow> json_val \<Rightarrow> string option" where
  "display_field name v =
     (if name \<in> {''Read'', ''Write'', ''Edit''} then json_get_string v ''path''
      else if name \<in> {''Glob'', ''Grep''} then json_get_string v ''pattern''
      else if name = ''Bash'' then json_get_string v ''command''
      else if name = ''Skill'' then json_get_string v ''name''
      else if name = ''SubAgent'' then json_get_string v ''description''
      else if name = ''TodoWrite'' then
        (let todos = json_get v ''todos'' in
         if jv_type todos = JSON_ARRAY
         then Some (nat_dec (count_done todos) @ ''/'' @ int_dec (json_array_len todos)) else None)
      else None)"

definition bash_summary :: "string \<Rightarrow> string" where
  "bash_summary field =
     (let f = map (\<lambda>c. if c = LF then CHR '' '' else c) field in
      if 80 < length f then take (util_utf8_truncate_len f 77) f @ ''...'' else f)"

definition agent_tool_display_summary :: "string \<Rightarrow> json_val \<Rightarrow> string option \<Rightarrow> string" where
  "agent_tool_display_summary name v input_json =
     (case display_field name v of
        Some field \<Rightarrow> if name = ''Bash'' then bash_summary field else field
      | None \<Rightarrow>
          if nonempty_opt input_json
          then (let s = the input_json in if 80 < length s then take 80 s @ ''...'' else s)
          else [])"

section \<open>Events\<close>

definition dm_text :: "string option \<Rightarrow> string" where
  "dm_text m = json_quote (opt_default [] m)"

definition display_msg_to_event :: "display_message \<Rightarrow> string option" where
  "display_msg_to_event m =
     (case dm_type m of
        DISPLAY_TEXT \<Rightarrow> Some (''{\"type\":\"text\",\"content\":'' @ dm_text (dm_content m) @ ''}'')
      | DISPLAY_THINKING \<Rightarrow> Some (''{\"type\":\"thinking\",\"content\":'' @ dm_text (dm_content m) @ ''}'')
      | DISPLAY_TOOL_CALL \<Rightarrow>
          Some (''{\"type\":\"tool_call\",\"name\":'' @ dm_text (dm_tool_name m) @ '',\"id\":'' @ dm_text (dm_tool_id m)
                @ '',\"input\":'' @ opt_default ''{}'' (dm_tool_input m) @ ''}'')
      | DISPLAY_TOOL_RESULT \<Rightarrow>
          Some (''{\"type\":\"tool_result\",\"tool_use_id\":'' @ dm_text (dm_tool_id m) @ '',\"name\":''
                @ dm_text (dm_tool_name m) @ '',\"content\":'' @ dm_text (dm_content m) @ ''}'')
      | DISPLAY_USAGE \<Rightarrow>
          Some (''{\"type\":\"usage\",\"input_tokens\":'' @ int_dec (dm_in_tokens m)
                @ '',\"output_tokens\":'' @ int_dec (dm_out_tokens m)
                @ '',\"cache_read_input_tokens\":'' @ int_dec (dm_cache_read_tokens m)
                @ '',\"cache_creation_input_tokens\":'' @ int_dec (dm_cache_creation_tokens m)
                @ '',\"kind\":\"agent\"}'')
      | DISPLAY_STOP \<Rightarrow> Some (''{\"type\":\"stop\",\"reason\":'' @ dm_text (dm_content m) @ ''}'')
      | DISPLAY_ERROR \<Rightarrow> Some (''{\"type\":\"error\",\"message\":'' @ dm_text (dm_content m) @ ''}'')
      | DISPLAY_SUB_AGENT_START \<Rightarrow>
          Some (''{\"type\":\"sub_agent_start\",\"session_id\":'' @ dm_text (dm_session_id m) @ ''}'')
      | DISPLAY_SUB_AGENT_RESULT \<Rightarrow>
          Some (''{\"type\":\"sub_agent_result\",\"session_id\":'' @ dm_text (dm_session_id m) @ '',\"status\":''
                @ json_quote (if dm_tool_exit_code m = 0 then ''ok'' else ''failed'')
                @ '',\"input_tokens\":'' @ int_dec (dm_in_tokens m) @ '',\"output_tokens\":'' @ int_dec (dm_out_tokens m)
                @ '',\"thinking\":'' @ dm_text (dm_tool_name m) @ '',\"text\":'' @ dm_text (dm_content m) @ ''}'')
      | DISPLAY_ASYNC_TASK_RESULT \<Rightarrow>
          Some (''{\"type\":\"async_task_result\",\"task_id\":'' @ dm_text (dm_session_id m)
                @ '',\"exit_code\":'' @ int_dec (dm_tool_exit_code m) @ '',\"output\":'' @ dm_text (dm_content m) @ ''}'')
      | _ \<Rightarrow> None)"

section \<open>Replaying events\<close>

text \<open>The lines \<open>getline\<close> gives with their offsets; a last line without line feed counts.\<close>

fun lines_at :: "nat \<Rightarrow> string list \<Rightarrow> string \<Rightarrow> (nat \<times> string) list" where
  "lines_at pos [] r = (if r = [] then [] else [(pos, r)])"
| "lines_at pos (l # ls) r = (pos, l @ [LF]) # lines_at (pos + length l + 1) ls r"

definition file_lines :: "string \<Rightarrow> (nat \<times> string) list" where
  "file_lines b = (case split_lines b of (ls, r) \<Rightarrow> lines_at 0 ls r)"

text \<open>The ring of the last \<open>max_turns\<close> offsets, and how many were seen.\<close>

definition turn_ring :: "nat \<Rightarrow> nat list \<times> nat \<Rightarrow> nat \<times> string \<Rightarrow> nat list \<times> nat" where
  "turn_ring m st pl =
     (case st of (offsets, seen) \<Rightarrow>
        if str_contains (c_string (snd pl)) ''\"type\":\"user_input\"''
        then (offsets[seen mod m := fst pl], seen + 1) else st)"

definition find_recent_turn_start_offset :: "fsys \<Rightarrow> session_paths \<Rightarrow> int \<Rightarrow> int" where
  "find_recent_turn_start_offset fs p max_turns =
     (case fs_get fs (sp_events p) of
        None \<Rightarrow> - 1
      | Some b \<Rightarrow>
          (let m = nat (if max_turns \<le> 0 then 10 else max_turns);
               (offsets, seen) = foldl (turn_ring m) (replicate m 0, 0) (file_lines b)
           in if seen = 0 then 0
              else int (if m \<le> seen then offsets ! (seen mod m) else offsets ! 0)))"

definition strip_eols :: "string \<Rightarrow> string" where
  "strip_eols s = rev (dropWhile (\<lambda>c. c = LF \<or> c = CR) (rev s))"

text \<open>Cutting text: the routines give \<open>None\<close> only for texts of less than three bytes.\<close>

definition cut_str :: "string \<Rightarrow> nat \<Rightarrow> string" where
  "cut_str s n = opt_default s (util_truncate_str s n)"

definition ESC_GREEN :: string where "ESC_GREEN = CHR 0x1B # ''[32m''"
definition ESC_RESET :: string where "ESC_RESET = CHR 0x1B # ''[0m''"

definition replay_user :: "string option \<Rightarrow> display_message list" where
  "replay_user content =
     (if \<not> nonempty_opt content then []
      else [display_msg_text (Some (LF # ESC_GREEN @ ''> '' @ before LF (cut_str (the content) 80) @ ESC_RESET @ [LF]))])"

definition replay_tool_call :: "json_val \<Rightarrow> display_message" where
  "replay_tool_call v =
     (let name = json_get_string v ''name''; input_val = json_get v ''input'';
          input_str = (if jv_type input_val = JSON_NULL then None else json_as_string input_val);
          summary = (if jv_type input_val = JSON_NULL then []
                     else agent_tool_display_summary (opt_default [] name) input_val input_str)
      in (display_msg_tool_call (Some (opt_default [] (json_get_string v ''id''))) (Some (opt_default [] name)) (Some summary))
           \<lparr>dm_tool_input := Some (opt_default ''{}'' input_str)\<rparr>)"

definition replay_sub_result :: "json_val \<Rightarrow> display_message" where
  "replay_sub_result v =
     display_msg_sub_agent_result (Some (opt_default [] (json_get_string v ''session_id'')))
       (opt_default ''ok'' (json_get_string v ''status''))
       (map_option (\<lambda>t. take (util_utf8_truncate_len t 120) t) (json_get_string v ''thinking''))
       (Some (case json_get_string v ''text'' of None \<Rightarrow> [] | Some t \<Rightarrow> cut_str t 200))
       (json_get_int v ''input_tokens'') (json_get_int v ''output_tokens'')"

definition replay_line :: "string \<Rightarrow> display_message list" where
  "replay_line line =
     (let l = strip_eols (c_string line) in
      if l = [] then []
      else case json_root l of
        None \<Rightarrow> []
      | Some v \<Rightarrow>
          (case json_get_string v ''type'' of
             None \<Rightarrow> []
           | Some ty \<Rightarrow>
               if ty = ''user_input'' then replay_user (json_get_string v ''content'')
               else if ty = ''text'' then
                 (if nonempty_opt (json_get_string v ''content'') then [display_msg_text (json_get_string v ''content'')] else [])
               else if ty = ''thinking'' then
                 (if nonempty_opt (json_get_string v ''content'') then [display_msg_thinking (json_get_string v ''content'')] else [])
               else if ty = ''tool_call'' then [replay_tool_call v]
               else if ty = ''tool_result'' then
                 [(display_msg_tool_result
                     (Some (case json_get_string v ''content'' of None \<Rightarrow> [] | Some c \<Rightarrow> cut_str c 200)) 0)
                    \<lparr>dm_tool_id := json_get_string v ''tool_use_id'', dm_tool_name := json_get_string v ''name''\<rparr>]
               else if ty = ''sub_agent_result'' then [replay_sub_result v]
               else if ty = ''error'' then
                 [display_msg_error (Some (opt_default ''unknown'' (json_get_string v ''message'')))]
               else []))"

text \<open>The messages that go to the display, in order.\<close>

definition agent_replay_events :: "fsys \<Rightarrow> session_paths \<Rightarrow> int \<Rightarrow> bool \<times> display_message list" where
  "agent_replay_events fs p max_turns =
     (let start = find_recent_turn_start_offset fs p max_turns in
      if start < 0 then (False, [])
      else case fs_get fs (sp_events p) of
        None \<Rightarrow> (False, [])
      | Some b \<Rightarrow>
          (let ms = concat (map (\<lambda>(pos, l). replay_line l) (file_lines (drop (nat start) b))) in (ms \<noteq> [], ms)))"

section \<open>Attached images\<close>

definition IMAGES_HEAD :: string where
  "IMAGES_HEAD =
     [LF, LF] @ ''<attached-images>'' @ [LF] @ ''These placeholders map to local image files:'' @ [LF]"

definition IMAGES_TAIL :: string where
  "IMAGES_TAIL =
     [LF] @ ''Use an available visual Skill from <skill-index> when image understanding is needed, and''
     @ '' pass the corresponding absolute path to that Skill. The runtime does not inspect these ''
     @ ''images automatically.'' @ [LF] @ ''</attached-images>''"

definition IMAGE_TAG :: string where "IMAGE_TAG = ''[Image #''"

text \<open>The loop over the placeholders, appending a line for each whose file exists; the number is a C
  integer.\<close>

definition image_number :: "string \<Rightarrow> int" where
  "image_number ds = foldl (\<lambda>n c. s32 (n * 10 + int (digit_val c))) 0 ds"

definition image_line :: "fsys \<Rightarrow> session_paths \<Rightarrow> string \<Rightarrow> int \<Rightarrow> string" where
  "image_line fs p att n =
     (let path = take 1023 (store_session_image_dir p @ ''/'' @ int_dec n @ ''.png'') in
      if \<not> fs_opens fs path then att
      else att @ (if att = [] then [] else [LF]) @ ''[Image #'' @ int_dec n @ ''] => '' @ path)"

function image_loop :: "fsys \<Rightarrow> session_paths \<Rightarrow> string \<Rightarrow> string \<Rightarrow> string" where
  "image_loop fs p s att =
     (case strstr s IMAGE_TAG of
        None \<Rightarrow> att
      | Some q \<Rightarrow>
          (let number = drop (length IMAGE_TAG) q; ds = takeWhile isdigit number; e = drop (length ds) number in
           if ds = [] \<or> \<not> starts (CHR '']'') e then image_loop fs p number att
           else image_loop fs p (tl e) (image_line fs p att (image_number ds))))"
  by pat_completeness auto
termination
proof (relation "measure (\<lambda>(fs, p, s, att). length s)", goal_cases)
  case (2 fs p s att q)
  then show ?case using strstr_length [of s IMAGE_TAG q] by (auto simp: IMAGE_TAG_def)
next
  case (3 fs p s att q)
  then show ?case using strstr_length [of s IMAGE_TAG q] by (auto simp: IMAGE_TAG_def)
qed simp

definition agent_image_expand_placeholders :: "fsys \<Rightarrow> session_paths \<Rightarrow> string \<Rightarrow> string" where
  "agent_image_expand_placeholders fs p inp =
     (if inp = [] then inp
      else let att = image_loop fs p inp [] in
        if att = [] then inp else inp @ IMAGES_HEAD @ att @ IMAGES_TAIL)"

section \<open>The terminal title\<close>

text \<open>The digits from the right in groups of three.  A minus sign counts as a digit.\<close>

fun group3 :: "nat \<Rightarrow> string \<Rightarrow> string" where
  "group3 g [] = []"
| "group3 g (c # s) = (if g = 3 then CHR '','' # c # group3 1 s else c # group3 (g + 1) s)"

definition format_int_commas :: "int \<Rightarrow> string" where
  "format_int_commas n = rev (group3 0 (rev (int_dec n)))"

definition format_ll_commas :: "int \<Rightarrow> string" where
  "format_ll_commas n = rev (group3 0 (rev (int_dec n)))"

definition title_percent :: "int \<Rightarrow> int \<Rightarrow> string" where
  "title_percent cr whole =
     (if 0 < whole
      then int_dec (double_to_int (fl (fl (fl (fl (of_int cr) * 100) / fl (of_int whole)) + 1 / 2))) @ ''%''
      else [CHR 0xE2, CHR 0x80, CHR 0x94])"

definition title_text :: "json_val \<Rightarrow> string option \<Rightarrow> bool \<Rightarrow> string" where
  "title_text v model idle =
     (let cr = json_get_ll v ''total_cache_read_tokens'';
          total_i = s64 (json_get_ll v ''total_input_tokens'' + cr);
          num = (\<lambda>k. format_int_commas (json_get_int v k))
      in CHR 0x1B # '']0;'' @ (if idle then [] else [CHR 0xE2, CHR 0x8F, CHR 0xB3, CHR '' ''])
         @ opt_default ''(null)'' model @ '' T:'' @ num ''current_turn_count'' @ '' R:'' @ num ''agent_request_count''
         @ '' I:'' @ format_ll_commas total_i @ ''('' @ title_percent cr total_i @ '') O:'' @ num ''total_output_tokens''
         @ '' C:'' @ num ''current_context_tokens'' @ '' S:'' @ num ''last_call_speed_tok_per_sec'' @ ''tok/s''
         @ [CHR 0x07, CHR 0x1B] @ '']9;4;'' @ (if idle then ''0'' else ''3'') @ [CHR 0x07])"

definition agent_update_title_status ::
    "fsys \<Rightarrow> session_paths \<Rightarrow> string option \<Rightarrow> string option \<Rightarrow> int \<Rightarrow> string" where
  "agent_update_title_status fs p model status active_task_count =
     (case store_stats_read fs (sp_stats p) of
        None \<Rightarrow> []
      | Some content \<Rightarrow>
          (case json_root content of
             None \<Rightarrow> []
           | Some v \<Rightarrow> title_text v model (status = Some ''idle'' \<and> active_task_count \<le> 0)))"

section \<open>The last answer of a session\<close>

text \<open>What a sub-agent reports: the first thinking and text blocks of the last assistant line; a
  block of the wrong kind leaves them as they are.\<close>

definition answer_block :: "string option \<times> string option \<Rightarrow> json_val \<Rightarrow> string option \<times> string option" where
  "answer_block st block =
     (case st of (th, tx) \<Rightarrow>
        (case json_get_string block ''type'' of
           None \<Rightarrow> st
         | Some ty \<Rightarrow>
             if ty = ''thinking'' \<and> th = None then (json_get_string block ''thinking'', tx)
             else if ty = ''text'' \<and> tx = None then (th, json_get_string block ''text'') else st))"

fun last_answer_rev :: "string list \<Rightarrow> string option \<times> string option" where
  "last_answer_rev [] = (None, None)"
| "last_answer_rev (l # ls) =
     (case json_root l of
        None \<Rightarrow> last_answer_rev ls
      | Some v \<Rightarrow>
          if json_get_string v ''role'' = Some ''assistant''
          then (let content = json_get v ''content'' in
                if jv_type content = JSON_ARRAY
                then foldl answer_block (None, None) (map (json_array_get content) [0 .. json_array_len content - 1])
                else (None, None))
          else last_answer_rev ls)"

definition last_answer :: "string list \<Rightarrow> string option \<times> string option" where
  "last_answer lines = last_answer_rev (rev lines)"

end
