(* ===== verification/AgentTextProps.thy ===== *)
theory AgentTextProps
  imports AgentText
begin

text \<open>
  Where the replay of a session starts: the ring buffer against a reference over the whole log.
\<close>

section \<open>Where a replay starts\<close>

text \<open>The reference: the offsets of the recorded messages of the user, and the last \<open>m\<close> of them.\<close>

definition user_offsets :: "(nat \<times> string) list \<Rightarrow> nat list" where
  "user_offsets pls = map fst (filter (\<lambda>pl. str_contains (c_string (snd pl)) ''\"type\":\"user_input\"'') pls)"

definition replay_start :: "nat \<Rightarrow> nat list \<Rightarrow> nat" where
  "replay_start m us = (case drop (length us - m) us of [] \<Rightarrow> 0 | u # _ \<Rightarrow> u)"

definition ring_holds :: "nat \<Rightarrow> nat list \<times> nat \<Rightarrow> nat list \<Rightarrow> bool" where
  "ring_holds m st us \<longleftrightarrow>
     length (fst st) = m \<and> snd st = length us \<and> (\<forall>i < length us. length us \<le> i + m \<longrightarrow> fst st ! (i mod m) = us ! i)"

lemma ring_add:
  assumes "0 < m" "ring_holds m (offs, seen) us"
  shows "ring_holds m (offs[seen mod m := x], seen + 1) (us @ [x])"
proof -
  have "offs[seen mod m := x] ! (i mod m) = (us @ [x]) ! i" if i: "i < length us + 1" "length us + 1 \<le> i + m" for i
  proof (cases "i = length us")
    case True
    then show ?thesis using assms by (simp add: ring_holds_def nth_append)
  next
    case False
    have "i mod m \<noteq> seen mod m"
    proof
      assume "i mod m = seen mod m"
      then have "m dvd seen - i" using mod_eq_dvd_iff_nat [of i seen m] i False assms(2) by (simp add: ring_holds_def eq_commute)
      then have "m \<le> seen - i" using i False assms(2) by (intro dvd_imp_le) (auto simp: ring_holds_def)
      then show False using i False assms(2) by (simp add: ring_holds_def)
    qed
    then show ?thesis using i False assms(2) by (simp add: ring_holds_def nth_append)
  qed
  then show ?thesis using assms(2) by (simp add: ring_holds_def)
qed

lemma ring_fold: "0 < m \<Longrightarrow> ring_holds m st us \<Longrightarrow> ring_holds m (foldl (turn_ring m) st pls) (us @ user_offsets pls)"
proof (induction pls arbitrary: st us)
  case (Cons pl pls)
  obtain offs seen where st: "st = (offs, seen)" by (cases st)
  show ?case
  proof (cases "str_contains (c_string (snd pl)) ''\"type\":\"user_input\"''")
    case True
    then have "turn_ring m st pl = (offs[seen mod m := fst pl], seen + 1)" by (simp add: turn_ring_def st)
    then have "ring_holds m (turn_ring m st pl) (us @ [fst pl])" using ring_add Cons.prems st by metis
    from Cons.IH [OF Cons.prems(1) this] show ?thesis using True by (simp add: user_offsets_def)
  next
    case False
    then have "turn_ring m st pl = st" by (simp add: turn_ring_def st)
    then show ?thesis using Cons False by (simp add: user_offsets_def)
  qed
qed (simp add: user_offsets_def)

text \<open>
  A replay starts at the right turn. The ring buffer that is filled while the event log is read
  once gives the offset of the message that begins the last \<open>max_turns\<close> turns (ten when that is not
  positive), the first message when there are fewer, and the start of the file when there is none.
\<close>

lemma replay_starts_at_turn:
  "find_recent_turn_start_offset fs p max_turns =
     (case fs_get fs (sp_events p) of
        None \<Rightarrow> - 1
      | Some b \<Rightarrow> int (replay_start (nat (if max_turns \<le> 0 then 10 else max_turns)) (user_offsets (file_lines b))))"
proof (cases "fs_get fs (sp_events p)")
  case (Some b)
  define m us where "m = nat (if max_turns \<le> 0 then 10 else max_turns)" and "us = user_offsets (file_lines b)"
  have m: "0 < m" by (simp add: m_def)
  obtain offs seen where f: "foldl (turn_ring m) (replicate m 0, 0) (file_lines b) = (offs, seen)"
    by (cases "foldl (turn_ring m) (replicate m 0, 0) (file_lines b)")
  have "ring_holds m (replicate m 0, 0) []" by (simp add: ring_holds_def)
  from ring_fold [OF m this, of "file_lines b"] have r: "ring_holds m (offs, seen) us" by (simp add: f us_def)
  have "(if seen = 0 then 0 else int (if m \<le> seen then offs ! (seen mod m) else offs ! 0)) = int (replay_start m us)"
  proof (cases "us = []")
    case True
    then show ?thesis using r by (simp add: ring_holds_def replay_start_def)
  next
    case False
    then have h: "replay_start m us = us ! (length us - m)" using m
      by (simp add: replay_start_def Cons_nth_drop_Suc [symmetric])
    have "offs ! ((length us - m) mod m) = us ! (length us - m)" using r False m by (simp add: ring_holds_def)
    then show ?thesis using r False h by (cases "m \<le> length us") (simp_all add: ring_holds_def le_mod_geq)
  qed
  then show ?thesis using Some f
    by (simp add: find_recent_turn_start_offset_def Let_def m_def [symmetric] us_def [symmetric] del: foldl_Cons)
qed (simp add: find_recent_turn_start_offset_def)

text \<open>A minus sign is grouped as a digit.\<close>

lemma commas_after_minus: "format_int_commas (- 123) = ''-,123''"
  by code_simp

end
