(* ===== verification/Compact.thy ===== *)
theory Compact
  imports CDouble Store
begin

text \<open>
  When and where the conversation is cut (c/agent.c): the cost model that weighs what dropping the
  oldest lines saves against what a summary costs.  Every operation on C doubles is rounded by
  \<open>fl\<close>; token counts are C integers that stay small (a conversation below 8 GB).
\<close>

section \<open>Configuration\<close>

record dp_config =
  dp_baseline_e :: int
  dp_e_fixed :: int
  dp_L_fixed :: rat
  dp_V :: rat
  dp_p_input :: rat
  dp_p_cache :: rat
  dp_p_out :: rat
  dp_S :: rat
  dp_min_keep_ratio :: rat
  dp_r :: rat
  dp_beta :: rat
  dp_quality_penalty :: rat
  dp_max_context :: int

text \<open>\<open>strtod\<close> on the whole text of a decimal number; hexadecimal numbers, infinities and NaN are not
  modelled.\<close>

definition strtod_all :: "string \<Rightarrow> rat option" where
  "strtod_all v =
     (let t = dropWhile isspace v;
          u = (if t \<noteq> [] \<and> (hd t = CHR ''-'' \<or> hd t = CHR ''+'') then tl t else t);
          ip = takeWhile isdigit u; r = dropWhile isdigit u;
          fp = (if starts (CHR ''.'') r then takeWhile isdigit (tl r) else []);
          r2 = (if starts (CHR ''.'') r then dropWhile isdigit (tl r) else r);
          e = (if starts (CHR ''e'') r2 \<or> starts (CHR ''E'') r2 then
                 (let x = tl r2; y = (if starts (CHR ''-'') x \<or> starts (CHR ''+'') x then tl x else x)
                  in if y \<noteq> [] \<and> isdigit (hd y) then dropWhile isdigit y else r2)
               else r2)
      in if ip @ fp = [] \<or> e \<noteq> [] then None else Some (strtod t))"

definition dp_env_d :: "(string \<Rightarrow> string option) \<Rightarrow> string \<Rightarrow> rat \<Rightarrow> rat" where
  "dp_env_d env name def =
     (case env name of
        None \<Rightarrow> def
      | Some v \<Rightarrow> if v = [] then def else opt_default def (strtod_all v))"

definition atoi :: "string \<Rightarrow> int" where
  "atoi v = (case strtol10 v of None \<Rightarrow> 0 | Some (n, r) \<Rightarrow> s32 n)"

definition dp_env_i :: "(string \<Rightarrow> string option) \<Rightarrow> string \<Rightarrow> int \<Rightarrow> int" where
  "dp_env_i env name def = (case env name of None \<Rightarrow> def | Some v \<Rightarrow> if v = [] then def else atoi v)"

definition dp_config_init :: "(string \<Rightarrow> string option) \<Rightarrow> int \<Rightarrow> dp_config" where
  "dp_config_init env max_context_tokens =
     \<lparr>dp_baseline_e = dp_env_i env ''DP_BASELINE_E'' 8,
      dp_e_fixed = dp_env_i env ''DP_E_FIXED'' 0,
      dp_L_fixed = dp_env_d env ''DP_L'' 0,
      dp_V = dp_env_d env ''DP_V'' 5000,
      dp_p_input = dp_env_d env ''DP_P_INPUT'' 3,
      dp_p_cache = dp_env_d env ''DP_P_CACHE'' (fl (30 / 100)),
      dp_p_out = dp_env_d env ''DP_P_OUT'' 15,
      dp_S = dp_env_d env ''DP_S'' 500,
      dp_min_keep_ratio = dp_env_d env ''DP_MIN_KEEP_RATIO'' (1 / 4),
      dp_r = dp_env_d env ''DP_R'' (fl (8 / 10)),
      dp_beta = dp_env_d env ''DP_BETA'' (fl (3 / 100)),
      dp_quality_penalty = dp_env_d env ''DP_QUALITY_PENALTY'' (fl (2 / 10)),
      dp_max_context = (if 0 < max_context_tokens then max_context_tokens else 200000)\<rparr>"

section \<open>Lines\<close>

text \<open>A user message that is not a list of tool results; a line that does not parse is searched for text.\<close>

definition compact_is_real_user_line :: "string \<Rightarrow> bool" where
  "compact_is_real_user_line line =
     (case json_root line of
        Some v \<Rightarrow> json_get_string v ''role'' = Some ''user'' \<and> json_get_string v ''content'' \<noteq> None
      | None \<Rightarrow> str_contains line ''\"role\":\"user\"'' \<and> \<not> str_contains line ''\"content\":['')"

definition line_tokens :: "string \<Rightarrow> int" where
  "line_tokens line = int ((length line + 3) div 4) + 1"

section \<open>The decision\<close>

definition dp_rounds :: "dp_config \<Rightarrow> int \<Rightarrow> rat" where
  "dp_rounds cfg turn_count =
     (if 0 < dp_e_fixed cfg then of_int (dp_e_fixed cfg)
      else if 0 < dp_baseline_e cfg then
        (let remaining = dp_baseline_e cfg - turn_count;
             floor_val = (if 1 < dp_baseline_e cfg then dp_baseline_e cfg div 2 else 2)
         in of_int (if floor_val < remaining then remaining else floor_val))
      else 2)"

definition dp_calls :: "dp_config \<Rightarrow> int \<Rightarrow> int \<Rightarrow> rat" where
  "dp_calls cfg turn_count total_requests =
     (let L = (if 0 < dp_L_fixed cfg then dp_L_fixed cfg
               else if 0 < turn_count \<and> 0 < total_requests then fl (of_int total_requests / of_int turn_count)
               else 5)
      in if L < 1 then 1 else L)"

definition dp_average :: "int \<Rightarrow> int \<Rightarrow> rat" where
  "dp_average total_requests total_input =
     (if 0 < total_requests \<and> 0 < total_input then fl (of_int total_input / of_int total_requests) else 4000)"

definition dp_retention :: "dp_config \<Rightarrow> int \<Rightarrow> rat" where
  "dp_retention cfg c =
     (let r_t = ((\<lambda>x. fl (x * dp_r cfg)) ^^ nat (c + 1)) 1 in if r_t < fl (37 / 100) then fl (37 / 100) else r_t)"

definition dp_info_loss :: "dp_config \<Rightarrow> rat \<Rightarrow> rat \<Rightarrow> rat" where
  "dp_info_loss cfg r_t n_remain =
     fl (fl (fl (fl (dp_beta cfg * fl (1 - r_t)) * n_remain) * dp_p_input cfg) / 1000000)"

definition dp_min_keep :: "dp_config \<Rightarrow> int \<Rightarrow> int" where
  "dp_min_keep cfg n =
     (let m = double_to_int (fl (fl (of_int n * dp_min_keep_ratio cfg) + 1 / 2));
          m' = (if m < 3 then 3 else m)
      in if n < m' then n else m')"

definition dp_max_keep :: "dp_config \<Rightarrow> int \<Rightarrow> int" where
  "dp_max_keep cfg n =
     (let m = double_to_int (fl (fl (of_int n * fl (1 - dp_min_keep_ratio cfg)) + 1 / 2));
          m' = (if n < m then n else m)
      in if m' < dp_min_keep cfg n then n else m')"

definition dp_h_min :: "dp_config \<Rightarrow> int" where
  "dp_h_min cfg = double_to_int (fl (20 * dp_S cfg))"

text \<open>What keeping lines of \<open>K\<close> tokens and dropping \<open>H\<close> is worth.\<close>

definition dp_benefit :: "dp_config \<Rightarrow> rat \<Rightarrow> rat \<Rightarrow> int \<Rightarrow> int \<Rightarrow> rat" where
  "dp_benefit cfg R info_loss total_tokens K =
     (let H = total_tokens - K;
          savings = fl (fl (fl (fl (R - 1) * dp_p_cache cfg) * of_int H) / 1000000);
          cache_miss = fl (fl (fl (dp_S cfg + of_int K) * fl (dp_p_input cfg - dp_p_cache cfg)) / 1000000);
          compact_cost = fl (fl (fl (fl (dp_p_cache cfg * dp_V cfg) + fl (dp_p_input cfg * fl (of_int H + 70)))
                                 + fl (dp_p_out cfg * dp_S cfg)) / 1000000);
          quality =
            (if fl (of_int (dp_max_context cfg) * fl (30 / 100)) < of_int total_tokens then
               (let vt = fl (dp_V cfg + of_int total_tokens); vk = fl (dp_V cfg + of_int K)
                in fl (fl (fl (dp_quality_penalty cfg * dp_p_input cfg) * fl (fl (vt * vt) - fl (vk * vk)))
                       / fl (of_int (dp_max_context cfg) * 1000000)))
             else 0)
      in fl (fl (fl (fl (savings - cache_miss) - compact_cost) - info_loss) + quality))"

definition tail_tokens :: "int list \<Rightarrow> int \<Rightarrow> int" where
  "tail_tokens sizes k = sum_list (drop (length sizes - nat k) sizes)"

definition dp_step :: "dp_config \<Rightarrow> rat \<Rightarrow> rat \<Rightarrow> int list \<Rightarrow> int \<times> rat \<Rightarrow> int \<Rightarrow> int \<times> rat" where
  "dp_step cfg R info_loss sizes best k =
     (let total_tokens = sum_list sizes; K = tail_tokens sizes k in
      if total_tokens - K \<le> 0 then best
      else let benefit = dp_benefit cfg R info_loss total_tokens K
           in if snd best < benefit then (k, benefit) else best)"

text \<open>The loop that moves a cut back to the start of a turn.\<close>

fun align_cut :: "(nat \<Rightarrow> bool) \<Rightarrow> nat \<Rightarrow> nat" where
  "align_cut is_user 0 = 0"
| "align_cut is_user (Suc c) = (if is_user (Suc c) then Suc c else align_cut is_user c)"

definition dp_search :: "dp_config \<Rightarrow> rat \<Rightarrow> rat \<Rightarrow> int list \<Rightarrow> int \<Rightarrow> int \<Rightarrow> int \<times> rat" where
  "dp_search cfg R info_loss sizes lo hi =
     foldl (dp_step cfg R info_loss sizes) (0, - (10 ^ 18)) [lo .. hi]"

definition dp_align :: "dp_config \<Rightarrow> string list \<Rightarrow> int list \<Rightarrow> int \<Rightarrow> int \<Rightarrow> int" where
  "dp_align cfg lines sizes max_keep best_k =
     (let n = int (length lines);
          cut = int (align_cut (\<lambda>i. compact_is_real_user_line (lines ! i)) (nat (n - best_k)));
          adj = (if n - cut < 1 then 1 else n - cut)
      in if max_keep < adj \<or> sum_list sizes - tail_tokens sizes adj < dp_h_min cfg then 0 else adj)"

definition compact_dp_decision :: "string list \<Rightarrow> dp_config \<Rightarrow> int \<Rightarrow> int \<Rightarrow> int \<Rightarrow> int \<Rightarrow> int" where
  "compact_dp_decision lines cfg turn_count total_requests total_compact total_input =
     (if lines = [] then 0
      else
        let n = int (length lines); sizes = map line_tokens lines;
            R = fl (dp_rounds cfg turn_count * dp_calls cfg turn_count total_requests);
            n_remain = fl (R * dp_average total_requests total_input);
            info_loss = dp_info_loss cfg (dp_retention cfg total_compact) n_remain;
            max_keep = dp_max_keep cfg n;
            (best_k, best_benefit) = dp_search cfg R info_loss sizes (dp_min_keep cfg n) max_keep
        in if 0 < best_benefit then dp_align cfg lines sizes max_keep best_k else 0)"

definition user_indices :: "string list \<Rightarrow> nat list" where
  "user_indices lines = filter (\<lambda>i. compact_is_real_user_line (lines ! i)) [0..<length lines]"

definition turn_start :: "int \<Rightarrow> rat \<Rightarrow> int" where
  "turn_start user_count ratio =
     (let k = double_to_int (fl (fl (of_int user_count * ratio) + 1 / 2));
          keep_turns = (if k < 1 then 1 else k)
      in if user_count - keep_turns < 0 then 0 else user_count - keep_turns)"

definition compact_turn_keep :: "string list \<Rightarrow> rat \<Rightarrow> int" where
  "compact_turn_keep lines ratio =
     (let user_idx = user_indices lines in
      if user_idx = [] then 0
      else int (length lines) - int (user_idx ! nat (turn_start (int (length user_idx)) ratio)))"

section \<open>Facts about the decision\<close>

lemma align_cut_le: "align_cut P c \<le> c"
  by (induction c) (simp_all add: le_SucI)

lemma align_cut_user: "0 < align_cut P c \<Longrightarrow> P (align_cut P c)"
  by (induction c) (auto split: if_splits)

lemma align_cut_last: "align_cut P c < i \<Longrightarrow> i \<le> c \<Longrightarrow> \<not> P i"
  by (induction c) (auto split: if_splits simp: le_Suc_eq)

lemma dp_keep_bounds:
  assumes "0 < n"
  shows "1 \<le> dp_min_keep cfg n" "dp_min_keep cfg n \<le> dp_max_keep cfg n" "dp_max_keep cfg n \<le> n"
proof -
  define m where "m = double_to_int (fl (fl (of_int n * dp_min_keep_ratio cfg) + 1 / 2))"
  define q where "q = double_to_int (fl (fl (of_int n * fl (1 - dp_min_keep_ratio cfg)) + 1 / 2))"
  have lo: "dp_min_keep cfg n = (if n < (if m < 3 then 3 else m) then n else if m < 3 then 3 else m)"
    by (simp only: dp_min_keep_def Let_def m_def)
  have hi: "dp_max_keep cfg n = (if (if n < q then n else q) < dp_min_keep cfg n then n else if n < q then n else q)"
    by (simp only: dp_max_keep_def Let_def q_def)
  show "1 \<le> dp_min_keep cfg n" unfolding lo using assms by simp
  have "dp_min_keep cfg n \<le> n" unfolding lo by simp
  then show "dp_min_keep cfg n \<le> dp_max_keep cfg n" "dp_max_keep cfg n \<le> n" unfolding hi by simp_all
qed

lemma dp_step_cases:
  obtains "dp_step cfg R il sizes b k = b"
  | x where "dp_step cfg R il sizes b k = (k, x)" "tail_tokens sizes k < sum_list sizes"
proof (cases "sum_list sizes - tail_tokens sizes k \<le> 0 \<or>
    \<not> snd b < dp_benefit cfg R il (sum_list sizes) (tail_tokens sizes k)")
  case True
  then show ?thesis using that(1) unfolding dp_step_def Let_def by auto
next
  case False
  then show ?thesis using that(2) unfolding dp_step_def Let_def by auto
qed

lemma dp_fold_range:
  "foldl (dp_step cfg R il sizes) b ks = b
   \<or> (fst (foldl (dp_step cfg R il sizes) b ks) \<in> set ks
      \<and> tail_tokens sizes (fst (foldl (dp_step cfg R il sizes) b ks)) < sum_list sizes)"
proof (induction ks arbitrary: b)
  case (Cons k ks)
  show ?case
  proof (cases rule: dp_step_cases [of cfg R il sizes b k])
    case 1
    then show ?thesis using Cons [of b] by auto
  next
    case (2 x)
    then show ?thesis using Cons [of "(k, x)"] by auto
  qed
qed simp

lemma tail_tokens_drop: "0 \<le> k \<Longrightarrow> k \<le> int (length sizes) \<Longrightarrow>
    sum_list sizes - tail_tokens sizes k = sum_list (take (length sizes - nat k) sizes)"
proof -
  have "sum_list sizes = sum_list (take (length sizes - nat k) sizes) + sum_list (drop (length sizes - nat k) sizes)"
    by (metis append_take_drop_id sum_list.append)
  then show ?thesis by (simp add: tail_tokens_def)
qed

text \<open>The number of lines kept is in range, the first of them starts a turn, and what is dropped is worth a
  summary.\<close>

lemma dp_decision_sound:
  assumes "compact_dp_decision lines cfg tc rq cc ti = k" "k \<noteq> 0"
  shows "1 \<le> k" "k \<le> int (length lines)" "k \<le> dp_max_keep cfg (int (length lines))"
    "k < int (length lines) \<Longrightarrow> compact_is_real_user_line (lines ! nat (int (length lines) - k))"
    "dp_h_min cfg \<le> sum_list (map line_tokens (take (nat (int (length lines) - k)) lines))"
proof -
  define n sizes mk where "n = int (length lines)" and "sizes = map line_tokens lines" and "mk = dp_max_keep cfg n"
  have ne: "lines \<noteq> []" using assms by (auto simp: compact_dp_decision_def)
  then have n0: "0 < n" by (simp add: n_def)
  note b = dp_keep_bounds [OF n0, of cfg]
  define R where "R = fl (dp_rounds cfg tc * dp_calls cfg tc rq)"
  define il where "il = dp_info_loss cfg (dp_retention cfg cc) (fl (R * dp_average rq ti))"
  have d: "compact_dp_decision lines cfg tc rq cc ti =
      (case dp_search cfg R il sizes (dp_min_keep cfg n) mk of (bk, bb) \<Rightarrow> if 0 < bb then dp_align cfg lines sizes mk bk else 0)"
    unfolding compact_dp_decision_def n_def sizes_def mk_def R_def il_def Let_def using ne by simp
  obtain bk bb where s: "dp_search cfg R il sizes (dp_min_keep cfg n) mk = (bk, bb)"
    by (cases "dp_search cfg R il sizes (dp_min_keep cfg n) mk")
  have pos: "0 < bb" and k: "dp_align cfg lines sizes mk bk = k" using d s assms by (auto split: if_splits)
  have "(bk, bb) \<noteq> (0, - (10 ^ 18))" using pos by auto
  then have bk: "bk \<in> set [dp_min_keep cfg n .. mk]"
    using dp_fold_range [of cfg R il sizes "(0, - (10 ^ 18))" "[dp_min_keep cfg n .. mk]"] s
    by (auto simp: dp_search_def)
  then have bkr: "1 \<le> bk" "bk \<le> n" using b by (auto simp: mk_def)
  define cut where "cut = align_cut (\<lambda>i. compact_is_real_user_line (lines ! i)) (nat (n - bk))"
  have cut: "int cut \<le> n - bk" using align_cut_le [of _ "nat (n - bk)"] bkr unfolding cut_def by (simp add: le_nat_iff)
  then have adj: "\<not> n - int cut < 1" using bkr by linarith
  have "k = n - int cut" "k \<le> mk" "dp_h_min cfg \<le> sum_list sizes - tail_tokens sizes k"
    using k assms(2) adj unfolding dp_align_def Let_def n_def [symmetric] cut_def [symmetric] by (auto split: if_splits)
  note kk = this
  show "1 \<le> k" "k \<le> int (length lines)" "k \<le> dp_max_keep cfg (int (length lines))"
    using kk cut bkr by (auto simp: n_def mk_def)
  show "compact_is_real_user_line (lines ! nat (int (length lines) - k))" if "k < int (length lines)"
  proof -
    have "0 < cut" using that kk by (simp add: n_def)
    then show ?thesis using align_cut_user [of "\<lambda>i. compact_is_real_user_line (lines ! i)" "nat (n - bk)"] kk
      unfolding cut_def [symmetric] by (simp add: n_def)
  qed
  have "sum_list sizes - tail_tokens sizes k = sum_list (take (length sizes - nat k) sizes)"
    using kk cut bkr by (intro tail_tokens_drop) (auto simp: n_def sizes_def)
  moreover have "length sizes - nat k = nat (int (length lines) - k)" using kk cut bkr by (simp add: sizes_def n_def nat_diff_distrib')
  ultimately show "dp_h_min cfg \<le> sum_list (map line_tokens (take (nat (int (length lines) - k)) lines))"
    using kk(3) by (simp add: sizes_def take_map)
qed

lemma turn_start_range: "0 < c \<Longrightarrow> 0 \<le> turn_start c ratio \<and> turn_start c ratio < c"
  by (simp add: turn_start_def Let_def)

lemma turn_keep_cut:
  assumes "user_indices lines \<noteq> []"
  obtains i where "compact_turn_keep lines ratio = int (length lines) - int i" "i < length lines"
    "compact_is_real_user_line (lines ! i)"
proof -
  let ?u = "user_indices lines"
  let ?st = "turn_start (int (length ?u)) ratio"
  have "0 < int (length ?u)" using assms by simp
  then have "0 \<le> ?st \<and> ?st < int (length ?u)" by (rule turn_start_range)
  then have "?u ! nat ?st \<in> set ?u" by (intro nth_mem) linarith
  then have "?u ! nat ?st < length lines" "compact_is_real_user_line (lines ! (?u ! nat ?st))"
    by (auto simp: user_indices_def)
  moreover have "compact_turn_keep lines ratio = int (length lines) - int (?u ! nat ?st)"
    using assms by (simp add: compact_turn_keep_def Let_def)
  ultimately show ?thesis using that by blast
qed

lemma turn_keep_sound:
  assumes "compact_turn_keep lines ratio = k" "k \<noteq> 0"
  shows "1 \<le> k" "k \<le> int (length lines)" "compact_is_real_user_line (lines ! nat (int (length lines) - k))"
proof -
  have "user_indices lines \<noteq> []" using assms by (auto simp: compact_turn_keep_def)
  then obtain i where "k = int (length lines) - int i" "i < length lines" "compact_is_real_user_line (lines ! i)"
    using turn_keep_cut [of lines ratio] assms(1) by metis
  then show "1 \<le> k" "k \<le> int (length lines)" "compact_is_real_user_line (lines ! nat (int (length lines) - k))"
    by auto
qed

lemma no_user_indices: "user_indices lines = [] \<longleftrightarrow> (\<forall>l \<in> set lines. \<not> compact_is_real_user_line l)"
  by (auto simp: user_indices_def filter_empty_conv all_set_conv_all_nth)

lemma turn_keep_zero: "compact_turn_keep lines ratio = 0 \<longleftrightarrow> (\<forall>l \<in> set lines. \<not> compact_is_real_user_line l)"
proof (cases "user_indices lines = []")
  case True
  then show ?thesis unfolding no_user_indices [symmetric] by (simp add: compact_turn_keep_def)
next
  case False
  then obtain i where "compact_turn_keep lines ratio = int (length lines) - int i" "i < length lines"
    using turn_keep_cut by metis
  then show ?thesis using False unfolding no_user_indices [symmetric] by simp
qed

section \<open>The search is exhaustive\<close>

definition feasible :: "int list \<Rightarrow> int \<Rightarrow> bool" where
  "feasible sizes k \<longleftrightarrow> tail_tokens sizes k < sum_list sizes"

definition benefit_of :: "dp_config \<Rightarrow> rat \<Rightarrow> rat \<Rightarrow> int list \<Rightarrow> int \<Rightarrow> rat" where
  "benefit_of cfg R il sizes k = dp_benefit cfg R il (sum_list sizes) (tail_tokens sizes k)"

lemma dp_step_best: "dp_step cfg R il sizes b k =
    (if feasible sizes k \<and> snd b < benefit_of cfg R il sizes k then (k, benefit_of cfg R il sizes k) else b)"
  by (simp add: dp_step_def feasible_def benefit_of_def Let_def)

lemma dp_fold_best:
  "snd b \<le> snd (foldl (dp_step cfg R il sizes) b ks)
   \<and> (\<forall>k \<in> set ks. feasible sizes k \<longrightarrow> benefit_of cfg R il sizes k \<le> snd (foldl (dp_step cfg R il sizes) b ks))
   \<and> (foldl (dp_step cfg R il sizes) b ks = b
      \<or> (\<exists>k \<in> set ks. feasible sizes k \<and> foldl (dp_step cfg R il sizes) b ks = (k, benefit_of cfg R il sizes k)))"
proof (induction ks arbitrary: b)
  case (Cons k ks)
  let ?b = "dp_step cfg R il sizes b k"
  have m: "snd b \<le> snd ?b" "feasible sizes k \<Longrightarrow> benefit_of cfg R il sizes k \<le> snd ?b"
    "?b = b \<or> feasible sizes k \<and> ?b = (k, benefit_of cfg R il sizes k)"
    by (auto simp: dp_step_best)
  show ?case using Cons [of ?b] m by (auto intro: order_trans)
qed simp

text \<open>
  C38: The number of lines to keep is the best one. Of all the numbers in the allowed range that would
  summarise something, none has a greater benefit than the one the search returns, and what is
  returned is such a number with its benefit, unless no number beats the starting value.
\<close>

theorem dp_search_optimal:
  assumes "dp_search cfg R il sizes lo hi = (k, b)"
  shows "(\<forall>j. lo \<le> j \<and> j \<le> hi \<and> feasible sizes j \<longrightarrow> benefit_of cfg R il sizes j \<le> b)
    \<and> (k = 0 \<and> b = - (10 ^ 18) \<or> lo \<le> k \<and> k \<le> hi \<and> feasible sizes k \<and> b = benefit_of cfg R il sizes k)"
  using dp_fold_best [of "(0, - (10 ^ 18))" cfg R il sizes "[lo .. hi]"] assms
  unfolding dp_search_def by auto

definition plain_cfg :: dp_config where
  "plain_cfg = \<lparr>dp_baseline_e = 8, dp_e_fixed = 0, dp_L_fixed = 0, dp_V = 0, dp_p_input = 1, dp_p_cache = 1, dp_p_out = 1,
     dp_S = 1, dp_min_keep_ratio = 1, dp_r = 1, dp_beta = 1, dp_quality_penalty = 1, dp_max_context = 100\<rparr>"

lemma dp_search_optimal_witness:
  "\<exists>k b. dp_search plain_cfg 30 0 [5000, 3000, 10] 1 2 = (k, b)
     \<and> benefit_of plain_cfg 30 0 [5000, 3000, 10] 1 \<le> b \<and> benefit_of plain_cfg 30 0 [5000, 3000, 10] 2 \<le> b"
proof -
  obtain k b where s: "dp_search plain_cfg 30 0 [5000, 3000, 10] 1 2 = (k, b)"
    by (cases "dp_search plain_cfg 30 0 [5000, 3000, 10] 1 2")
  have "feasible [5000, 3000, 10] 1" "feasible [5000, 3000, 10] 2"
    by (simp_all add: feasible_def tail_tokens_def)
  with dp_search_optimal [OF s] s show ?thesis by auto
qed

end
