(* ===== verification/Convert.thy ===== *)
theory Convert
  imports Request Sse
begin

text \<open>
  Converting a Claude request body to the OpenAI chat and responses formats (c/transport.c).  A
  function that appends to a \<open>StrBuf\<close> returns what it appends; a counter of written elements is kept
  where the code keeps one.
\<close>

definition sb_append_json_val :: "json_val \<Rightarrow> string" where
  "sb_append_json_val v = (if jv_type v = JSON_NULL then ''null'' else json_raw v)"

definition qstr :: "string option \<Rightarrow> string" where
  "qstr m = json_quote (opt_default [] m)"

section \<open>OpenAI chat\<close>

text \<open>\<open>input_schema\<close>, or \<open>parameters\<close> when there is none.\<close>

definition schema_text :: "json_val \<Rightarrow> string" where
  "schema_text td =
     (let s = json_get td ''input_schema'';
          params = (if jv_type s = JSON_NULL then json_get td ''parameters'' else s)
      in if jv_type params = JSON_NULL then ''{}'' else sb_append_json_val params)"

definition openai_function :: "json_val \<Rightarrow> string" where
  "openai_function td =
     (if json_get_string td ''type'' = Some ''function'' then sb_append_json_val td
      else ''{\"type\":\"function\",\"function\":{\"name\":'' @ qstr (json_get_string td ''name'')
        @ '',\"description\":'' @ qstr (json_get_string td ''description'')
        @ '',\"parameters\":'' @ schema_text td @ ''}}'')"

definition openai_convert_tools :: "json_val \<Rightarrow> string" where
  "openai_convert_tools tools_val =
     (if jv_type tools_val \<noteq> JSON_ARRAY then ''[]''
      else CHR ''['' # commas (map openai_function (json_elems tools_val)) @ '']'')"

text \<open>The input of a tool call as a JSON string.\<close>

definition arguments_text :: "json_val \<Rightarrow> string" where
  "arguments_text block =
     (let input = json_get block ''input'' in
      json_quote (if jv_type input = JSON_NULL then ''{}'' else sb_append_json_val input))"

definition openai_call :: "json_val \<Rightarrow> string" where
  "openai_call block =
     ''{\"id\":'' @ qstr (json_get_string block ''id'')
     @ '',\"type\":\"function\",\"function\":{\"name\":'' @ qstr (json_get_string block ''name'')
     @ '',\"arguments\":'' @ arguments_text block @ ''}}''"

text \<open>Text, reasoning and calls of the blocks.\<close>

definition assistant_block :: "string \<times> string \<times> string \<Rightarrow> json_val \<Rightarrow> string \<times> string \<times> string" where
  "assistant_block st block =
     (case st of (txt, reasoning, calls) \<Rightarrow>
        let ty = json_get_string block ''type'' in
        if ty = Some ''thinking'' then (txt, reasoning @ opt_default [] (json_get_string block ''thinking''), calls)
        else if ty = Some ''text'' then (txt @ opt_default [] (json_get_string block ''text''), reasoning, calls)
        else if ty = Some ''tool_use'' then (txt, reasoning, sep_append calls (openai_call block))
        else st)"

definition openai_convert_assistant_message :: "json_val \<Rightarrow> string" where
  "openai_convert_assistant_message content =
     (case foldl assistant_block ([], [], []) (json_elems content) of (txt, reasoning, calls) \<Rightarrow>
        ''{\"role\":\"assistant\",\"reasoning_content\":'' @ json_quote reasoning
        @ '',\"content\":'' @ json_quote txt
        @ (if calls \<noteq> [] then '',\"tool_calls\":['' @ calls @ '']'' else []) @ ''}'')"

definition openai_result :: "json_val \<Rightarrow> string" where
  "openai_result block =
     ''{\"role\":\"tool\",\"tool_call_id\":'' @ qstr (json_get_string block ''tool_use_id'')
     @ '',\"content\":'' @ qstr (json_get_string block ''content'') @ ''}''"

text \<open>What is written and how many.\<close>

definition openai_convert_tool_results :: "json_val \<Rightarrow> string \<times> nat" where
  "openai_convert_tool_results content =
     (let rs = filter (\<lambda>b. json_get_string b ''type'' = Some ''tool_result'') (json_elems content)
      in (commas (map openai_result rs), length rs))"

definition openai_content_has_image :: "json_val \<Rightarrow> bool" where
  "openai_content_has_image content \<longleftrightarrow>
     list_ex (\<lambda>b. json_get_string b ''type'' = Some ''image'') (json_elems content)"

text \<open>The media type and the data of an image block that can be sent.\<close>

definition image_source :: "json_val \<Rightarrow> (string \<times> string) option" where
  "image_source block =
     (let source = json_get block ''source'' in
      if jv_type source = JSON_OBJECT then
        (case (json_get_string source ''media_type'', json_get_string source ''data'') of
           (Some media, Some d) \<Rightarrow> if d \<noteq> [] then Some (media, d) else None
         | _ \<Rightarrow> None)
      else None)"

definition openai_user_block :: "json_val \<Rightarrow> string list" where
  "openai_user_block block =
     (if json_get_string block ''type'' = Some ''image'' then
        (case image_source block of
           None \<Rightarrow> []
         | Some (media, d) \<Rightarrow>
             [''{\"type\":\"image_url\",\"image_url\":{\"url\":\"data:'' @ media @ '';base64,'' @ d @ ''\"}}''])
      else [sb_append_json_val block])"

definition openai_convert_user_content :: "json_val \<Rightarrow> string" where
  "openai_convert_user_content content =
     CHR ''['' # commas (concat (map openai_user_block (json_elems content))) @ '']''"

text \<open>One message: the output so far and the number of messages written.  Tool results are appended
  without a comma before the first of them.\<close>

definition openai_message :: "string \<times> nat \<Rightarrow> json_val \<Rightarrow> string \<times> nat" where
  "openai_message st msg =
     (case st of (out, wrote) \<Rightarrow>
        let role = json_get_string msg ''role''; content = json_get msg ''content'';
            comma = (if 0 < wrote then '','' else [])
        in if role = Some ''assistant'' \<and> jv_type content = JSON_ARRAY then
             (out @ comma @ openai_convert_assistant_message content, wrote + 1)
           else if role = Some ''user'' \<and> jv_type content = JSON_ARRAY then
             if openai_content_has_image content then
               (out @ comma @ user_line (openai_convert_user_content content), wrote + 1)
             else
               (case openai_convert_tool_results content of (rs, n) \<Rightarrow>
                  if 0 < n then (out @ rs, wrote + n)
                  else (out @ rs @ comma @ sb_append_json_val msg, wrote + 1))
           else (out @ comma @ sb_append_json_val msg, wrote + 1))"

definition openai_convert_messages :: "json_val \<Rightarrow> string" where
  "openai_convert_messages messages =
     CHR ''['' # fst (foldl openai_message ([], 0) (json_elems messages)) @ '']''"

text \<open>The messages with the system prompt put before them.\<close>

definition with_system :: "json_val \<Rightarrow> string \<Rightarrow> string" where
  "with_system system_val messages =
     (case (if jv_type system_val \<noteq> JSON_NULL then json_as_string system_val else None) of
        None \<Rightarrow> messages
      | Some sys \<Rightarrow>
          if sys = [] then messages
          else ''[{\"role\":\"system\",\"content\":'' @ json_quote sys @ ''}''
            @ (if 2 < length messages then CHR '','' # take (length messages - 2) (drop 1 messages) else [])
            @ '']'')"

definition thinking_on :: "json_val \<Rightarrow> bool" where
  "thinking_on v \<longleftrightarrow> json_get_string v ''type'' \<in> {Some ''adaptive'', Some ''enabled''}"

definition effort_text :: "json_val \<Rightarrow> string" where
  "effort_text v =
     (let e = json_get_string v ''effort'' in json_quote (if nonempty_opt e then the e else ''high''))"

definition convert_to_openai :: "string \<Rightarrow> string" where
  "convert_to_openai claude_body =
     (case json_parse_root (Some claude_body) of
        JOk jr r \<Rightarrow>
          (let tools_val = json_get jr ''tools'';
               tools = (if jv_type tools_val = JSON_ARRAY \<and> 0 < json_array_len tools_val
                        then openai_convert_tools tools_val else [])
           in ''{\"model\":'' @ qstr (json_get_string jr ''model'')
              @ '',\"max_tokens\":'' @ int_dec (json_get_int jr ''max_tokens'')
              @ '',\"stream\":true,\"stream_options\":{\"include_usage\":true}''
              @ (if thinking_on (json_get jr ''thinking'')
                 then '',\"thinking\":{\"type\":\"enabled\"}'' @ '',\"reasoning_effort\":''
                      @ effort_text (json_get jr ''output_config'')
                 else [])
              @ (if tools \<noteq> [] \<and> tools \<noteq> ''[]'' then '',\"tools\":'' @ tools else [])
              @ '',\"messages\":''
              @ with_system (json_get jr ''system'') (openai_convert_messages (json_get jr ''messages''))
              @ ''}'')
      | _ \<Rightarrow> claude_body)"

section \<open>Responses\<close>

definition responses_tool :: "json_val \<Rightarrow> string list" where
  "responses_tool tool =
     (case json_get_string tool ''name'' of
        None \<Rightarrow> []
      | Some name \<Rightarrow>
          if name = [] then []
          else [''{\"type\":\"function\",\"name\":'' @ json_quote name
                @ '',\"description\":'' @ qstr (json_get_string tool ''description'')
                @ '',\"parameters\":'' @ schema_text tool @ ''}''])"

definition responses_convert_tools :: "json_val \<Rightarrow> string" where
  "responses_convert_tools tools_val =
     CHR ''['' # commas (concat (map responses_tool (json_elems tools_val))) @ '']''"

definition responses_call :: "json_val \<Rightarrow> string" where
  "responses_call block =
     ''{\"type\":\"function_call\",\"call_id\":'' @ qstr (json_get_string block ''id'')
     @ '',\"name\":'' @ qstr (json_get_string block ''name'')
     @ '',\"arguments\":'' @ arguments_text block @ ''}''"

text \<open>The text of an assistant message and its calls.\<close>

definition responses_assistant_block :: "string \<times> string list \<Rightarrow> json_val \<Rightarrow> string \<times> string list" where
  "responses_assistant_block st block =
     (let ty = json_get_string block ''type'' in
      if ty = Some ''text'' then (fst st @ opt_default [] (json_get_string block ''text''), snd st)
      else if ty = Some ''tool_use'' then (fst st, snd st @ [responses_call block])
      else st)"

definition responses_assistant :: "json_val \<Rightarrow> string list" where
  "responses_assistant content =
     (case foldl responses_assistant_block ([], []) (json_elems content) of (txt, calls) \<Rightarrow>
        calls @ (if txt \<noteq> [] then [''{\"role\":\"assistant\",\"content\":'' @ json_quote txt @ ''}''] else []))"

definition responses_user_block :: "json_val \<Rightarrow> string list" where
  "responses_user_block block =
     (let ty = json_get_string block ''type'' in
      if ty = Some ''tool_result'' then
        [''{\"type\":\"function_call_output\",\"call_id\":'' @ qstr (json_get_string block ''tool_use_id'')
         @ '',\"output\":'' @ qstr (json_get_string block ''content'') @ ''}'']
      else if ty = Some ''text'' then [user_line (qstr (json_get_string block ''text''))]
      else if ty = Some ''image'' then
        (case image_source block of
           None \<Rightarrow> []
         | Some (media, d) \<Rightarrow>
             [''{\"type\":\"input_image\",\"image_url\":\"data:'' @ media @ '';base64,'' @ d @ ''\"}''])
      else [])"

definition responses_message :: "json_val \<Rightarrow> string list" where
  "responses_message msg =
     (let role = json_get_string msg ''role''; content = json_get msg ''content'' in
      if role = Some ''assistant'' \<and> jv_type content = JSON_ARRAY then responses_assistant content
      else if role = Some ''user'' \<and> jv_type content = JSON_ARRAY then
        concat (map responses_user_block (json_elems content))
      else [sb_append_json_val msg])"

definition responses_convert_messages :: "json_val \<Rightarrow> string" where
  "responses_convert_messages messages =
     CHR ''['' # commas (concat (map responses_message (json_elems messages))) @ '']''"

definition convert_to_responses :: "string \<Rightarrow> string" where
  "convert_to_responses claude_body =
     (case json_parse_root (Some claude_body) of
        JOk jr r \<Rightarrow>
          (let tools_val = json_get jr ''tools''; system_val = json_get jr ''system'';
               tools = (if jv_type tools_val = JSON_ARRAY \<and> json_array_len tools_val \<noteq> 0
                        then responses_convert_tools tools_val else []);
               instr = (if jv_type system_val \<noteq> JSON_NULL then json_as_string system_val else None)
           in ''{\"model\":'' @ qstr (json_get_string jr ''model'')
              @ '',\"input\":'' @ responses_convert_messages (json_get jr ''messages'')
              @ '',\"max_output_tokens\":'' @ int_dec (json_get_int jr ''max_tokens'') @ '',\"stream\":true''
              @ (if nonempty_opt instr then '',\"instructions\":'' @ json_quote (the instr) else [])
              @ (if thinking_on (json_get jr ''thinking'')
                 then '',\"reasoning\":{\"effort\":'' @ effort_text (json_get jr ''output_config'') @ ''}'' else [])
              @ (if tools \<noteq> [] \<and> tools \<noteq> ''[]'' then '',\"tools\":'' @ tools else [])
              @ ''}'')
      | _ \<Rightarrow> claude_body)"

end
