(* ===== verification/BashPolicy.thy ===== *)
theory BashPolicy
  imports CUtil JsonText
begin

text \<open>
  The safety policy for shell commands (c/tools.c): the permissions a command needs are collected in
  a 12-bit mask, three bits (read, write, execute) for each of the scopes system, external, network
  and workspace, and compared with the mode the user allows.

  The environment is an argument: the working directory (empty when \<open>getcwd\<close> fails) and the home
  directory, the value of \<open>BASH_AGENT_HOME\<close> or \<open>HOME\<close>.
\<close>

record policy_env =
  pe_cwd :: string
  pe_home :: string

definition lower :: "string \<Rightarrow> string" where
  "lower s = map tolower s"

section \<open>Modes\<close>

definition octal_char :: "char \<Rightarrow> bool" where
  "octal_char c \<longleftrightarrow> 48 \<le> ord c \<and> ord c \<le> 55"

definition bash_mode_normalize :: "string option \<Rightarrow> string" where
  "bash_mode_normalize mode =
     (let src = (if nonempty_opt mode then the mode else ''0467'') in
      if length (takeWhile octal_char (take 4 src)) = 4 \<and> length src = 4 then src else ''0000'')"

definition oct_val :: "string \<Rightarrow> nat" where
  "oct_val s = foldl (\<lambda>a c. a * 8 + digit_val c) 0 s"

definition bash_mode_allows :: "string option \<Rightarrow> string option \<Rightarrow> bool" where
  "bash_mode_allows allowed_mode required_mode \<longleftrightarrow>
     (let a = oct_val (bash_mode_normalize allowed_mode); r = oct_val (bash_mode_normalize required_mode)
      in r AND (4095 XOR a) = 0)"

type_synonym mask = "16 word"

definition bash_add_mode :: "mask \<Rightarrow> nat \<Rightarrow> mask \<Rightarrow> mask" where
  "bash_add_mode m scopes perms =
     (let m1 = (if bit scopes 3 then m OR push_bit 9 perms else m);
          m2 = (if bit scopes 2 then m1 OR push_bit 6 perms else m1);
          m3 = (if bit scopes 1 then m2 OR push_bit 3 perms else m2)
      in if bit scopes 0 then m3 OR perms else m3)"

section \<open>Paths\<close>

text \<open>The directory itself or something below it.\<close>

definition under :: "string \<Rightarrow> string \<Rightarrow> bool" where
  "under d p \<longleftrightarrow> starts_with d p \<and> (let r = drop (length d) p in r = [] \<or> hd r = CHR ''/'')"

definition bash_is_system_path :: "string \<Rightarrow> bool" where
  "bash_is_system_path p \<longleftrightarrow>
     list_ex (\<lambda>d. under d p)
       [''/etc'', ''/usr'', ''/bin'', ''/sbin'', ''/var'', ''/library'', ''/system'', ''/dev'']"

definition bash_is_sensitive_path :: "string \<Rightarrow> bool" where
  "bash_is_sensitive_path p \<longleftrightarrow>
     str_contains p ''/.ssh'' \<or> str_contains p ''/.gnupg'' \<or> str_contains p ''/.aws''
     \<or> str_contains p ''/.docker'' \<or> ends_with ''.env'' p \<or> ends_with ''.pem'' p \<or> ends_with ''.key'' p
     \<or> str_contains p ''token'' \<or> str_contains p ''credential'' \<or> str_contains p ''secret''"

definition path_trail :: "char \<Rightarrow> bool" where
  "path_trail c \<longleftrightarrow> c = QUOTE \<or> c = SQUOTE \<or> c = CHR '';'' \<or> c = CHR '','' \<or> c = CHR '')''"

text \<open>A token without the quotes around it and without \<open>of=\<close>; the buffer holds 1023 bytes.\<close>

definition clean_path :: "string \<Rightarrow> string" where
  "clean_path path =
     (let b = take 1023 path;
          b1 = (if b \<noteq> [] \<and> (hd b = QUOTE \<or> hd b = SQUOTE) then tl b else b);
          b2 = rev (dropWhile path_trail (rev b1))
      in if starts_with ''of='' b2 then drop 3 b2 else b2)"

definition projects_dir :: "policy_env \<Rightarrow> string" where
  "projects_dir env = lower (take 1023 (pe_home env @ ''/.bash-agent/projects''))"

definition path_scope :: "policy_env \<Rightarrow> string \<Rightarrow> nat" where
  "path_scope env b =
     (let cwd = lower (pe_cwd env) in
      if b = ''/tmp'' \<or> starts_with ''/tmp/'' b \<or> under (projects_dir env) b
      then (if str_contains b ''..'' then 8 else 0)
      else if starts_with ''/dev/tcp'' b then 2
      else if b = ''/'' \<or> b = ''/*'' \<or> bash_is_sensitive_path b \<or> bash_is_system_path b then 8
      else if cwd \<noteq> [] \<and> under cwd b then 1
      else if (starts_with ''/'' b \<and> 1 < length b) \<or> starts_with ''~/'' b \<or> starts_with ''$home'' b
              \<or> str_contains b ''..'' then 4
      else 1)"

text \<open>A trusted path with \<open>..\<close> is system and stays so: no later test applies to a scope other than 1.\<close>

definition bash_add_path :: "policy_env \<Rightarrow> mask \<Rightarrow> string \<Rightarrow> mask \<Rightarrow> mask" where
  "bash_add_path env m path perms =
     (if path = [] then m
      else let b = clean_path path in
        if b = [] \<or> b = ''/dev/null'' \<or> hd b = CHR ''&'' then m
        else bash_add_mode m (path_scope env b) perms)"

definition bash_is_block_device_path :: "string \<Rightarrow> bool" where
  "bash_is_block_device_path path \<longleftrightarrow>
     (case strstr path ''/dev/'' of
        None \<Rightarrow> False
      | Some dev \<Rightarrow>
          list_ex (\<lambda>p. starts_with p (drop 5 dev)) [''sd'', ''vd'', ''hd'', ''xvd'', ''disk'', ''rdisk'', ''nvme''])"

section \<open>Segments\<close>

definition starts_any :: "string list \<Rightarrow> string \<Rightarrow> bool" where
  "starts_any ps s \<longleftrightarrow> list_ex (\<lambda>p. starts_with p s) ps"

definition contains_any :: "string list \<Rightarrow> string \<Rightarrow> bool" where
  "contains_any ns s \<longleftrightarrow> list_ex (\<lambda>n. str_contains s n) ns"

definition privileged :: "string \<Rightarrow> bool" where
  "privileged seg \<longleftrightarrow>
     seg \<in> {''sudo'', ''su'', ''doas''}
     \<or> starts_any [''sudo '', ''su '', ''doas '', ''shutdown'', ''reboot'', ''halt'', ''poweroff''] seg"

definition runs_code :: "string \<Rightarrow> bool" where
  "runs_code seg \<longleftrightarrow>
     starts_any [''./'', ''bash '', ''sh '', ''zsh '', ''python'', ''node '', ''ruby '', ''perl '',
       ''npm test'', ''npm run'', ''make'', ''cargo test'', ''cargo build'', ''go test'',
       ''git commit'', ''git add'', ''git checkout'', ''git merge'', ''git rebase'', ''git stash'',
       ''git cherry-pick'', ''if '', ''for '', ''while '', ''case ''] seg
     \<or> contains_any [''function '', ''()'', ''{'', '' if '', '' for '', '' while '', '' case '', '':(){:|:&};:''] seg"

definition writes_files :: "string \<Rightarrow> bool" where
  "writes_files seg \<longleftrightarrow>
     contains_any [''>'', ''tee '', '' rm '', ''sed -i'', '' -delete''] seg
     \<or> starts_any [''mkdir '', ''touch '', ''cp '', ''mv '', ''rm '', ''git fetch'', ''git pull'',
         ''git clone'', ''npm install'', ''pnpm install'', ''yarn install'', ''cargo build'',
         ''git commit'', ''git add'', ''git checkout'', ''git merge'', ''git rebase'', ''git stash'',
         ''go test'', ''npm test''] seg"

text \<open>The permissions the words of the segment ask for, before its paths are looked at.\<close>

definition scan_words :: "mask \<Rightarrow> string \<Rightarrow> mask" where
  "scan_words m0 seg =
     (let m1 = (if privileged seg then bash_add_mode m0 8 1
                else if starts_any [''mkfs'', ''fdisk'', ''diskutil'', ''mount '', ''umount ''] seg
                then bash_add_mode m0 8 2 else m0);
          m2 = (if contains_any [''curl '', ''wget '', ''http '', ''https://'', ''http://''] seg
                   \<or> starts_any [''git clone'', ''git fetch'', ''git pull'', ''git ls-remote''] seg
                then bash_add_mode m1 2 4 else m1);
          m3 = (if starts_with ''git push'' seg
                   \<or> contains_any [''scp '', ''curl -d '', ''curl --data'', ''curl -f '', ''curl -t ''] seg
                then bash_add_mode m2 2 2
                else if contains_any [''| bash'', ''| sh'', ''eval '', ''source <('', ''bash -c $('', ''sh -c $(''] seg
                   \<and> contains_any [''curl '', ''wget '', ''http://'', ''https://''] seg
                then bash_add_mode m2 2 1 else m2);
          m4 = (if contains_any [''rm -rf /'', ''rm -fr /''] seg then bash_add_mode m3 8 2 else m3);
          m5 = (if bash_is_block_device_path seg \<and> contains_any [''of=/dev/'', ''> /dev/'', ''>/dev/''] seg
                then bash_add_mode m4 8 2 else m4)
      in if runs_code seg then bash_add_mode m5 1 1 else m5)"

text \<open>The loop over the tokens: the mask, the permissions for the next token after a redirection (0
  for none), the flags.\<close>

definition scan_token :: "policy_env \<Rightarrow> mask \<Rightarrow> mask \<times> mask \<times> nat \<Rightarrow> string \<Rightarrow> mask \<times> mask \<times> nat" where
  "scan_token env path_bits st tok =
     (case st of (m, redir, flags) \<Rightarrow>
        if redir \<noteq> 0 then (bash_add_path env m tok redir, 0, 3)
        else if tok \<in> {''>'', ''>>'', ''1>'', ''1>>''} then (m, 2, flags)
        else if tok = ''<>'' then (m, 6, flags)
        else if starts_with ''2>'' tok then (m, 0, flags)
        else if starts_with ''>'' tok then
          (bash_add_path env m (dropWhile (\<lambda>c. c = CHR ''>'') tok) 2, 0, 3)
        else if starts_with ''<>'' tok then (bash_add_path env m (drop 2 tok) 6, 0, 3)
        else if starts_with ''/'' tok \<or> starts_with ''./'' tok \<or> starts_with ''../'' tok \<or> starts_with ''~/'' tok
        then (bash_add_path env m tok path_bits, 0, 3)
        else if bash_is_sensitive_path tok then (bash_add_path env m tok path_bits, 0, 3)
        else (m, 0, flags))"

definition blank :: "char \<Rightarrow> bool" where
  "blank c \<longleftrightarrow> c = CHR '' '' \<or> c = TAB \<or> c = CR \<or> c = LF"

definition bash_scan_segment :: "policy_env \<Rightarrow> mask \<Rightarrow> string \<Rightarrow> mask" where
  "bash_scan_segment env m seg =
     (let w = writes_files seg;
          (m', redir, flags) = foldl (scan_token env (if w then 6 else 4))
            (scan_words m seg, 0, if w then 1 else 0) (tokens blank seg)
      in if flags = 1 then bash_add_mode m' 1 2 else m')"

section \<open>Commands\<close>

text \<open>A backslash before a line feed: both become blanks.\<close>

fun join_continued :: "string \<Rightarrow> string" where
  "join_continued (a # b # s) =
     (if a = BSLASH \<and> b = LF then CHR '' '' # CHR '' '' # join_continued s else a # join_continued (b # s))"
| "join_continued s = s"

text \<open>\<open>&&\<close>, \<open>||\<close> and the semicolon become line feeds.\<close>

fun break_segments :: "string \<Rightarrow> string" where
  "break_segments (a # b # s) =
     (if a = b \<and> (a = CHR ''&'' \<or> a = CHR ''|'') then LF # LF # break_segments s
      else (if a = CHR '';'' then LF else a) # break_segments (b # s))"
| "break_segments [a] = [if a = CHR '';'' then LF else a]"
| "break_segments [] = []"

definition trim_space :: "string \<Rightarrow> string" where
  "trim_space s = rev (dropWhile isspace (rev (dropWhile isspace s)))"

definition segments :: "string \<Rightarrow> string list" where
  "segments cmd =
     filter (\<lambda>s. s \<noteq> []) (map trim_space (tokens (\<lambda>c. c = LF) (break_segments (join_continued (lower cmd)))))"

definition command_mask :: "policy_env \<Rightarrow> string \<Rightarrow> mask" where
  "command_mask env cmd =
     foldl (bash_scan_segment env)
       (if str_contains (join_continued (lower cmd)) ''/dev/tcp'' then bash_add_mode 0 2 6 else 0)
       (segments cmd)"

definition bash_classify_required_mode :: "policy_env \<Rightarrow> string option \<Rightarrow> string" where
  "bash_classify_required_mode env cmd =
     (case cmd of
        None \<Rightarrow> ''0000''
      | Some c \<Rightarrow>
          if c = [] then ''0000''
          else (let m = command_mask env c in oct4 (unat (if m = 0 then bash_add_mode 0 1 4 else m))))"

section \<open>The guard of the file tools\<close>

definition guard_target :: "string option \<Rightarrow> string" where
  "guard_target path =
     (let p = (if nonempty_opt path then the path else ''.'') in
      take 2047
        (if starts_with ''/'' p \<or> p = ''~'' \<or> starts_with ''~/'' p \<or> starts_with ''./'' p \<or> starts_with ''../'' p
         then p else ''./'' @ p))"

definition guard_probe :: "string \<Rightarrow> string option \<Rightarrow> string option \<Rightarrow> string option" where
  "guard_probe name path pattern =
     (let target = guard_target path in
      if name = ''Read'' \<or> name = ''Grep'' then Some (take 2099 (''cat '' @ target))
      else if name = ''Write'' \<or> name = ''Edit'' then Some (take 2099 ('': > '' @ target))
      else if name = ''Glob'' then
        (if \<not> nonempty_opt path \<and> (case pattern of None \<Rightarrow> False | Some p \<Rightarrow> starts_with ''/'' p \<or> str_contains p ''..'')
         then Some ''cat /'' else Some (take 2099 (''cat '' @ target)))
      else None)"

definition policy_denied :: "string \<Rightarrow> string \<Rightarrow> string" where
  "policy_denied required allowed =
     ''Error: command blocked by bash safety policy (required='' @ required @ '' allowed='' @ allowed
     @ ''; mode=system/external/network/workspace bits=4:read,2:write,1:execute)''"

text \<open>\<open>mode\<close> is the value of \<open>BASH_AGENT_BASH_MODE\<close>.\<close>

definition check_command :: "policy_env \<Rightarrow> string option \<Rightarrow> string \<Rightarrow> string option" where
  "check_command env mode cmd =
     (let allowed = bash_mode_normalize (Some (opt_default ''0467'' mode));
          required = bash_classify_required_mode env (Some cmd)
      in if bash_mode_allows (Some allowed) (Some required) then None
         else Some (policy_denied required allowed))"

definition native_file_mode_guard :: "policy_env \<Rightarrow> string option \<Rightarrow> string \<Rightarrow> string \<Rightarrow> string option" where
  "native_file_mode_guard env mode name input_json =
     (case json_parse_root (Some input_json) of
        JOk v r \<Rightarrow>
          (case guard_probe name (json_get_string v ''path'') (json_get_string v ''pattern'') of
             None \<Rightarrow> None
           | Some probe \<Rightarrow> check_command env mode probe)
      | _ \<Rightarrow> None)"

end
