(* ===== verification/Tools.thy ===== *)
theory Tools
  imports BashPolicy Store
begin

text \<open>
  The tools the model calls (c/tools.c): each takes the JSON text of its input and returns an output
  and an exit code, changing the files on the way.  What other programs do is an argument: the lines
  \<open>popen\<close> delivers for a command and the files as the command leaves them, and how a command of the Bash
  tool ran.
\<close>

record tool_result =
  tr_output :: "string option"
  tr_exit :: int

definition tool_done :: "string \<Rightarrow> tool_result" where
  "tool_done s = \<lparr>tr_output = Some s, tr_exit = 0\<rparr>"

definition tool_fail :: "string \<Rightarrow> tool_result" where
  "tool_fail s = \<lparr>tr_output = Some s, tr_exit = 1\<rparr>"

definition tool_result_free :: "tool_result \<Rightarrow> tool_result" where
  "tool_result_free r = r\<lparr>tr_output := None\<rparr>"

text \<open>A buffer that was only appended to: its data is NULL until the first byte.\<close>

definition buf_data :: "string \<Rightarrow> string option" where
  "buf_data s = (if s = [] then None else Some s)"

section \<open>Shortening a result\<close>

text \<open>The loop from the end: \<open>tail_start k s\<close> keeps what follows the \<open>k\<close>-th line feed from the end, or
  everything when there are fewer.\<close>

fun tail_rev :: "nat \<Rightarrow> string \<Rightarrow> string" where
  "tail_rev nl [] = []"
| "tail_rev nl (c # s) =
     (if c = LF then (if nl + 1 \<ge> 5 then [] else c # tail_rev (nl + 1) s) else c # tail_rev nl s)"

definition tail_part :: "string \<Rightarrow> string" where
  "tail_part s = rev (tail_rev 0 (rev s))"

definition trunc_marker :: "nat \<Rightarrow> string" where
  "trunc_marker n =
     LF # LF # ''[... truncated: showing first/last portions of '' @ nat_dec n @ '' bytes ...]'' @ [LF, LF]"

text \<open>\<open>head_len\<close> is a \<open>size_t\<close>: it wraps when the marker and the tail are longer than \<open>max_bytes\<close>.\<close>

definition tool_format_result :: "string option \<Rightarrow> int \<Rightarrow> string" where
  "tool_format_result output max_bytes =
     (case output of
        None \<Rightarrow> ''(empty)''
      | Some s \<Rightarrow>
          (let len = length s in
           if s32 (int len) \<le> max_bytes then s
           else let tail = tail_part s;
                    marker = trunc_marker len;
                    head_len = u64 (max_bytes - int (length marker) - int (length tail));
                    head_len' = (if head_len > len then len div 2 else head_len)
                in take head_len' s @ marker @ tail))"

section \<open>Files\<close>

definition bad_json :: tool_result where
  "bad_json = tool_fail ''Error: invalid JSON''"

definition file_not_found :: "string \<Rightarrow> tool_result" where
  "file_not_found path = tool_fail (''Error: file not found: '' @ path)"

text \<open>The line loop; the line numbers are C integers.\<close>

function read_loop :: "string \<Rightarrow> int \<Rightarrow> int \<Rightarrow> int \<Rightarrow> string" where
  "read_loop p line_num start_line end_line =
     (if p = [] then []
      else
        (if start_line \<le> line_num \<and> line_num \<le> end_line then before LF p @ [LF] else [])
        @ (case strchr p LF of
             None \<Rightarrow> []
           | Some q \<Rightarrow>
               (let n = s32 (line_num + 1) in
                if end_line < n then [] else read_loop (tl q) n start_line end_line)))"
  by pat_completeness auto

lemma strchr_length: "strchr s c = Some q \<Longrightarrow> q \<noteq> [] \<and> length q \<le> length s"
  by (induction s) (auto split: if_splits)

termination read_loop
proof (relation "measure (\<lambda>(p, _). length p)")
  fix p :: string and line_num start_line end_line x2 x
  assume "p \<noteq> []" "strchr p LF = Some x2"
  then have "x2 \<noteq> []" "length x2 \<le> length p" using strchr_length by blast+
  then have "length (tl x2) < length p" by (cases x2) auto
  then show "((tl x2, x, start_line, end_line), p, line_num, start_line, end_line)
      \<in> measure (\<lambda>(p, _). length p)" by simp
qed simp

definition tool_read :: "fsys \<Rightarrow> string \<Rightarrow> tool_result" where
  "tool_read fs input_json =
     (case json_root input_json of
        None \<Rightarrow> bad_json
      | Some v \<Rightarrow>
          (let path = json_get_string v ''path'' in
           if \<not> nonempty_opt path then tool_fail ''Error: no path provided''
           else let offset = json_get_int v ''offset''; limit = json_get_int v ''limit'' in
             case util_read_file fs (the path) of
               None \<Rightarrow> file_not_found (the path)
             | Some content \<Rightarrow>
                 (let start_line = (if 0 < offset then offset else 1);
                      end_line = (if 0 < limit then s32 (start_line + limit - 1) else 0x7FFFFFFF)
                  in \<lparr>tr_output = buf_data (read_loop content 1 start_line end_line), tr_exit = 0\<rparr>)))"

definition tool_write :: "fsys \<Rightarrow> string \<Rightarrow> tool_result \<times> fsys" where
  "tool_write fs input_json =
     (case json_root input_json of
        None \<Rightarrow> (bad_json, fs)
      | Some v \<Rightarrow>
          (let path = json_get_string v ''path''; content = json_get_string v ''content'' in
           if \<not> nonempty_opt path then (tool_fail ''Error: no path provided'', fs)
           else case content of
               None \<Rightarrow> (tool_fail ''Error: no content provided'', fs)
             | Some c \<Rightarrow>
                 (case util_write_file fs (the path) c of
                    (rc, fs') \<Rightarrow>
                      if rc \<noteq> 0 then (tool_fail ''Error: write failed'', fs')
                      else (tool_done (''OK: wrote '' @ nat_dec (length c) @ '' bytes to '' @ the path), fs'))))"

section \<open>Edit\<close>

text \<open>The check for one match: a second one may overlap the first.\<close>

datatype edit_match = NoMatch | ManyMatches | OneMatch string string

definition edit_find :: "string \<Rightarrow> string \<Rightarrow> edit_match" where
  "edit_find content old =
     (case strstr content old of
        None \<Rightarrow> NoMatch
      | Some pos \<Rightarrow>
          if strstr (tl pos) old \<noteq> None then ManyMatches
          else OneMatch (take (length content - length pos) content) (drop (length old) pos))"

definition ESC :: char where "ESC = CHR 0x1B"

function skip_ansi :: "string \<Rightarrow> string" where
  "skip_ansi p =
     (case p of
        a # b # r \<Rightarrow>
          if a = ESC \<and> b = CHR ''['' then skip_ansi (drop 1 (dropWhile (\<lambda>c. \<not> isupper c \<and> \<not> islower c) r)) else p
      | _ \<Rightarrow> p)"
  by pat_completeness auto

termination skip_ansi
proof (relation "measure length")
  fix p a b and r :: string and xa
  assume "p = a # xa" "xa = b # r"
  then show "(drop 1 (dropWhile (\<lambda>c. \<not> isupper c \<and> \<not> islower c) r), p) \<in> measure length"
    using length_dropWhile_le [of "\<lambda>c. \<not> isupper c \<and> \<not> islower c" r] by simp
qed simp

text \<open>Lines of the diff that begin with one \<open>+\<close>, or one \<open>-\<close>, after the colours.\<close>

definition diff_mark :: "char \<Rightarrow> string \<Rightarrow> bool" where
  "diff_mark c l \<longleftrightarrow> (case skip_ansi l of [] \<Rightarrow> False | a # r \<Rightarrow> a = c \<and> \<not> starts c r)"

definition diff_command :: "string \<Rightarrow> string \<Rightarrow> string \<Rightarrow> string" where
  "diff_command path old_file new_file =
     (let label = (if starts (CHR ''/'') path then tl path else path) in
      ''diff -u --color=always --label '' @ SQUOTE # ''a/'' @ label @ [SQUOTE] @ '' --label '' @ SQUOTE # ''b/'' @ label
      @ [SQUOTE] @ '' -- '' @ SQUOTE # old_file @ [SQUOTE] @ '' '' @ SQUOTE # new_file @ [SQUOTE] @ '' 2>/dev/null || true'')"

definition fs_remove :: "fsys \<Rightarrow> string \<Rightarrow> fsys" where
  "fs_remove fs p = (if fs_get fs p = None then fs else fs\<lparr>fs_nodes := (fs_nodes fs)(p := None)\<rparr>)"

definition edit_tmp :: "string \<Rightarrow> int \<Rightarrow> string" where
  "edit_tmp kind pid = ''/tmp/edit_diff_'' @ kind @ ''_'' @ int_dec pid @ ''.tmp''"

text \<open>A command run through \<open>popen\<close>: the lines read from it, and the files when it is over.\<close>

type_synonym popen_fun = "fsys \<Rightarrow> string \<Rightarrow> string list \<times> fsys"

text \<open>Both versions go to scratch files, \<open>popen\<close> runs the comparison, the scratch files go.\<close>

definition edit_diff ::
    "popen_fun \<Rightarrow> int \<Rightarrow> fsys \<Rightarrow> string \<Rightarrow> string \<Rightarrow> string \<Rightarrow> string list \<times> fsys" where
  "edit_diff run pid fs path content new_content =
     (let o_file = edit_tmp ''old'' pid; n_file = edit_tmp ''new'' pid;
          (ok1, fs1) = util_write_file fs o_file [];
          (ok2, fs2) = util_write_file fs1 n_file []
      in if ok1 = 0 \<and> ok2 = 0 then
           (let fs3 = snd (util_write_file fs2 o_file content);
                fs4 = snd (util_write_file fs3 n_file new_content);
                (ls, fs5) = run fs4 (diff_command path o_file n_file)
            in (ls, fs_remove (fs_remove fs5 o_file) n_file))
         else ([], fs2))"

definition edit_report :: "string \<Rightarrow> string list \<Rightarrow> string" where
  "edit_report path ls =
     ''Success: Edit('' @ path @ '') [+'' @ nat_dec (length (filter (diff_mark (CHR ''+'')) ls))
     @ '' -'' @ nat_dec (length (filter (diff_mark (CHR ''-'')) ls)) @ '' lines]'' @ LF # concat ls"

definition edit_apply ::
    "popen_fun \<Rightarrow> int \<Rightarrow> fsys \<Rightarrow> string \<Rightarrow> string \<Rightarrow> string \<Rightarrow> tool_result \<times> fsys" where
  "edit_apply run pid fs path content new_content =
     (if new_content = [] then (tool_fail ''Error: edit produced empty result'', fs)
      else let (ls, fs1) = edit_diff run pid fs path content new_content;
               (rc, fs2) = util_write_file fs1 path new_content
           in (if rc \<noteq> 0 then tool_fail ''Error: cannot write file'' else tool_done (edit_report path ls), fs2))"

definition edit_missing_text :: "string \<Rightarrow> string" where
  "edit_missing_text path =
     ''Error: old_string not found in '' @ path
     @ ''. Hint: use Grep to locate the target lines, then Read the relevant portion (with offset/limit) to copy the exact text before retrying Edit.''"

definition tool_edit ::
    "popen_fun \<Rightarrow> int \<Rightarrow> fsys \<Rightarrow> string \<Rightarrow> tool_result \<times> fsys" where
  "tool_edit run pid fs input_json =
     (case json_root input_json of
        None \<Rightarrow> (bad_json, fs)
      | Some v \<Rightarrow>
          (let path = json_get_string v ''path''; old_str = json_get_string v ''old_string'';
               new_str = json_get_string v ''new_string'' in
           if \<not> nonempty_opt path then (tool_fail ''Error: no path provided'', fs)
           else if \<not> nonempty_opt old_str then (tool_fail ''Error: empty old_string'', fs)
           else case new_str of
               None \<Rightarrow> (tool_fail ''Error: no new_string provided'', fs)
             | Some new \<Rightarrow>
                 (case util_read_file fs (the path) of
                    None \<Rightarrow> (file_not_found (the path), fs)
                  | Some content \<Rightarrow>
                      (case edit_find content (the old_str) of
                         NoMatch \<Rightarrow> (tool_fail (edit_missing_text (the path)), fs)
                       | ManyMatches \<Rightarrow> (tool_fail ''Error: old_string found multiple times, must be unique'', fs)
                       | OneMatch pre suf \<Rightarrow>
                           edit_apply run pid fs (the path) content (pre @ new @ suf)))))"

section \<open>Bash\<close>

text \<open>How the child ran: no pipe, no child, or the blocks read from it, whether it ran out of time, and
  its exit status (\<open>None\<close> when it did not exit by itself).\<close>

datatype bash_run = PipeFailed | ForkFailed | BashRan "string list" bool "int option"

definition bash_output :: "string list \<Rightarrow> bool \<Rightarrow> int \<Rightarrow> string" where
  "bash_output chunks timed_out effective_timeout =
     concat (map c_string chunks)
     @ (if timed_out
        then LF # ''[... command timed out after '' @ int_dec effective_timeout @ '' seconds ...]'' else [])"

definition tool_bash ::
    "policy_env \<Rightarrow> string option \<Rightarrow> (fsys \<Rightarrow> string \<Rightarrow> int \<Rightarrow> bash_run \<times> fsys) \<Rightarrow> fsys \<Rightarrow> string \<Rightarrow> int
     \<Rightarrow> tool_result \<times> fsys" where
  "tool_bash env mode run fs input_json timeout_secs =
     (case json_root input_json of
        None \<Rightarrow> (bad_json, fs)
      | Some v \<Rightarrow>
          (let cmd = json_get_string v ''command'' in
           if \<not> nonempty_opt cmd then (tool_fail ''Error: no command provided'', fs)
           else case check_command env mode (the cmd) of
               Some denied \<Rightarrow> (tool_fail denied, fs)
             | None \<Rightarrow>
                 (let per_call = json_get_int v ''timeout'';
                      effective_timeout = (if 0 < per_call then per_call else timeout_secs)
                  in case run fs (the cmd) effective_timeout of
                       (PipeFailed, fs') \<Rightarrow> (tool_fail ''Error: pipe failed'', fs')
                     | (ForkFailed, fs') \<Rightarrow> (tool_fail ''Error: fork failed'', fs')
                     | (BashRan chunks timed_out status, fs') \<Rightarrow>
                         (\<lparr>tr_output = util_sanitize_utf8 (buf_data (bash_output chunks timed_out effective_timeout)),
                           tr_exit = (if timed_out then 1 else opt_default 1 status)\<rparr>, fs'))))"

section \<open>Searching\<close>

definition glob_command :: "string \<Rightarrow> string \<Rightarrow> string" where
  "glob_command base pattern =
     ''rg --files '' @ shell_quote base @ '' -g '' @ shell_quote pattern @ '' 2>/dev/null || true''"

definition grep_command :: "string \<Rightarrow> string option \<Rightarrow> int \<Rightarrow> string \<Rightarrow> string" where
  "grep_command base glob_pat context pattern =
     ''rg -n --color never --heading ''
     @ (if 0 < context then ''-C '' @ int_dec context @ '' '' else [])
     @ (if nonempty_opt glob_pat then ''-g '' @ shell_quote (the glob_pat) @ '' '' else [])
     @ ''-- '' @ shell_quote pattern @ '' '' @ shell_quote base @ '' 2>/dev/null || true''"

definition search_base :: "json_val \<Rightarrow> string \<Rightarrow> string" where
  "search_base v cwd = (let path = json_get_string v ''path'' in if nonempty_opt path then the path else cwd)"

definition tool_glob :: "popen_fun \<Rightarrow> fsys \<Rightarrow> string \<Rightarrow> string \<Rightarrow> tool_result \<times> fsys" where
  "tool_glob run fs input_json cwd =
     (case json_root input_json of
        None \<Rightarrow> (bad_json, fs)
      | Some v \<Rightarrow>
          (let pattern = json_get_string v ''pattern'' in
           if \<not> nonempty_opt pattern then (tool_fail ''Error: no pattern provided'', fs)
           else case run fs (glob_command (search_base v cwd) (the pattern)) of
             (ls, fs') \<Rightarrow> (tool_done (drop_last_LF (concat ls)), fs')))"

definition tool_grep :: "popen_fun \<Rightarrow> fsys \<Rightarrow> string \<Rightarrow> string \<Rightarrow> tool_result \<times> fsys" where
  "tool_grep run fs input_json cwd =
     (case json_root input_json of
        None \<Rightarrow> (bad_json, fs)
      | Some v \<Rightarrow>
          (let pattern = json_get_string v ''pattern'' in
           if \<not> nonempty_opt pattern then (tool_fail ''Error: no pattern provided'', fs)
           else case run fs
                  (grep_command (search_base v cwd) (json_get_string v ''glob'') (json_get_int v ''context'') (the pattern)) of
             (ls, fs') \<Rightarrow> (tool_done (concat ls), fs')))"

section \<open>Lists of tasks, plans, skills\<close>

definition todo_done :: "json_val \<Rightarrow> bool" where
  "todo_done item \<longleftrightarrow> json_get_string item ''status'' = Some ''completed''"

definition todo_line :: "json_val \<Rightarrow> string" where
  "todo_line item =
     ''- ['' @ (if todo_done item then ''x'' else '' '') @ ''] ''
     @ opt_default [] (json_get_string item ''content'') @ [LF]"

definition array_items :: "json_val \<Rightarrow> json_val list" where
  "array_items arr = map (json_array_get arr) [0 .. json_array_len arr - 1]"

definition tool_todo_write :: "string \<Rightarrow> tool_result" where
  "tool_todo_write input_json =
     (case json_root input_json of
        None \<Rightarrow> bad_json
      | Some v \<Rightarrow>
          (let todos = json_get v ''todos'' in
           if jv_type todos = JSON_ARRAY
           then \<lparr>tr_output = map_option drop_last_LF (buf_data (concat (map todo_line (array_items todos)))), tr_exit = 0\<rparr>
           else tool_done ''OK''))"

definition tool_plan_confirm :: "fsys \<Rightarrow> session_paths option \<Rightarrow> tool_result" where
  "tool_plan_confirm fs paths =
     (let draft = (case paths of None \<Rightarrow> None | Some p \<Rightarrow> store_plan_draft_read fs p) in
      if nonempty_opt draft then tool_done ''Plan confirmed and locked in.''
      else tool_done ''Error: no plan draft found to confirm.'')"

definition tool_plan_clear :: tool_result where
  "tool_plan_clear = tool_done ''Plan cleared.''"

definition skill_paths :: "string \<Rightarrow> string \<Rightarrow> string list" where
  "skill_paths home name =
     map (\<lambda>d. d @ ''/'' @ name @ ''/SKILL.md'') [''.claude/skills'', ''skills'', home @ ''/.claude/skills'']"

fun read_first :: "fsys \<Rightarrow> string list \<Rightarrow> string option" where
  "read_first fs [] = None"
| "read_first fs (p # ps) = (case util_read_file fs p of Some c \<Rightarrow> Some c | None \<Rightarrow> read_first fs ps)"

definition tool_skill :: "fsys \<Rightarrow> string \<Rightarrow> string \<Rightarrow> tool_result" where
  "tool_skill fs input_json home =
     (case json_root input_json of
        None \<Rightarrow> bad_json
      | Some v \<Rightarrow>
          (let name = json_get_string v ''name'' in
           if \<not> nonempty_opt name then tool_fail ''Error: no skill name provided''
           else let content = read_first fs (skill_paths home (the name)) in
             if nonempty_opt content
             then tool_done (''Skill: '' @ the name @ [LF, LF] @ the content)
             else tool_fail (''Error: skill not found: '' @ the name)))"

section \<open>Dispatch\<close>

record tool_env =
  te_policy :: policy_env
  te_mode :: "string option"
  te_cwd :: string
  te_home :: string
  te_timeout :: int
  te_paths :: "session_paths option"
  te_pid :: int
  te_popen :: popen_fun
  te_bash :: "fsys \<Rightarrow> string \<Rightarrow> int \<Rightarrow> bash_run \<times> fsys"

definition guarded :: "string \<Rightarrow> bool" where
  "guarded name \<longleftrightarrow> name \<in> {''Read'', ''Write'', ''Edit'', ''Glob'', ''Grep''}"

definition run_tool :: "tool_env \<Rightarrow> fsys \<Rightarrow> string \<Rightarrow> string \<Rightarrow> tool_result \<times> fsys" where
  "run_tool te fs name input_json =
     (if name = ''Read'' then (tool_read fs input_json, fs)
      else if name = ''Write'' then tool_write fs input_json
      else if name = ''Edit'' then tool_edit (te_popen te) (te_pid te) fs input_json
      else if name = ''Bash'' then tool_bash (te_policy te) (te_mode te) (te_bash te) fs input_json (te_timeout te)
      else if name = ''Glob'' then tool_glob (te_popen te) fs input_json (te_cwd te)
      else if name = ''Grep'' then tool_grep (te_popen te) fs input_json (te_cwd te)
      else if name = ''TodoWrite'' then (tool_todo_write input_json, fs)
      else if name = ''PlanConfirm'' then (tool_plan_confirm fs (te_paths te), fs)
      else if name = ''PlanClear'' then (tool_plan_clear, fs)
      else if name = ''Skill'' then (tool_skill fs input_json (te_home te), fs)
      else if name = ''SubAgent'' then (tool_done ''SubAgent handled by agent layer'', fs)
      else (tool_fail (''Unknown tool: '' @ name), fs))"

definition tool_dispatch :: "tool_env \<Rightarrow> fsys \<Rightarrow> string \<Rightarrow> string \<Rightarrow> tool_result \<times> fsys" where
  "tool_dispatch te fs name input_json =
     (case (if guarded name then native_file_mode_guard (te_policy te) (te_mode te) name input_json else None) of
        Some denied \<Rightarrow> (tool_fail denied, fs)
      | None \<Rightarrow> run_tool te fs name input_json)"

section \<open>The line shown for a call\<close>

definition summary_field :: "string \<Rightarrow> json_val \<Rightarrow> string option" where
  "summary_field name v =
     (if name \<in> {''Read'', ''Write'', ''Edit''} then json_get_string v ''path''
      else if name \<in> {''Glob'', ''Grep''} then json_get_string v ''pattern''
      else if name = ''Bash'' then json_get_string v ''command''
      else if name = ''Skill'' then json_get_string v ''name''
      else if name = ''SubAgent'' then json_get_string v ''description''
      else None)"

definition tool_call_summary :: "string \<Rightarrow> json_val \<Rightarrow> string" where
  "tool_call_summary name v =
     (case summary_field name v of
        None \<Rightarrow> name @ ''()''
      | Some field \<Rightarrow>
          if 80 < s32 (int (length field))
          then name @ ''('' @ take (util_utf8_truncate_len field 77) field @ ''...)''
          else name @ ''('' @ field @ '')'')"

end
