(* ===== verification/Agent.thy ===== *)
theory Agent
  imports AgentText Compact Convert Tools
begin

text \<open>
  The agent (c/agent.c, c/agent.h): its state, how it records events and shows messages, how results of
  background tasks enter the conversation, and the compaction of the conversation.

  What other threads and the network do is written on tapes in the state: the outcome of each
  request, the messages that arrive before each look at the result queue, the session ids drawn and
  whether each thread could be started.  A request past the end of its tape fails.
\<close>

section \<open>State\<close>

text \<open>The fields of \<open>Agent\<close> that do not change while it runs, the embedded list of tools, the
  stream-json flag of the store, and what the environment provides.\<close>

record agent =
  ag_provider :: string
  ag_model :: "string option"
  ag_api_key :: string
  ag_base_url :: string
  ag_api_url :: string
  ag_max_tokens :: int
  ag_max_turns :: int
  ag_max_context_tokens :: int
  ag_tool_timeout_secs :: int
  ag_tool_result_max_bytes :: int
  ag_verbose :: bool
  ag_interactive :: bool
  ag_thinking :: "string option"
  ag_effort :: "string option"
  ag_vision :: "string option"
  ag_goal :: "string option"
  ag_dp_cfg :: dp_config
  ag_skill_names :: "string list"
  ag_cwd :: string
  ag_home :: string
  ag_session_id :: string
  ag_paths :: session_paths
  ag_sub_agent_depth :: int
  ag_has_display :: bool
  ag_stream_json :: bool
  ag_tools_json :: string
  ag_prompt_env :: prompt_env
  ag_tool_env :: tool_env
  ag_now :: string

text \<open>One request: the result code of \<open>http_post_sse\<close>, the events it delivered, and the interrupt flag
  afterwards.\<close>

record llm_outcome =
  lo_rc :: int
  lo_events :: "sse_event list"
  lo_interrupted :: bool

datatype task = SubAgentTask string string string bool | BashTask string string

record run =
  r_fs :: fsys
  r_display :: "display_message list"
  r_out :: string
  r_err :: string
  r_subq :: "input_message list"
  r_inputq :: "input_message list"
  r_active :: int
  r_last_context :: int
  r_last_in :: int
  r_last_out :: int
  r_last_cache_read :: int
  r_last_cache_creation :: int
  r_last_start_ms :: int
  r_last_end_ms :: int
  r_interrupted :: bool
  r_requests :: "(string \<times> string list \<times> string) list"
  r_started :: "task list"
  r_replies :: "llm_outcome list"
  r_arrivals :: "input_message list list"
  r_ids :: "string list"
  r_spawn :: "bool list"
  r_closed :: "bool list"
  r_crashed :: bool

section \<open>Recording and showing\<close>

definition append_event :: "agent \<Rightarrow> string \<Rightarrow> run \<Rightarrow> run" where
  "append_event ag line r =
     (case store_event_append (ag_stream_json ag) (r_fs r) (ag_paths ag) line of
        (rc, fs', out) \<Rightarrow> r\<lparr>r_fs := fs', r_out := r_out r @ out\<rparr>)"

text \<open>A message for the display thread; in stream-json mode it is dropped.\<close>

definition display_only_push :: "agent \<Rightarrow> display_message \<Rightarrow> run \<Rightarrow> run" where
  "display_only_push ag m r =
     (if ag_has_display ag \<and> \<not> ag_stream_json ag then r\<lparr>r_display := r_display r @ [m]\<rparr> else r)"

definition push_display_event :: "agent \<Rightarrow> display_message \<Rightarrow> run \<Rightarrow> run" where
  "push_display_event ag m r =
     display_only_push ag m
       (case display_msg_to_event m of None \<Rightarrow> r | Some evt \<Rightarrow> append_event ag evt r)"

text \<open>\<open>store_stats_set_int_file(stats, key, store_stats_get_file_int(stats, key) + delta)\<close>.\<close>

definition stats_set :: "agent \<Rightarrow> string \<Rightarrow> int \<Rightarrow> run \<Rightarrow> run" where
  "stats_set ag key value r =
     r\<lparr>r_fs := store_stats_set_int_file (r_fs r) (sp_stats (ag_paths ag)) key value (ag_now ag)\<rparr>"

definition stats_bump :: "agent \<Rightarrow> string \<Rightarrow> int \<Rightarrow> run \<Rightarrow> run" where
  "stats_bump ag key delta r =
     stats_set ag key (s32 (store_stats_get_file_int (r_fs r) (sp_stats (ag_paths ag)) key + delta)) r"

definition update_title_status :: "agent \<Rightarrow> string option \<Rightarrow> run \<Rightarrow> run" where
  "update_title_status ag status r =
     r\<lparr>r_err := r_err r @ agent_update_title_status (r_fs r) (ag_paths ag) (ag_model ag) status (r_active r)\<rparr>"

definition agent_update_title :: "agent \<Rightarrow> run \<Rightarrow> run" where
  "agent_update_title ag r = update_title_status ag None r"

definition conv_add_user :: "agent \<Rightarrow> string \<Rightarrow> run \<Rightarrow> run" where
  "conv_add_user ag t r =
     r\<lparr>r_fs := snd (store_conv_add_user (r_fs r) (sp_conversation (ag_paths ag)) (Some t))\<rparr>"

definition usage_text :: "int \<Rightarrow> int \<Rightarrow> int \<Rightarrow> int \<Rightarrow> string" where
  "usage_text i out cr cc =
     ''{\"type\":\"usage\",\"input_tokens\":'' @ int_dec i @ '',\"output_tokens\":'' @ int_dec out
     @ '',\"cache_read_input_tokens\":'' @ int_dec cr @ '',\"cache_creation_input_tokens\":'' @ int_dec cc"

definition add_token_totals :: "agent \<Rightarrow> int \<Rightarrow> int \<Rightarrow> int \<Rightarrow> int \<Rightarrow> run \<Rightarrow> run" where
  "add_token_totals ag i out cr cc r =
     stats_bump ag ''total_cache_creation_tokens'' cc
       (stats_bump ag ''total_cache_read_tokens'' cr
         (stats_bump ag ''total_output_tokens'' out (stats_bump ag ''total_input_tokens'' i r)))"

section \<open>Results of background tasks\<close>

definition str_arg :: "string option \<Rightarrow> string" where
  "str_arg s = opt_default ''(null)'' s"

definition sub_agent_end_event :: "agent \<Rightarrow> agent_result \<Rightarrow> string" where
  "sub_agent_end_event ag res =
     ''{\"type\":\"sub_agent_end\",\"session_id\":'' @ jstr (ar_session_id res)
     @ '',\"timestamp\":'' @ QUOTE # ag_now ag @ [QUOTE] @ '',\"status\":'' @ jstr (ar_status res) @ ''}''"

definition sub_agent_result_event :: "agent_result \<Rightarrow> string" where
  "sub_agent_result_event res =
     ''{\"type\":\"sub_agent_result\",\"session_id\":'' @ jstr (ar_session_id res) @ '',\"status\":'' @ jstr (ar_status res)
     @ '',\"input_tokens\":'' @ int_dec (ar_in_tokens res) @ '',\"output_tokens\":'' @ int_dec (ar_out_tokens res)
     @ '',\"thinking\":'' @ json_quote (opt_default [] (ar_thinking res))
     @ '',\"text\":'' @ json_quote (opt_default [] (ar_text res)) @ ''}''"

definition agent_handle_sub_agent_result :: "agent \<Rightarrow> agent_result \<Rightarrow> run \<Rightarrow> run" where
  "agent_handle_sub_agent_result ag res r0 =
     (let r1 = append_event ag
                 (usage_text (ar_in_tokens res) (ar_out_tokens res) (ar_cache_read_tokens res) (ar_cache_creation_tokens res)
                  @ '',\"kind\":\"sub_agent\",\"sub_session_id\":'' @ jstr (ar_session_id res) @ ''}'') r0;
          r2 = append_event ag (sub_agent_result_event res) r1;
          r3 = append_event ag (sub_agent_end_event ag res) r2;
          r4 = add_token_totals ag (ar_in_tokens res) (ar_out_tokens res) (ar_cache_read_tokens res) (ar_cache_creation_tokens res) r3;
          r5 = stats_bump ag ''agent_request_count'' (ar_request_count res) (stats_bump ag ''sub_agent_request_count'' 1 r4);
          r6 = agent_update_title ag r5;
          r7 = r6\<lparr>r_active := s32 (r_active r6 - 1)\<rparr>
      in display_only_push ag
           (display_msg_sub_agent_result (ar_session_id res) (str_arg (ar_status res)) (ar_thinking res) (ar_text res)
              (ar_in_tokens res) (ar_out_tokens res)) r7)"

definition sub_agent_context :: "agent_result \<Rightarrow> string" where
  "sub_agent_context res =
     ''[sub-agent '' @ str_arg (ar_session_id res) @ ''] '' @ str_arg (ar_status res)
     @ '' (in='' @ int_dec (ar_in_tokens res) @ '', out='' @ int_dec (ar_out_tokens res) @ '')'' @ LF # ''Thinking: ''
     @ opt_default [] (ar_thinking res) @ LF # ''Text: '' @ opt_default [] (ar_text res)"

definition async_event :: "string option \<Rightarrow> int \<Rightarrow> string option \<Rightarrow> string" where
  "async_event task_id exit_code output =
     ''{\"type\":\"async_task_result\",\"task_id\":'' @ QUOTE # str_arg task_id @ [QUOTE] @ '',\"exit_code\":'' @ int_dec exit_code
     @ '',\"output\":'' @ json_quote (opt_default [] output) @ ''}''"

definition async_context :: "string option \<Rightarrow> int \<Rightarrow> string option \<Rightarrow> string" where
  "async_context task_id exit_code output =
     ''[bg-bash '' @ str_arg task_id @ ''] exit_code='' @ int_dec exit_code @ LF # ''Output: '' @ opt_default [] output"

text \<open>The part both modes share: the state after recording, and the text for the conversation with the
  kind of turn it opens; \<open>None\<close> for a message that is not a result.\<close>

definition process_result :: "agent \<Rightarrow> input_message \<Rightarrow> run \<Rightarrow> (string \<times> string \<times> run) option" where
  "process_result ag m r =
     (case m of
        MSG_AGENT_RESULT res \<Rightarrow>
          Some (sub_agent_context res, ''sub_agent_result'', agent_handle_sub_agent_result ag res r)
      | MSG_ASYNC_TASK_RESULT task_id exit_code output \<Rightarrow>
          (let r1 = append_event ag (async_event task_id exit_code output) r;
               r2 = (if 0 < r_active r1 then r1\<lparr>r_active := r_active r1 - 1\<rparr> else r1);
               r3 = push_display_event ag
                      (display_msg_async_task_result task_id exit_code (Some (opt_default [] output))) r2
           in Some (async_context task_id exit_code output, ''async_task_result'', r3))
      | MSG_USER_NOTIFY t \<Rightarrow>
          Some (opt_default [] t, ''user_notify'', push_display_event ag (display_msg_user_notify (Some (opt_default [] t))) r)
      | _ \<Rightarrow> None)"

text \<open>\<open>agent_process_sub_result\<close> with \<open>run_loop\<close> off: the text goes into the conversation.\<close>

definition agent_process_sub_result :: "agent \<Rightarrow> input_message \<Rightarrow> run \<Rightarrow> int \<times> run" where
  "agent_process_sub_result ag m r =
     (case process_result ag m r of
        None \<Rightarrow> (0, r)
      | Some (ctx, kind, r') \<Rightarrow> (1, conv_add_user ag ctx r'))"

definition drain_step :: "agent \<Rightarrow> int \<times> run \<Rightarrow> input_message \<Rightarrow> int \<times> run" where
  "drain_step ag st m = (case agent_process_sub_result ag m (snd st) of (n, r) \<Rightarrow> (fst st + n, r))"

text \<open>The messages there by the time the queue is found empty: those already queued and the next
  arrivals.\<close>

definition agent_drain_sub_results :: "agent \<Rightarrow> run \<Rightarrow> int \<times> run" where
  "agent_drain_sub_results ag r =
     (let (arr, rest) = (case r_arrivals r of [] \<Rightarrow> ([], []) | a # as \<Rightarrow> (a, as))
      in foldl (drain_step ag) (0, r\<lparr>r_subq := [], r_arrivals := rest\<rparr>) (r_subq r @ arr))"

section \<open>Requests\<close>

definition request_headers :: "agent \<Rightarrow> bool \<Rightarrow> string list" where
  "request_headers ag with_user_agent =
     ''Content-Type: application/json'' # (if with_user_agent then [''User-Agent: bash-agent/4.3.2''] else [])
     @ (if ag_provider ag = ''claude''
        then [''x-app: cli'', take 511 (''x-api-key: '' @ ag_api_key ag), ''anthropic-version: 2023-06-01'']
        else [take 511 (''Authorization: Bearer '' @ ag_api_key ag)])"

definition for_provider :: "agent \<Rightarrow> string \<Rightarrow> string" where
  "for_provider ag body =
     (if ag_provider ag = ''openai'' then convert_to_openai body
      else if ag_provider ag = ''responses'' then convert_to_responses body else body)"

definition send_request :: "agent \<Rightarrow> bool \<Rightarrow> string \<Rightarrow> run \<Rightarrow> int \<times> sse_event list \<times> run" where
  "send_request ag with_user_agent body r =
     (let r1 = r\<lparr>r_requests := r_requests r @ [(ag_api_url ag, request_headers ag with_user_agent, body)]\<rparr> in
      case r_replies r of
        [] \<Rightarrow> (- 1, [], r1)
      | o1 # os \<Rightarrow> (lo_rc o1, lo_events o1, r1\<lparr>r_replies := os, r_interrupted := lo_interrupted o1\<rparr>))"

definition system_prompt :: "agent \<Rightarrow> run \<Rightarrow> string" where
  "system_prompt ag r =
     agent_build_prompt (ag_prompt_env ag) (r_fs r) (ag_paths ag) (ag_cwd ag) (ag_home ag) (ag_skill_names ag) (ag_goal ag)"

definition instruction_line :: "string \<Rightarrow> string" where
  "instruction_line t = ''{\"role\":\"user\",\"content\":'' @ json_quote t @ ''}''"

text \<open>A request about the conversation: the lines and one more with the instruction.\<close>

definition side_request :: "agent \<Rightarrow> run \<Rightarrow> string list \<Rightarrow> string \<Rightarrow> int \<Rightarrow> string option" where
  "side_request ag r lines instruction max_tokens =
     build_claude_request (r_fs r) (ag_model ag) (Some (system_prompt ag r)) (Some (ag_tools_json ag))
       (map Some (lines @ [instruction_line instruction])) max_tokens (Some ''disabled'') (ag_effort ag) (ag_vision ag)"

section \<open>Compaction\<close>

definition SUMMARY_HEAD :: string where
  "SUMMARY_HEAD =
     ''The conversation context above needs to be compacted. IMPORTANT: Do NOT use any tools. D''
     @ ''o NOT think. Just output the summary directly as plain text. Summarize the key informati''
     @ ''on from the messages above into a concise context summary. Update the existing summary s''
     @ ''napshot using the messages above. Use exactly these fields:'' @ [LF] @ ''Title: ''"

definition SUMMARY_TAIL :: string where
  "SUMMARY_TAIL =
     [LF] @ ''Task focus:'' @ [LF] @ ''Latest request:'' @ [LF] @ ''Key technical concepts:'' @ [LF]
     @ ''Files and code:'' @ [LF] @ ''Progress:'' @ [LF] @ ''Tool evidence:'' @ [LF] @ ''Errors and fixes:''
     @ [LF] @ ''Reflections:'' @ [LF] @ ''Next step:'' @ [LF] @ ''Critical context:'' @ [LF, LF]
     @ ''The Title line is the session title: keep it EXACTLY as written above when present; othe''
     @ ''rwise write one short line (at most 60 characters, no surrounding quotes) describing thi''
     @ ''s conversation.''"

text \<open>The line that begins with \<open>Title:\<close>, in the summary so far.\<close>

fun title_of :: "string list \<Rightarrow> string" where
  "title_of [] = []"
| "title_of (l # ls) =
     (if starts_with ''Title:'' l
      then (let t = drop 6 l in if starts (CHR '' '') t then tl t else t) else title_of ls)"

definition summary_title :: "string option \<Rightarrow> string" where
  "summary_title previous =
     (case previous of None \<Rightarrow> [] | Some s \<Rightarrow> (case split_lines s of (ls, r) \<Rightarrow> title_of (ls @ [r])))"

definition summary_instruction :: "agent \<Rightarrow> run \<Rightarrow> string" where
  "summary_instruction ag r =
     SUMMARY_HEAD @ summary_title (store_summary_get (r_fs r) (ag_paths ag)) @ SUMMARY_TAIL"

definition stat_of :: "agent \<Rightarrow> run \<Rightarrow> string \<Rightarrow> int" where
  "stat_of ag r key = store_stats_get_file_int (r_fs r) (sp_stats (ag_paths ag)) key"

definition forced :: "string \<Rightarrow> bool" where
  "forced trigger \<longleftrightarrow> trigger = ''plan_clear'' \<or> trigger = ''plan_confirm''"

definition dp_keep :: "agent \<Rightarrow> run \<Rightarrow> string list \<Rightarrow> int" where
  "dp_keep ag r lines =
     compact_dp_decision lines (ag_dp_cfg ag) (stat_of ag r ''current_turn_count'') (stat_of ag r ''agent_request_count'')
       (stat_of ag r ''compact_request_count'') (stat_of ag r ''total_input_tokens'')"

definition near_limit :: "agent \<Rightarrow> run \<Rightarrow> bool" where
  "near_limit ag r \<longleftrightarrow>
     (let ct = stat_of ag r ''current_context_tokens'' in 0 < ct \<and> s32 (ag_max_context_tokens ag * 90) div 100 < ct)"

text \<open>Nothing to do (with the value returned), or keep this many of these lines.\<close>

datatype compact_choice = Skip int | KeepLines int "string list"

definition compact_needed :: "agent \<Rightarrow> string \<Rightarrow> run \<Rightarrow> bool" where
  "compact_needed ag trigger r \<longleftrightarrow>
     forced trigger \<or>
     (case store_conv_line_count (r_fs r) (sp_conversation (ag_paths ag)) of
        (rc, lines) \<Rightarrow> rc = 0 \<and> 4 < length lines \<and> (0 < dp_keep ag r lines \<or> near_limit ag r))"

definition fallback_keep :: "agent \<Rightarrow> string \<Rightarrow> run \<Rightarrow> string list \<Rightarrow> int option" where
  "fallback_keep ag trigger r lines =
     (let keep = dp_keep ag r lines; turn_keep = compact_turn_keep lines (dp_min_keep_ratio (ag_dp_cfg ag)) in
      if keep \<le> 0 \<or> int (length lines) \<le> keep
      then (if forced trigger \<or> near_limit ag r then Some turn_keep else None)
      else Some keep)"

definition compact_choose :: "agent \<Rightarrow> string \<Rightarrow> run \<Rightarrow> compact_choice" where
  "compact_choose ag trigger r =
     (if \<not> compact_needed ag trigger r then Skip 0
      else case store_conv_line_count (r_fs r) (sp_conversation (ag_paths ag)) of
        (rc, lines) \<Rightarrow>
          if rc \<noteq> 0 then Skip (- 1)
          else if length lines \<le> 4 then Skip 0
          else case fallback_keep ag trigger r lines of
            None \<Rightarrow> Skip 0
          | Some k \<Rightarrow>
              (let keep = (if k \<le> 0 then compact_turn_keep lines (dp_min_keep_ratio (ag_dp_cfg ag)) else k) in
               if int (length lines) \<le> keep \<and> \<not> forced trigger then Skip 0 else KeepLines keep lines))"

text \<open>Counting the tokens the summary cost.\<close>

definition compact_usage :: "agent \<Rightarrow> sse_accum \<Rightarrow> run \<Rightarrow> run" where
  "compact_usage ag acc r =
     (let i = acc_in_tokens acc; out = acc_out_tokens acc; cr = acc_cache_read_tokens acc; cc = acc_cache_creation_tokens acc in
      if 0 < i \<or> 0 < out \<or> 0 < cr \<or> 0 < cc
      then append_event ag (usage_text i out cr cc @ '',\"kind\":\"compact\"}'')
             (add_token_totals ag i out cr cc (stats_bump ag ''compact_request_count'' 1 r))
      else r)"

definition compact_failed :: "agent \<Rightarrow> int \<Rightarrow> sse_accum \<Rightarrow> run \<Rightarrow> run" where
  "compact_failed ag rc acc r =
     r\<lparr>r_err := r_err r @ ''[compact] Failed to generate summary: rc='' @ int_dec rc
        @ '' text_len='' @ nat_dec (sb_len (acc_text acc)) @ '' stop='' @ opt_default ''none'' (acc_stop_reason acc)
        @ '' error='' @ opt_default ''none'' (acc_error acc) @ [LF]\<rparr>"

text \<open>After a summary: it is stored, the old lines go to the archive.\<close>

definition compact_done :: "agent \<Rightarrow> string \<Rightarrow> int \<Rightarrow> int \<Rightarrow> sse_accum \<Rightarrow> run \<Rightarrow> run" where
  "compact_done ag trigger keep line_count acc r0 =
     (let r1 = r0\<lparr>r_fs := snd (store_summary_set (r_fs r0) (ag_paths ag) (sb_str (acc_text acc)))\<rparr>;
          r2 = (if keep < line_count
                then r1\<lparr>r_fs := snd (store_conv_trim_tail (r_fs r1) (sp_conversation (ag_paths ag)) keep)\<rparr> else r1);
          r3 = agent_update_title ag (compact_usage ag acc r2)
      in if ag_has_display ag then push_display_event ag (display_msg_context_update (Some trigger)) r3 else r3)"

definition agent_compact_context :: "agent \<Rightarrow> string \<Rightarrow> run \<Rightarrow> int \<times> run" where
  "agent_compact_context ag trigger r =
     (case compact_choose ag trigger r of
        Skip rc \<Rightarrow> (rc, r)
      | KeepLines keep lines \<Rightarrow>
          (case side_request ag r (take (nat (int (length lines) - keep)) lines) (summary_instruction ag r) (ag_max_tokens ag) of
             None \<Rightarrow> (- 1, r)
           | Some body \<Rightarrow>
               (case send_request ag True (for_provider ag body) r of
                  (rc, events, r1) \<Rightarrow>
                    let acc = accumulate sse_accum_init events in
                    if rc \<noteq> 0 \<or> sb_len (acc_text acc) = 0 then (- 1, compact_failed ag rc acc r1)
                    else (0, compact_done ag trigger keep (int (length lines)) acc r1))))"

end
