(* ===== verification/AgentLoop.thy ===== *)
theory AgentLoop
  imports Agent
begin

text \<open>
  The turn of the agent (c/agent.c): the streamed reply, the tool calls with their results, what is
  saved, the loop over turns, the judge of a goal, sub-agents and the main loop over the input queue.
\<close>

section \<open>The streamed reply\<close>

text \<open>\<open>stream_display_callback\<close> accumulates as \<open>sse_accum_callback\<close> does, except that a retry also
  forgets the error, and shows text, thinking and errors at once.\<close>

definition stream_accum :: "sse_accum \<Rightarrow> sse_event \<Rightarrow> sse_accum" where
  "stream_accum acc evt =
     (let acc' = sse_accum_callback acc evt in
      if ev_type evt = SSE_RETRY then acc'\<lparr>acc_error := None\<rparr> else acc')"

definition stream_display_callback :: "agent \<Rightarrow> sse_accum \<times> run \<Rightarrow> sse_event \<Rightarrow> sse_accum \<times> run" where
  "stream_display_callback ag st evt =
     (case st of (acc, r) \<Rightarrow>
        let acc' = stream_accum acc evt in
        (acc',
         case ev_type evt of
           SSE_TEXT \<Rightarrow> push_display_event ag (display_msg_text (ev_content evt)) r
         | SSE_THINKING \<Rightarrow> push_display_event ag (display_msg_thinking (ev_content evt)) r
         | SSE_ERROR \<Rightarrow> push_display_event ag (display_msg_error (acc_error acc')) r
         | _ \<Rightarrow> r))"

definition show_error :: "agent \<Rightarrow> string \<Rightarrow> run \<Rightarrow> run" where
  "show_error ag t r = push_display_event ag (display_msg_error (Some t)) r"

definition show_stop :: "agent \<Rightarrow> string \<Rightarrow> run \<Rightarrow> run" where
  "show_stop ag t r = push_display_event ag (display_msg_stop (Some t)) r"

section \<open>Starting background tasks\<close>

definition next_id :: "run \<Rightarrow> string \<times> run" where
  "next_id r = (case r_ids r of [] \<Rightarrow> ([], r) | i # is \<Rightarrow> (i, r\<lparr>r_ids := is\<rparr>))"

text \<open>\<open>pthread_create\<close>: the counter goes up before and down again when it fails.\<close>

definition spawn :: "task \<Rightarrow> run \<Rightarrow> bool \<times> run" where
  "spawn t r =
     (case r_spawn r of
        [] \<Rightarrow> (False, r)
      | ok # oks \<Rightarrow>
          if ok then (True, r\<lparr>r_spawn := oks, r_active := s32 (r_active r + 1), r_started := r_started r @ [t]\<rparr>)
          else (False, r\<lparr>r_spawn := oks\<rparr>))"

definition sub_agent_start_event :: "string \<Rightarrow> string \<Rightarrow> string \<Rightarrow> bool \<Rightarrow> string" where
  "sub_agent_start_event sid prompt description fork =
     ''{\"type\":\"sub_agent_start\",\"session_id\":'' @ json_quote sid @ '',\"prompt\":'' @ json_quote prompt
     @ '',\"description\":'' @ json_quote description @ '',\"fork\":'' @ (if fork then ''true'' else ''false'') @ ''}''"

definition agent_handle_sub_agent :: "agent \<Rightarrow> string \<Rightarrow> string \<Rightarrow> bool \<Rightarrow> run \<Rightarrow> string \<times> run" where
  "agent_handle_sub_agent ag prompt description fork r =
     (if prompt = [] then (''Error: no prompt provided'', r)
      else if 1 \<le> ag_sub_agent_depth ag
      then (''Error: sub-agent recursion limit reached; child agents cannot launch SubAgent'', r)
      else
        let (raw, r1) = next_id r; sid = ''sub_'' @ raw;
            r2 = append_event ag (sub_agent_start_event sid prompt description fork) r1;
            r3 = display_only_push ag (display_msg_sub_agent_start (Some sid) (Some description)) r2;
            r4 = (if fork then
                    (case store_session_init_sub (ag_stream_json ag) (r_fs r3) (ag_paths ag)
                            (store_session_paths_for (ag_home ag) (Some (ag_cwd ag)) sid) True of
                       (rc, fs', out) \<Rightarrow> r3\<lparr>r_fs := fs', r_out := r_out r3 @ out\<rparr>)
                  else r3);
            (ok, r5) = spawn (SubAgentTask sid prompt description fork) r4
        in if ok then (''Sub-agent started: session_id='' @ sid, r5)
           else (''Error: failed to start sub-agent thread'', r5))"

definition start_async :: "string \<Rightarrow> run \<Rightarrow> tool_result \<times> run" where
  "start_async cmd r =
     (let (raw, r1) = next_id r; task_id = take 79 (''task_'' @ raw); (ok, r2) = spawn (BashTask cmd task_id) r1
      in if ok then (tool_done (''Async task started: task_id='' @ task_id), r2)
         else (tool_fail ''Error: failed to start async bash thread'', r2))"

section \<open>Tool calls\<close>

text \<open>A call without a name crashes where the code compares the name; it is read as one with the empty
  name after that.\<close>

definition mark_crash :: "bool \<Rightarrow> run \<Rightarrow> run" where
  "mark_crash fault r = (if fault then r\<lparr>r_crashed := True\<rparr> else r)"

definition call_name :: "tool_accum \<Rightarrow> string" where
  "call_name tc = opt_default [] (ta_name tc)"

definition call_input :: "tool_accum \<Rightarrow> string" where
  "call_input tc = opt_default [] (sb_data (ta_input tc))"

definition dispatch :: "agent \<Rightarrow> tool_accum \<Rightarrow> run \<Rightarrow> tool_result \<times> run" where
  "dispatch ag tc r =
     (case tool_dispatch ((ag_tool_env ag)\<lparr>te_cwd := ag_cwd ag, te_home := ag_home ag, te_timeout := ag_tool_timeout_secs ag,
                            te_paths := Some (ag_paths ag)\<rparr>) (r_fs r) (call_name tc) (call_input tc) of
        (tr, fs') \<Rightarrow> (tr, r\<lparr>r_fs := fs'\<rparr>))"

definition run_call :: "agent \<Rightarrow> tool_accum \<Rightarrow> run \<Rightarrow> tool_result \<times> run" where
  "run_call ag tc r =
     (let v = json_root (call_input tc);
          str = (\<lambda>k. case v of None \<Rightarrow> None | Some v' \<Rightarrow> json_get_string v' k);
          flag = (\<lambda>k. case v of None \<Rightarrow> False | Some v' \<Rightarrow> json_get_bool v' k False) in
      if call_name tc = ''SubAgent'' then
        (case agent_handle_sub_agent ag (opt_default [] (str ''prompt'')) (opt_default [] (str ''description'')) (flag ''fork'') r of
           (t, r') \<Rightarrow> (tool_done t, r'))
      else if call_name tc = ''Bash'' \<and> flag ''background'' \<and> nonempty_opt (str ''command'')
      then start_async (the (str ''command'')) r
      else dispatch ag tc r)"

text \<open>The size of a file and its number of lines.\<close>

definition file_size :: "fsys \<Rightarrow> string \<Rightarrow> nat \<times> nat" where
  "file_size fs p =
     (case fs_get fs p of
        None \<Rightarrow> (0, 0)
      | Some b \<Rightarrow>
          (length b, if b = [] then 0 else length (filter (\<lambda>c. c = LF) b) + (if last b = LF then 0 else 1)))"

definition file_summary :: "fsys \<Rightarrow> tool_accum \<Rightarrow> string" where
  "file_summary fs tc =
     (let v = json_root (call_input tc);
          path = (case v of None \<Rightarrow> None | Some v' \<Rightarrow> json_get_string v' ''path'');
          offset = (case v of None \<Rightarrow> None | Some v' \<Rightarrow> json_as_string (json_get v' ''offset''));
          cnt = (case v of None \<Rightarrow> None | Some v' \<Rightarrow> json_as_string (json_get v' ''limit'')) in
      if nonempty_opt path then
        (let (bytes, lines) = file_size fs (the path) in
         call_name tc @ ''('' @ the path @ '') ['' @ nat_dec lines @ '' lines, '' @ nat_dec bytes @ '' bytes''
         @ (if nonempty_opt offset \<or> nonempty_opt cnt
            then '', offset='' @ opt_default ''1'' offset @ '', limit='' @ opt_default ''0'' cnt else [])
         @ '']'')
      else call_name tc @ ''()'')"

definition result_message :: "tool_accum \<Rightarrow> string \<Rightarrow> int \<Rightarrow> display_message" where
  "result_message tc content exit_code =
     (display_msg_tool_result (Some content) exit_code)
       \<lparr>dm_tool_id := Some (opt_default [] (ta_id tc)), dm_tool_name := Some (call_name tc)\<rparr>"

text \<open>One call: the text for the conversation, of an Edit only the first line.\<close>

definition run_one :: "agent \<Rightarrow> tool_accum \<Rightarrow> run \<Rightarrow> string \<times> run" where
  "run_one ag tc r =
     (let (tr, r1) = run_call ag tc (mark_crash (ta_name tc = None) r);
          out = map_option (\<lambda>s. tool_format_result (Some s) (ag_tool_result_max_bytes ag)) (tr_output tr);
          shown = (if call_name tc \<in> {''Read'', ''Write''} then file_summary (r_fs r1) tc else opt_default ''(empty)'' out);
          r2 = push_display_event ag (result_message tc shown (tr_exit tr)) r1;
          content = opt_default [] out
      in (if call_name tc = ''Edit'' then before LF content else content, r2))"

fun run_all :: "agent \<Rightarrow> tool_accum list \<Rightarrow> run \<Rightarrow> string list \<times> run" where
  "run_all ag [] r = ([], r)"
| "run_all ag (tc # tcs) r =
     (case run_one ag tc r of (c, r1) \<Rightarrow> (case run_all ag tcs r1 of (cs, r2) \<Rightarrow> (c # cs, r2)))"

text \<open>The first PlanConfirm or PlanClear of the reply compacts the conversation; the plan is moved or
  emptied after.\<close>

definition confirm_plan :: "agent \<Rightarrow> run \<Rightarrow> run" where
  "confirm_plan ag r =
     (let r1 = snd (agent_compact_context ag ''plan_confirm'' r) in
      case store_plan_draft_read (r_fs r1) (ag_paths ag) of
        None \<Rightarrow> r1
      | Some draft \<Rightarrow>
          if draft = [] then r1
          else (let fs1 = snd (store_plan_set (r_fs r1) (ag_paths ag) draft)
                in r1\<lparr>r_fs := snd (store_plan_draft_clear fs1 (ag_paths ag))\<rparr>))"

definition clear_plan :: "agent \<Rightarrow> run \<Rightarrow> run" where
  "clear_plan ag r =
     (let r1 = snd (agent_compact_context ag ''plan_clear'' r) in r1\<lparr>r_fs := snd (store_plan_clear (r_fs r1) (ag_paths ag))\<rparr>)"

fun plan_compact :: "agent \<Rightarrow> tool_accum list \<Rightarrow> run \<Rightarrow> run" where
  "plan_compact ag [] r = r"
| "plan_compact ag (tc # tcs) r =
     (if call_name tc = ''PlanConfirm'' then confirm_plan ag r
      else if call_name tc = ''PlanClear'' then clear_plan ag r
      else plan_compact ag tcs r)"

section \<open>A turn\<close>

text \<open>How a turn ends: the loop goes on, stops, or the whole routine returns a value.\<close>

datatype turn_end = Continue | Break | Return int

definition tool_stop :: "string option \<Rightarrow> bool" where
  "tool_stop reason \<longleftrightarrow> reason = Some ''tool_use'' \<or> reason = Some ''tool_calls''"

definition show_call :: "agent \<Rightarrow> run \<Rightarrow> tool_accum \<Rightarrow> run" where
  "show_call ag r tc =
     (let parsed = (if 0 < sb_len (ta_input tc) then json_root (call_input tc) else None);
          summary = (case parsed of
                       None \<Rightarrow> []
                     | Some v \<Rightarrow> agent_tool_display_summary (call_name tc) v (sb_data (ta_input tc)))
      in push_display_event ag
           ((display_msg_tool_call (ta_id tc) (ta_name tc) (Some summary))\<lparr>dm_tool_input := sb_data (ta_input tc)\<rparr>)
           (mark_crash (parsed \<noteq> None \<and> ta_name tc = None) r))"

definition note_usage :: "agent \<Rightarrow> sse_accum \<Rightarrow> run \<Rightarrow> run" where
  "note_usage ag acc r0 =
     (let i = acc_in_tokens acc; out = acc_out_tokens acc; cr = acc_cache_read_tokens acc; cc = acc_cache_creation_tokens acc;
          r = r0\<lparr>r_last_in := i, r_last_out := out, r_last_cache_read := cr, r_last_cache_creation := cc,
                r_last_context := s32 (i + out + cr + cc), r_last_start_ms := acc_start_ms acc, r_last_end_ms := acc_end_ms acc\<rparr>
      in if 0 < i \<or> 0 < out then
           (let r1 = push_display_event ag (display_msg_usage i out cr cc) r;
                r2 = add_token_totals ag i out cr cc (stats_bump ag ''agent_request_count'' 1 r1)
            in if 0 < r_last_context r2 then stats_set ag ''current_context_tokens'' (r_last_context r2) r2 else r2)
         else r)"

definition note_speed :: "agent \<Rightarrow> sse_accum \<Rightarrow> run \<Rightarrow> run" where
  "note_speed ag acc r =
     (if acc_speed_ready acc \<and> acc_error acc = None \<and> \<not> r_interrupted r then
        (let dur = s64 (r_last_end_ms r - r_last_start_ms r);
             speed = (if 0 < dur then s32 (s64 (r_last_out r * 1000) div dur) else 0)
         in stats_set ag ''last_call_speed_tok_per_sec'' speed r)
      else r)"

definition note_reply :: "agent \<Rightarrow> sse_accum \<Rightarrow> run \<Rightarrow> run" where
  "note_reply ag acc r =
     (let r1 = note_speed ag acc (note_usage ag acc (foldl (show_call ag) r (acc_tools acc))) in
      if 0 < acc_in_tokens acc \<or> 0 < acc_out_tokens acc \<or> acc_speed_ready acc then agent_update_title ag r1 else r1)"

definition tool_uses :: "sse_accum \<Rightarrow> tool_use list" where
  "tool_uses acc = map (\<lambda>tc. (ta_id tc, ta_name tc, sb_data (ta_input tc))) (acc_tools acc)"

text \<open>The results of the calls, when the model stopped to have them run.\<close>

definition run_tools :: "agent \<Rightarrow> sse_accum \<Rightarrow> run \<Rightarrow> string list option \<times> run" where
  "run_tools ag acc r =
     (if acc_tools acc \<noteq> [] \<and> tool_stop (acc_stop_reason acc) then
        (case run_all ag (acc_tools acc) r of (cs, r1) \<Rightarrow> (Some cs, plan_compact ag (acc_tools acc) r1))
      else (None, r))"

definition save_reply :: "agent \<Rightarrow> sse_accum \<Rightarrow> string list option \<Rightarrow> run \<Rightarrow> run" where
  "save_reply ag acc results r =
     (let conv = sp_conversation (ag_paths ag);
          fs1 = snd (store_conv_add_assistant (r_fs r) conv (sb_data (acc_thinking acc)) (sb_data (acc_text acc)) (tool_uses acc))
      in r\<lparr>r_fs := (case results of
                      None \<Rightarrow> fs1
                    | Some cs \<Rightarrow> snd (store_conv_add_tool_results fs1 conv
                                   (zip (map ta_id (acc_tools acc)) (map Some cs))))\<rparr>)"

definition end_turn :: "agent \<Rightarrow> sse_accum \<Rightarrow> run \<Rightarrow> turn_end \<times> run" where
  "end_turn ag acc r =
     (let reason = acc_stop_reason acc in
      if reason = Some ''error'' then (Return (- 1), r)
      else if reason = Some ''max_tokens'' \<or> reason = Some ''length''
      then (Return (- 1), show_error ag ''Response truncated (max_tokens reached)'' r)
      else let r1 = (case reason of None \<Rightarrow> r | Some t \<Rightarrow> show_stop ag t r) in
        if tool_stop reason then (if r_interrupted r1 then Break else Continue, r1)
        else (case agent_drain_sub_results ag r1 of
                (n, r2) \<Rightarrow> (if 0 < n \<and> \<not> r_interrupted r2 then Continue else Break, r2)))"

definition finish_turn :: "agent \<Rightarrow> sse_accum \<Rightarrow> run \<Rightarrow> turn_end \<times> run" where
  "finish_turn ag acc r =
     (case run_tools ag acc (note_reply ag acc r) of
        (results, r1) \<Rightarrow> end_turn ag acc (save_reply ag acc results r1))"

definition verbose_text :: "agent \<Rightarrow> string \<Rightarrow> string" where
  "verbose_text ag body =
     (if ag_verbose ag then
        ''[verbose] Request body ('' @ nat_dec (length body div 1024) @ ''KB): '' @ take 200 body
        @ (if 200 < length body then ''...'' else []) @ [LF]
      else [])"

definition agent_turn :: "agent \<Rightarrow> run \<Rightarrow> turn_end \<times> run" where
  "agent_turn ag r0 =
     (let r1 = snd (agent_drain_sub_results ag (r0\<lparr>r_interrupted := False\<rparr>));
          r2 = snd (agent_compact_context ag ''auto'' r1) in
      case store_conv_line_count (r_fs r2) (sp_conversation (ag_paths ag)) of
        (rc, lines) \<Rightarrow>
          if rc \<noteq> 0 then (Return (- 1), r2)
          else case build_claude_request (r_fs r2) (ag_model ag) (Some (system_prompt ag r2)) (Some (ag_tools_json ag))
                      (map Some lines) (ag_max_tokens ag) (ag_thinking ag) (ag_effort ag) (ag_vision ag) of
            None \<Rightarrow> (Return (- 1), show_stop ag ''error'' (show_error ag ''Failed to build messages'' r2))
          | Some claude_body \<Rightarrow>
              (let body = for_provider ag claude_body; r3 = r2\<lparr>r_err := r_err r2 @ verbose_text ag body\<rparr> in
               case send_request ag True body r3 of
                 (sse_rc, events, r4) \<Rightarrow>
                   (case foldl (stream_display_callback ag) (sse_accum_init, r4) events of
                      (acc, r5) \<Rightarrow>
                        if sse_rc \<noteq> 0 then
                          (if r_interrupted r5 then (Return 0, show_stop ag ''interrupted'' r5)
                           else (Return (- 1),
                                 show_stop ag ''error'' (show_error ag (opt_default ''HTTP request failed'' (acc_error acc)) r5)))
                        else (case acc_error acc of
                            Some e \<Rightarrow> (Return (- 1), show_stop ag ''error'' (show_error ag e r5))
                          | None \<Rightarrow> finish_turn ag acc r5))))"

section \<open>The loop over turns\<close>

text \<open>At most \<open>n\<close> more turns; \<open>turn\<close> counts those begun.\<close>

fun agent_turns :: "agent \<Rightarrow> nat \<Rightarrow> int \<Rightarrow> run \<Rightarrow> turn_end \<times> int \<times> run" where
  "agent_turns ag 0 turn r = (Break, turn, r)"
| "agent_turns ag (Suc n) turn r =
     (case agent_turn ag r of
        (Continue, r1) \<Rightarrow> agent_turns ag n (turn + 1) r1
      | (e, r1) \<Rightarrow> (e, turn + 1, r1))"

definition GOAL_JUDGE :: string where
  "GOAL_JUDGE =
     ''You are the goal-completion judge. Review the conversation above against the goal below.''
     @ '' If the goal has been fully achieved, reply with the single literal token GOAL_DONE ''
     @ [CHR 0xE2, CHR 0x80, CHR 0x94]
     @ '' exactly as written (uppercase, with the underscore).. If the goal has NOT been fully ac''
     @ ''hieved, reply instead with one short actionable instruction for what remains (it will be''
     @ '' sent to the agent as its next task). Goal: ''"

text \<open>The text of the judge without blanks and punctuation, in capitals; when nothing is left the buffer
  is NULL and \<open>strcmp\<close> reads it: \<open>JudgeFault\<close>.\<close>

definition judge_norm :: "string \<Rightarrow> string" where
  "judge_norm t = map toupper (filter (\<lambda>c. \<not> isspace c \<and> \<not> ispunct c) t)"

datatype verdict = JudgeFailed | JudgeFault | JudgeDone | JudgeAgain string

definition goal_usage :: "agent \<Rightarrow> sse_accum \<Rightarrow> run \<Rightarrow> run" where
  "goal_usage ag acc r =
     (let i = acc_in_tokens acc; out = acc_out_tokens acc; cr = acc_cache_read_tokens acc; cc = acc_cache_creation_tokens acc in
      if 0 < i \<or> 0 < out \<or> 0 < cr \<or> 0 < cc
      then append_event ag (usage_text i out cr cc @ '',\"kind\":\"goal\"}'') r else r)"

definition agent_goal_judge :: "agent \<Rightarrow> run \<Rightarrow> verdict \<times> run" where
  "agent_goal_judge ag r =
     (case store_conv_line_count (r_fs r) (sp_conversation (ag_paths ag)) of
        (rc, lines) \<Rightarrow>
          if rc \<noteq> 0 then (JudgeFailed, r)
          else case side_request ag r lines (GOAL_JUDGE @ opt_default [] (ag_goal ag)) 200 of
            None \<Rightarrow> (JudgeFailed, r)
          | Some body \<Rightarrow>
              (case send_request ag False (for_provider ag body) r of
                 (rc', events, r1) \<Rightarrow>
                   let acc = accumulate sse_accum_init events in
                   if rc' \<noteq> 0 \<or> sb_len (acc_text acc) = 0 then (JudgeFailed, r1)
                   else (if judge_norm (sb_str (acc_text acc)) = [] then JudgeFault
                         else if judge_norm (sb_str (acc_text acc)) = ''GOAL_DONE'' then JudgeDone
                         else JudgeAgain (sb_str (acc_text acc)),
                         goal_usage ag acc r1)))"

text \<open>\<open>mq_push\<close> on the agent's own input queue.  The terminal thread may have closed the queue by then: a
  closed queue refuses the message, which is freed.  \<open>r_closed\<close> says for each push whether it is.\<close>

definition queue_input :: "input_message \<Rightarrow> run \<Rightarrow> run" where
  "queue_input m r =
     (case r_closed r of
        [] \<Rightarrow> r\<lparr>r_inputq := r_inputq r @ [m]\<rparr>
      | c # cs \<Rightarrow> if c then r\<lparr>r_closed := cs\<rparr> else r\<lparr>r_closed := cs, r_inputq := r_inputq r @ [m]\<rparr>)"

definition judge_goal :: "agent \<Rightarrow> run \<Rightarrow> int \<times> run" where
  "judge_goal ag r =
     (case agent_goal_judge ag r of
        (JudgeFailed, r1) \<Rightarrow> (- 1, show_error ag ''goal check failed'' r1)
      | (JudgeFault, r1) \<Rightarrow> (0, mark_crash True r1)
      | (JudgeDone, r1) \<Rightarrow> (0, show_stop ag ''goal_done'' r1)
      | (JudgeAgain t, r1) \<Rightarrow>
          (let r2 = push_display_event ag (display_msg_user_notify (Some (''[goal] '' @ t))) r1
           in (0, queue_input (MSG_USER_INPUT (Some t)) r2)))"

definition finish_loop :: "agent \<Rightarrow> int \<Rightarrow> run \<Rightarrow> int \<times> run" where
  "finish_loop ag turn r =
     (let r1 = (if ag_max_turns ag \<le> turn
                then show_error ag (''Max turns ('' @ int_dec (ag_max_turns ag) @ '') reached'') r else r)
      in if nonempty_opt (ag_goal ag) \<and> \<not> r_interrupted r1 \<and> turn < ag_max_turns ag then judge_goal ag r1 else (0, r1))"

definition run_turns :: "agent \<Rightarrow> run \<Rightarrow> int \<times> run" where
  "run_turns ag r =
     (case agent_turns ag (nat (ag_max_turns ag)) 0 r of
        (Return rc, turn, r1) \<Rightarrow> (rc, r1)
      | (_, turn, r1) \<Rightarrow> finish_loop ag turn r1)"

text \<open>What precedes the turns: the event and the line of the user's message, the turn counter, the first
  event of a session.\<close>

definition typed :: "string option \<Rightarrow> bool" where
  "typed turn_kind \<longleftrightarrow> turn_kind = None \<or> turn_kind = Some ''user_input''"

definition begin_loop :: "agent \<Rightarrow> string option \<Rightarrow> string option \<Rightarrow> run \<Rightarrow> run" where
  "begin_loop ag user_input turn_kind r0 =
     (let t = opt_default [] user_input;
          r1 = (if typed turn_kind then append_event ag (''{\"type\":\"user_input\",\"content\":'' @ json_quote t @ ''}'') r0 else r0);
          expanded = (if typed turn_kind \<and> str_contains t IMAGE_TAG
                      then agent_image_expand_placeholders (r_fs r1) (ag_paths ag) t else t);
          r2 = r1\<lparr>r_interrupted := False\<rparr>;
          r3 = (if turn_kind = Some ''notify'' then r2 else conv_add_user ag expanded r2);
          r4 = agent_update_title ag (stats_bump ag ''current_turn_count'' 1 r3)
      in if snd (store_conv_line_count (r_fs r4) (sp_events (ag_paths ag))) = []
         then append_event ag (''{\"type\":\"session_start\",\"session_id\":'' @ json_quote (ag_session_id ag) @ ''}'') r4
         else r4)"

definition agent_loop :: "agent \<Rightarrow> string option \<Rightarrow> string option \<Rightarrow> run \<Rightarrow> int \<times> run" where
  "agent_loop ag user_input turn_kind r =
     (let is_notify = (turn_kind = Some ''notify'') in
      if \<not> nonempty_opt user_input \<and> \<not> is_notify then (0, r)
      else case (if is_notify then agent_drain_sub_results ag r else (1, r)) of
        (n, r1) \<Rightarrow> if n \<le> 0 then (0, r1) else run_turns ag (begin_loop ag user_input turn_kind r1))"

definition agent_run_loop :: "agent \<Rightarrow> string option \<Rightarrow> string option \<Rightarrow> run \<Rightarrow> int \<times> run" where
  "agent_run_loop ag user_input turn_kind r =
     (case agent_loop ag user_input turn_kind r of (rc, r1) \<Rightarrow> (rc, update_title_status ag (Some ''idle'') r1))"

section \<open>Waiting and the main loop\<close>

text \<open>\<open>agent_wait_for_sub_agents\<close> over the messages the queue delivers before it is closed.\<close>

fun wait_loop :: "agent \<Rightarrow> input_message list \<Rightarrow> run \<Rightarrow> run" where
  "wait_loop ag [] r = r"
| "wait_loop ag (m # ms) r =
     (if r_active r \<le> 0 then r
      else case process_result ag m r of
        None \<Rightarrow> wait_loop ag ms r
      | Some (ctx, kind, r1) \<Rightarrow> wait_loop ag ms (snd (agent_run_loop ag (Some ctx) (Some kind) r1)))"

definition agent_wait_for_sub_agents :: "agent \<Rightarrow> input_message list \<Rightarrow> run \<Rightarrow> int \<times> run" where
  "agent_wait_for_sub_agents ag ms r =
     (let r1 = wait_loop ag ms r in (if 0 < r_active r1 then - 1 else 0, r1))"

text \<open>One message of the input queue; \<open>ms\<close> are the results that arrive while a run that is not
  interactive waits.\<close>

definition handle_input :: "agent \<Rightarrow> input_message list \<Rightarrow> input_message \<Rightarrow> run \<Rightarrow> run" where
  "handle_input ag ms m r =
     (case m of
        MSG_USER_INPUT t \<Rightarrow>
          (let r1 = snd (agent_run_loop ag t (Some ''user_input'') (r\<lparr>r_interrupted := False\<rparr>))
           in if ag_interactive ag then r1 else snd (agent_wait_for_sub_agents ag ms r1))
      | MSG_NOTIFY_PENDING \<Rightarrow> snd (agent_run_loop ag (Some []) (Some ''notify'') (r\<lparr>r_interrupted := False\<rparr>))
      | _ \<Rightarrow> r)"

text \<open>The main loop takes the first message of the queue, to which the goal judge may have appended; each
  element of \<open>script\<close> is what arrives from outside during one pass: input, and results. It ends with
  the script (the queue is closed), or as soon as a run that is not interactive has nothing left.\<close>

fun agent_main_loop :: "agent \<Rightarrow> (input_message list \<times> input_message list) list \<Rightarrow> run \<Rightarrow> run" where
  "agent_main_loop ag [] r = r"
| "agent_main_loop ag ((inp, ms) # script) r =
     (case r_inputq r @ inp of
        [] \<Rightarrow> agent_main_loop ag script r
      | m # q \<Rightarrow>
          (let r1 = handle_input ag ms m (r\<lparr>r_inputq := q\<rparr>)
           in if r_crashed r1 \<or> \<not> ag_interactive ag \<and> r_active r1 \<le> 0 \<and> r_inputq r1 = [] then r1
              else agent_main_loop ag script r1))"

end
