(* ===== verification/AgentFrames.thy ===== *)
theory AgentFrames
  imports AgentLoop
begin

text \<open>
  What the steps of a run leave alone.  A view of the run that does not look at the files, the screen,
  the counters and the like is the same after every step that makes no request (\<open>run_view\<close>); when
  requests and the goal judge do not change it either, it is the same after a whole run
  (\<open>quiet_view\<close>).  Properties of a run as a whole are views.
\<close>

section \<open>Steps without a request\<close>

locale run_view =
  fixes ag :: agent and view :: "run \<Rightarrow> 'a"
  assumes view_fs [simp]: "view (r_fs_update f0 r) = view r"
    and view_display [simp]: "view (r_display_update f1 r) = view r"
    and view_out [simp]: "view (r_out_update f2 r) = view r"
    and view_err [simp]: "view (r_err_update f2 r) = view r"
    and view_subq [simp]: "view (r_subq_update f3 r) = view r"
    and view_arrivals [simp]: "view (r_arrivals_update f4 r) = view r"
    and view_active [simp]: "view (r_active_update f5 r) = view r"
    and view_context [simp]: "view (r_last_context_update f5 r) = view r"
    and view_last_in [simp]: "view (r_last_in_update f5 r) = view r"
    and view_last_out [simp]: "view (r_last_out_update f5 r) = view r"
    and view_cache_read [simp]: "view (r_last_cache_read_update f5 r) = view r"
    and view_cache_creation [simp]: "view (r_last_cache_creation_update f5 r) = view r"
    and view_start_ms [simp]: "view (r_last_start_ms_update f5 r) = view r"
    and view_end_ms [simp]: "view (r_last_end_ms_update f5 r) = view r"
    and view_interrupted [simp]: "view (r_interrupted_update f6 r) = view r"
    and view_ids [simp]: "view (r_ids_update f7 r) = view r"
    and view_crashed [simp]: "view (r_crashed_update f6 r) = view r"
    and view_bash [simp]: "view (snd (spawn (BashTask cmd task_id) r)) = view r"
    and view_sub_task: "ag_sub_agent_depth ag < 1 \<Longrightarrow> view (snd (spawn (SubAgentTask sid p d fork) r)) = view r"
begin

lemma view_events [simp]:
  "view (append_event ag e r) = view r" "view (display_only_push ag m r) = view r"
  "view (stats_set ag k v r) = view r" "view (stats_bump ag k v r) = view r"
  "view (update_title_status ag s r) = view r" "view (agent_update_title ag r) = view r"
  "view (conv_add_user ag t r) = view r" "view (mark_crash b r) = view r"
  by (simp_all add: append_event_def display_only_push_def stats_set_def stats_bump_def update_title_status_def
      agent_update_title_def conv_add_user_def mark_crash_def split: prod.split)

lemma view_shown [simp]:
  "view (push_display_event ag m r) = view r" "view (show_error ag t r) = view r" "view (show_stop ag t r) = view r"
  "view (add_token_totals ag a b c d r) = view r"
  by (simp_all add: push_display_event_def show_error_def show_stop_def add_token_totals_def split: option.split)

lemma view_usage [simp]:
  "view (compact_usage ag acc r) = view r" "view (goal_usage ag acc r) = view r" "view (compact_failed ag rc acc r) = view r"
  by (simp_all add: compact_usage_def goal_usage_def compact_failed_def Let_def)

lemma view_compact_done [simp]: "view (compact_done ag t keep n acc r) = view r"
  by (simp add: compact_done_def Let_def)

lemma view_sub_result [simp]: "view (agent_handle_sub_agent_result ag res r) = view r"
  by (simp add: agent_handle_sub_agent_result_def Let_def)

lemma view_process: "process_result ag m r = Some (c, k, r') \<Longrightarrow> view r' = view r"
  by (auto simp: process_result_def Let_def split: input_message.splits)

lemma view_process_sub [simp]: "view (snd (agent_process_sub_result ag m r)) = view r"
  by (auto simp: agent_process_sub_result_def dest: view_process split: option.split)

lemma view_drain_fold: "view (snd (foldl (drain_step ag) st ms)) = view (snd st)"
proof (induction ms arbitrary: st)
  case (Cons m ms)
  have "view (snd (drain_step ag st m)) = view (snd st)"
    using view_process_sub [of m "snd st"] by (cases "agent_process_sub_result ag m (snd st)") (simp add: drain_step_def)
  with Cons show ?case by simp
qed simp

lemma view_drain [simp]: "view (snd (agent_drain_sub_results ag r)) = view r"
  by (simp add: agent_drain_sub_results_def Let_def view_drain_fold split: list.split)

lemma view_stream [simp]: "view (snd (foldl (stream_display_callback ag) st evs)) = view (snd st)"
proof (induction evs arbitrary: st)
  case (Cons e evs)
  have "view (snd (stream_display_callback ag st e)) = view (snd st)"
    by (cases st) (simp add: stream_display_callback_def Let_def split: sse_type.split)
  with Cons show ?case by simp
qed simp

lemma view_calls [simp]: "view (foldl (show_call ag) r tcs) = view r"
proof (induction tcs arbitrary: r)
  case (Cons t tcs)
  have "view (show_call ag r t) = view r" by (simp add: show_call_def Let_def)
  with Cons show ?case by simp
qed simp

lemma view_note [simp]: "view (note_reply ag acc r) = view r"
proof -
  have u: "view (note_usage ag acc x) = view x" for x by (simp add: note_usage_def Let_def)
  have "view (note_speed ag acc x) = view x" for x by (simp add: note_speed_def Let_def)
  with u show ?thesis by (simp add: note_reply_def Let_def)
qed

lemma view_next_id [simp]: "view (snd (next_id r)) = view r"
  by (simp add: next_id_def split: list.split)

lemma view_sub_agent [simp]: "view (snd (agent_handle_sub_agent ag p d f r)) = view r"
  using view_next_id [of r] by (auto simp: agent_handle_sub_agent_def Let_def case_prod_beta view_sub_task)

lemma view_call [simp]: "view (snd (run_call ag tc r)) = view r"
  by (simp add: run_call_def Let_def start_async_def dispatch_def case_prod_beta)

lemma view_run_one [simp]: "view (snd (run_one ag tc r)) = view r"
  by (simp add: run_one_def Let_def case_prod_beta)

lemma view_run_all [simp]: "view (snd (run_all ag tcs r)) = view r"
  by (induction tcs arbitrary: r) (simp_all add: case_prod_beta)

lemma view_save [simp]: "view (save_reply ag acc res r) = view r"
  by (simp add: save_reply_def Let_def)

lemma view_end [simp]: "view (snd (end_turn ag acc r)) = view r"
  by (simp add: end_turn_def Let_def case_prod_beta split: option.split)

lemma view_begin [simp]: "view (begin_loop ag i k r) = view r"
  by (simp add: begin_loop_def Let_def)

end

section \<open>Whole runs\<close>

locale quiet_view = run_view +
  assumes view_send: "send_request ag u b r = (rc, evs, r') \<Longrightarrow> view r' = view r"
    and view_inputq [simp]: "view (r_inputq_update f3 r) = view r"
    and view_closed [simp]: "view (r_closed_update f4 r) = view r"
begin

lemma view_queue_input [simp]: "view (queue_input m r) = view r"
  by (simp add: queue_input_def split: list.split)

lemma view_compact [simp]: "view (snd (agent_compact_context ag t r)) = view r"
  by (auto simp: agent_compact_context_def Let_def dest: view_send split: compact_choice.split option.split prod.split)

lemma view_plan [simp]: "view (plan_compact ag tcs r) = view r"
  by (induction tcs) (simp_all add: confirm_plan_def clear_plan_def Let_def split: option.split)

lemma view_finish_turn [simp]: "view (snd (finish_turn ag acc r)) = view r"
  by (simp add: finish_turn_def run_tools_def case_prod_beta)

lemma view_sent [simp]: "view (snd (snd (send_request ag u b r))) = view r"
  using view_send by (cases "send_request ag u b r") auto

lemma view_turn [simp]: "view (snd (agent_turn ag r)) = view r"
  by (simp add: agent_turn_def Let_def case_prod_beta split: option.split)

lemma view_turns [simp]: "view (snd (snd (agent_turns ag n t r))) = view r"
proof (induction n arbitrary: t r)
  case (Suc n)
  have "view (snd (agent_turn ag r)) = view r" by simp
  then show ?case by (cases "agent_turn ag r") (simp add: Suc split: turn_end.split)
qed simp

lemma view_judge: "agent_goal_judge ag r = (v, r') \<Longrightarrow> view r' = view r"
  by (auto simp: agent_goal_judge_def Let_def dest!: view_send split: prod.splits option.splits if_splits)

lemma view_judge_goal [simp]: "view (snd (judge_goal ag r)) = view r"
  by (auto simp: judge_goal_def Let_def dest: view_judge split: prod.split verdict.split)

lemma view_run_turns [simp]: "view (snd (run_turns ag r)) = view r"
proof -
  have f: "view (snd (finish_loop ag t x)) = view x" for t x by (simp add: finish_loop_def Let_def)
  obtain e t x where a: "agent_turns ag (nat (ag_max_turns ag)) 0 r = (e, t, x)"
    by (cases "agent_turns ag (nat (ag_max_turns ag)) 0 r")
  then have "view x = view r" using view_turns [of "nat (ag_max_turns ag)" 0 r] by simp
  with f a show ?thesis by (simp add: run_turns_def split: turn_end.split)
qed

lemma view_loop [simp]: "view (snd (agent_loop ag i k r)) = view r"
  by (simp add: agent_loop_def Let_def case_prod_beta)

lemma view_run_loop [simp]: "view (snd (agent_run_loop ag i k r)) = view r"
  by (simp add: agent_run_loop_def case_prod_beta)

lemma view_wait [simp]: "view (wait_loop ag ms r) = view r"
proof (induction ms arbitrary: r)
  case (Cons m ms)
  then show ?case by (auto dest: view_process split: option.split)
qed simp

lemma view_wait_for [simp]: "view (snd (agent_wait_for_sub_agents ag ms r)) = view r"
  by (simp add: agent_wait_for_sub_agents_def Let_def)

lemma view_handle [simp]: "view (handle_input ag ms m r) = view r"
  by (simp add: handle_input_def Let_def split: input_message.split)

lemma view_main [simp]: "view (agent_main_loop ag script r) = view r"
proof (induction script arbitrary: r)
  case (Cons x script)
  then show ?case by (cases x) (simp add: Let_def split: list.split)
qed simp

end

end
