(* ===== verification/AgentRequests.thy ===== *)
theory AgentRequests
  imports AgentFrames
begin

text \<open>
  What only a request may change: how many requests a run over turns makes, and what the goal judge
  does to the input queue.
\<close>

section \<open>The tapes: requests, replies and the input queue\<close>

text \<open>Only a request touches the replies and the record of requests, only the goal judge the input
  queue: they are a view that every other step leaves alone.\<close>

definition tapes :: "run \<Rightarrow> (string \<times> string list \<times> string) list \<times> llm_outcome list \<times> input_message list \<times> bool list" where
  "tapes r = (r_requests r, r_replies r, r_inputq r, r_closed r)"

interpretation tp: run_view ag tapes for ag
  by unfold_locales (auto simp: tapes_def spawn_def split: list.split)

lemma tapes_fs_out [simp]: "tapes (r\<lparr>r_fs := fs, r_out := out\<rparr>) = tapes r"
  by simp

section \<open>How many requests a run makes\<close>

definition more_requests :: "nat \<Rightarrow> run \<Rightarrow> run \<Rightarrow> bool" where
  "more_requests n r r' \<longleftrightarrow> length (r_requests r') \<le> length (r_requests r) + n \<and> r_inputq r' = r_inputq r
     \<and> r_closed r' = r_closed r"

lemma more_requests_tapes: "tapes r' = tapes r \<Longrightarrow> more_requests n r r'"
  by (simp add: more_requests_def tapes_def)

lemma more_requests_before: "more_requests n r x \<Longrightarrow> tapes r = tapes r0 \<Longrightarrow> more_requests n r0 x"
  by (simp add: more_requests_def tapes_def)

lemma more_requests_trans: "more_requests m a b \<Longrightarrow> more_requests n b c \<Longrightarrow> more_requests (m + n) a c"
  by (simp add: more_requests_def)

lemma more_requests_send: "send_request ag u b r = (rc, evs, r') \<Longrightarrow> more_requests 1 r r'"
  by (auto simp: send_request_def more_requests_def Let_def split: list.splits)

lemma more_requests_after: "more_requests n r x \<Longrightarrow> tapes y = tapes x \<Longrightarrow> more_requests n r y"
  by (simp add: more_requests_def tapes_def)

lemma compact_requests: "more_requests 1 r (snd (agent_compact_context ag t r))"
proof (cases "compact_choose ag t r")
  case (Skip x)
  then show ?thesis by (simp add: agent_compact_context_def more_requests_def)
next
  case (KeepLines keep lines)
  show ?thesis
  proof (cases "side_request ag r (take (nat (int (length lines) - keep)) lines) (summary_instruction ag r) (ag_max_tokens ag)")
    case None
    with KeepLines show ?thesis by (simp add: agent_compact_context_def more_requests_tapes)
  next
    case (Some body)
    obtain rc evs r1 where s: "send_request ag True (for_provider ag body) r = (rc, evs, r1)"
      by (cases "send_request ag True (for_provider ag body) r")
    have "tapes (snd (agent_compact_context ag t r)) = tapes r1"
      using KeepLines Some s by (simp add: agent_compact_context_def Let_def)
    with more_requests_send [OF s] show ?thesis by (rule more_requests_after)
  qed
qed

lemma plan_requests: "more_requests 1 r (plan_compact ag tcs r)"
proof (induction tcs)
  case (Cons tc tcs)
  have "more_requests 1 r (confirm_plan ag r)"
    by (rule more_requests_after [OF compact_requests [of r ag "''plan_confirm''"]])
      (simp add: confirm_plan_def Let_def split: option.split)
  moreover have "more_requests 1 r (clear_plan ag r)"
    by (rule more_requests_after [OF compact_requests [of r ag "''plan_clear''"]]) (simp add: clear_plan_def Let_def)
  ultimately have "more_requests 1 r (confirm_plan ag r)" "more_requests 1 r (clear_plan ag r)" by blast+
  with Cons show ?case by simp
qed (simp add: more_requests_def)

lemma finish_turn_requests: "more_requests 1 r (snd (finish_turn ag acc r))"
proof -
  have "more_requests 1 r (snd (run_tools ag acc (note_reply ag acc r)))"
  proof -
    obtain cs r1 where a: "run_all ag (acc_tools acc) (note_reply ag acc r) = (cs, r1)"
      by (cases "run_all ag (acc_tools acc) (note_reply ag acc r)")
    have "tapes r1 = tapes r" using tp.view_run_all [of ag "acc_tools acc" "note_reply ag acc r"] a by simp
    then have "more_requests 1 r (plan_compact ag (acc_tools acc) r1)"
      by (rule more_requests_before [OF plan_requests])
    then show ?thesis using a by (simp add: run_tools_def more_requests_tapes)
  qed
  moreover have "tapes (snd (finish_turn ag acc r)) = tapes (snd (run_tools ag acc (note_reply ag acc r)))"
    by (simp add: finish_turn_def case_prod_beta)
  ultimately show ?thesis by (rule more_requests_after)
qed

lemma agent_turn_requests: "more_requests 3 r (snd (agent_turn ag r))"
proof -
  define r1 r2 where "r1 = snd (agent_drain_sub_results ag (r\<lparr>r_interrupted := False\<rparr>))"
    and "r2 = snd (agent_compact_context ag ''auto'' r1)"
  have 1: "tapes r1 = tapes r" by (simp add: r1_def)
  have 2: "more_requests 1 r r2" using more_requests_before [OF compact_requests 1] by (simp add: r2_def)
  have w: "more_requests 3 r x" if "more_requests n r2 x" "n \<le> 2" for x n
    using more_requests_trans [OF 2 that(1)] that(2) by (simp add: more_requests_def)
  obtain rc lines where l: "store_conv_line_count (r_fs r2) (sp_conversation (ag_paths ag)) = (rc, lines)"
    by (cases "store_conv_line_count (r_fs r2) (sp_conversation (ag_paths ag))")
  note unf = agent_turn_def r1_def [symmetric] r2_def [symmetric] Let_def l prod.case
  show ?thesis
  proof (cases "rc = 0")
    case False
    then show ?thesis unfolding unf using w [OF more_requests_tapes [OF refl, of 0]] by simp
  next
    case rc: True
    show ?thesis
    proof (cases "build_claude_request (r_fs r2) (ag_model ag) (Some (system_prompt ag r2)) (Some (ag_tools_json ag))
                      (map Some lines) (ag_max_tokens ag) (ag_thinking ag) (ag_effort ag) (ag_vision ag)")
      case None
      then show ?thesis unfolding unf using rc w [OF more_requests_tapes, of _ 0] by simp
    next
      case (Some body)
      define r3 where "r3 = r2\<lparr>r_err := r_err r2 @ verbose_text ag (for_provider ag body)\<rparr>"
      obtain rc' evs r4 where s: "send_request ag True (for_provider ag body) r3 = (rc', evs, r4)"
        by (cases "send_request ag True (for_provider ag body) r3")
      obtain acc r5 where f: "foldl (stream_display_callback ag) (sse_accum_init, r4) evs = (acc, r5)"
        by (cases "foldl (stream_display_callback ag) (sse_accum_init, r4) evs")
      have "tapes r3 = tapes r2" by (simp add: r3_def)
      moreover have "tapes r5 = tapes r4" using tp.view_stream [of ag "(sse_accum_init, r4)" evs] f by simp
      ultimately have 5: "more_requests 1 r2 r5"
        using more_requests_before [OF more_requests_after [OF more_requests_send [OF s]]] by blast
      then have "more_requests 2 r2 (snd (finish_turn ag acc r5))"
        using more_requests_trans [OF 5 finish_turn_requests] by (simp add: numeral_2_eq_2)
      then have fin: "more_requests 3 r (snd (finish_turn ag acc r5))" by (rule w) simp
      have other: "more_requests 3 r x" if "tapes x = tapes r5" for x
        using w [OF more_requests_after [OF 5 that]] by simp
      show ?thesis unfolding unf using rc Some fin
        by (simp add: r3_def [symmetric] s f other split: option.split)
    qed
  qed
qed

lemma agent_turns_requests: "more_requests (3 * n) r (snd (snd (agent_turns ag n t r)))"
proof (induction n arbitrary: t r)
  case (Suc n)
  obtain e r1 where t: "agent_turn ag r = (e, r1)" by (cases "agent_turn ag r")
  have 1: "more_requests 3 r r1" using agent_turn_requests [of r ag] t by simp
  then have 2: "more_requests (3 * Suc n) r (snd (snd (agent_turns ag n (t + 1) r1)))"
    using more_requests_trans [OF 1 Suc] by simp
  have "more_requests (3 * Suc n) r r1" using 1 by (simp add: more_requests_def)
  with 2 t show ?case by (simp split: turn_end.split)
qed (simp add: more_requests_def)

lemma judge_requests:
  assumes "agent_goal_judge ag r = (v, r')" shows "more_requests 1 r r'"
proof -
  obtain rc lines where l: "store_conv_line_count (r_fs r) (sp_conversation (ag_paths ag)) = (rc, lines)"
    by (cases "store_conv_line_count (r_fs r) (sp_conversation (ag_paths ag))")
  show ?thesis
  proof (cases "rc = 0")
    case False
    then show ?thesis using assms l by (simp add: agent_goal_judge_def more_requests_tapes)
  next
    case rc: True
    show ?thesis
    proof (cases "side_request ag r lines (GOAL_JUDGE @ opt_default [] (ag_goal ag)) 200")
      case None
      then show ?thesis using assms rc l by (simp add: agent_goal_judge_def more_requests_tapes)
    next
      case (Some body)
      obtain rc' evs r1 where s: "send_request ag False (for_provider ag body) r = (rc', evs, r1)"
        by (cases "send_request ag False (for_provider ag body) r")
      have "tapes r' = tapes r1"
        using assms rc Some s l by (auto simp: agent_goal_judge_def Let_def split: if_splits)
      with more_requests_send [OF s] show ?thesis by (rule more_requests_after)
    qed
  qed
qed

text \<open>
  C23: A run over turns makes a bounded number of requests, whatever the model answers: at most three in
  each turn (a compaction before it, the reply, a compaction for the plan) and one of the goal judge.
\<close>

theorem requests_bounded:
  "length (r_requests (snd (run_turns ag r))) \<le> length (r_requests r) + 3 * nat (ag_max_turns ag) + 1"
proof -
  obtain e t r1 where a: "agent_turns ag (nat (ag_max_turns ag)) 0 r = (e, t, r1)"
    by (cases "agent_turns ag (nat (ag_max_turns ag)) 0 r")
  have 1: "more_requests (3 * nat (ag_max_turns ag)) r r1"
    using agent_turns_requests [of "nat (ag_max_turns ag)" r ag 0] a by simp
  have j: "length (r_requests (snd (judge_goal ag x))) \<le> length (r_requests x) + 1" for x
  proof -
    obtain v x1 where v: "agent_goal_judge ag x = (v, x1)" by (cases "agent_goal_judge ag x")
    have "r_requests (snd (judge_goal ag x)) = r_requests x1"
    proof -
      have "tapes (push_display_event ag m x1) = tapes x1" "tapes (show_error ag t x1) = tapes x1"
        "tapes (mark_crash True x1) = tapes x1" for m t by simp_all
      then show ?thesis by (auto simp: judge_goal_def v Let_def tapes_def show_stop_def queue_input_def split: verdict.split list.split)
    qed
    then show ?thesis using judge_requests [OF v] by (simp add: more_requests_def)
  qed
  have f: "length (r_requests (snd (finish_loop ag t r1))) \<le> length (r_requests r1) + 1"
  proof -
    have "tapes (show_error ag s r1) = tapes r1" for s by simp
    then have "r_requests (show_error ag s r1) = r_requests r1" for s by (simp add: tapes_def)
    then show ?thesis using j [of r1] j [of "show_error ag (''Max turns ('' @ int_dec (ag_max_turns ag) @ '') reached'') r1"]
      by (simp add: finish_loop_def Let_def)
  qed
  show ?thesis using 1 f a by (simp add: run_turns_def more_requests_def split: turn_end.split)
qed

section \<open>The goal judge\<close>

lemma norm_no_underscore: "CHR ''_'' \<notin> set (judge_norm t)"
proof -
  have "ispunct c" if "toupper c = CHR ''_''" for c
  proof -
    have "ord (toupper c) = 95" using that by (simp add: ord_def)
    then have "\<not> islower c" by (auto simp: toupper_def islower_def ord_def)
    with that have c: "c = CHR ''_''" by (simp add: toupper_def)
    have "ispunct (CHR ''_'')" by code_simp
    then show ?thesis by (simp only: c)
  qed
  from this [OF sym] show ?thesis by (auto simp: judge_norm_def)
qed

text \<open>The verdict that the goal is done is never reached, for no reply of the model.\<close>

lemma judge_never_done: "fst (agent_goal_judge ag r) \<noteq> JudgeDone"
proof -
  have "judge_norm t \<noteq> ''GOAL_DONE''" for t using norm_no_underscore [of t] by auto
  then show ?thesis by (simp add: agent_goal_judge_def Let_def split: prod.split option.split)
qed

text \<open>
  What becomes of an answer of the judge: its text is queued word for word as the next message of the
  user, also when it is \<open>GOAL_DONE\<close>, for the underscore is punctuation and is dropped before the
  comparison with a text that has one.
\<close>

lemma goal_reply_queued:
  assumes "agent_goal_judge ag r = (v, r1)" "v \<noteq> JudgeFailed" "v \<noteq> JudgeFault" "r_closed r = [] \<or> \<not> hd (r_closed r)"
  shows "\<exists>lines body events. store_conv_line_count (r_fs r) (sp_conversation (ag_paths ag)) = (0, lines)
    \<and> side_request ag r lines (GOAL_JUDGE @ opt_default [] (ag_goal ag)) 200 = Some body
    \<and> fst (snd (send_request ag False (for_provider ag body) r)) = events
    \<and> fst (judge_goal ag r) = 0
    \<and> r_inputq (snd (judge_goal ag r))
        = r_inputq r @ [MSG_USER_INPUT (Some (sb_str (acc_text (accumulate sse_accum_init events))))]"
proof -
  have q: "r_inputq r1 = r_inputq r" "r_closed r1 = r_closed r" using judge_requests [OF assms(1)] by (simp_all add: more_requests_def)
  have p: "r_inputq (push_display_event ag m r1) = r_inputq r1" "r_closed (push_display_event ag m r1) = r_closed r1" for m
  proof -
    have "tapes (push_display_event ag m r1) = tapes r1" by simp
    then show "r_inputq (push_display_event ag m r1) = r_inputq r1" "r_closed (push_display_event ag m r1) = r_closed r1"
      by (simp_all add: tapes_def)
  qed
  have nd: "judge_norm t \<noteq> ''GOAL_DONE''" for t using norm_no_underscore [of t] by auto
  obtain lines where l: "store_conv_line_count (r_fs r) (sp_conversation (ag_paths ag)) = (0, lines)"
    using assms by (cases "store_conv_line_count (r_fs r) (sp_conversation (ag_paths ag))") (auto simp: agent_goal_judge_def split: if_splits)
  obtain body where b: "side_request ag r lines (GOAL_JUDGE @ opt_default [] (ag_goal ag)) 200 = Some body"
    using assms l by (cases "side_request ag r lines (GOAL_JUDGE @ opt_default [] (ag_goal ag)) 200") (auto simp: agent_goal_judge_def)
  obtain rc events r2 where s: "send_request ag False (for_provider ag body) r = (rc, events, r2)"
    by (cases "send_request ag False (for_provider ag body) r")
  have "v = JudgeAgain (sb_str (acc_text (accumulate sse_accum_init events)))"
    using assms nd by (auto simp: agent_goal_judge_def l b s Let_def split: if_splits)
  then show ?thesis using l b s q p assms(4) by (auto simp: judge_goal_def assms(1) Let_def queue_input_def split: list.split)
qed

end
