(* ===== verification/MsgQueue.thy ===== *)
theory MsgQueue
  imports Prelude
begin

text \<open>
  c/msgqueue.c: the queue between threads.  The linked list is modelled with its nodes in a heap,
  so that the pointer updates of push and pop are the code's; \<open>mq_inv\<close> ties the pointers to the
  list of messages.  The locale \<open>closable_fifo\<close> is the contract the threads rely on, and
  \<open>mq_step\<close> adds the mutex and the condition variable: which thread waits, which has been woken.
\<close>

section \<open>The structure and its operations\<close>

record 'a mqnode =
  node_data :: 'a
  node_next :: "nat option"

record 'a msgqueue =
  mq_head :: "nat option"
  mq_tail :: "nat option"
  mq_count :: int
  mq_closed :: bool
  mq_heap :: "nat \<rightharpoonup> 'a mqnode"

definition mq_init :: "'a msgqueue" where
  "mq_init = \<lparr>mq_head = None, mq_tail = None, mq_count = 0, mq_closed = False, mq_heap = Map.empty\<rparr>"

definition mq_close :: "'a msgqueue \<Rightarrow> 'a msgqueue" where
  "mq_close q = q\<lparr>mq_closed := True\<rparr>"

text \<open>\<open>free\<close> removes a node from the heap; \<open>mq_destroy\<close> frees the nodes from the head on and
  clears the structure.  The fuel is the number of nodes walked.\<close>

fun free_chain :: "nat \<Rightarrow> (nat \<rightharpoonup> 'a mqnode) \<Rightarrow> nat option \<Rightarrow> (nat \<rightharpoonup> 'a mqnode)" where
  "free_chain 0 h p = h"
| "free_chain (Suc n) h None = h"
| "free_chain (Suc n) h (Some p) =
     (case h p of None \<Rightarrow> h | Some nd \<Rightarrow> free_chain n (h(p := None)) (node_next nd))"

definition mq_destroy :: "nat \<Rightarrow> 'a msgqueue \<Rightarrow> 'a msgqueue" where
  "mq_destroy n q =
     \<lparr>mq_head = None, mq_tail = None, mq_count = 0, mq_closed = False,
      mq_heap = free_chain n (mq_heap q) (mq_head q)\<rparr>"

text \<open>
  \<open>mq_push q data node\<close>: \<open>data\<close> is the pointer pushed, \<open>node\<close> what \<open>malloc\<close> returns (\<open>None\<close>
  when it fails).  The result is the return value and the new queue.
\<close>

definition mq_push :: "'a msgqueue \<Rightarrow> 'a option \<Rightarrow> nat option \<Rightarrow> int \<times> 'a msgqueue" where
  "mq_push q data node =
     (case data of
        None \<Rightarrow> (-1, q)
      | Some d \<Rightarrow>
          (case node of
             None \<Rightarrow> (-1, q)
           | Some p \<Rightarrow>
               if mq_closed q then (-1, q)
               else
                 let h = (mq_heap q)(p \<mapsto> \<lparr>node_data = d, node_next = None\<rparr>);
                     q1 = (case mq_tail q of
                             Some t \<Rightarrow> q\<lparr>mq_heap := h(t := map_option (\<lambda>nd. nd\<lparr>node_next := Some p\<rparr>) (h t))\<rparr>
                           | None \<Rightarrow> q\<lparr>mq_heap := h, mq_head := Some p\<rparr>)
                 in (0, q1\<lparr>mq_tail := Some p, mq_count := mq_count q + 1\<rparr>)))"

text \<open>The common end of the two pops: unlink the first node.\<close>

definition mq_take :: "'a msgqueue \<Rightarrow> nat \<Rightarrow> 'a option \<times> 'a msgqueue" where
  "mq_take q p =
     (case mq_heap q p of
        None \<Rightarrow> (None, q)
      | Some nd \<Rightarrow>
          (Some (node_data nd),
           q\<lparr>mq_head := node_next nd,
             mq_tail := (if node_next nd = None then None else mq_tail q),
             mq_count := mq_count q - 1,
             mq_heap := (mq_heap q)(p := None)\<rparr>))"

definition mq_count_get :: "'a msgqueue \<Rightarrow> int" where
  "mq_count_get q = mq_count q"

datatype 'a pop_result = Blocked | PopFailed | Popped 'a

definition mq_pop :: "'a msgqueue \<Rightarrow> 'a pop_result \<times> 'a msgqueue" where
  "mq_pop q =
     (case mq_head q of
        None \<Rightarrow> if mq_closed q then (PopFailed, q) else (Blocked, q)
      | Some p \<Rightarrow>
          (case mq_take q p of
             (None, q') \<Rightarrow> (PopFailed, q')
           | (Some d, q') \<Rightarrow> (Popped d, q')))"

definition mq_try_pop :: "'a msgqueue \<Rightarrow> 'a pop_result \<times> 'a msgqueue" where
  "mq_try_pop q =
     (case mq_head q of
        None \<Rightarrow> (PopFailed, q)
      | Some p \<Rightarrow>
          (case mq_take q p of
             (None, q') \<Rightarrow> (PopFailed, q')
           | (Some d, q') \<Rightarrow> (Popped d, q')))"

section \<open>The invariant\<close>

fun chain :: "(nat \<rightharpoonup> 'a mqnode) \<Rightarrow> nat option \<Rightarrow> (nat \<times> 'a) list \<Rightarrow> bool" where
  "chain h p [] = (p = None)"
| "chain h p ((a, d) # xs) =
     (p = Some a \<and> (\<exists>nx. h a = Some \<lparr>node_data = d, node_next = nx\<rparr> \<and> chain h nx xs))"

definition mq_rep :: "'a msgqueue \<Rightarrow> (nat \<times> 'a) list \<Rightarrow> bool" where
  "mq_rep q xs \<longleftrightarrow>
     chain (mq_heap q) (mq_head q) xs \<and> distinct (map fst xs)
     \<and> mq_tail q = (if xs = [] then None else Some (fst (last xs)))
     \<and> mq_count q = int (length xs) \<and> dom (mq_heap q) = set (map fst xs)"

text \<open>The messages in the queue, read off the heap by following the pointers.\<close>

fun walk :: "nat \<Rightarrow> (nat \<rightharpoonup> 'a mqnode) \<Rightarrow> nat option \<Rightarrow> 'a list" where
  "walk 0 h p = []"
| "walk (Suc n) h None = []"
| "walk (Suc n) h (Some p) =
     (case h p of None \<Rightarrow> [] | Some nd \<Rightarrow> node_data nd # walk n h (node_next nd))"

definition mq_list :: "'a msgqueue \<Rightarrow> 'a list" where
  "mq_list q = walk (nat (mq_count q)) (mq_heap q) (mq_head q)"

definition mq_inv :: "'a msgqueue \<Rightarrow> bool" where
  "mq_inv q \<longleftrightarrow> (\<exists>xs. mq_rep q xs)"

lemma chain_upd_other: "a \<notin> set (map fst xs) \<Longrightarrow> chain (h(a := v)) p xs = chain h p xs"
  by (induction h p xs rule: chain.induct) auto

lemma chain_append_node:
  assumes "chain h p xs" "distinct (map fst xs)" "xs \<noteq> []" "a \<notin> set (map fst xs)"
    "h a = Some \<lparr>node_data = d, node_next = None\<rparr>" "t = fst (last xs)"
  shows "chain (h(t := map_option (\<lambda>nd. nd\<lparr>node_next := Some a\<rparr>) (h t))) p (xs @ [(a, d)])"
  using assms
proof (induction xs arbitrary: p)
  case (Cons x xs)
  obtain b e where x: "x = (b, e)" by (cases x)
  with Cons.prems obtain nx where nx: "h b = Some \<lparr>node_data = e, node_next = nx\<rparr>" "chain h nx xs" "p = Some b"
    by auto
  show ?case
  proof (cases xs)
    case Nil
    with nx x Cons.prems show ?thesis by simp
  next
    case (Cons y ys)
    then have ne: "xs \<noteq> []" and t: "t = fst (last xs)" using Cons.prems(6) by simp_all
    from ne have "t \<in> set (map fst xs)" unfolding t by simp
    then have "b \<noteq> t" using Cons.prems(2) x by auto
    moreover have "chain (h(t := map_option (\<lambda>nd. nd\<lparr>node_next := Some a\<rparr>) (h t))) nx (xs @ [(a, d)])"
      using Cons.prems ne t nx by (intro Cons.IH) auto
    ultimately show ?thesis using nx x by (simp del: fun_upd_apply add: fun_upd_other)
  qed
qed simp

lemma walk_chain: "chain h p xs \<Longrightarrow> length xs \<le> n \<Longrightarrow> walk n h p = map snd xs"
proof (induction xs arbitrary: p n)
  case Nil
  then show ?case by (cases n) auto
next
  case (Cons x xs)
  then show ?case by (cases x; cases n) auto
qed

lemma mq_rep_list: "mq_rep q xs \<Longrightarrow> mq_list q = map snd xs"
  by (simp add: mq_rep_def mq_list_def walk_chain)

lemma mq_rep_init: "mq_rep mq_init []"
  by (simp add: mq_rep_def mq_init_def)

lemma mq_rep_close: "mq_rep (mq_close q) xs = mq_rep q xs"
  by (simp add: mq_rep_def mq_close_def)

lemma mq_rep_push:
  assumes rep: "mq_rep q xs" and fresh: "mq_heap q a = None" and open_q: "\<not> mq_closed q"
  shows "mq_rep (snd (mq_push q (Some d) (Some a))) (xs @ [(a, d)])"
    "fst (mq_push q (Some d) (Some a)) = 0"
    "mq_closed (snd (mq_push q (Some d) (Some a))) = mq_closed q"
proof -
  have new: "a \<notin> set (map fst xs)"
    using rep fresh by (metis domIff mq_rep_def)
  show "fst (mq_push q (Some d) (Some a)) = 0"
    using open_q by (simp add: mq_push_def Let_def)
  show "mq_closed (snd (mq_push q (Some d) (Some a))) = mq_closed q"
    using open_q by (simp add: mq_push_def Let_def split: option.splits)
  show "mq_rep (snd (mq_push q (Some d) (Some a))) (xs @ [(a, d)])"
  proof (cases "xs = []")
    case True
    with rep open_q show ?thesis by (simp add: mq_rep_def mq_push_def)
  next
    case False
    let ?h = "(mq_heap q)(a \<mapsto> \<lparr>node_data = d, node_next = None\<rparr>)"
    let ?t = "fst (last xs)"
    have "chain ?h (mq_head q) xs"
      using rep new by (simp add: mq_rep_def chain_upd_other)
    then have "chain (?h(?t := map_option (\<lambda>nd. nd\<lparr>node_next := Some a\<rparr>) (?h ?t))) (mq_head q) (xs @ [(a, d)])"
      using rep False new by (intro chain_append_node) (auto simp: mq_rep_def)
    moreover have "?t \<in> set (map fst xs)" using False by simp
    ultimately show ?thesis
      using rep False new open_q by (auto simp: mq_rep_def mq_push_def Let_def dom_def)
  qed
qed

lemma mq_rep_head: "mq_rep q [] \<Longrightarrow> mq_head q = None" "mq_rep q ((a, d) # xs) \<Longrightarrow> mq_head q = Some a"
  by (auto simp: mq_rep_def)

lemma mq_rep_take:
  assumes "mq_rep q ((a, d) # xs)"
  shows "fst (mq_take q a) = Some d" "mq_rep (snd (mq_take q a)) xs"
    "mq_closed (snd (mq_take q a)) = mq_closed q"
proof -
  from assms obtain nx where nx: "mq_heap q a = Some \<lparr>node_data = d, node_next = nx\<rparr>"
      "chain (mq_heap q) nx xs" "a \<notin> set (map fst xs)" "distinct (map fst xs)"
    by (auto simp: mq_rep_def)
  then show "fst (mq_take q a) = Some d" "mq_closed (snd (mq_take q a)) = mq_closed q"
    by (simp_all add: mq_take_def)
  have "nx = None \<longleftrightarrow> xs = []"
    using nx(2) by (cases xs) auto
  moreover have "dom ((mq_heap q)(a := None)) = set (map fst xs)"
    using assms nx(3) by (auto simp: mq_rep_def)
  ultimately show "mq_rep (snd (mq_take q a)) xs"
    using assms nx by (auto simp: mq_rep_def mq_take_def chain_upd_other)
qed

section \<open>The contract the threads rely on\<close>

text \<open>
  A bounded-memory view of the queue: what a push is allowed to do (\<open>fresh\<close>: the allocator
  returned an address not in use), what a pop returns, and that closing stops pushes only.
\<close>

datatype ('d, 'p) queue_op = Push 'd 'p | TryPop | Close

locale closable_fifo =
  fixes push :: "'q \<Rightarrow> 'd \<Rightarrow> 'p \<Rightarrow> bool \<times> 'q"
    and try_pop :: "'q \<Rightarrow> 'd option \<times> 'q"
    and close :: "'q \<Rightarrow> 'q"
    and contents :: "'q \<Rightarrow> 'd list"
    and closed :: "'q \<Rightarrow> bool"
    and fresh :: "'q \<Rightarrow> 'p \<Rightarrow> bool"
    and inv :: "'q \<Rightarrow> bool"
  assumes push_open: "inv q \<Longrightarrow> fresh q p \<Longrightarrow> \<not> closed q \<Longrightarrow>
      fst (push q d p) \<and> contents (snd (push q d p)) = contents q @ [d]
      \<and> \<not> closed (snd (push q d p)) \<and> inv (snd (push q d p))"
    and push_closed: "closed q \<Longrightarrow> push q d p = (False, q)"
    and pop_empty: "inv q \<Longrightarrow> contents q = [] \<Longrightarrow> try_pop q = (None, q)"
    and pop_first: "inv q \<Longrightarrow> contents q = d # ds \<Longrightarrow>
      fst (try_pop q) = Some d \<and> contents (snd (try_pop q)) = ds
      \<and> closed (snd (try_pop q)) = closed q \<and> inv (snd (try_pop q))"
    and close_law: "contents (close q) = contents q \<and> closed (close q) \<and> (inv q \<longrightarrow> inv (close q))"
begin

text \<open>A run of operations: the messages accepted and the messages delivered, in order.\<close>

fun step :: "'q \<Rightarrow> ('d, 'p) queue_op \<Rightarrow> 'q \<times> 'd list \<times> 'd list" where
  "step q (Push d p) = (let (ok, q') = push q d p in (q', if ok then [d] else [], []))"
| "step q TryPop = (let (r, q') = try_pop q in (q', [], case r of None \<Rightarrow> [] | Some d \<Rightarrow> [d]))"
| "step q Close = (close q, [], [])"

fun run :: "'q \<Rightarrow> ('d, 'p) queue_op list \<Rightarrow> 'q \<times> 'd list \<times> 'd list" where
  "run q [] = (q, [], [])"
| "run q (op # ops) =
     (let (q1, a1, p1) = step q op; (q2, a2, p2) = run q1 ops in (q2, a1 @ a2, p1 @ p2))"

fun fresh_ops :: "'q \<Rightarrow> ('d, 'p) queue_op list \<Rightarrow> bool" where
  "fresh_ops q [] = True"
| "fresh_ops q (op # ops) =
     ((case op of Push d p \<Rightarrow> fresh q p | _ \<Rightarrow> True) \<and> fresh_ops (fst (step q op)) ops)"

lemma step_conserves:
  assumes "inv q" "case op of Push d p \<Rightarrow> fresh q p | _ \<Rightarrow> True" "step q op = (q1, a1, p1)"
  shows "contents q @ a1 = p1 @ contents q1" "inv q1" "closed q \<Longrightarrow> closed q1 \<and> a1 = []"
proof (atomize (full), cases op)
  case (Push d p)
  show "contents q @ a1 = p1 @ contents q1 \<and> inv q1 \<and> (closed q \<longrightarrow> closed q1 \<and> a1 = [])"
  proof (cases "closed q")
    case True
    with assms Push show ?thesis by (simp add: push_closed)
  next
    case False
    with assms Push push_open [of q p d] show ?thesis by (auto split: prod.splits)
  qed
next
  case TryPop
  show "contents q @ a1 = p1 @ contents q1 \<and> inv q1 \<and> (closed q \<longrightarrow> closed q1 \<and> a1 = [])"
  proof (cases "contents q")
    case Nil
    with assms TryPop show ?thesis by (simp add: pop_empty)
  next
    case (Cons d ds)
    with assms TryPop pop_first [of q d ds] show ?thesis by (auto split: prod.splits)
  qed
next
  case Close
  with assms have "q1 = close q" "a1 = []" "p1 = []" by auto
  with assms(1) close_law [of q] show "contents q @ a1 = p1 @ contents q1 \<and> inv q1 \<and> (closed q \<longrightarrow> closed q1 \<and> a1 = [])"
    by simp
qed

lemma run_conserves:
  "inv q \<Longrightarrow> fresh_ops q ops \<Longrightarrow> run q ops = (q', acc, out) \<Longrightarrow>
     contents q @ acc = out @ contents q' \<and> inv q' \<and> (closed q \<longrightarrow> closed q' \<and> acc = [])"
proof (induction ops arbitrary: q q' acc out)
  case (Cons op ops)
  obtain q1 a1 p1 where s: "step q op = (q1, a1, p1)" by (cases "step q op") auto
  obtain q2 a2 p2 where r: "run q1 ops = (q2, a2, p2)" by (cases "run q1 ops") auto
  have g: "case op of Push d p \<Rightarrow> fresh q p | _ \<Rightarrow> True" and f: "fresh_ops q1 ops"
    using Cons.prems(2) s by (auto simp: Let_def)
  note st = step_conserves [OF Cons.prems(1) g s]
  note rest = Cons.IH [OF st(2) f r]
  have eq: "q' = q2" "acc = a1 @ a2" "out = p1 @ p2" using Cons.prems(3) s r by auto
  have "contents q @ acc = (contents q @ a1) @ a2" using eq by simp
  also have "\<dots> = out @ contents q'" using st(1) rest eq by simp
  finally show ?case using rest st(3) eq by auto
qed auto

end

text \<open>The model's operations in the shape of the contract.\<close>

definition q_push :: "'a msgqueue \<Rightarrow> 'a \<Rightarrow> nat \<Rightarrow> bool \<times> 'a msgqueue" where
  "q_push q d p = (let (rc, q') = mq_push q (Some d) (Some p) in (rc = 0, q'))"

definition q_pop :: "'a msgqueue \<Rightarrow> 'a option \<times> 'a msgqueue" where
  "q_pop q = (case mq_try_pop q of (Popped d, q') \<Rightarrow> (Some d, q') | (_, q') \<Rightarrow> (None, q'))"

definition q_fresh :: "'a msgqueue \<Rightarrow> nat \<Rightarrow> bool" where
  "q_fresh q p \<longleftrightarrow> mq_heap q p = None"

lemma q_pop_first:
  assumes "mq_rep q ((a, d) # xs)"
  shows "q_pop q = (Some d, snd (mq_take q a))"
  using mq_rep_take(1) [OF assms] mq_rep_head(2) [OF assms]
  by (auto simp: q_pop_def mq_try_pop_def split: prod.splits)

interpretation mq: closable_fifo q_push q_pop mq_close mq_list mq_closed q_fresh mq_inv
proof (unfold_locales, goal_cases)
  case (1 q p d)
  then obtain xs where xs: "mq_rep q xs" by (auto simp: mq_inv_def)
  note push = mq_rep_push [OF xs 1(2) [unfolded q_fresh_def] 1(3), of d]
  have "mq_list q = map snd xs" by (rule mq_rep_list [OF xs])
  with push mq_rep_list [OF push(1)] 1(3) show ?case
    by (auto simp: q_push_def mq_inv_def split: prod.splits)
next
  case (2 q d p)
  then show ?case by (simp add: q_push_def mq_push_def)
next
  case (3 q)
  then obtain xs where xs: "mq_rep q xs" by (auto simp: mq_inv_def)
  with 3 have "xs = []" by (simp add: mq_rep_list)
  with xs show ?case by (simp add: q_pop_def mq_try_pop_def mq_rep_def)
next
  case (4 q d ds)
  then obtain xs where xs: "mq_rep q xs" by (auto simp: mq_inv_def)
  with 4 obtain a ys where ys: "xs = (a, d) # ys" "ds = map snd ys"
    by (auto simp: mq_rep_list)
  note take = mq_rep_take [OF xs [unfolded ys(1)]]
  with q_pop_first [OF xs [unfolded ys(1)]] mq_rep_list [OF take(2)] ys(2) show ?case
    by (auto simp: mq_inv_def)
next
  case (5 q)
  have "mq_inv (mq_close q) = mq_inv q"
    by (simp add: mq_inv_def mq_rep_close)
  then show ?case by (simp add: mq_close_def mq_list_def)
qed

section \<open>Threads: the mutex and the condition variable\<close>

text \<open>
  Every operation runs under the mutex, so a step is one critical section.  A thread in \<open>mq_pop\<close>
  that finds the queue empty and open waits; \<open>pthread_cond_signal\<close> wakes one waiter, \<open>broadcast\<close>
  all, and POSIX allows a wait to end by itself (\<open>spurious\<close>); a woken thread takes the mutex later and tests its loop condition again.
\<close>

record 'a mqsys =
  sys_q :: "'a msgqueue"
  sys_waiting :: "nat set"
  sys_woken :: "nat set"
  sys_got :: "nat \<Rightarrow> 'a pop_result list"

definition mqsys_init :: "'a mqsys" where
  "mqsys_init = \<lparr>sys_q = mq_init, sys_waiting = {}, sys_woken = {}, sys_got = (\<lambda>_. [])\<rparr>"

text \<open>What a thread does when it holds the mutex in \<open>mq_pop\<close>.\<close>

definition pop_section :: "'a mqsys \<Rightarrow> nat \<Rightarrow> 'a mqsys" where
  "pop_section s t =
     (case mq_pop (sys_q s) of
        (Blocked, q') \<Rightarrow> s\<lparr>sys_q := q', sys_waiting := insert t (sys_waiting s)\<rparr>
      | (r, q') \<Rightarrow> s\<lparr>sys_q := q', sys_got := (sys_got s)(t := sys_got s t @ [r])\<rparr>)"

inductive mq_step :: "'a mqsys \<Rightarrow> 'a mqsys \<Rightarrow> bool" where
  push_signal: "mq_push (sys_q s) (Some d) (Some p) = (0, q') \<Longrightarrow> mq_heap (sys_q s) p = None \<Longrightarrow>
     w \<in> sys_waiting s \<Longrightarrow>
     mq_step s (s\<lparr>sys_q := q', sys_waiting := sys_waiting s - {w}, sys_woken := insert w (sys_woken s)\<rparr>)"
| push_alone: "mq_push (sys_q s) (Some d) (Some p) = (0, q') \<Longrightarrow> mq_heap (sys_q s) p = None \<Longrightarrow>
     sys_waiting s = {} \<Longrightarrow> mq_step s (s\<lparr>sys_q := q'\<rparr>)"
| push_refused: "mq_push (sys_q s) d p = (-1, q') \<Longrightarrow> mq_step s (s\<lparr>sys_q := q'\<rparr>)"
| pop_enter: "t \<notin> sys_waiting s \<Longrightarrow> t \<notin> sys_woken s \<Longrightarrow> mq_step s (pop_section s t)"
| pop_again: "t \<in> sys_woken s \<Longrightarrow>
     mq_step s (pop_section (s\<lparr>sys_woken := sys_woken s - {t}\<rparr>) t)"
| spurious: "t \<in> sys_waiting s \<Longrightarrow>
     mq_step s (s\<lparr>sys_waiting := sys_waiting s - {t}, sys_woken := insert t (sys_woken s)\<rparr>)"
| try_pop: "mq_try_pop (sys_q s) = (r, q') \<Longrightarrow> mq_step s (s\<lparr>sys_q := q'\<rparr>)"
| close: "mq_step s (s\<lparr>sys_q := mq_close (sys_q s), sys_waiting := {},
                       sys_woken := sys_woken s \<union> sys_waiting s\<rparr>)"

inductive_cases mq_stepE: "mq_step s t"

inductive mq_reachable :: "'a mqsys \<Rightarrow> bool" where
  start: "mq_reachable mqsys_init"
| step: "mq_reachable s \<Longrightarrow> mq_step s t \<Longrightarrow> mq_reachable t"

text \<open>
  The invariant that rules out a lost wake-up: while a thread waits, every message in the queue
  is matched by a thread that has been woken for it; and no thread waits on a closed queue.
\<close>

definition mqsys_inv :: "'a mqsys \<Rightarrow> bool" where
  "mqsys_inv s \<longleftrightarrow>
     mq_inv (sys_q s) \<and> finite (sys_woken s) \<and> finite (sys_waiting s) \<and> sys_waiting s \<inter> sys_woken s = {}
     \<and> (sys_waiting s \<noteq> {} \<longrightarrow>
          length (mq_list (sys_q s)) \<le> card (sys_woken s) \<and> \<not> mq_closed (sys_q s))"

lemma mq_pop_cases:
  assumes "mq_inv q"
  shows "(mq_list q = [] \<and> mq_pop q = (if mq_closed q then PopFailed else Blocked, q))
    \<or> (\<exists>d ds q'. mq_list q = d # ds \<and> mq_pop q = (Popped d, q') \<and> mq_try_pop q = (Popped d, q')
         \<and> mq_list q' = ds \<and> mq_inv q' \<and> mq_closed q' = mq_closed q)"
proof -
  from assms obtain xs where xs: "mq_rep q xs" by (auto simp: mq_inv_def)
  show ?thesis
  proof (cases xs)
    case Nil
    with mq_rep_list [OF xs] mq_rep_head(1) xs have "mq_list q = []" "mq_head q = None" by auto
    then show ?thesis by (simp add: mq_pop_def)
  next
    case (Cons y ys)
    obtain a d where y: "y = (a, d)" by (cases y)
    note rep = xs [unfolded Cons y]
    obtain q' where q': "mq_take q a = (Some d, q')"
      using mq_rep_take(1) [OF rep] by (cases "mq_take q a") auto
    with mq_rep_take(2,3) [OF rep] have "mq_rep q' ys" "mq_closed q' = mq_closed q" by simp_all
    with rep q' mq_rep_head(2) [OF rep] show ?thesis
      by (auto simp: mq_rep_list mq_pop_def mq_try_pop_def mq_inv_def)
  qed
qed

lemma mq_try_pop_inv:
  assumes "mq_inv q" "mq_try_pop q = (r, q')"
  shows "mq_inv q' \<and> mq_closed q' = mq_closed q \<and> length (mq_list q') \<le> length (mq_list q)"
proof -
  from assms(1) obtain xs where xs: "mq_rep q xs" by (auto simp: mq_inv_def)
  show ?thesis
  proof (cases xs)
    case Nil
    with xs have "mq_head q = None" using mq_rep_head(1) by auto
    with assms show ?thesis by (auto simp: mq_try_pop_def)
  next
    case (Cons y ys)
    with xs have "mq_list q \<noteq> []" by (simp add: mq_rep_list)
    with mq_pop_cases [OF assms(1)] assms(2) show ?thesis by auto
  qed
qed

lemma pop_section_inv:
  assumes inv: "mq_inv (sys_q s)"
    and sets: "finite (sys_woken s)" "finite (sys_waiting s)" "sys_waiting s \<inter> sys_woken s = {}" "t \<notin> sys_woken s"
    and wait: "sys_waiting s \<noteq> {} \<longrightarrow>
           length (mq_list (sys_q s)) \<le> card (sys_woken s) + 1 \<and> \<not> mq_closed (sys_q s)"
  shows "mqsys_inv (pop_section s t)"
  using mq_pop_cases [OF inv]
proof (elim disjE exE conjE)
  assume "mq_list (sys_q s) = []"
    "mq_pop (sys_q s) = (if mq_closed (sys_q s) then PopFailed else Blocked, sys_q s)"
  with inv sets wait show ?thesis
    by (cases "mq_closed (sys_q s)") (auto simp: mqsys_inv_def pop_section_def)
next
  fix d ds q'
  assume "mq_list (sys_q s) = d # ds" "mq_pop (sys_q s) = (Popped d, q')"
    "mq_list q' = ds" "mq_inv q'" "mq_closed q' = mq_closed (sys_q s)"
  with sets wait show ?thesis
    by (simp add: mqsys_inv_def pop_section_def)
qed

lemma mq_push_inv:
  assumes "mq_inv q" "mq_push q (Some d) (Some p) = (0, q')" "mq_heap q p = None"
  shows "mq_inv q'" "mq_list q' = mq_list q @ [d]" "mq_closed q' = mq_closed q"
proof -
  from assms(2) have op: "\<not> mq_closed q" by (auto simp: mq_push_def split: if_splits)
  from assms(1) obtain xs where xs: "mq_rep q xs" by (auto simp: mq_inv_def)
  note push = mq_rep_push [OF xs assms(3) op, of d, unfolded assms(2), simplified]
  show "mq_inv q'" "mq_list q' = mq_list q @ [d]" "mq_closed q' = mq_closed q"
    using push mq_rep_list [OF xs] mq_rep_list [OF push(1)] by (auto simp: mq_inv_def)
qed

lemma mq_push_refused: "mq_push q d p = (-1, q') \<Longrightarrow> q' = q"
  by (auto simp: mq_push_def Let_def split: option.splits if_splits)

lemma mq_step_inv: "mq_step s t \<Longrightarrow> mqsys_inv s \<Longrightarrow> mqsys_inv t"
proof (induction rule: mq_step.induct)
  case (push_signal s d p q' w)
  then have "mq_inv q'" "mq_list q' = mq_list (sys_q s) @ [d]" "mq_closed q' = mq_closed (sys_q s)"
    using mq_push_inv [of "sys_q s" d p q'] by (auto simp: mqsys_inv_def)
  moreover have "w \<notin> sys_woken s" using push_signal by (auto simp: mqsys_inv_def)
  ultimately show ?case using push_signal by (auto simp: mqsys_inv_def)
next
  case (push_alone s d p q')
  then show ?case using mq_push_inv [of "sys_q s" d p q'] by (auto simp: mqsys_inv_def)
next
  case (push_refused s d p q')
  then show ?case using mq_push_refused [of "sys_q s" d p q'] by (auto simp: mqsys_inv_def)
next
  case (pop_enter t s)
  then show ?case by (intro pop_section_inv) (auto simp: mqsys_inv_def)
next
  case (pop_again t s)
  then have inv: "finite (sys_woken s)" "finite (sys_waiting s)" "mq_inv (sys_q s)" "sys_waiting s \<inter> sys_woken s = {}"
    "sys_waiting s \<noteq> {} \<longrightarrow> length (mq_list (sys_q s)) \<le> card (sys_woken s) \<and> \<not> mq_closed (sys_q s)"
    by (simp_all add: mqsys_inv_def)
  have "card (sys_woken s) = card (sys_woken s - {t}) + 1"
    using card.remove [OF inv(1) pop_again(1)] by linarith
  with inv(5) have "sys_waiting s \<noteq> {} \<longrightarrow>
      length (mq_list (sys_q s)) \<le> card (sys_woken s - {t}) + 1 \<and> \<not> mq_closed (sys_q s)"
    by metis
  with inv show ?case by (intro pop_section_inv) (simp_all, blast)
next
  case (spurious t s)
  then have "card (insert t (sys_woken s)) = card (sys_woken s) + 1"
    by (subst card_insert_disjoint) (auto simp: mqsys_inv_def)
  with spurious show ?case by (auto simp: mqsys_inv_def)
next
  case (try_pop s r q')
  then show ?case using mq_try_pop_inv [of "sys_q s" r q'] by (auto simp: mqsys_inv_def)
next
  case (close s)
  then show ?case
    using mq.close_law [of "sys_q s"] by (auto simp: mqsys_inv_def)
qed

lemma mqsys_init_inv: "mqsys_inv mqsys_init"
  using mq_rep_init by (auto simp: mqsys_inv_def mqsys_init_def mq_inv_def)

lemma mq_reachable_inv: "mq_reachable s \<Longrightarrow> mqsys_inv s"
  by (induction rule: mq_reachable.induct) (auto intro: mqsys_init_inv mq_step_inv)

lemma mq_init_facts: "mq_inv mq_init" "mq_list mq_init = []"
  using mq_rep_init mq_rep_list [OF mq_rep_init] by (auto simp: mq_inv_def)

section \<open>Properties\<close>

text \<open>
  C9: The linked queue is first-in first-out and loses nothing.  For every sequence of pushes,
  pops and closings that starts at the initialised structure, the messages accepted are, in
  order, the messages delivered followed by those still linked in the heap; the pointers stay
  consistent throughout.
\<close>

theorem msgqueue_fifo:
  assumes "mq.fresh_ops mq_init ops"
  shows "case mq.run mq_init ops of
     (q', accepted, delivered) \<Rightarrow> accepted = delivered @ mq_list q' \<and> mq_inv q'"
  using mq.run_conserves [OF mq_init_facts(1) assms] by (auto simp: mq_init_facts split: prod.splits)

lemma msgqueue_fifo_witness:
  "case mq.run mq_init [Push ''a'' 1, Push ''b'' 2, TryPop, Close, Push ''c'' 3, TryPop] of
     (q', accepted, delivered) \<Rightarrow> accepted = delivered @ mq_list q' \<and> mq_inv q'"
  by (rule msgqueue_fifo)
     (simp add: q_fresh_def mq_init_def q_push_def mq_push_def q_pop_def mq_try_pop_def
       mq_take_def mq_close_def)

text \<open>
  C35: No lost wake-up.  In every state the threads can reach (with spurious wake-ups allowed),
  when a thread waits on the condition variable while messages are queued, at least as many
  threads have been woken for them and will test the queue again; and nobody waits on a closed
  queue.
\<close>

theorem no_lost_wakeup:
  assumes "mq_reachable s" "sys_waiting s \<noteq> {}"
  shows "\<not> mq_closed (sys_q s) \<and> length (mq_list (sys_q s)) \<le> card (sys_woken s)
    \<and> (mq_list (sys_q s) \<noteq> [] \<longrightarrow>
         (\<exists>t \<in> sys_woken s. \<exists>d q'. mq_pop (sys_q s) = (Popped d, q')
            \<and> mq_step s (s\<lparr>sys_woken := sys_woken s - {t}, sys_q := q',
                           sys_got := (sys_got s)(t := sys_got s t @ [Popped d])\<rparr>)))"
proof -
  have inv: "mqsys_inv s" by (rule mq_reachable_inv [OF assms(1)])
  with assms(2) have le: "length (mq_list (sys_q s)) \<le> card (sys_woken s)" "\<not> mq_closed (sys_q s)"
    by (auto simp: mqsys_inv_def)
  have "\<exists>t \<in> sys_woken s. \<exists>d q'. mq_pop (sys_q s) = (Popped d, q')
      \<and> mq_step s (s\<lparr>sys_woken := sys_woken s - {t}, sys_q := q',
                     sys_got := (sys_got s)(t := sys_got s t @ [Popped d])\<rparr>)"
    if ne: "mq_list (sys_q s) \<noteq> []"
  proof -
    from ne le(1) have "sys_woken s \<noteq> {}" by (cases "mq_list (sys_q s)") auto
    then obtain t where t: "t \<in> sys_woken s" by blast
    from mq_pop_cases [of "sys_q s"] inv ne obtain d q' where p: "mq_pop (sys_q s) = (Popped d, q')"
      by (auto simp: mqsys_inv_def)
    have "mq_step s (pop_section (s\<lparr>sys_woken := sys_woken s - {t}\<rparr>) t)" by (rule pop_again [OF t])
    with p t show ?thesis by (auto simp: pop_section_def)
  qed
  with le show ?thesis by blast
qed

definition one_waiter :: "nat mqsys" where
  "one_waiter = mqsys_init\<lparr>sys_waiting := {7}\<rparr>"

lemma one_waiter_reachable: "mq_reachable one_waiter"
proof -
  have "mq_step mqsys_init (pop_section mqsys_init 7)"
    by (rule pop_enter) (simp_all add: mqsys_init_def)
  then have "mq_reachable (pop_section mqsys_init 7)"
    by (rule mq_reachable.step [OF mq_reachable.start])
  moreover have "pop_section mqsys_init 7 = one_waiter"
    by (simp add: pop_section_def mq_pop_def mqsys_init_def mq_init_def one_waiter_def)
  ultimately show ?thesis by metis
qed

lemma no_lost_wakeup_witness:
  "\<not> mq_closed (sys_q one_waiter) \<and> length (mq_list (sys_q one_waiter)) \<le> card (sys_woken one_waiter)"
  using no_lost_wakeup [OF one_waiter_reachable] by (simp add: one_waiter_def)

end
