(* ===== verification/Display.thy ===== *)
theory Display
  imports AgentText MsgQueue
begin

text \<open>
  The display thread (c/display.c): what it writes for each message, its loop over the queue, and the
  barrier with which another thread waits for it.  \<open>linenoiseWrite\<close> and \<open>linenoisePrintf\<close> are vendored;
  they are the bytes given to them.
\<close>

section \<open>The state of the display\<close>

text \<open>The last character written, as a C string of which the code reads the first byte; \<open>ds_fault\<close> is
  set when the search for it has run past the end of a text.\<close>

record display_state =
  ds_last_char :: string
  ds_prev_was_thinking :: bool
  ds_fault :: bool

definition ds_init :: display_state where
  "ds_init = \<lparr>ds_last_char = [LF], ds_prev_was_thinking = False, ds_fault = False\<rparr>"

definition ds_first :: "display_state \<Rightarrow> char" where
  "ds_first ds = (case ds_last_char ds of [] \<Rightarrow> NUL | c # s \<Rightarrow> c)"

text \<open>\<open>ds->last_char[0] = c\<close>.\<close>

definition set_first :: "char \<Rightarrow> display_state \<Rightarrow> display_state" where
  "set_first c ds = ds\<lparr>ds_last_char := c # tl (ds_last_char ds)\<rparr>"

definition utf8_step :: "char \<Rightarrow> nat" where
  "utf8_step c = (if ord c < 0x80 then 1 else if ord c < 0xE0 then 2 else if ord c < 0xF0 then 3 else 4)"

text \<open>The last character; \<open>None\<close> when a step goes past the terminating NUL.\<close>

function last_char_of :: "string \<Rightarrow> string option" where
  "last_char_of [] = Some []"
| "last_char_of (c # s) =
     (if length (c # s) < utf8_step c then None
      else if length (c # s) = utf8_step c then Some (c # s)
      else last_char_of (drop (utf8_step c) (c # s)))"
  by pat_completeness auto
termination by (relation "measure length") (auto simp: utf8_step_def)

declare last_char_of.simps [simp del]

definition ds_update_last_char :: "string option \<Rightarrow> display_state \<Rightarrow> display_state" where
  "ds_update_last_char t ds =
     (if \<not> nonempty_opt t then ds
      else case last_char_of (the t) of
        None \<Rightarrow> ds\<lparr>ds_fault := True\<rparr>
      | Some l \<Rightarrow> ds\<lparr>ds_last_char := l\<rparr>)"

section \<open>Writing\<close>

text \<open>A routine that writes and changes the state: the bytes so far and the state.\<close>

type_synonym screen = "string \<times> display_state"

definition put :: "string \<Rightarrow> screen \<Rightarrow> screen" where
  "put b sc = (fst sc @ b, snd sc)"

definition upd :: "(display_state \<Rightarrow> display_state) \<Rightarrow> screen \<Rightarrow> screen" where
  "upd f sc = (fst sc, f (snd sc))"

definition ensure_newline :: "screen \<Rightarrow> screen" where
  "ensure_newline sc =
     (if ds_first (snd sc) \<noteq> LF then upd (\<lambda>ds. ds\<lparr>ds_last_char := [LF]\<rparr>) (put [LF] sc) else sc)"

definition color :: "string \<Rightarrow> string" where
  "color n = CHR 0x1B # CHR ''['' # n @ ''m''"

definition CLEAR_LINE :: string where
  "CLEAR_LINE = [CR, CHR 0x1B] @ ''[K''"

text \<open>The prompt of the line editor is on the line: it is cleared before text.\<close>

definition clear_prompt :: "bool \<Rightarrow> screen \<Rightarrow> screen" where
  "clear_prompt interactive sc =
     (if interactive \<and> ds_first (snd sc) = LF then upd (set_first NUL) (put CLEAR_LINE sc) else sc)"

definition after_thinking :: "screen \<Rightarrow> screen" where
  "after_thinking sc =
     (if ds_prev_was_thinking (snd sc) \<and> ds_first (snd sc) \<noteq> LF then upd (set_first LF) (put [LF] sc) else sc)"

definition thinking_done :: "screen \<Rightarrow> screen" where
  "thinking_done sc = upd (\<lambda>ds. ds\<lparr>ds_prev_was_thinking := False\<rparr>) sc"

text \<open>A text that ends its line.\<close>

definition put_line :: "string \<Rightarrow> screen \<Rightarrow> screen" where
  "put_line b sc = upd (set_first LF) (put (b @ [LF]) sc)"

definition ELLIPSIS :: string where
  "ELLIPSIS = [CHR 0xE2, CHR 0x80, CHR 0xA6]"

definition shortened :: "string \<Rightarrow> string" where
  "shortened t = take (util_utf8_truncate_len t 120) t @ (if 120 < length t then ELLIPSIS else [])"

definition render_thinking :: "bool \<Rightarrow> display_message \<Rightarrow> screen \<Rightarrow> screen" where
  "render_thinking interactive m sc =
     (let sc1 = clear_prompt interactive sc;
          sc2 = (case dm_content m of
                   None \<Rightarrow> sc1
                 | Some t \<Rightarrow> upd (ds_update_last_char (Some t)) (put (color ''90'' @ t @ color ''0'') sc1))
      in upd (\<lambda>ds. ds\<lparr>ds_prev_was_thinking := True\<rparr>) sc2)"

definition render_text :: "bool \<Rightarrow> display_message \<Rightarrow> screen \<Rightarrow> screen" where
  "render_text interactive m sc =
     (let sc1 = clear_prompt interactive sc;
          sc2 = (case dm_content m of
                   None \<Rightarrow> sc1
                 | Some t \<Rightarrow> upd (ds_update_last_char (Some t)) (put t (after_thinking sc1)))
      in thinking_done sc2)"

definition tool_result_line :: "display_message \<Rightarrow> string" where
  "tool_result_line m =
     (let t = opt_default [] (dm_content m) in
      if opt_default [] (dm_tool_name m) \<in> {''Read'', ''Write''} then before LF t else t)"

definition render_tool_result :: "display_message \<Rightarrow> screen \<Rightarrow> screen" where
  "render_tool_result m sc =
     (if nonempty_opt (dm_content m) then put_line (tool_result_line m) (thinking_done (after_thinking sc)) else sc)"

text \<open>The lines of the messages that begin a line of their own.\<close>

definition notice :: "display_message \<Rightarrow> string" where
  "notice m =
     (case dm_type m of
        DISPLAY_TOOL_CALL \<Rightarrow>
          color ''33'' @ ''[tool] '' @ opt_default ''unknown'' (dm_tool_name m) @ ''('' @ opt_default [] (dm_content m) @ '')''
          @ color ''0''
      | DISPLAY_STOP \<Rightarrow> color ''36'' @ ''Interrupted.'' @ color ''0''
      | DISPLAY_ERROR \<Rightarrow> color ''31'' @ ''Error: '' @ opt_default ''unknown'' (dm_content m) @ color ''0''
      | DISPLAY_CONTEXT_UPDATE \<Rightarrow>
          color ''36'' @ ''Context compacted ('' @ opt_default ''auto'' (dm_tool_name m) @ '').'' @ color ''0''
      | DISPLAY_SUB_AGENT_RESULT \<Rightarrow>
          (if dm_tool_exit_code m = 0
           then color ''35'' @ ''[sub-agent '' @ opt_default ''?'' (dm_session_id m) @ ''] completed (in=''
                @ int_dec (dm_in_tokens m) @ '', out='' @ int_dec (dm_out_tokens m) @ '')'' @ color ''0''
           else color ''31'' @ ''[sub-agent '' @ opt_default ''?'' (dm_session_id m) @ ''] failed'' @ color ''0'')
      | DISPLAY_ASYNC_TASK_RESULT \<Rightarrow>
          color (if dm_tool_exit_code m = 0 then ''36'' else ''31'') @ ''[bg-bash '' @ opt_default ''?'' (dm_session_id m)
          @ ''] exit_code='' @ int_dec (dm_tool_exit_code m) @ color ''0''
      | DISPLAY_USER_NOTIFY \<Rightarrow> color ''33'' @ ''[user inject] '' @ opt_default [] (dm_content m) @ color ''0''
      | _ \<Rightarrow> [])"

definition extra_line :: "(string \<Rightarrow> string) \<Rightarrow> string option \<Rightarrow> screen \<Rightarrow> screen" where
  "extra_line f t sc = (if nonempty_opt t then put_line (f (shortened (the t))) sc else sc)"

text \<open>Before the result of a background task the prompt is cleared, but the line stays marked as
  begun.\<close>

definition clear_line :: "bool \<Rightarrow> screen \<Rightarrow> screen" where
  "clear_line interactive sc = (if interactive \<and> ds_first (snd sc) = LF then put CLEAR_LINE sc else sc)"

definition render_human :: "bool \<Rightarrow> display_message \<Rightarrow> screen \<Rightarrow> screen" where
  "render_human interactive m sc =
     (case dm_type m of
        DISPLAY_THINKING \<Rightarrow> render_thinking interactive m sc
      | DISPLAY_TEXT \<Rightarrow> render_text interactive m sc
      | DISPLAY_TOOL_CALL \<Rightarrow> thinking_done (put_line (notice m) (ensure_newline sc))
      | DISPLAY_TOOL_RESULT \<Rightarrow> render_tool_result m sc
      | DISPLAY_STOP \<Rightarrow>
          (if dm_content m = Some ''interrupted'' then put_line (notice m) (ensure_newline sc) else ensure_newline sc)
      | DISPLAY_ERROR \<Rightarrow> put_line (notice m) (ensure_newline sc)
      | DISPLAY_CONTEXT_UPDATE \<Rightarrow> put_line (notice m) (ensure_newline sc)
      | DISPLAY_SUB_AGENT_RESULT \<Rightarrow>
          thinking_done
            (extra_line id (dm_content m)
              (extra_line (\<lambda>t. color ''90'' @ t @ color ''0'') (dm_tool_name m)
                (put_line (notice m) (ensure_newline (clear_line interactive sc)))))
      | DISPLAY_ASYNC_TASK_RESULT \<Rightarrow>
          thinking_done
            (extra_line id (dm_content m) (put_line (notice m) (ensure_newline (clear_line interactive sc))))
      | DISPLAY_USER_NOTIFY \<Rightarrow> thinking_done (put_line (notice m) (ensure_newline sc))
      | _ \<Rightarrow> sc)"

text \<open>The stream-json line of a message.\<close>

definition stream_json_line :: "display_message \<Rightarrow> string option" where
  "stream_json_line m =
     (case dm_type m of
        DISPLAY_TEXT \<Rightarrow> Some (''{\"type\":\"text\",\"content\":'' @ dm_text (dm_content m) @ ''}'')
      | DISPLAY_THINKING \<Rightarrow> Some (''{\"type\":\"thinking\",\"content\":'' @ dm_text (dm_content m) @ ''}'')
      | DISPLAY_TOOL_CALL \<Rightarrow>
          Some (''{\"type\":\"tool_call\",\"name\":'' @ dm_text (dm_tool_name m) @ '',\"id\":'' @ dm_text (dm_tool_id m)
                @ '',\"input\":'' @ (if nonempty_opt (dm_tool_input m) then the (dm_tool_input m) else ''{}'') @ ''}'')
      | DISPLAY_TOOL_RESULT \<Rightarrow>
          Some (''{\"type\":\"tool_result\",\"tool_use_id\":'' @ dm_text (dm_tool_id m) @ '',\"name\":''
                @ dm_text (dm_tool_name m) @ '',\"content\":'' @ dm_text (dm_content m) @ ''}'')
      | DISPLAY_USAGE \<Rightarrow>
          Some (''{\"type\":\"usage\",\"input_tokens\":'' @ int_dec (dm_in_tokens m)
                @ '',\"output_tokens\":'' @ int_dec (dm_out_tokens m)
                @ '',\"cache_read_input_tokens\":'' @ int_dec (dm_cache_read_tokens m)
                @ '',\"cache_creation_input_tokens\":'' @ int_dec (dm_cache_creation_tokens m)
                @ '',\"kind\":\"agent\"}'')
      | DISPLAY_STOP \<Rightarrow> Some (''{\"type\":\"stop\",\"reason\":'' @ dm_text (dm_content m) @ ''}'')
      | DISPLAY_ERROR \<Rightarrow> Some (''{\"type\":\"error\",\"message\":'' @ dm_text (dm_content m) @ ''}'')
      | DISPLAY_SUB_AGENT_START \<Rightarrow>
          Some (''{\"type\":\"sub_agent_start\",\"session_id\":'' @ dm_text (dm_session_id m) @ ''}'')
      | DISPLAY_SUB_AGENT_RESULT \<Rightarrow>
          Some (''{\"type\":\"sub_agent_result\",\"session_id\":'' @ dm_text (dm_session_id m) @ '',\"status\":''
                @ json_quote (if dm_tool_exit_code m = 0 then ''ok'' else ''failed'')
                @ '',\"input_tokens\":'' @ int_dec (dm_in_tokens m) @ '',\"output_tokens\":'' @ int_dec (dm_out_tokens m)
                @ '',\"thinking\":'' @ dm_text (dm_tool_name m) @ '',\"text\":'' @ dm_text (dm_content m) @ ''}'')
      | DISPLAY_ASYNC_TASK_RESULT \<Rightarrow>
          Some (''{\"type\":\"async_task_result\",\"task_id\":'' @ dm_text (dm_session_id m)
                @ '',\"exit_code\":'' @ int_dec (dm_tool_exit_code m) @ '',\"output\":'' @ dm_text (dm_content m) @ ''}'')
      | DISPLAY_CONTEXT_UPDATE \<Rightarrow>
          Some (''{\"type\":\"context_update\",\"kind\":\"compact\",\"trigger\":''
                @ json_quote (opt_default ''auto'' (dm_tool_name m)) @ ''}'')
      | DISPLAY_FLUSH \<Rightarrow> None
      | DISPLAY_USER_NOTIFY \<Rightarrow> None)"

datatype output_format = OUTPUT_HUMAN | OUTPUT_STREAM_JSON

definition render_message :: "output_format \<Rightarrow> bool \<Rightarrow> display_message \<Rightarrow> screen \<Rightarrow> screen" where
  "render_message format interactive m sc =
     (case format of
        OUTPUT_STREAM_JSON \<Rightarrow> (case stream_json_line m of None \<Rightarrow> sc | Some l \<Rightarrow> put (l @ [LF]) sc)
      | OUTPUT_HUMAN \<Rightarrow> render_human interactive m sc)"

text \<open>The messages the thread takes from the queue until it is closed and empty.\<close>

definition display_thread_fn :: "output_format \<Rightarrow> bool \<Rightarrow> display_message list \<Rightarrow> screen" where
  "display_thread_fn format interactive ms =
     foldl (\<lambda>sc m. render_message format interactive m sc) ([], ds_init) ms"

section \<open>The flush barrier\<close>

text \<open>One thread calls \<open>display_flush\<close>: it holds the mutex from before the push until it waits, and
  after each wake-up; the display thread takes the message and needs the mutex to set the flag and to
  signal.  \<open>fl_pushed\<close> and \<open>fl_before\<close> record what was accepted, and what of it before the flush.\<close>

datatype flush_pc = FIdle | FHolding | FWaiting

record flush_sys =
  fl_queue :: "display_message list"
  fl_closed :: bool
  fl_rendered :: "display_message list"
  fl_pc :: flush_pc
  fl_done :: bool
  fl_signal :: bool
  fl_taken :: "display_message option"
  fl_pushed :: "display_message list"
  fl_before :: "display_message list"

definition flush_init :: flush_sys where
  "flush_init = \<lparr>fl_queue = [], fl_closed = False, fl_rendered = [], fl_pc = FIdle, fl_done = False, fl_signal = False,
     fl_taken = None, fl_pushed = [], fl_before = []\<rparr>"

definition flush_message :: display_message where
  "flush_message = (display_blank DISPLAY_FLUSH)\<lparr>dm_flush := Some 0\<rparr>"

definition is_flush :: "display_message \<Rightarrow> bool" where
  "is_flush m \<longleftrightarrow> dm_type m = DISPLAY_FLUSH"

text \<open>What each step is done by.\<close>

datatype flush_actor = Other | Flusher | DisplayThread

inductive flush_step :: "flush_actor \<Rightarrow> flush_sys \<Rightarrow> flush_sys \<Rightarrow> bool" where
  push: "\<not> fl_closed s \<Longrightarrow> \<not> is_flush m \<Longrightarrow>
    flush_step Other s (s\<lparr>fl_queue := fl_queue s @ [m], fl_pushed := fl_pushed s @ [m]\<rparr>)"
| close: "flush_step Other s (s\<lparr>fl_closed := True\<rparr>)"
| start: "fl_pc s = FIdle \<Longrightarrow> \<not> fl_closed s \<Longrightarrow>
    flush_step Other s (s\<lparr>fl_queue := fl_queue s @ [flush_message], fl_pushed := fl_pushed s @ [flush_message], fl_pc := FHolding,
                          fl_done := False, fl_signal := False, fl_before := fl_pushed s\<rparr>)"
| wait: "fl_pc s = FHolding \<Longrightarrow> \<not> fl_done s \<Longrightarrow> flush_step Flusher s (s\<lparr>fl_pc := FWaiting\<rparr>)"
| wake: "fl_pc s = FWaiting \<Longrightarrow> fl_signal s \<Longrightarrow> flush_step Flusher s (s\<lparr>fl_pc := FHolding, fl_signal := False\<rparr>)"
| spurious: "fl_pc s = FWaiting \<Longrightarrow> flush_step Other s (s\<lparr>fl_pc := FHolding, fl_signal := False\<rparr>)"
| return_flush: "fl_pc s = FHolding \<Longrightarrow> fl_done s \<Longrightarrow> flush_step Flusher s (s\<lparr>fl_pc := FIdle\<rparr>)"
| render: "fl_taken s = None \<Longrightarrow> fl_queue s = m # q \<Longrightarrow> \<not> is_flush m \<Longrightarrow>
    flush_step DisplayThread s (s\<lparr>fl_queue := q, fl_rendered := fl_rendered s @ [m]\<rparr>)"
| take_flush: "fl_taken s = None \<Longrightarrow> fl_queue s = m # q \<Longrightarrow> is_flush m \<Longrightarrow>
    flush_step DisplayThread s (s\<lparr>fl_queue := q, fl_taken := Some m\<rparr>)"
| signal: "fl_taken s = Some m \<Longrightarrow> fl_pc s \<noteq> FHolding \<Longrightarrow>
    flush_step DisplayThread s (s\<lparr>fl_taken := None, fl_rendered := fl_rendered s @ [m], fl_done := True,
                                  fl_signal := (fl_pc s = FWaiting)\<rparr>)"

inductive flush_reachable :: "flush_sys \<Rightarrow> bool" where
  start_state: "flush_reachable flush_init"
| step: "flush_reachable s \<Longrightarrow> flush_step a s t \<Longrightarrow> flush_reachable t"

inductive_simps flush_step_simps: "flush_step a s t"

end
