(* ===== verification/DisplayProps.thy ===== *)
theory DisplayProps
  imports Display
begin

text \<open>
  Properties of the display: notices begin on a line of their own, the stream-json line is the line of
  the event log, and the flush barrier waits for everything before it and always returns.
\<close>

section \<open>Where the cursor is\<close>

text \<open>A terminal as far as it matters: is the cursor in the first column, and what part of an escape
  sequence has been read.  Only colours and the clearing of a line are known to leave the cursor where it
  is.\<close>

datatype term_mode = Ground | Escape | Sequence

definition ESC :: char where
  "ESC = CHR 0x1B"

fun term_step :: "bool \<times> term_mode \<Rightarrow> char \<Rightarrow> bool \<times> term_mode" where
  "term_step (b, md) c =
     (if c = LF \<or> c = CR then (True, Ground)
      else case md of
        Ground \<Rightarrow> if c = ESC then (b, Escape) else (False, Ground)
      | Escape \<Rightarrow> if c = CHR ''['' then (b, Sequence) else (False, Ground)
      | Sequence \<Rightarrow>
          if c = CHR ''m'' \<or> c = CHR ''K'' then (b, Ground)
          else if isdigit c \<or> c = CHR '';'' then (b, Sequence) else (False, Ground))"

definition cursor :: "string \<Rightarrow> bool \<times> term_mode" where
  "cursor out = foldl term_step (True, Ground) out"

abbreviation line_start :: "bool \<times> term_mode" where
  "line_start \<equiv> (True, Ground)"

lemma cursor_append: "cursor (a @ b) = foldl term_step (cursor a) b"
  by (simp add: cursor_def)

lemma cursor_LF [simp]: "cursor (a @ [LF]) = line_start" "cursor (a @ b @ [LF]) = line_start"
  by (cases "cursor a"; simp add: cursor_append; metis cursor_append foldl_append old.prod.exhaust term_step.simps)+

lemma cursor_line: "cursor (a @ b @ LF # c) = foldl term_step line_start c"
  using cursor_append [of "a @ b @ [LF]" c] by simp

lemma term_color: "n \<in> {''0'', ''90''} \<Longrightarrow> foldl term_step line_start (color n) = line_start"
  by (auto simp: color_def ESC_def LF_def CR_def isdigit_def ord_def)

lemma term_clear: "foldl term_step st CLEAR_LINE = line_start"
  by (cases st) (auto simp: CLEAR_LINE_def ESC_def LF_def CR_def isdigit_def)

section \<open>The last character\<close>

lemma last_char_nonempty: "last_char_of t = Some l \<Longrightarrow> t \<noteq> [] \<Longrightarrow> l \<noteq> []"
proof (induction t rule: last_char_of.induct)
  case (2 c s)
  have "0 < utf8_step c" by (simp add: utf8_step_def)
  with 2 show ?case by (auto simp: last_char_of.simps(2) [of c s] split: if_splits)
qed simp

lemma last_char_LF: "last_char_of t = Some (LF # u) \<Longrightarrow> \<exists>s. t = s @ [LF]"
proof (induction t rule: last_char_of.induct)
  case (2 c s)
  show ?case
  proof (cases "length (c # s) = utf8_step c")
    case True
    then have "c = LF \<and> s = u" using 2 by (simp add: last_char_of.simps(2) [of c s])
    moreover from this have "utf8_step c = 1" by (simp add: utf8_step_def LF_def ord_def)
    ultimately show ?thesis using True by simp
  next
    case False
    then have "\<not> length (c # s) < utf8_step c" "last_char_of (drop (utf8_step c) (c # s)) = Some (LF # u)"
      using 2 by (auto simp: last_char_of.simps(2) [of c s] split: if_splits)
    then obtain v where "drop (utf8_step c) (c # s) = v @ [LF]" using 2 False by blast
    then show ?thesis by (metis append_assoc append_take_drop_id)
  qed
qed (simp add: last_char_of.simps)

section \<open>Notices begin a line\<close>

text \<open>When the state says that the last character was a line feed, the cursor is at the start of a
  line, unless a text has been read past its end.\<close>

definition fresh_line :: "screen \<Rightarrow> bool" where
  "fresh_line sc \<longleftrightarrow> (\<not> ds_fault (snd sc) \<and> ds_first (snd sc) = LF \<longrightarrow> cursor (fst sc) = line_start)"

lemma put_simps [simp]:
  "fst (put b sc) = fst sc @ b" "snd (put b sc) = snd sc" "fst (upd f sc) = fst sc" "snd (upd f sc) = f (snd sc)"
  by (simp_all add: put_def upd_def)

lemma ds_first_simps [simp]:
  "ds_first (set_first c ds) = c" "ds_first (ds\<lparr>ds_last_char := c # s\<rparr>) = c"
  "ds_first (ds\<lparr>ds_prev_was_thinking := b\<rparr>) = ds_first ds" "ds_fault (set_first c ds) = ds_fault ds"
  by (simp_all add: ds_first_def set_first_def)

lemma fresh_line_init: "fresh_line ([], ds_init)"
  by (simp add: fresh_line_def cursor_def)

lemma fresh_put_line: "fresh_line (put_line b sc)"
  by (simp add: fresh_line_def put_line_def)

lemma fresh_newline: "fresh_line sc \<Longrightarrow> \<not> ds_fault (snd sc) \<Longrightarrow> cursor (fst (ensure_newline sc)) = line_start"
  by (simp add: fresh_line_def ensure_newline_def)

lemma fresh_ensure: "fresh_line sc \<Longrightarrow> fresh_line (ensure_newline sc)"
  by (simp add: fresh_line_def ensure_newline_def)

lemma fresh_thinking_done: "fresh_line (thinking_done sc) = fresh_line sc"
  by (simp add: fresh_line_def thinking_done_def)

lemma fresh_clear: "fresh_line sc \<Longrightarrow> fresh_line (clear_line i sc)"
  by (simp add: fresh_line_def clear_line_def cursor_append term_clear)

lemma fresh_extra: "fresh_line sc \<Longrightarrow> fresh_line (extra_line f t sc)"
  by (simp add: extra_line_def fresh_put_line)

text \<open>After a text only the text itself decides.\<close>

lemma fresh_after_text:
  assumes "fresh_line sc" "foldl term_step line_start e = line_start" "foldl term_step (cursor (fst sc)) b = cursor (fst sc) \<or> t \<noteq> []"
  shows "fresh_line (upd (ds_update_last_char (Some t)) (put (b @ t @ e) sc))"
proof (cases "t = []")
  case True
  then show ?thesis
    using assms by (auto simp: fresh_line_def ds_update_last_char_def cursor_append)
next
  case t: False
  show ?thesis
  proof (cases "last_char_of t")
    case None
    with t show ?thesis by (simp add: fresh_line_def ds_update_last_char_def)
  next
    case (Some l)
    have "cursor (fst sc @ b @ t @ e) = line_start" if "ds_first (ds\<lparr>ds_last_char := l\<rparr>) = LF" for ds
    proof -
      have "l \<noteq> []" using last_char_nonempty [OF Some t] .
      then have "l = LF # tl l" using that by (cases l) (simp_all add: ds_first_def)
      then obtain s where s: "t = s @ [LF]" using last_char_LF [of t "tl l"] Some by auto
      show ?thesis using cursor_line [of "fst sc @ b" s e] assms(2) by (simp add: s)
    qed
    then have "ds_first (snd sc\<lparr>ds_last_char := l\<rparr>) = LF \<longrightarrow> cursor (fst sc @ b @ t @ e) = line_start" by blast
    with Some t show ?thesis by (simp add: fresh_line_def ds_update_last_char_def)
  qed
qed

lemma fresh_prompt: "fresh_line (clear_prompt i sc)" if "fresh_line sc"
  using that by (auto simp: fresh_line_def clear_prompt_def NUL_def LF_def)

lemma fresh_after_thinking: "fresh_line sc \<Longrightarrow> fresh_line (after_thinking sc)"
  by (simp add: fresh_line_def after_thinking_def)

lemma fresh_thinking: "fresh_line sc \<Longrightarrow> fresh_line (render_thinking i m sc)"
proof -
  assume f: "fresh_line sc"
  have "fresh_line (upd (ds_update_last_char (Some t)) (put (color ''90'' @ t @ color ''0'') x))" if "fresh_line x" for t x
  proof (cases "t = []")
    case True
    have "ds_first (snd x) = LF \<Longrightarrow> \<not> ds_fault (snd x) \<Longrightarrow> cursor (fst x @ color ''90'' @ color ''0'') = line_start"
      using that by (simp add: fresh_line_def cursor_append term_color)
    with True show ?thesis by (simp add: fresh_line_def ds_update_last_char_def)
  qed (simp add: fresh_after_text that term_color)
  with fresh_prompt [OF f] show ?thesis
    by (auto simp: render_thinking_def Let_def fresh_line_def split: option.split)
qed

lemma fresh_text: "fresh_line sc \<Longrightarrow> fresh_line (render_text i m sc)"
  using fresh_after_text [of "after_thinking (clear_prompt i sc)" "[]" "[]"] fresh_after_thinking fresh_prompt
  by (auto simp: render_text_def Let_def fresh_thinking_done split: option.split)

lemma fresh_render: "fresh_line sc \<Longrightarrow> fresh_line (render_human i m sc)"
  by (simp add: render_human_def fresh_thinking fresh_text fresh_thinking_done fresh_put_line fresh_ensure fresh_extra
      render_tool_result_def split: display_type.split)

lemma fresh_thread: "fresh_line (display_thread_fn OUTPUT_HUMAN i ms)"
proof -
  have "fresh_line sc \<Longrightarrow> fresh_line (foldl (\<lambda>sc m. render_message OUTPUT_HUMAN i m sc) sc ms)" for sc
    by (induction ms arbitrary: sc) (simp_all add: render_message_def fresh_render)
  then show ?thesis by (simp add: display_thread_fn_def fresh_line_init)
qed

text \<open>The messages shown as a line of their own.\<close>

definition notice_types :: "display_type set" where
  "notice_types = {DISPLAY_TOOL_CALL, DISPLAY_ERROR, DISPLAY_CONTEXT_UPDATE, DISPLAY_SUB_AGENT_RESULT,
     DISPLAY_ASYNC_TASK_RESULT, DISPLAY_USER_NOTIFY}"

lemma ensure_fst: "\<exists>p. fst (ensure_newline sc) = fst sc @ p"
  by (simp add: ensure_newline_def)

lemma clear_line_fst: "\<exists>p. fst (clear_line i sc) = fst sc @ p" "snd (clear_line i sc) = snd sc"
  by (simp_all add: clear_line_def)

lemma extra_line_fst:
  assumes "cursor (fst sc) = line_start"
  shows "\<exists>p. fst (extra_line f t sc) = fst sc @ p \<and> cursor (fst sc @ p) = line_start"
  using assms by (simp add: extra_line_def put_line_def)

lemma put_line_fst: "fst (put_line b sc) = fst sc @ b @ [LF]" "cursor (fst (put_line b sc)) = line_start"
  by (simp_all add: put_line_def)

lemma extra_lines_fst:
  "\<exists>p. fst (extra_line f t (extra_line g u (put_line b sc))) = fst sc @ b @ LF # p \<and> cursor (fst sc @ b @ LF # p) = line_start"
proof -
  obtain p where p: "fst (extra_line g u (put_line b sc)) = fst sc @ b @ LF # p" "cursor (fst sc @ b @ LF # p) = line_start"
    using extra_line_fst [OF put_line_fst(2) [of b sc], of g u] by (auto simp: put_line_fst(1))
  then obtain q where "fst (extra_line f t (extra_line g u (put_line b sc))) = fst sc @ b @ LF # p @ q"
      "cursor (fst sc @ b @ LF # p @ q) = line_start"
    using extra_line_fst [of "extra_line g u (put_line b sc)" f t] by auto
  then show ?thesis by blast
qed

text \<open>
  C31: Whatever was shown before - text, thinking, tool output in any order - a tool call, an error, a
  note and the result of a background task begin in the first column of a line and end their line, unless
  a text ended inside a character, where the display reads past the end of the text.
\<close>

theorem notices_on_own_line:
  assumes "display_thread_fn OUTPUT_HUMAN interactive ms = (out, ds)" "\<not> ds_fault ds" "dm_type m \<in> notice_types"
  shows "\<exists>pre post. fst (render_message OUTPUT_HUMAN interactive m (out, ds)) = out @ pre @ notice m @ LF # post
    \<and> cursor (out @ pre) = line_start \<and> cursor (out @ pre @ notice m @ LF # post) = line_start"
proof -
  have f: "fresh_line (out, ds)" using fresh_thread [of interactive ms] assms(1) by simp
  let ?l = "dm_type m \<in> {DISPLAY_SUB_AGENT_RESULT, DISPLAY_ASYNC_TASK_RESULT}"
  define sc where "sc = (if ?l then clear_line interactive (out, ds) else (out, ds))"
  have sc: "fresh_line sc" "snd sc = ds" using f by (simp_all add: sc_def fresh_clear clear_line_fst(2))
  obtain pre where pre: "fst (ensure_newline sc) = out @ pre"
    using ensure_fst [of sc] clear_line_fst(1) [of interactive "(out, ds)"] by (auto simp: sc_def split: if_splits)
  have c: "cursor (out @ pre) = line_start"
    using fresh_newline [OF sc(1)] sc(2) assms(2) by (simp add: pre)
  have id: "extra_line id None x = x" for x by (simp add: extra_line_def)
  have "\<exists>f t g u. fst (render_message OUTPUT_HUMAN interactive m (out, ds))
      = fst (extra_line f t (extra_line g u (put_line (notice m) (ensure_newline sc))))"
  proof (cases "dm_type m = DISPLAY_SUB_AGENT_RESULT")
    case True
    then show ?thesis by (auto simp: render_message_def render_human_def thinking_done_def sc_def)
  next
    case False
    have "fst (render_message OUTPUT_HUMAN interactive m (out, ds))
      = fst (extra_line id (if ?l then dm_content m else None) (extra_line id None (put_line (notice m) (ensure_newline sc))))"
      using False assms(3) by (auto simp: render_message_def render_human_def thinking_done_def sc_def notice_types_def id)
    then show ?thesis by blast
  qed
  then obtain post where "fst (render_message OUTPUT_HUMAN interactive m (out, ds)) = out @ pre @ notice m @ LF # post"
    "cursor (out @ pre @ notice m @ LF # post) = line_start"
    using extra_lines_fst by (metis append_assoc pre)
  with c show ?thesis by blast
qed

lemma notices_on_own_line_witness:
  "\<exists>out ds pre post. display_thread_fn OUTPUT_HUMAN True [display_msg_text (Some ''hi'')] = (out, ds)
     \<and> fst (render_message OUTPUT_HUMAN True (display_msg_error (Some ''e'')) (out, ds))
        = out @ pre @ notice (display_msg_error (Some ''e'')) @ LF # post \<and> cursor (out @ pre) = line_start"
proof -
  obtain out ds where d: "display_thread_fn OUTPUT_HUMAN True [display_msg_text (Some ''hi'')] = (out, ds)"
    by (cases "display_thread_fn OUTPUT_HUMAN True [display_msg_text (Some ''hi'')]")
  have "last_char_of ''hi'' = Some ''i''" by (simp add: last_char_of.simps utf8_step_def ord_def)
  then have "\<not> ds_fault (snd (display_thread_fn OUTPUT_HUMAN True [display_msg_text (Some ''hi'')]))"
    by (simp add: display_thread_fn_def render_message_def render_human_def render_text_def display_msg_defs clear_prompt_def
        after_thinking_def thinking_done_def ds_update_last_char_def ds_init_def set_first_def Let_def)
  with d have "\<not> ds_fault ds" by simp
  moreover have "dm_type (display_msg_error (Some ''e'')) \<in> notice_types"
    by (simp add: display_msg_defs notice_types_def)
  ultimately show ?thesis using notices_on_own_line [OF d] d by blast
qed

text \<open>A text that ends inside a character is read past its end.\<close>

lemma truncated_text_overruns: "ds_fault (ds_update_last_char (Some (t @ [CHR 0xE4])) ds)" if "list_all (\<lambda>c. ord c < 0x80) t"
proof -
  have "last_char_of (t @ [CHR 0xE4]) = None"
    using that by (induction t) (simp_all add: last_char_of.simps utf8_step_def, simp add: ord_def)
  then show ?thesis by (simp add: ds_update_last_char_def)
qed

section \<open>Stream-json\<close>

text \<open>The stream-json line of a message is the line its event has in the log; only an empty text of
  tool input would differ.\<close>

lemma stream_line_is_event:
  assumes "display_msg_to_event m = Some e" "dm_tool_input m \<noteq> Some []"
  shows "stream_json_line m = Some e"
  using assms by (cases "dm_type m"; cases "dm_tool_input m") (simp_all add: display_msg_to_event_def stream_json_line_def)

section \<open>The flush barrier\<close>

definition in_hand :: "flush_sys \<Rightarrow> display_message list" where
  "in_hand s = (case fl_taken s of None \<Rightarrow> [] | Some m \<Rightarrow> [m])"

definition flushes :: "display_message list \<Rightarrow> display_message list" where
  "flushes ms = filter is_flush ms"

text \<open>A flush that has been pushed, and none after it.\<close>

definition one_flush_since :: "display_message list \<Rightarrow> display_message list \<Rightarrow> bool" where
  "one_flush_since b p \<longleftrightarrow> (\<exists>after. p = b @ flush_message # after \<and> flushes after = [])"

definition flush_inv :: "flush_sys \<Rightarrow> bool" where
  "flush_inv s \<longleftrightarrow>
     fl_pushed s = fl_rendered s @ in_hand s @ fl_queue s \<and> list_all is_flush (in_hand s)
     \<and> (fl_signal s \<longrightarrow> fl_done s)
     \<and> (if fl_pc s = FIdle then flushes (in_hand s @ fl_queue s) = []
        else one_flush_since (fl_before s) (fl_pushed s)
          \<and> flushes (in_hand s @ fl_queue s) = (if fl_done s then [] else [flush_message])
          \<and> (fl_pc s = FWaiting \<and> fl_done s \<longrightarrow> fl_signal s))"

lemma flushes_simps [simp]:
  "flushes [] = []" "flushes (m # ms) = (if is_flush m then m # flushes ms else flushes ms)"
  "flushes (a @ b) = flushes a @ flushes b"
  by (simp_all add: flushes_def)

lemma flush_message_is [simp]: "is_flush flush_message"
  by (simp add: is_flush_def flush_message_def display_blank_def)

lemma one_flush_start: "one_flush_since p (p @ [flush_message])"
  by (auto simp: one_flush_since_def)

lemma one_flush_push: "one_flush_since b p \<Longrightarrow> \<not> is_flush m \<Longrightarrow> one_flush_since b (p @ [m])"
  by (force simp: one_flush_since_def)

lemma flush_inv_step: "flush_step a s t \<Longrightarrow> flush_inv s \<Longrightarrow> flush_inv t"
proof (induction rule: flush_step.induct)
  case (push s m)
  then show ?case using one_flush_push [of "fl_before s" "fl_pushed s" m]
    by (cases "fl_pc s = FIdle") (auto simp: flush_inv_def in_hand_def)
next
  case (start s)
  then show ?case using one_flush_start [of "fl_pushed s"] by (auto simp: flush_inv_def in_hand_def split: if_splits option.splits)
next
  case (signal s m)
  then show ?case by (cases "fl_pc s") (auto simp: flush_inv_def in_hand_def split: if_splits)
qed (auto simp: flush_inv_def in_hand_def split: if_splits option.splits)

lemma flush_reachable_inv: "flush_reachable s \<Longrightarrow> flush_inv s"
proof (induction rule: flush_reachable.induct)
  case start_state
  show ?case by (simp add: flush_init_def flush_inv_def in_hand_def)
next
  case (step s a t)
  then show ?case using flush_inv_step by blast
qed

text \<open>With no flush among the messages still to come, all that was pushed before it has been shown.\<close>

lemma flush_rendered:
  assumes "r @ q = b @ f # after" "is_flush f" "flushes q = []"
  shows "\<exists>post. r = b @ f # post"
proof -
  have "f \<in> set q" if "length r \<le> length b"
    using assms(1) that by (auto simp: append_eq_append_conv2)
  then have "\<not> length r \<le> length b" using assms(2,3) by (auto simp: flushes_def filter_empty_conv)
  then show ?thesis using assms(1) by (auto simp: append_eq_append_conv2) (metis append_eq_Cons_conv)
qed

text \<open>
  C10: \<open>display_flush\<close> does not return early: at each return, in every interleaving of the pushing
  threads, the display thread and wake-ups, spurious ones too, all the messages that were queued before it
  was called have been shown, in their order.
\<close>

theorem flush_waits_for_all:
  assumes "flush_reachable s" "flush_step a s t" "fl_pc s \<noteq> FIdle" "fl_pc t = FIdle"
  shows "\<exists>post. fl_rendered s = fl_before s @ flush_message # post"
proof -
  have "fl_pc s = FHolding \<and> fl_done s" using assms(2-4) by (cases rule: flush_step.cases) simp_all
  moreover have "one_flush_since (fl_before s) (fl_rendered s @ in_hand s @ fl_queue s)"
    using flush_reachable_inv [OF assms(1)] assms(3) by (auto simp: flush_inv_def)
  then obtain after where "fl_rendered s @ in_hand s @ fl_queue s = fl_before s @ flush_message # after"
    unfolding one_flush_since_def by blast
  ultimately show ?thesis
    using flush_rendered [OF _ flush_message_is] flush_reachable_inv [OF assms(1)] assms(3) by (simp add: flush_inv_def)
qed

text \<open>A message, a flush, and the steps to its return.\<close>

definition flush_example :: flush_sys where
  "flush_example = \<lparr>fl_queue = [], fl_closed = False, fl_rendered = [display_blank DISPLAY_TEXT, flush_message],
     fl_pc = FHolding, fl_done = True, fl_signal = False, fl_taken = None,
     fl_pushed = [display_blank DISPLAY_TEXT, flush_message], fl_before = [display_blank DISPLAY_TEXT]\<rparr>"

lemma flush_example_reachable: "flush_reachable flush_example"
proof -
  let ?m = "display_blank DISPLAY_TEXT"
  define s1 where "s1 = flush_init\<lparr>fl_queue := [?m], fl_pushed := [?m]\<rparr>"
  define s2 where "s2 = s1\<lparr>fl_queue := [?m, flush_message], fl_pushed := [?m, flush_message], fl_pc := FHolding,
      fl_done := False, fl_signal := False, fl_before := [?m]\<rparr>"
  define s3 where "s3 = s2\<lparr>fl_pc := FWaiting\<rparr>"
  define s4 where "s4 = s3\<lparr>fl_queue := [flush_message], fl_rendered := [?m]\<rparr>"
  define s5 where "s5 = s4\<lparr>fl_queue := [], fl_taken := Some flush_message\<rparr>"
  define s6 where "s6 = s5\<lparr>fl_taken := None, fl_rendered := [?m, flush_message], fl_done := True, fl_signal := True\<rparr>"
  note d = s1_def s2_def s3_def s4_def s5_def s6_def flush_init_def
  have "\<not> is_flush ?m" by (simp add: is_flush_def display_blank_def)
  then have "flush_step Other flush_init s1" "flush_step Other s1 s2" "flush_step Flusher s2 s3" "flush_step DisplayThread s3 s4"
    "flush_step DisplayThread s4 s5" "flush_step DisplayThread s5 s6" "flush_step Flusher s6 flush_example"
    by (simp_all add: flush_step_simps d flush_example_def)
  then show ?thesis using start_state flush_reachable.step by metis
qed

lemma flush_waits_for_all_witness:
  "\<exists>post. fl_rendered flush_example = fl_before flush_example @ flush_message # post"
proof -
  have "flush_step Flusher flush_example (flush_example\<lparr>fl_pc := FIdle\<rparr>)"
    by (rule flush_step.return_flush) (simp_all add: flush_example_def)
  from flush_waits_for_all [OF flush_example_reachable this] show ?thesis by (simp add: flush_example_def)
qed

text \<open>How much is left until the flush returns, when nothing more is pushed.\<close>

fun pc_weight :: "bool \<Rightarrow> flush_pc \<Rightarrow> nat" where
  "pc_weight d FIdle = 0"
| "pc_weight True FHolding = 1"
| "pc_weight True FWaiting = 2"
| "pc_weight False FHolding = 1"
| "pc_weight False FWaiting = 0"

definition flush_left :: "flush_sys \<Rightarrow> nat" where
  "flush_left s = 5 * length (fl_queue s) + 4 * length (in_hand s) + pc_weight (fl_done s) (fl_pc s)"

lemma progressI:
  "flush_step a s t \<Longrightarrow> a \<noteq> Other \<Longrightarrow> flush_left t < flush_left s \<Longrightarrow>
     \<exists>a t. flush_step a s t \<and> a \<noteq> Other \<and> flush_left t < flush_left s"
  by blast

lemma flush_progress:
  assumes "flush_inv s" "fl_pc s \<noteq> FIdle"
  shows "\<exists>a t. flush_step a s t \<and> a \<noteq> Other \<and> flush_left t < flush_left s"
proof (cases "fl_pc s")
  case FIdle
  with assms show ?thesis by simp
next
  case FHolding
  then show ?thesis
    by (cases "fl_done s")
      (fastforce simp: flush_left_def in_hand_def intro: flush_step.return_flush flush_step.wait)+
next
  case FWaiting
  show ?thesis
  proof (cases "fl_done s")
    case True
    then have "fl_signal s" using assms FWaiting by (simp add: flush_inv_def)
    with True FWaiting show ?thesis
      by (fastforce simp: flush_left_def in_hand_def intro: flush_step.wake)
  next
    case False
    then have pending: "flushes (in_hand s @ fl_queue s) = [flush_message]" using assms by (simp add: flush_inv_def)
    show ?thesis
    proof (cases "fl_taken s")
      case (Some m)
      have "fl_pc s \<noteq> FHolding" using FWaiting by simp
      then show ?thesis using Some FWaiting False
        by (intro progressI [OF flush_step.signal [OF Some]]) (auto simp: flush_left_def in_hand_def)
    next
      case None
      then obtain m q where q: "fl_queue s = m # q" using pending by (cases "fl_queue s") (auto simp: in_hand_def)
      show ?thesis
      proof (cases "is_flush m")
        case True
        show ?thesis using None q
          by (intro progressI [OF flush_step.take_flush [OF None q]]) (auto simp: flush_left_def in_hand_def True)
      next
        case False
        show ?thesis using None q
          by (intro progressI [OF flush_step.render [OF None q]]) (auto simp: flush_left_def in_hand_def False)
      qed
    qed
  qed
qed

text \<open>Steps of the flusher and of the display thread.\<close>

inductive own_steps :: "flush_sys \<Rightarrow> flush_sys \<Rightarrow> bool" where
  done_already: "own_steps s s"
| own_step: "flush_step a s t \<Longrightarrow> a \<noteq> Other \<Longrightarrow> own_steps t u \<Longrightarrow> own_steps s u"

text \<open>
  C22: \<open>display_flush\<close> returns: from every state of every interleaving, the steps of the display thread and
  of the waiting thread alone lead to its return. No wake-up is lost between the test of the flag and the
  wait, and the queue being closed meanwhile does not matter.
\<close>

theorem flush_returns:
  assumes "flush_reachable s" shows "\<exists>t. own_steps s t \<and> fl_pc t = FIdle"
proof -
  have "flush_inv s \<Longrightarrow> \<exists>t. own_steps s t \<and> fl_pc t = FIdle" for s
  proof (induction s rule: measure_induct_rule [of flush_left])
    case (less s)
    show ?case
    proof (cases "fl_pc s = FIdle")
      case True
      then show ?thesis using done_already by blast
    next
      case False
      then obtain a t where t: "flush_step a s t" "a \<noteq> Other" "flush_left t < flush_left s"
        using flush_progress less.prems by blast
      then obtain u where "own_steps t u" "fl_pc u = FIdle" using less.IH flush_inv_step [OF t(1) less.prems] by blast
      then show ?thesis using own_step [OF t(1,2)] by blast
    qed
  qed
  then show ?thesis using flush_reachable_inv [OF assms] .
qed

lemma flush_returns_witness: "\<exists>t. own_steps flush_example t \<and> fl_pc t = FIdle"
  by (rule flush_returns) (rule flush_example_reachable)

end
