(* ===== verification/StartUp.thy ===== *)
theory StartUp
  imports AgentLoop
begin

text \<open>
  The command line and the start of the program (c/cagent.c), and the creation of an agent
  (\<open>agent_create\<close> of c/agent.c).  What the process is started with - environment variables, directory,
  terminal, standard input, directory listings - is a record; signal handlers and the set-up of curl
  have no model.
\<close>

section \<open>What the process finds\<close>

record sysenv =
  se_env :: getenv
  se_cwd :: string
  se_stdin_tty :: bool
  se_stdin :: string
  se_sessions :: "string \<Rightarrow> dirent list option"
  se_time_str :: "string \<Rightarrow> string"
  se_prompt_env :: prompt_env
  se_tool_env :: tool_env
  se_tools_json :: string
  se_now :: string

definition util_env :: "getenv \<Rightarrow> string \<Rightarrow> string \<Rightarrow> string" where
  "util_env env name def = opt_default def (env name)"

definition util_home_dir :: "getenv \<Rightarrow> string" where
  "util_home_dir env = opt_default ''/tmp'' (env ''HOME'')"

text \<open>\<open>BASH_AGENT_HOME\<close> unless it is empty, else \<open>HOME\<close>.\<close>

definition session_home :: "getenv \<Rightarrow> string" where
  "session_home env =
     (if nonempty_opt (env ''BASH_AGENT_HOME'') then the (env ''BASH_AGENT_HOME'')
      else util_env env ''HOME'' (util_home_dir env))"

definition project_dir :: "sysenv \<Rightarrow> string" where
  "project_dir se =
     session_home (se_env se) @ ''/.bash-agent/projects/'' @ store_session_project_key (Some (se_cwd se))"

section \<open>Creating an agent\<close>

definition result_limit :: "getenv \<Rightarrow> int" where
  "result_limit env =
     (let n = (if nonempty_opt (env ''TOOL_RESULT_MAX_BYTES'') then atoi (the (env ''TOOL_RESULT_MAX_BYTES''))
               else 100000)
      in if n \<le> 0 then 100000 else n)"

definition api_url_of :: "string \<Rightarrow> string \<Rightarrow> string" where
  "api_url_of provider base_url =
     (if provider = ''claude''
      then (if base_url \<noteq> [] then base_url else ''https://api.anthropic.com/v1'') @ ''/messages''
      else if provider = ''openai''
      then (if base_url \<noteq> [] then base_url else ''https://api.openai.com/v1'') @ ''/chat/completions''
      else (let base = (if base_url \<noteq> [] then base_url else ''https://api.deepseek.com'')
            in (if last base = CHR ''/'' then butlast base else base) @ ''/responses''))"

definition new_session :: "bool \<Rightarrow> session_paths \<Rightarrow> run \<Rightarrow> run" where
  "new_session stream_json p r =
     (case store_session_init stream_json (r_fs r) p (\<not> stat_nonempty (r_fs r) (sp_events p)) of
        (rc, fs', out) \<Rightarrow> r\<lparr>r_fs := fs', r_out := r_out r @ out\<rparr>)"

text \<open>The goal, the depth and the verbose flag are zero from \<open>calloc\<close>.\<close>

definition agent_create ::
    "sysenv \<Rightarrow> bool \<Rightarrow> string \<Rightarrow> string option \<Rightarrow> string \<Rightarrow> string \<Rightarrow> string \<Rightarrow> string \<Rightarrow> string \<Rightarrow> bool
     \<Rightarrow> string list \<Rightarrow> bool \<Rightarrow> run \<Rightarrow> agent \<times> run" where
  "agent_create se stream_json provider model api_key base_url cwd home session_id interactive skills has_display r =
     (let (sid, r1) = (if session_id = [] then next_id r else (session_id, r));
          env = se_env se; paths = store_session_paths_for home (Some cwd) sid
      in (\<lparr>ag_provider = provider, ag_model = model, ag_api_key = api_key, ag_base_url = base_url,
            ag_api_url = api_url_of provider base_url,
            ag_max_tokens = 16384, ag_max_turns = 1000, ag_max_context_tokens = 200000, ag_tool_timeout_secs = 600,
            ag_tool_result_max_bytes = result_limit env, ag_verbose = False, ag_interactive = interactive,
            ag_thinking = Some (util_env env ''THINKING'' ''adaptive''), ag_effort = Some (util_env env ''EFFORT'' ''high''),
            ag_vision = Some (util_env env ''AGENT_VISION'' ''off''), ag_goal = None,
            ag_dp_cfg = dp_config_init env 200000, ag_skill_names = skills, ag_cwd = cwd, ag_home = home,
            ag_session_id = sid, ag_paths = paths, ag_sub_agent_depth = 0, ag_has_display = has_display,
            ag_stream_json = stream_json, ag_tools_json = se_tools_json se, ag_prompt_env = se_prompt_env se,
            ag_tool_env = se_tool_env se, ag_now = se_now se\<rparr>,
          new_session stream_json paths r1))"

section \<open>The command line\<close>

record options =
  op_provider :: string
  op_model :: "string option"
  op_api_key :: "string option"
  op_base_url :: "string option"
  op_session :: string
  op_output :: string
  op_max_context :: "string option"
  op_max_tokens :: "string option"
  op_max_turns :: "string option"
  op_effort :: "string option"
  op_goal :: "string option"
  op_thinking :: "string option"
  op_vision :: "string option"
  op_tool_timeout :: "string option"
  op_continue :: bool
  op_fork :: bool
  op_interactive :: bool
  op_verbose :: bool
  op_print :: bool
  op_prompt :: "string option"
  op_skills :: "string list"

definition default_options :: options where
  "default_options =
     \<lparr>op_provider = ''claude'', op_model = None, op_api_key = None, op_base_url = None, op_session = [],
      op_output = ''human'', op_max_context = None, op_max_tokens = None, op_max_turns = None, op_effort = None,
      op_goal = None, op_thinking = None, op_vision = None, op_tool_timeout = None, op_continue = False,
      op_fork = False, op_interactive = False, op_verbose = False, op_print = False, op_prompt = None, op_skills = []\<rparr>"

text \<open>The options that take the next argument, whatever it is.\<close>

definition set_value :: "string \<Rightarrow> string \<Rightarrow> options \<Rightarrow> options option" where
  "set_value a v opt =
     (if a = ''-p'' \<or> a = ''--provider'' then Some (opt\<lparr>op_provider := v\<rparr>)
      else if a = ''-m'' \<or> a = ''--model'' then Some (opt\<lparr>op_model := Some v\<rparr>)
      else if a = ''--api-key'' then Some (opt\<lparr>op_api_key := Some v\<rparr>)
      else if a = ''--base-url'' then Some (opt\<lparr>op_base_url := Some v\<rparr>)
      else if a = ''--output'' \<or> a = ''--output-format'' then Some (opt\<lparr>op_output := v\<rparr>)
      else if a = ''--max-context'' then Some (opt\<lparr>op_max_context := Some v\<rparr>)
      else if a = ''--max-tokens'' then Some (opt\<lparr>op_max_tokens := Some v\<rparr>)
      else if a = ''--max-turns'' then Some (opt\<lparr>op_max_turns := Some v\<rparr>)
      else if a = ''--goal'' then Some (opt\<lparr>op_goal := Some v\<rparr>)
      else if a = ''--effort'' then Some (opt\<lparr>op_effort := Some v\<rparr>)
      else if a = ''--thinking'' then Some (opt\<lparr>op_thinking := Some v\<rparr>)
      else if a = ''--tool-timeout'' then Some (opt\<lparr>op_tool_timeout := Some v\<rparr>)
      else None)"

text \<open>\<open>--session\<close> and \<open>--vision\<close> take the next argument only when it is not an option.\<close>

definition set_optional :: "string \<Rightarrow> string \<Rightarrow> options \<Rightarrow> options" where
  "set_optional a v opt =
     (if a = ''--session'' then opt\<lparr>op_session := v\<rparr> else opt\<lparr>op_vision := Some v\<rparr>)"

datatype command = RunWith options | ListSessions | ShowHelp

definition set_flag :: "string \<Rightarrow> options \<Rightarrow> options" where
  "set_flag a opt =
     (if a = ''--session'' then opt\<lparr>op_session := []\<rparr>
      else if a = ''--continue'' then opt\<lparr>op_continue := True\<rparr>
      else if a = ''--fork'' then opt\<lparr>op_fork := True\<rparr>
      else if a = ''--interactive'' \<or> a = ''-i'' then opt\<lparr>op_interactive := True\<rparr>
      else if a = ''--verbose'' \<or> a = ''-v'' then opt\<lparr>op_verbose := True\<rparr>
      else if a = ''--print'' then opt\<lparr>op_print := True\<rparr>
      else if a = ''--vision'' then opt\<lparr>op_vision := Some ''on''\<rparr>
      else if \<not> starts (CHR ''-'') a then opt\<lparr>op_prompt := Some a\<rparr>
      else opt)"

definition MAX_SKILLS :: nat where
  "MAX_SKILLS = 32"

text \<open>The loop over \<open>argv\<close> after the program's name.  An option whose value is missing is ignored; a
  skill too many does not take its value, which is then read as an argument of its own.\<close>

fun parse_args :: "options \<Rightarrow> string list \<Rightarrow> command" where
  "parse_args opt [] = RunWith opt"
| "parse_args opt [a] =
     (if a = ''--list-sessions'' then ListSessions
      else if a = ''-h'' \<or> a = ''--help'' then ShowHelp
      else RunWith (set_flag a opt))"
| "parse_args opt (a # v # rest) =
     (case set_value a v opt of
        Some opt' \<Rightarrow> parse_args opt' rest
      | None \<Rightarrow>
          if a = ''--skill'' then
            (if length (op_skills opt) < MAX_SKILLS then parse_args (opt\<lparr>op_skills := op_skills opt @ [v]\<rparr>) rest
             else parse_args opt (v # rest))
          else if (a = ''--session'' \<or> a = ''--vision'') \<and> \<not> starts (CHR ''-'') v
          then parse_args (set_optional a v opt) rest
          else if a = ''--list-sessions'' then ListSessions
          else if a = ''-h'' \<or> a = ''--help'' then ShowHelp
          else parse_args (set_flag a opt) (v # rest))"

definition usage :: "string \<Rightarrow> string" where
  "usage prog =
     ''Usage: '' @ prog @ '' [options] [prompt]'' @ [LF]
     @ ''Options:'' @ [LF]
     @ ''  --provider claude|openai|responses API provider (default: claude)'' @ [LF]
     @ ''  --model MODEL              Model name'' @ [LF]
     @ ''  --api-key KEY              API key'' @ [LF]
     @ ''  --base-url URL             API base URL'' @ [LF]
     @ ''  --session ID               Session ID'' @ [LF]
     @ ''  --continue                 Continue last session'' @ [LF]
     @ ''  --fork                     When resuming, create a new forked session (use with --session or --continue)'' @ [LF]
     @ ''  --interactive              Force interactive mode'' @ [LF]
     @ ''  --vision [on]             Native PNG attachments (default: off; AGENT_VISION)'' @ [LF]
     @ ''  --verbose                  Verbose logging'' @ [LF]
     @ ''  --output human|stream-json Output format'' @ [LF]
     @ ''  -h, --help                 Show this help'' @ [LF]
     @ ''Environment:'' @ [LF]
     @ ''  *_API_KEY               API key (ANTHROPIC / OPENAI / DEEPSEEK auto-detected)'' @ [LF]
     @ ''  *_BASE_URL              Override API base URL (ANTHROPIC / OPENAI)'' @ [LF]
     @ ''  BASH_AGENT_HOME         Override session storage (default: $HOME)'' @ [LF]
     @ ''  BASH_AGENT_BASH_MODE    Bash and local file tool permissions (default: 0467)'' @ [LF]"

section \<open>Provider, key and model\<close>

record endpoint =
  ep_provider :: string
  ep_api_key :: string
  ep_base_url :: string
  ep_model :: string

definition given :: "string option \<Rightarrow> string \<Rightarrow> string" where
  "given arg def = (if nonempty_opt arg then the arg else def)"

definition openai_like :: "string \<Rightarrow> bool" where
  "openai_like provider \<longleftrightarrow> provider = ''openai'' \<or> provider = ''responses''"

text \<open>The key and the base URL configured for the provider, empty when there is none.\<close>

definition configured :: "getenv \<Rightarrow> options \<Rightarrow> (string \<times> string) option" where
  "configured env opt =
     (if op_provider opt = ''claude''
      then Some (given (op_api_key opt) (util_env env ''ANTHROPIC_API_KEY'' []),
                 given (op_base_url opt) (util_env env ''ANTHROPIC_BASE_URL'' []))
      else if openai_like (op_provider opt)
      then Some (given (op_api_key opt) (util_env env ''OPENAI_API_KEY'' []),
                 given (op_base_url opt) (util_env env ''OPENAI_BASE_URL'' []))
      else None)"

definition DEEPSEEK_URL :: string where
  "DEEPSEEK_URL = ''https://api.deepseek.com/anthropic''"

definition default_model :: "string \<Rightarrow> string" where
  "default_model provider =
     (if provider = ''openai'' then ''gpt-4o''
      else if provider = ''responses'' then ''deepseek-v4-flash'' else ''claude-sonnet-4-20250514'')"

definition no_key_error :: "string \<Rightarrow> string" where
  "no_key_error provider =
     ''Error: no API key. Set '' @ (if openai_like provider then ''OPENAI'' else ''ANTHROPIC'')
     @ ''_API_KEY or use --api-key'' @ [LF]"

definition unknown_provider_error :: "string \<Rightarrow> string" where
  "unknown_provider_error provider =
     ''Error: unknown provider '' @ [CHR 0x27] @ provider @ [CHR 0x27] @ '' (use claude|openai|responses)'' @ [LF]"

definition choose_endpoint :: "getenv \<Rightarrow> options \<Rightarrow> string + endpoint" where
  "choose_endpoint env opt =
     (case configured env opt of
        None \<Rightarrow> Inl (unknown_provider_error (op_provider opt))
      | Some (key, base) \<Rightarrow>
          if key = [] \<and> base = [] then
            (if nonempty_opt (env ''DEEPSEEK_API_KEY'')
             then Inr \<lparr>ep_provider = ''claude'', ep_api_key = the (env ''DEEPSEEK_API_KEY''), ep_base_url = DEEPSEEK_URL,
                       ep_model = given (op_model opt) ''deepseek-v4-flash''\<rparr>
             else Inl (no_key_error (op_provider opt)))
          else Inr \<lparr>ep_provider = op_provider opt, ep_api_key = key, ep_base_url = base,
                    ep_model = given (op_model opt) (default_model (op_provider opt))\<rparr>)"

section \<open>The session\<close>

text \<open>The session to resume, or with \<open>--fork\<close> to copy; empty when there is none.\<close>

definition resumed_session :: "sysenv \<Rightarrow> options \<Rightarrow> string" where
  "resumed_session se opt =
     (if (op_continue opt \<or> op_fork opt) \<and> op_session opt = []
      then opt_default [] (store_session_resolve_continue (se_sessions se (project_dir se)))
      else op_session opt)"

definition open_session :: "sysenv \<Rightarrow> options \<Rightarrow> run \<Rightarrow> string \<times> run" where
  "open_session se opt r =
     (let source = resumed_session se opt in
      if op_fork opt then
        (let (sid, r1) = next_id r; home = session_home (se_env se); paths = store_session_paths_for home (Some (se_cwd se))
         in (sid, r1\<lparr>r_fs := snd (store_session_fork (r_fs r1) (paths source) (paths sid))\<rparr>))
      else if source = [] then next_id r else (source, r))"

section \<open>Options of the agent\<close>

text \<open>A size is stored in an \<open>int\<close> when it is positive as a \<open>long\<close>.\<close>

definition size_option :: "string option \<Rightarrow> int \<Rightarrow> int" where
  "size_option v old = (if v \<noteq> None \<and> 0 < util_parse_size v then s32 (util_parse_size v) else old)"

definition apply_options :: "options \<Rightarrow> agent \<Rightarrow> agent" where
  "apply_options opt ag =
     ag\<lparr>ag_verbose := op_verbose opt,
        ag_max_tokens := size_option (op_max_tokens opt) (ag_max_tokens ag),
        ag_max_turns := size_option (op_max_turns opt) (ag_max_turns ag),
        ag_tool_timeout_secs := size_option (op_tool_timeout opt) (ag_tool_timeout_secs ag),
        ag_effort := (if op_effort opt = None then ag_effort ag else op_effort opt),
        ag_thinking := (if op_thinking opt = None then ag_thinking ag else op_thinking opt),
        ag_vision := (case op_vision opt of None \<Rightarrow> ag_vision ag | Some v \<Rightarrow> Some (if v = ''on'' then ''on'' else ''off'')),
        ag_goal := (if op_goal opt = None then ag_goal ag else op_goal opt),
        ag_max_context_tokens := size_option (op_max_context opt) (ag_max_context_tokens ag)\<rparr>"

definition initial_prompt :: "sysenv \<Rightarrow> options \<Rightarrow> string option" where
  "initial_prompt se opt =
     (if op_prompt opt = None \<and> nonempty_opt (op_goal opt) \<and> se_stdin_tty se then op_goal opt else op_prompt opt)"

definition is_interactive :: "sysenv \<Rightarrow> options \<Rightarrow> bool" where
  "is_interactive se opt \<longleftrightarrow> op_interactive opt \<or> initial_prompt se opt = None \<and> se_stdin_tty se"

definition stream_output :: "options \<Rightarrow> bool" where
  "stream_output opt \<longleftrightarrow> op_print opt \<or> op_output opt = ''stream-json''"

text \<open>From the options to the agent: the size of the context is checked first, then the provider.\<close>

definition make_agent :: "sysenv \<Rightarrow> options \<Rightarrow> run \<Rightarrow> string + agent \<times> run" where
  "make_agent se opt r =
     (if op_max_context opt \<noteq> None \<and> util_parse_size (op_max_context opt) \<le> 0
      then Inl (''Error: Invalid --max-context: '' @ the (op_max_context opt) @ [LF])
      else case choose_endpoint (se_env se) opt of
        Inl e \<Rightarrow> Inl e
      | Inr ep \<Rightarrow>
          (let (sid, r1) = open_session se opt r;
               (ag, r2) = agent_create se (stream_output opt) (ep_provider ep) (Some (ep_model ep)) (ep_api_key ep)
                            (ep_base_url ep) (se_cwd se) (session_home (se_env se)) sid (is_interactive se opt)
                            (op_skills opt) True r1
           in Inr (apply_options opt ag, r2)))"

section \<open>The run\<close>

text \<open>The lines of standard input, read with \<open>fgets\<close> into 65536 bytes, without trailing blanks; empty
  ones are skipped.\<close>

function input_lines :: "string \<Rightarrow> string list" where
  "input_lines s =
     (case s of
        [] \<Rightarrow> []
      | _ # _ \<Rightarrow>
          (let (line, rest) = fgets 65535 s; t = util_rtrim (c_string line)
           in if t = [] then input_lines rest else t # input_lines rest))"
  by pat_completeness auto
termination
proof (relation "measure length", goal_cases)
  case (2 s c t x line r y)
  then show ?case using fgets_shorter [of 65534 c t line r] by simp
next
  case (3 s c t x line r y)
  then show ?case using fgets_shorter [of 65534 c t line r] by simp
qed simp

declare input_lines.simps [simp del]

definition first_input :: "sysenv \<Rightarrow> options \<Rightarrow> input_message list" where
  "first_input se opt =
     (case initial_prompt se opt of
        Some p \<Rightarrow> [MSG_USER_INPUT (Some p)]
      | None \<Rightarrow> map (\<lambda>l. MSG_USER_INPUT (Some l)) (input_lines (se_stdin se)))"

definition wait_end :: "agent \<Rightarrow> input_message list \<Rightarrow> run \<Rightarrow> run" where
  "wait_end ag late r = snd (agent_wait_for_sub_agents ag late r)"

definition run_batch :: "sysenv \<Rightarrow> options \<Rightarrow> (input_message list \<times> input_message list) list
    \<Rightarrow> input_message list \<Rightarrow> agent \<Rightarrow> run \<Rightarrow> run" where
  "run_batch se opt script late ag r =
     wait_end ag late (agent_main_loop ag script (r\<lparr>r_inputq := r_inputq r @ first_input se opt\<rparr>))"

text \<open>The last ten turns are shown again, then the title; the main loop runs on what the line editor
  and the background threads send.\<close>

definition show_replay :: "agent \<Rightarrow> run \<Rightarrow> run" where
  "show_replay ag r =
     (if ag_stream_json ag then r
      else (case agent_replay_events (r_fs r) (ag_paths ag) 10 of
              (n, ms) \<Rightarrow> r\<lparr>r_display := r_display r @ ms @ (if n then [display_msg_text (Some [LF])] else [])\<rparr>))"

definition run_interactive :: "(input_message list \<times> input_message list) list \<Rightarrow> input_message list
    \<Rightarrow> agent \<Rightarrow> run \<Rightarrow> run" where
  "run_interactive script late ag r0 =
     (let r1 = r0\<lparr>r_err := r_err r0 @ CHR 0x1B # ''[36mbash-agent interactive mode (type ''
                  @ [CHR 0x27] @ ''exit'' @ [CHR 0x27] @ '' or Ctrl+D to quit)'' @ CHR 0x1B # ''[0m'' @ [LF]\<rparr>;
          r2 = update_title_status ag (Some ''idle'') (show_replay ag r1);
          r3 = wait_end ag late (agent_main_loop ag script r2)
      in r3\<lparr>r_err := r_err r3 @ CHR 0x1B # ''[36mGoodbye!'' @ CHR 0x1B # ''[0m'' @ LF # CHR 0x1B
             # ''[90mResume with: --session '' @ ag_session_id ag @ ''  or  --continue'' @ CHR 0x1B # ''[0m'' @ [LF]\<rparr>)"

datatype main_end = Exit int string string | Ran agent run

definition session_table :: "sysenv \<Rightarrow> fsys \<Rightarrow> string" where
  "session_table se fs =
     (case store_session_list_rows fs (session_home (se_env se)) (Some (se_cwd se)) (se_sessions se (project_dir se))
             (se_time_str se) of
        (n, rows) \<Rightarrow>
          if 0 < n then pad_right 40 ''NAME'' @ '' '' @ pad_right 16 ''MODIFIED'' @ '' PREVIEW'' @ LF # rows
          else ''No sessions found.'' @ [LF])"

definition cagent_main :: "sysenv \<Rightarrow> string \<Rightarrow> string list \<Rightarrow> (input_message list \<times> input_message list) list
    \<Rightarrow> input_message list \<Rightarrow> run \<Rightarrow> main_end" where
  "cagent_main se prog argv script late r =
     (case parse_args default_options argv of
        ListSessions \<Rightarrow> Exit 0 (session_table se (r_fs r)) []
      | ShowHelp \<Rightarrow> Exit 0 [] (usage prog)
      | RunWith opt \<Rightarrow>
          (case make_agent se opt r of
             Inl e \<Rightarrow> Exit 1 [] e
           | Inr (ag, r1) \<Rightarrow>
               Ran ag (if is_interactive se opt then run_interactive script late ag r1
                       else run_batch se opt script late ag r1)))"

end
