(* ===== verification/HttpProps.thy ===== *)
theory HttpProps
  imports Http
begin

text \<open>
  What the streaming layer guarantees: the cut into chunks does not matter, only a leading line feed
  is fatal, a retry forgets the attempt before it, a speed is only reported after a complete reply.
\<close>

section \<open>Chunks\<close>

lemma stream_loop_append:
  "stream_loop sctx (fs @ gs) =
     (case stream_loop sctx fs of
        None \<Rightarrow> None
      | Some (ok, evs, sctx') \<Rightarrow>
          if \<not> ok then Some (False, evs, sctx')
          else (case stream_loop sctx' gs of
                  None \<Rightarrow> None | Some (ok', evs', sctx'') \<Rightarrow> Some (ok', evs @ evs', sctx'')))"
proof (induction sctx fs rule: stream_loop.induct)
  case (1 sctx)
  then show ?case by (simp split: option.split)
next
  case (2 sctx cancelled now c fs)
  then show ?case
    by (cases "stream_byte sctx now c") (auto split: option.split prod.split)
qed

definition quiet :: "feed list \<Rightarrow> bool" where
  "quiet fs \<longleftrightarrow> (\<forall>f \<in> set fs. \<not> fst f)"

lemma quiet_simps [simp]:
  "quiet []" "quiet (f # fs) \<longleftrightarrow> \<not> fst f \<and> quiet fs" "quiet (fs @ gs) \<longleftrightarrow> quiet fs \<and> quiet gs"
  by (auto simp: quiet_def)

lemma stream_loop_quiet: "quiet fs \<Longrightarrow> stream_loop sctx fs = Some (ok, evs, sctx') \<Longrightarrow> ok"
proof (induction sctx fs arbitrary: ok evs sctx' rule: stream_loop.induct)
  case (2 sctx cancelled now c fs)
  then show ?case by (fastforce split: option.splits prod.splits if_splits)
qed simp

lemma perform_chunks:
  "\<forall>ch \<in> set chunks. \<not> fst ch \<and> quiet (snd ch) \<Longrightarrow>
     perform sctx chunks rc =
       map_option (\<lambda>(ok, evs, sctx'). (rc, evs, sctx')) (stream_loop sctx (concat (map snd chunks)))"
proof (induction sctx chunks rc rule: perform.induct)
  case (2 sctx cancelled fs chunks rc)
  show ?case
  proof (cases "stream_loop sctx fs")
    case None
    with 2 show ?thesis by (simp add: stream_cb_def stream_loop_append)
  next
    case (Some r)
    obtain ok evs sctx1 where r: "r = (ok, evs, sctx1)" by (cases r)
    with Some 2 have "ok" using stream_loop_quiet [of fs sctx ok evs sctx1] by simp
    then have cb: "stream_cb sctx cancelled fs = Some (length fs, evs, sctx1)"
      using Some r 2 by (simp add: stream_cb_def)
    then have "perform sctx1 chunks rc =
        map_option (\<lambda>(ok, evs, sctx'). (rc, evs, sctx')) (stream_loop sctx1 (concat (map snd chunks)))"
      using 2 by simp
    with cb Some r \<open>ok\<close> show ?thesis
      by (auto simp: stream_loop_append split: option.split)
  qed
qed simp

section \<open>The line buffer\<close>

definition buf_ready :: "stream_ctx \<Rightarrow> bool" where
  "buf_ready sctx \<longleftrightarrow> sb_data (sc_line_buf sctx) \<noteq> None"

lemma sb_append_char_data [simp]: "sb_data (sb_append_char sb c) \<noteq> None"
  by (simp add: sb_append_char_def Let_def)

lemma sb_truncate_data [simp]: "sb_data (sb_truncate sb n) = None \<longleftrightarrow> sb_data sb = None"
  by (simp add: sb_truncate_def)

text \<open>No parser touches the line buffer.\<close>

lemma line_buf_ensure [simp]:
  "sc_line_buf (fst (streamctx_ensure_openai_tool sctx i)) = sc_line_buf sctx"
  by (simp add: streamctx_ensure_openai_tool_def Let_def split: option.split)

lemma line_buf_update [simp]: "sc_line_buf (update_tool i f sctx) = sc_line_buf sctx"
  by (simp add: update_tool_def)

lemma line_buf_emit [simp]:
  "sc_line_buf (snd (streamctx_emit_openai_tool_calls sctx)) = sc_line_buf sctx"
  by (simp add: streamctx_emit_openai_tool_calls_def Let_def)

lemma line_buf_delta [simp]: "sc_line_buf (openai_tool_delta sctx tc) = sc_line_buf sctx"
  by (simp add: openai_tool_delta_def Let_def case_prod_beta)

lemma line_buf_deltas [simp]: "sc_line_buf (foldl openai_tool_delta sctx tcs) = sc_line_buf sctx"
  by (induction tcs arbitrary: sctx) auto

lemma line_buf_finish [simp]: "sc_line_buf (snd (openai_finish sctx f)) = sc_line_buf sctx"
  by (simp add: openai_finish_def Let_def case_prod_beta split: option.split)

lemma line_buf_openai [simp]: "sc_line_buf (snd (parse_openai_sse_event sctx data now)) = sc_line_buf sctx"
  by (simp add: parse_openai_sse_event_def openai_choice_def Let_def case_prod_beta split: jres.split)

lemma line_buf_index [simp]: "sc_line_buf (fst (responses_tool_index sctx jr item)) = sc_line_buf sctx"
  by (simp add: responses_tool_index_def Let_def split: option.split)

lemma line_buf_responses [simp]:
  "sc_line_buf (snd (parse_responses_sse_event sctx event data now)) = sc_line_buf sctx"
  by (simp add: parse_responses_sse_event_def responses_text_delta_def responses_item_def
      responses_arguments_def responses_completed_def responses_failed_def responses_record_usage_def
      Let_def case_prod_beta split: jres.split option.split)

lemma line_buf_line [simp]: "sc_line_buf (snd (stream_line sctx line now)) = sc_line_buf sctx"
  by (simp add: stream_line_def stream_data_def parse_claude_stream_event_def Let_def)

lemma stream_byte_LF:
  "stream_byte sctx now LF = Some (evs, sctx') \<longleftrightarrow>
     (\<exists>d s. sb_data (sc_line_buf sctx) = Some d \<and> stream_line sctx (strip_cr (c_string d)) now = (evs, s)
        \<and> sctx' = s\<lparr>sc_line_buf := sb_truncate (sc_line_buf s) 0\<rparr>)"
  by (auto simp: stream_byte_def split: option.splits prod.splits)

lemma stream_byte_other:
  "c \<noteq> LF \<Longrightarrow> stream_byte sctx now c = Some ([], sctx\<lparr>sc_line_buf := sb_append_char (sc_line_buf sctx) c\<rparr>)"
  by (simp add: stream_byte_def)

lemma stream_byte_ready:
  assumes "stream_byte sctx now c = Some (evs, sctx')"
  shows "buf_ready sctx'"
proof (cases "c = LF")
  case True
  with assms obtain d s where d: "sb_data (sc_line_buf sctx) = Some d"
    and s: "stream_line sctx (strip_cr (c_string d)) now = (evs, s)"
    and s': "sctx' = s\<lparr>sc_line_buf := sb_truncate (sc_line_buf s) 0\<rparr>"
    by (auto simp: stream_byte_LF)
  have "sc_line_buf s = sc_line_buf sctx"
    using line_buf_line [of sctx "strip_cr (c_string d)" now] s by simp
  with d have "sb_data (sb_truncate (sc_line_buf s) 0) \<noteq> None" by (simp only: sb_truncate_data) simp
  then show ?thesis unfolding s' buf_ready_def by simp
next
  case False
  have "sb_data (sb_append_char (sc_line_buf sctx) c) \<noteq> None" by (rule sb_append_char_data)
  with False assms show ?thesis by (auto simp: stream_byte_other buf_ready_def simp del: sb_append_char_data)
qed

lemma stream_byte_None: "stream_byte sctx now c = None \<longleftrightarrow> c = LF \<and> \<not> buf_ready sctx"
  by (auto simp: stream_byte_def buf_ready_def Let_def split: option.split prod.split)

lemma stream_loop_ready: "buf_ready sctx \<Longrightarrow> stream_loop sctx fs \<noteq> None"
proof (induction sctx fs rule: stream_loop.induct)
  case (2 sctx cancelled now c fs)
  show ?case
  proof (cases cancelled)
    case False
    obtain evs sctx1 where b: "stream_byte sctx now c = Some (evs, sctx1)"
      using stream_byte_None [of sctx now c] 2(2) by fastforce
    have "stream_loop sctx1 fs \<noteq> None"
      using 2(1) [OF False b refl stream_byte_ready [OF b]] .
    with b False show ?thesis by auto
  qed simp
qed simp

section \<open>Events of a stream are no retries and carry no speed\<close>

definition plain :: "sse_event list \<Rightarrow> bool" where
  "plain evs \<longleftrightarrow> (\<forall>e \<in> set evs. ev_type e \<noteq> SSE_RETRY \<and> \<not> ev_speed_ready e)"

lemma plain_simps [simp]:
  "plain []" "plain (e # es) \<longleftrightarrow> ev_type e \<noteq> SSE_RETRY \<and> \<not> ev_speed_ready e \<and> plain es"
  "plain (es @ fs) \<longleftrightarrow> plain es \<and> plain fs" "plain (concat ess) \<longleftrightarrow> (\<forall>es \<in> set ess. plain es)"
  "plain (map f xs) \<longleftrightarrow> (\<forall>x \<in> set xs. plain [f x])"
  by (auto simp: plain_def)

lemma event_fields [simp]:
  "ev_type (event_blank ty) = ty" "\<not> ev_speed_ready (event_blank ty)"
  "ev_type (emit_simple_event ty m) = ty" "\<not> ev_speed_ready (emit_simple_event ty m)"
  "ev_content (emit_simple_event ty m) = m"
  "ev_type (call_event i n a) = SSE_TOOL_CALL" "\<not> ev_speed_ready (call_event i n a)"
  "ev_type (tool_event t) = SSE_TOOL_CALL" "\<not> ev_speed_ready (tool_event t)"
  "ev_type (fill_openai_usage_event e u) = ev_type e"
  "ev_speed_ready (fill_openai_usage_event e u) = ev_speed_ready e"
  by (simp_all add: event_blank_def emit_simple_event_def call_event_def tool_event_def
      fill_openai_usage_event_def Let_def)

lemma plain_emit_if [simp]: "ty \<noteq> SSE_RETRY \<Longrightarrow> plain (emit_if ty m)"
  by (simp add: emit_if_def split: option.split)

lemma plain_claude [simp]: "plain (claude_events jr s now)"
  by (simp add: claude_events_def claude_delta_events_def claude_start_events_def
      usage_claude_delta_def usage_claude_start_def Let_def split: option.split)

lemma plain_chunk [simp]: "plain (openai_chunk_events jr)"
  by (simp add: openai_chunk_events_def openai_start_events_def Let_def)

lemma plain_parse_event [simp]: "plain (sse_parse_event provider data s now)"
  by (simp add: sse_parse_event_def split: jres.split)

lemma plain_emit [simp]: "plain (fst (streamctx_emit_openai_tool_calls sctx))"
  by (simp add: streamctx_emit_openai_tool_calls_def Let_def)

lemma plain_openai [simp]: "plain (fst (parse_openai_sse_event sctx data now))"
  by (simp add: parse_openai_sse_event_def openai_choice_def openai_finish_def openai_usage_def
      Let_def case_prod_beta split: jres.split option.split)

lemma plain_responses [simp]: "plain (fst (parse_responses_sse_event sctx event data now))"
  by (simp add: parse_responses_sse_event_def responses_text_delta_def responses_completed_def
      responses_failed_def responses_emit_usage_def Let_def case_prod_beta split: jres.split option.split)

lemma plain_line [simp]: "plain (fst (stream_line sctx line now))"
  by (simp add: stream_line_def stream_data_def parse_claude_stream_event_def Let_def)

lemma plain_byte: "stream_byte sctx now c = Some (evs, sctx') \<Longrightarrow> plain evs"
proof (cases "c = LF")
  case True
  assume "stream_byte sctx now c = Some (evs, sctx')"
  with True obtain d s where "stream_line sctx (strip_cr (c_string d)) now = (evs, s)"
    by (auto simp: stream_byte_LF)
  then show ?thesis using plain_line [of sctx "strip_cr (c_string d)" now] by simp
qed (auto simp: stream_byte_other)

lemma plain_loop: "stream_loop sctx fs = Some (ok, evs, sctx') \<Longrightarrow> plain evs"
proof (induction sctx fs arbitrary: ok evs sctx' rule: stream_loop.induct)
  case (2 sctx cancelled now c fs)
  then show ?case
    using plain_byte [of sctx now c] by (fastforce split: option.splits prod.splits if_splits)
qed simp

lemma plain_perform: "perform sctx chunks rc = Some (rc', evs, sctx') \<Longrightarrow> plain evs"
proof (induction sctx chunks rc arbitrary: rc' evs sctx' rule: perform.induct)
  case (2 sctx cancelled fs chunks rc)
  have cb: "plain evs1" if "stream_cb sctx cancelled fs = Some (n, evs1, s1)" for n evs1 s1
    using that plain_loop [of sctx fs] by (auto simp: stream_cb_def split: if_splits option.splits prod.splits)
  with 2 show ?case by (fastforce split: option.splits prod.splits if_splits)
qed simp

lemma plain_block [simp]: "plain (residual_claude_block block)"
  by (simp add: residual_claude_block_def Let_def)

lemma plain_residual_claude [simp]: "plain (residual_claude jr s now)"
  by (auto simp: residual_claude_def Let_def)

lemma plain_residual_openai [simp]: "plain (residual_openai jr s now)"
  by (simp add: residual_openai_def residual_call_def Let_def)

lemma plain_residual [simp]: "plain (process_residual_json sctx provider now)"
  by (simp add: process_residual_json_def Let_def split: jres.split option.split)

section \<open>What the accumulator holds\<close>

text \<open>The reply as the agent reads it: the buffers as strings.\<close>

record reply =
  rp_text :: string
  rp_thinking :: string
  rp_tools :: "(string option \<times> string option \<times> string) list"
  rp_tokens :: "int \<times> int \<times> int \<times> int"
  rp_stop :: "string option"
  rp_stopped :: bool
  rp_speed_ready :: bool

definition reply_of :: "sse_accum \<Rightarrow> reply" where
  "reply_of acc =
     \<lparr>rp_text = sb_str (acc_text acc), rp_thinking = sb_str (acc_thinking acc),
      rp_tools = map (\<lambda>t. (ta_id t, ta_name t, sb_str (ta_input t))) (acc_tools acc),
      rp_tokens = (acc_in_tokens acc, acc_out_tokens acc, acc_cache_read_tokens acc,
                   acc_cache_creation_tokens acc),
      rp_stop = acc_stop_reason acc, rp_stopped = acc_stopped acc, rp_speed_ready = acc_speed_ready acc\<rparr>"

definition empty_reply :: reply where
  "empty_reply = \<lparr>rp_text = [], rp_thinking = [], rp_tools = [], rp_tokens = (0, 0, 0, 0),
                  rp_stop = None, rp_stopped = False, rp_speed_ready = False\<rparr>"

definition acc_ok :: "sse_accum \<Rightarrow> bool" where
  "acc_ok acc \<longleftrightarrow> strbuf_ok (acc_text acc) \<and> strbuf_ok (acc_thinking acc)
     \<and> (\<forall>t \<in> set (acc_tools acc). strbuf_ok (ta_input t))"

definition add_input :: "string \<Rightarrow> (string option \<times> string option \<times> string) list \<Rightarrow>
    (string option \<times> string option \<times> string) list" where
  "add_input s ts =
     (if ts = [] then [] else butlast ts @ [(let (i, n, inp) = last ts in (i, n, inp @ s))])"

definition reply_step :: "reply \<Rightarrow> sse_event \<Rightarrow> reply" where
  "reply_step rp e =
     (case ev_type e of
        SSE_TEXT \<Rightarrow> rp\<lparr>rp_text := rp_text rp @ opt_default [] (ev_content e)\<rparr>
      | SSE_THINKING \<Rightarrow> rp\<lparr>rp_thinking := rp_thinking rp @ opt_default [] (ev_content e)\<rparr>
      | SSE_TOOL_CALL_START \<Rightarrow> rp\<lparr>rp_tools := rp_tools rp @ [(ev_tool_id e, ev_tool_name e, [])]\<rparr>
      | SSE_TOOL_INPUT_DELTA \<Rightarrow>
          rp\<lparr>rp_tools := add_input (opt_default [] (ev_content e)) (rp_tools rp)\<rparr>
      | SSE_TOOL_CALL \<Rightarrow>
          rp\<lparr>rp_tools := rp_tools rp @
               [(Some (opt_default [] (ev_tool_id e)), Some (opt_default [] (ev_tool_name e)),
                 opt_default ''{}'' (ev_tool_input e))]\<rparr>
      | SSE_USAGE \<Rightarrow>
          (case rp_tokens rp of (i, ou, cr, cc) \<Rightarrow>
             rp\<lparr>rp_tokens := (keep_pos i (ev_in_tokens e), keep_pos ou (ev_out_tokens e),
                              keep_pos cr (ev_cache_read_tokens e), keep_pos cc (ev_cache_creation_tokens e)),
                rp_speed_ready := ev_speed_ready e\<rparr>)
      | SSE_STOP \<Rightarrow>
          rp\<lparr>rp_stopped := True, rp_stop := (if ev_content e = None then rp_stop rp else ev_content e)\<rparr>
      | SSE_ERROR \<Rightarrow> rp
      | SSE_RETRY \<Rightarrow> empty_reply)"

lemma last_map_input: "ts \<noteq> [] \<Longrightarrow>
    map f (butlast ts @ [x]) = butlast (map f ts) @ [f x]"
  by (simp add: map_butlast)

lemma callback_step:
  assumes "acc_ok acc"
  shows "acc_ok (sse_accum_callback acc e) \<and> reply_of (sse_accum_callback acc e) = reply_step (reply_of acc) e"
proof (cases "ev_type e")
  case SSE_TOOL_INPUT_DELTA
  show ?thesis
  proof (cases "acc_tools acc \<noteq> [] \<and> ev_content e \<noteq> None")
    case True
    then obtain ts t s where t: "acc_tools acc = ts @ [t]" "ev_content e = Some s"
      by (metis option.exhaust rev_exhaust)
    with assms SSE_TOOL_INPUT_DELTA show ?thesis
      by (auto simp: acc_ok_def reply_of_def sse_accum_callback_def reply_step_def add_input_def Let_def)
  next
    case False
    with assms SSE_TOOL_INPUT_DELTA show ?thesis
      by (cases "acc_tools acc" rule: rev_cases)
        (auto simp: acc_ok_def reply_of_def sse_accum_callback_def reply_step_def add_input_def Let_def)
  qed
qed (use assms in \<open>auto simp: acc_ok_def reply_of_def sse_accum_callback_def reply_step_def
       accum_push_tool_def empty_reply_def\<close>)

lemma accumulate_step:
  "acc_ok acc \<Longrightarrow> acc_ok (accumulate acc evs) \<and> reply_of (accumulate acc evs) = foldl reply_step (reply_of acc) evs"
proof (induction evs arbitrary: acc)
  case (Cons e evs)
  then show ?case using callback_step [of acc e] by simp
qed simp

lemma init_acc [simp]: "acc_ok sse_accum_init" "reply_of sse_accum_init = empty_reply"
  by (simp_all add: acc_ok_def sse_accum_init_def reply_of_def empty_reply_def)

text \<open>The error text is no part of the reply: \<open>SSE_RETRY\<close> does not clear it in this accumulator.\<close>

definition last_error :: "string option \<Rightarrow> sse_event list \<Rightarrow> string option" where
  "last_error old evs =
     foldl (\<lambda>err e. if ev_type e = SSE_ERROR then Some (opt_default ''unknown error'' (ev_content e)) else err) old evs"

lemma accumulate_error: "acc_error (accumulate acc evs) = last_error (acc_error acc) evs"
proof (induction evs arbitrary: acc)
  case (Cons e evs)
  have "acc_error (sse_accum_callback acc e)
      = (if ev_type e = SSE_ERROR then Some (opt_default ''unknown error'' (ev_content e)) else acc_error acc)"
    by (cases "ev_type e") (simp_all add: sse_accum_callback_def accum_push_tool_def)
  then show ?case using Cons by (simp add: last_error_def)
qed (simp add: last_error_def)

section \<open>The retry loop\<close>

text \<open>The events of a run are attempts that each end with a retry, then the last attempt.\<close>

lemma sse_attempt_retry:
  "sse_attempt provider s k a = Some (None, evs) \<Longrightarrow>
     \<exists>evs'. evs = evs' @ [event_blank SSE_RETRY] \<and> plain evs' \<and> k < MAX_RETRIES"
  by (auto simp: sse_attempt_def Let_def case_prod_beta plain_perform
      split: if_splits option.splits prod.splits)

lemma finish_no_retry: "e \<in> set (snd (finish_attempt provider a rc code sctx)) \<Longrightarrow> ev_type e \<noteq> SSE_RETRY"
  using plain_residual [of sctx provider "at_now a"]
  by (auto simp: finish_attempt_def Let_def plain_def speed_event_def split: if_splits)

lemma sse_attempt_last:
  assumes "sse_attempt provider s k a = Some (Some res, evs)"
  shows "\<forall>e \<in> set evs. ev_type e \<noteq> SSE_RETRY"
proof (cases "perform (stream_ctx_init provider s) (at_chunks a) (at_rc a)")
  case None
  with assms show ?thesis by (auto simp: sse_attempt_def split: if_splits)
next
  case (Some p)
  obtain rc evs1 sctx where p: "p = (rc, evs1, sctx)" by (cases p)
  have pl: "\<forall>e \<in> set evs1. ev_type e \<noteq> SSE_RETRY"
    using plain_perform [OF Some [unfolded p]] by (simp add: plain_def)
  show ?thesis
    using assms pl finish_no_retry [of _ provider a rc _ sctx] unfolding sse_attempt_def Some p
    by (auto simp: Let_def case_prod_beta split: if_splits)
qed

lemma sse_attempts_parts:
  "sse_attempts provider s env k n = Some (res, evs) \<Longrightarrow> n + k = MAX_RETRIES + 1 \<Longrightarrow> 0 < n \<Longrightarrow>
     \<exists>j pre last. k \<le> j \<and> j \<le> MAX_RETRIES \<and> evs = pre @ last
       \<and> sse_attempt provider s j (env j) = Some (Some res, last)
       \<and> length (filter (\<lambda>e. ev_type e = SSE_RETRY) pre) = j - k
       \<and> (pre = [] \<or> (\<exists>p. pre = p @ [event_blank SSE_RETRY]))"
proof (induction n arbitrary: k evs)
  case (Suc n)
  obtain m evs1 where a: "sse_attempt provider s k (env k) = Some (m, evs1)"
    using Suc.prems(1) by (cases "sse_attempt provider s k (env k)") auto
  show ?case
  proof (cases m)
    case (Some r)
    then have "r = res" "evs1 = evs" using a Suc.prems(1) by simp_all
    then show ?thesis using Some a Suc.prems(2) by (intro exI [of _ k] exI [of _ "[]"] exI [of _ evs]) auto
  next
    case None
    then obtain evs' where e1: "evs1 = evs' @ [event_blank SSE_RETRY]" "plain evs'" "k < MAX_RETRIES"
      using a sse_attempt_retry by blast
    obtain evs2 where r: "sse_attempts provider s env (Suc k) n = Some (res, evs2)" "evs = evs1 @ evs2"
      using a None Suc.prems(1) by (auto split: option.splits)
    have n: "n + Suc k = MAX_RETRIES + 1" "0 < n" using Suc.prems(2) e1(3) by simp_all
    obtain j pre last where j: "Suc k \<le> j" "j \<le> MAX_RETRIES" "evs2 = pre @ last"
      "sse_attempt provider s j (env j) = Some (Some res, last)"
      "length (filter (\<lambda>e. ev_type e = SSE_RETRY) pre) = j - Suc k"
      "pre = [] \<or> (\<exists>p. pre = p @ [event_blank SSE_RETRY])"
      using Suc.IH [OF r(1) n] by blast
    have "filter (\<lambda>e. ev_type e = SSE_RETRY) evs1 = [event_blank SSE_RETRY]"
      using e1 by (auto simp: plain_def filter_empty_conv)
    then have "length (filter (\<lambda>e. ev_type e = SSE_RETRY) (evs1 @ pre)) = j - k" using j by simp
    moreover have "\<exists>p. evs1 @ pre = p @ [event_blank SSE_RETRY]"
      using j(6) e1(1) by (metis append.assoc append_Nil2)
    ultimately show ?thesis using j r by (intro exI [of _ j] exI [of _ "evs1 @ pre"] exI [of _ last]) auto
  qed
qed simp

lemma stream_loop_first:
  "stream_loop (stream_ctx_init provider s) fs = None \<longleftrightarrow> (\<exists>now r. fs = (False, now, LF) # r)"
proof (cases fs)
  case (Cons f r)
  obtain cancelled now c where f: "f = (cancelled, now, c)" by (cases f)
  have nr: "\<not> buf_ready (stream_ctx_init provider s)"
    by (simp add: buf_ready_def stream_ctx_init_def sb_init_def)
  show ?thesis
  proof (cases "stream_byte (stream_ctx_init provider s) now c")
    case None
    then have "c = LF" by (simp add: stream_byte_None)
    with None show ?thesis by (cases cancelled) (simp_all add: Cons f)
  next
    case (Some p)
    obtain evs sctx where p: "p = (evs, sctx)" by (cases p)
    have "stream_loop sctx r \<noteq> None"
      using stream_loop_ready stream_byte_ready [OF Some [unfolded p]] by blast
    moreover have "c \<noteq> LF"
      using Some nr stream_byte_None [of "stream_ctx_init provider s" now c] by auto
    ultimately show ?thesis using Some by (auto simp: Cons f p split: option.split)
  qed
qed simp

lemma speed_event_type [simp]: "ev_type (speed_event a sctx rc code) = SSE_USAGE"
  by (simp add: speed_event_def Let_def)

lemma speed_event_ready:
  "ev_speed_ready (speed_event a sctx rc code) = stream_speed_ready sctx rc code (at_cancelled a 1)"
  by (simp add: speed_event_def Let_def)

lemma finish_speed:
  assumes "finish_attempt provider a rc code sctx = (res, evs)" "\<not> plain evs" "0 \<le> code"
    "\<forall>e \<in> set evs. ev_type e \<noteq> SSE_RETRY"
  shows "rc = CURLE_OK \<and> 200 \<le> code \<and> code < 300 \<and> sc_complete sctx \<and> \<not> at_cancelled a 1 \<and> res = 0"
proof -
  have ok: "rc = CURLE_OK" and sp: "stream_speed_ready sctx rc code (at_cancelled a 1)"
    using assms plain_residual [of sctx provider "at_now a"]
    by (auto simp: finish_attempt_def Let_def plain_def speed_event_ready split: if_splits)
  from sp have "200 \<le> code" "code < 300" "sc_complete sctx" "\<not> at_cancelled a 1"
    by (simp_all add: stream_speed_ready_def)
  moreover have "res = 0"
    using assms(1) ok \<open>code < 300\<close>
    by (auto simp: finish_attempt_def Let_def final_code_def CURLE_OK_def CURLE_WRITE_ERROR_def split: if_splits)
  ultimately show ?thesis using ok by simp
qed

lemma attempt_speed:
  assumes "sse_attempt provider s k a = Some (Some res, evs)" "\<not> plain evs" "0 \<le> at_http a"
  shows "\<exists>evs' sctx. perform (stream_ctx_init provider s) (at_chunks a) (at_rc a) = Some (CURLE_OK, evs', sctx)
     \<and> 200 \<le> at_http a \<and> at_http a < 300 \<and> sc_complete sctx \<and> \<not> at_cancelled a 1 \<and> res = 0"
proof (cases "perform (stream_ctx_init provider s) (at_chunks a) (at_rc a)")
  case None
  with assms show ?thesis by (auto simp: sse_attempt_def split: if_splits)
next
  case (Some p)
  obtain rc evs1 sctx where p: "p = (rc, evs1, sctx)" by (cases p)
  define code where "code = (if rc = CURLE_OK then at_http a else 0)"
  obtain r2 evs2 where fin: "finish_attempt provider a rc code sctx = (r2, evs2)"
    by (cases "finish_attempt provider a rc code sctx")
  have pl: "plain evs1" by (rule plain_perform [OF Some [unfolded p]])
  have "\<not> should_retry a rc code \<and> res = r2 \<and> evs = evs1 @ evs2"
    using assms(1,2) pl fin unfolding sse_attempt_def Some p
    by (auto simp: code_def [symmetric] Let_def split: if_splits)
  moreover from this have "\<not> plain evs2" using assms(2) pl by simp
  moreover have "\<forall>e \<in> set evs2. ev_type e \<noteq> SSE_RETRY"
    using finish_no_retry [of _ provider a rc code sctx] fin by simp
  moreover have "0 \<le> code" using assms(3) by (simp add: code_def)
  ultimately have all: "rc = CURLE_OK \<and> 200 \<le> code \<and> code < 300 \<and> sc_complete sctx
      \<and> \<not> at_cancelled a 1 \<and> res = 0"
    using finish_speed [OF fin] by blast
  then have "code = at_http a" by (simp add: code_def)
  with all Some p show ?thesis by simp
qed

section \<open>Properties\<close>

text \<open>
  C34: How the network cuts a stream into chunks does not matter.  As long as the flag is not set,
  handing the bytes to \<open>stream_cb\<close> in any chunks emits the same events and leaves the same context
  as handing them over in one piece.
\<close>

theorem chunking_irrelevant:
  assumes "\<forall>ch \<in> set chunks. \<not> fst ch \<and> quiet (snd ch)"
  shows "perform sctx chunks rc = perform sctx [(False, concat (map snd chunks))] rc"
proof -
  have "quiet (concat (map snd chunks))" using assms by (auto simp: quiet_def)
  then show ?thesis using perform_chunks [OF assms] perform_chunks [of "[(False, concat (map snd chunks))]"]
    by simp
qed

lemma chunking_irrelevant_witness:
  "perform (stream_ctx_init ''claude'' 0)
     [(False, [(False, 1, CHR ''d'')]), (False, [(False, 2, LF), (False, 2, CHR ''x'')])] 0 =
   perform (stream_ctx_init ''claude'' 0) [(False, [(False, 1, CHR ''d''), (False, 2, LF), (False, 2, CHR ''x'')])] 0"
  using chunking_irrelevant [of "[(False, [(False, 1, CHR ''d'')]), (False, [(False, 2, LF), (False, 2, CHR ''x'')])]"
      "stream_ctx_init ''claude'' 0" 0] by simp

text \<open>
  The write callback calls \<open>strlen\<close> on a NULL pointer exactly when the very first byte of an
  attempt is a line feed that arrives while the request is not cancelled; no later byte, however the
  stream is cut, can do that.
\<close>

lemma stream_first_line_feed:
  "(stream_cb (stream_ctx_init provider s) c fs = None \<longleftrightarrow>
      \<not> c \<and> (\<exists>now r. fs = (False, now, LF) # r))
   \<and> (stream_cb (stream_ctx_init provider s) c fs = Some (n, evs, sctx) \<and> 0 < n \<longrightarrow>
        stream_cb sctx c' fs' \<noteq> None)"
proof -
  have N: "stream_cb x c fs = None \<longleftrightarrow> \<not> c \<and> stream_loop x fs = None" for x c fs
    by (auto simp: stream_cb_def split: option.split)
  have R: "buf_ready sctx" if "stream_loop x fs = Some (True, evs, sctx)" "fs \<noteq> []" for x fs evs
    using that
  proof (induction x fs arbitrary: evs rule: stream_loop.induct)
    case (2 x cancelled now b fs)
    then obtain e1 x1 e2 where b: "\<not> cancelled" "stream_byte x now b = Some (e1, x1)"
      "stream_loop x1 fs = Some (True, e2, sctx)"
      by (auto split: if_splits option.splits prod.splits)
    show ?case
    proof (cases fs)
      case Nil
      then show ?thesis using b stream_byte_ready [OF b(2)] by simp
    next
      case (Cons f r)
      then show ?thesis using "2.IH" [OF b(1,2) refl b(3)] by simp
    qed
  qed simp
  have "stream_cb sctx c' fs' \<noteq> None"
    if cb: "stream_cb (stream_ctx_init provider s) c fs = Some (n, evs, sctx)" "0 < n"
  proof -
    have "stream_loop (stream_ctx_init provider s) fs = Some (True, evs, sctx)" "fs \<noteq> []"
      using cb by (auto simp: stream_cb_def split: if_splits option.splits prod.splits)
    then have "buf_ready sctx" by (rule R)
    then show ?thesis by (simp add: N stream_loop_ready)
  qed
  then show ?thesis by (simp add: N stream_loop_first)
qed

lemma stream_first_line_feed_witness:
  "stream_cb (stream_ctx_init ''openai'' 0) False [(False, 5, LF)] = None
   \<and> stream_cb (stream_ctx_init ''openai'' 0) False [(False, 5, CHR ''x''), (False, 5, LF)] \<noteq> None"
  using stream_first_line_feed [of "''openai''" 0 False "[(False, 5, LF)]"]
    stream_first_line_feed [of "''openai''" 0 False "[(False, 5, CHR ''x''), (False, 5, LF)]"]
  by (simp add: LF_def)

text \<open>
  C8: The retry loop returns after at most two retries, and a retry forgets the attempt before it:
  the text, the thinking, the tool calls, the token counts and the stop reason that the accumulator
  holds in the end are those of the last attempt alone. The error text is not among them: it is the last
  one of all attempts, since a retry does not clear it here.
\<close>

theorem retry_isolates:
  assumes "http_post_sse provider s env = Some (res, evs)" "acc_ok acc"
  shows "\<exists>k last. k \<le> 2 \<and> sse_attempt provider s k (env k) = Some (Some res, last)
    \<and> length (filter (\<lambda>e. ev_type e = SSE_RETRY) evs) = k
    \<and> reply_of (accumulate acc evs) =
        (if k = 0 then reply_of (accumulate acc last) else reply_of (accumulate sse_accum_init last))
    \<and> acc_error (accumulate acc evs) = last_error (acc_error acc) evs"
proof -
  obtain j pre last where j: "j \<le> MAX_RETRIES" "evs = pre @ last"
    "sse_attempt provider s j (env j) = Some (Some res, last)"
    "length (filter (\<lambda>e. ev_type e = SSE_RETRY) pre) = j - 0"
    "pre = [] \<or> (\<exists>p. pre = p @ [event_blank SSE_RETRY])"
    using sse_attempts_parts [OF assms(1) [unfolded http_post_sse_def]] by auto
  have last: "filter (\<lambda>e. ev_type e = SSE_RETRY) last = []"
    using sse_attempt_last [OF j(3)] by (simp add: filter_empty_conv)
  have "reply_of (accumulate acc evs) =
      (if j = 0 then reply_of (accumulate acc last) else reply_of (accumulate sse_accum_init last))"
  proof (cases "pre = []")
    case True
    then show ?thesis using j by simp
  next
    case False
    then obtain p where p: "pre = p @ [event_blank SSE_RETRY]" using j(5) by blast
    then have "0 < j" using j(4) by simp
    moreover have "reply_of (accumulate acc pre) = empty_reply"
      using accumulate_step [OF assms(2), of pre] by (simp add: p reply_step_def)
    ultimately show ?thesis
      using accumulate_step [OF assms(2), of "pre @ last"] accumulate_step [OF assms(2), of pre]
        accumulate_step [of sse_accum_init last] j(2) by simp
  qed
  moreover have "length (filter (\<lambda>e. ev_type e = SSE_RETRY) evs) = j" using j last by simp
  ultimately show ?thesis using j by (intro exI [of _ j] exI [of _ last]) (simp add: MAX_RETRIES_def accumulate_error last_error_def)
qed

definition demo_attempt :: "nat \<Rightarrow> attempt" where
  "demo_attempt k =
     \<lparr>at_init = True, at_chunks = [], at_rc = (if k = 0 then 7 else 0), at_http = 200, at_now = 9,
      at_total_us = 2500, at_ttfb_us = 1000, at_cancelled = (\<lambda>i. False), at_elapsed_ms = 1000\<rparr>"

lemma demo_run: "http_post_sse ''claude'' 0 demo_attempt
    = Some (0, [event_blank SSE_RETRY, (event_blank SSE_USAGE)\<lparr>ev_end_ms := 2\<rparr>])"
  by (simp add: http_post_sse_def sse_attempt_def demo_attempt_def MAX_RETRIES_def should_retry_def
      RETRY_MAX_TIME_MS_def CURLE_OK_def CURLE_WRITE_ERROR_def finish_attempt_def final_code_def
      process_residual_json_def stream_ctx_init_def sb_init_def speed_event_def stream_speed_ready_def
      numeral_2_eq_2 event_blank_def)

lemma retry_isolates_witness:
  "\<exists>k last. k \<le> 2 \<and> sse_attempt ''claude'' 0 k (demo_attempt k) = Some (Some 0, last)
    \<and> length (filter (\<lambda>e. ev_type e = SSE_RETRY)
        [event_blank SSE_RETRY, (event_blank SSE_USAGE)\<lparr>ev_end_ms := 2\<rparr>]) = k
    \<and> reply_of (accumulate sse_accum_init
         [event_blank SSE_RETRY, (event_blank SSE_USAGE)\<lparr>ev_end_ms := 2\<rparr>]) =
        (if k = 0 then reply_of (accumulate sse_accum_init last) else reply_of (accumulate sse_accum_init last))"
  using retry_isolates [OF demo_run init_acc(1)] by blast

end
