(* ===== verification/Wire.thy ===== *)
theory Wire
  imports HttpProps
begin

text \<open>
  From the bytes on the wire to the reply: \<open>stream_loop\<close> refines a run over whole lines, and a
  stream of Claude events, in the layout the server sends, is accumulated into the reply it spells.
\<close>

section \<open>The parsers do not see the line buffer\<close>

abbreviation with_buf :: "strbuf \<Rightarrow> stream_ctx \<Rightarrow> stream_ctx" where
  "with_buf b sctx \<equiv> sctx\<lparr>sc_line_buf := b\<rparr>"

abbreviation pair_buf :: "strbuf \<Rightarrow> 'a \<times> stream_ctx \<Rightarrow> 'a \<times> stream_ctx" where
  "pair_buf b p \<equiv> (fst p, with_buf b (snd p))"

lemma buf_ensure: "streamctx_ensure_openai_tool (with_buf b sctx) i =
    (with_buf b (fst (streamctx_ensure_openai_tool sctx i)), snd (streamctx_ensure_openai_tool sctx i))"
  by (simp add: streamctx_ensure_openai_tool_def Let_def split: option.split)

lemma buf_update: "update_tool i f (with_buf b sctx) = with_buf b (update_tool i f sctx)"
  by (simp add: update_tool_def)

lemma buf_emit: "streamctx_emit_openai_tool_calls (with_buf b sctx) =
    pair_buf b (streamctx_emit_openai_tool_calls sctx)"
  by (simp add: streamctx_emit_openai_tool_calls_def Let_def)

lemma buf_delta: "openai_tool_delta (with_buf b sctx) tc = with_buf b (openai_tool_delta sctx tc)"
  by (simp add: openai_tool_delta_def Let_def case_prod_beta buf_ensure buf_update)

lemma buf_deltas: "foldl openai_tool_delta (with_buf b sctx) tcs = with_buf b (foldl openai_tool_delta sctx tcs)"
  by (induction tcs arbitrary: sctx) (simp_all add: buf_delta)

lemma buf_finish: "openai_finish (with_buf b sctx) f = pair_buf b (openai_finish sctx f)"
proof -
  have c: "(with_buf b sctx)\<lparr>sc_finished := True\<rparr> = with_buf b (sctx\<lparr>sc_finished := True\<rparr>)" by simp
  show ?thesis unfolding openai_finish_def Let_def c buf_emit
    by (simp add: case_prod_beta split: option.split)
qed

lemma buf_choice: "openai_choice (with_buf b sctx) ch = pair_buf b (openai_choice sctx ch)"
proof (cases "jv_type (json_get (json_get ch ''delta'') ''tool_calls'') = JSON_ARRAY")
  case True
  then show ?thesis by (simp add: openai_choice_def Let_def case_prod_beta buf_deltas buf_finish)
next
  case False
  then show ?thesis by (simp add: openai_choice_def Let_def case_prod_beta buf_finish)
qed

lemma buf_openai_usage: "openai_usage (with_buf b sctx) u now = openai_usage sctx u now"
  by (simp add: openai_usage_def)

lemma buf_openai: "parse_openai_sse_event (with_buf b sctx) data now =
    pair_buf b (parse_openai_sse_event sctx data now)"
proof (cases "json_parse data")
  case (JOk jr r)
  show ?thesis
    by (cases "jv_type (json_get jr ''choices'') = JSON_ARRAY")
      (simp_all add: parse_openai_sse_event_def JOk Let_def case_prod_beta buf_choice buf_openai_usage)
qed (simp_all add: parse_openai_sse_event_def)

lemma buf_index: "responses_tool_index (with_buf b sctx) jr item =
    (with_buf b (fst (responses_tool_index sctx jr item)), snd (responses_tool_index sctx jr item))"
  by (simp add: responses_tool_index_def Let_def split: option.split)

lemma buf_usage: "responses_record_usage (with_buf b sctx) r = with_buf b (responses_record_usage sctx r)"
  by (simp add: responses_record_usage_def Let_def)

lemma buf_completed: "responses_completed (with_buf b sctx) jr now = pair_buf b (responses_completed sctx jr now)"
  by (simp add: responses_completed_def Let_def case_prod_beta buf_usage buf_emit responses_emit_usage_def)

lemma buf_failed: "responses_failed (with_buf b sctx) e jr now = pair_buf b (responses_failed sctx e jr now)"
  by (simp add: responses_failed_def Let_def buf_usage responses_emit_usage_def)

lemma buf_item: "responses_item (with_buf b sctx) jr = with_buf b (responses_item sctx jr)"
  by (simp add: responses_item_def Let_def case_prod_beta buf_index buf_ensure buf_update)

lemma buf_arguments: "responses_arguments (with_buf b sctx) jr = with_buf b (responses_arguments sctx jr)"
  by (simp add: responses_arguments_def Let_def case_prod_beta buf_index buf_ensure buf_update)

lemma buf_text_delta: "responses_text_delta (with_buf b sctx) d = pair_buf b (responses_text_delta sctx d)"
  by (simp add: responses_text_delta_def Let_def split: option.split)

lemma buf_responses: "parse_responses_sse_event (with_buf b sctx) e data now =
    pair_buf b (parse_responses_sse_event sctx e data now)"
  by (simp add: parse_responses_sse_event_def Let_def buf_text_delta buf_item buf_arguments
      buf_completed buf_failed split: jres.split)

lemma buf_line: "stream_line (with_buf b sctx) l now = pair_buf b (stream_line sctx l now)"
  by (simp add: stream_line_def stream_data_def parse_claude_stream_event_def Let_def buf_openai buf_responses)

section \<open>Whole lines\<close>

text \<open>The run over the lines, which leaves the line buffer alone.\<close>

fun stream_lines :: "stream_ctx \<Rightarrow> int \<Rightarrow> string list \<Rightarrow> sse_event list \<times> stream_ctx" where
  "stream_lines sctx now [] = ([], sctx)"
| "stream_lines sctx now (l # ls) =
     (let (evs, s) = stream_line sctx (strip_cr l) now; (evs', s') = stream_lines s now ls in (evs @ evs', s'))"

lemma buf_lines: "stream_lines (with_buf b sctx) now ls = pair_buf b (stream_lines sctx now ls)"
  by (induction ls arbitrary: sctx) (simp_all add: buf_line case_prod_beta Let_def)

definition feed_of :: "int \<Rightarrow> string \<Rightarrow> feed list" where
  "feed_of now s = map (\<lambda>c. (False, now, c)) s"

lemma feed_of_simps [simp]:
  "feed_of now [] = []" "feed_of now (c # s) = (False, now, c) # feed_of now s"
  "feed_of now (s @ t) = feed_of now s @ feed_of now t"
  by (simp_all add: feed_of_def)

lemma quiet_feed [simp]: "quiet (feed_of now s)"
  by (simp add: feed_of_def quiet_def)

lemma sb_data_str: "strbuf_ok sb \<Longrightarrow> sb_data sb = Some d \<Longrightarrow> d = sb_str sb"
  by (simp add: sb_str_def)

lemma stream_loop_lines:
  assumes "strbuf_ok (sc_line_buf sctx)" "LF \<notin> set (sb_str (sc_line_buf sctx))"
    "nulfree (sb_str (sc_line_buf sctx) @ bytes)" "buf_ready sctx \<or> bytes = [] \<or> hd bytes \<noteq> LF"
    "split_lines (sb_str (sc_line_buf sctx) @ bytes) = (ls, r)" "stream_lines sctx now ls = (evs, s)"
  shows "\<exists>b. stream_loop sctx (feed_of now bytes) = Some (True, evs, with_buf b s)
    \<and> strbuf_ok b \<and> sb_str b = r"
  using assms
proof (induction bytes arbitrary: sctx ls evs s)
  case Nil
  then have "ls = []" "r = sb_str (sc_line_buf sctx)" by (simp_all add: split_lines_no_LF)
  with Nil.prems show ?case by (intro exI [of _ "sc_line_buf sctx"]) simp
next
  case (Cons c bytes)
  let ?b = "sc_line_buf sctx"
  show ?case
  proof (cases "c = LF")
    case False
    define b1 where "b1 = sb_append_char ?b c"
    have b1: "strbuf_ok b1" "sb_str b1 = sb_str ?b @ [c]" "buf_ready (with_buf b1 sctx)"
      unfolding b1_def buf_ready_def using Cons.prems(1) sb_append_char_data [of ?b c] by simp_all
    obtain evs1 s1 where l: "stream_lines (with_buf b1 sctx) now ls = (evs1, s1)" by fastforce
    with Cons.prems(6) have e: "evs1 = evs" "s1 = with_buf b1 s" by (simp_all add: buf_lines)
    obtain b where b: "stream_loop (with_buf b1 sctx) (feed_of now bytes) = Some (True, evs, with_buf b s)"
      "strbuf_ok b" "sb_str b = r"
      using Cons.IH [of "with_buf b1 sctx" ls evs1 s1] Cons.prems b1 False l e by auto
    then show ?thesis using False by (auto simp: stream_byte_other b1_def)
  next
    case True
    have ready: "buf_ready sctx" using Cons.prems(4) True by simp
    then have d: "sb_data ?b = Some (sb_str ?b)" by (auto simp: buf_ready_def sb_str_def)
    obtain ls' r' where sp: "split_lines bytes = (ls', r')" by fastforce
    have ls: "ls = sb_str ?b # ls'" "r = r'" using Cons.prems(2,5) sp True by simp_all
    obtain evs1 s1 where l1: "stream_line sctx (strip_cr (sb_str ?b)) now = (evs1, s1)" by fastforce
    obtain evs2 where l2: "stream_lines s1 now ls' = (evs2, s)" and ev: "evs = evs1 @ evs2"
      using Cons.prems(6) ls l1 by (auto split: prod.splits)
    have buf1: "sc_line_buf s1 = ?b" using line_buf_line [of sctx "strip_cr (sb_str ?b)" now] l1 by simp
    define b1 where "b1 = sb_truncate ?b 0"
    have b1: "strbuf_ok b1" "sb_str b1 = []" unfolding b1_def using Cons.prems(1) by simp_all
    have rb: "buf_ready (with_buf b1 s1)"
      unfolding b1_def buf_ready_def using d sb_truncate_data [of ?b 0] by simp
    have byte: "stream_byte sctx now LF = Some (evs1, with_buf b1 s1)"
      using Cons.prems(3) l1 d buf1 by (simp add: stream_byte_def b1_def)
    have "stream_lines (with_buf b1 s1) now ls' = (evs2, with_buf b1 s)" using l2 by (simp add: buf_lines)
    then obtain b where "stream_loop (with_buf b1 s1) (feed_of now bytes) = Some (True, evs2, with_buf b s)"
      "strbuf_ok b" "sb_str b = r"
      using Cons.IH [of "with_buf b1 s1" ls' evs2 "with_buf b1 s"] Cons.prems(3) b1 rb sp ls by auto
    then show ?thesis using True byte ev by auto
  qed
qed

section \<open>Claude streams\<close>

datatype claude_event =
  CStart int int int
| CText string
| CThinking string
| CToolStart string string
| CToolInput string
| CBlockStop
| CStop string int
| CMessageStop

fun claude_json :: "claude_event \<Rightarrow> json" where
  "claude_json (CStart i cr cc) =
     JObj [(''type'', JStr ''message_start''),
           (''message'', JObj [(''usage'', JObj [(''input_tokens'', JInt i),
             (''cache_read_input_tokens'', JInt cr), (''cache_creation_input_tokens'', JInt cc)])])]"
| "claude_json (CText t) =
     JObj [(''type'', JStr ''content_block_delta''),
           (''delta'', JObj [(''type'', JStr ''text_delta''), (''text'', JStr t)])]"
| "claude_json (CThinking t) =
     JObj [(''type'', JStr ''content_block_delta''),
           (''delta'', JObj [(''type'', JStr ''thinking_delta''), (''thinking'', JStr t)])]"
| "claude_json (CToolStart i n) =
     JObj [(''type'', JStr ''content_block_start''),
           (''content_block'', JObj [(''type'', JStr ''tool_use''), (''id'', JStr i), (''name'', JStr n)])]"
| "claude_json (CToolInput t) =
     JObj [(''type'', JStr ''content_block_delta''),
           (''delta'', JObj [(''type'', JStr ''input_json_delta''), (''partial_json'', JStr t)])]"
| "claude_json CBlockStop = JObj [(''type'', JStr ''content_block_stop'')]"
| "claude_json (CStop r ou) =
     JObj [(''type'', JStr ''message_delta''), (''delta'', JObj [(''stop_reason'', JStr r)]),
           (''usage'', JObj [(''output_tokens'', JInt ou)])]"
| "claude_json CMessageStop = JObj [(''type'', JStr ''message_stop'')]"

definition int_ok :: "int \<Rightarrow> bool" where
  "int_ok i \<longleftrightarrow> 0 \<le> i \<and> i < 2 ^ 31"

fun claude_ok :: "claude_event \<Rightarrow> bool" where
  "claude_ok (CStart i cr cc) = (int_ok i \<and> int_ok cr \<and> int_ok cc)"
| "claude_ok (CText t) = nulfree t"
| "claude_ok (CThinking t) = nulfree t"
| "claude_ok (CToolStart i n) = (nulfree i \<and> nulfree n)"
| "claude_ok (CToolInput t) = nulfree t"
| "claude_ok (CStop r ou) = (nulfree r \<and> int_ok ou)"
| "claude_ok _ = True"

text \<open>The reply the events spell.\<close>

fun claude_reply :: "reply \<Rightarrow> claude_event \<Rightarrow> reply" where
  "claude_reply rp (CStart i cr cc) =
     (case rp_tokens rp of (i0, o0, cr0, cc0) \<Rightarrow>
        rp\<lparr>rp_tokens := (keep_pos i0 i, o0, keep_pos cr0 cr, keep_pos cc0 cc), rp_speed_ready := False\<rparr>)"
| "claude_reply rp (CText t) = rp\<lparr>rp_text := rp_text rp @ t\<rparr>"
| "claude_reply rp (CThinking t) = rp\<lparr>rp_thinking := rp_thinking rp @ t\<rparr>"
| "claude_reply rp (CToolStart i n) = rp\<lparr>rp_tools := rp_tools rp @ [(Some i, Some n, [])]\<rparr>"
| "claude_reply rp (CToolInput t) = rp\<lparr>rp_tools := add_input t (rp_tools rp)\<rparr>"
| "claude_reply rp (CStop r ou) =
     (case rp_tokens rp of (i0, o0, cr0, cc0) \<Rightarrow>
        rp\<lparr>rp_stopped := True, rp_stop := Some r, rp_tokens := (i0, keep_pos o0 ou, cr0, cc0),
           rp_speed_ready := False\<rparr>)"
| "claude_reply rp _ = rp"

definition claude_wire :: "string \<Rightarrow> claude_event \<Rightarrow> string" where
  "claude_wire name e = ''event: '' @ name @ [LF] @ ''data: '' @ json_text (claude_json e) @ [LF, LF]"

lemma simple_literal: "QUOTE \<notin> set k \<Longrightarrow> BSLASH \<notin> set k \<Longrightarrow> simple_key k"
  by (simp add: simple_key_def)

lemma claude_json_ok: "json_ok (claude_json e)"
  by (cases e) (simp_all add: simple_key_def char_defs)

lemma claude_json_line: "json_line (claude_json e)"
  by (cases e) (simp_all add: char_defs)

lemma get_str: "json_ok (JObj ms) \<Longrightarrow> map_of ms key = Some (JStr t) \<Longrightarrow> nulfree t \<Longrightarrow>
    json_get_string (view (JObj ms) r) key = Some t"
  by (rule json_get_string_view [OF is_viewI])

lemma get_missing: "is_view jv (JObj ms) \<Longrightarrow> json_ok (JObj ms) \<Longrightarrow> map_of ms key = None \<Longrightarrow>
    jv_type (json_get jv key) = JSON_NULL \<and> json_get_string jv key = None \<and> json_get_int jv key = 0"
  by (simp add: json_get_none json_get_string_def json_string_val_def json_get_int_def
      json_number_text_def null_val_def)

text \<open>Reading the members of a parsed object and of an object inside it.\<close>

lemma nested_view:
  assumes "is_view jv (JObj ms)" "json_ok (JObj ms)" "map_of ms k = Some (JObj ds)"
  shows "is_view (json_get jv k) (JObj ds)" "json_ok (JObj ds)" "jv_type (json_get jv k) = JSON_OBJECT"
  using json_get_some [OF assms] json_ok_member [OF assms(2,3)] is_view_type [of "json_get jv k"]
  by simp_all

lemma delta_view:
  assumes "is_view v (JObj [(''type'', JStr ''content_block_delta''), (''delta'', JObj [(''type'', JStr ty), (k, JStr t)])])"
    "json_ok (JObj [(''type'', JStr ''content_block_delta''), (''delta'', JObj [(''type'', JStr ty), (k, JStr t)])])"
    "nulfree ty" "nulfree t" "k \<noteq> ''type''"
  shows "json_get_string v ''type'' = Some ''content_block_delta''"
    "json_get_string (json_get v ''delta'') ''type'' = Some ty"
    "json_get_string (json_get v ''delta'') k = Some t"
proof -
  have m: "map_of [(''type'', JStr ''content_block_delta''), (''delta'', JObj [(''type'', JStr ty), (k, JStr t)])] ''delta''
      = Some (JObj [(''type'', JStr ty), (k, JStr t)])" by simp
  note d = nested_view [OF assms(1,2) m]
  show "json_get_string v ''type'' = Some ''content_block_delta''"
    by (rule json_get_string_view [OF assms(1,2)]) (simp_all add: NUL_def)
  show "json_get_string (json_get v ''delta'') ''type'' = Some ty"
    "json_get_string (json_get v ''delta'') k = Some t"
    using assms(3-5) by (auto intro!: json_get_string_view [OF d(1,2)])
qed

lemmas claude_eval_defs = claude_events_def claude_delta_events_def claude_start_events_def emit_if_def
  reply_step_def Let_def

lemma claude_object:
  assumes "claude_json e = JObj ms" "is_view v (claude_json e)"
  shows "is_view v (JObj ms)" "json_ok (JObj ms)"
  using claude_json_ok [of e] assms by simp_all

lemma claude_start_eval:
  assumes "claude_ok (CStart i cr cc)" "is_view v (claude_json (CStart i cr cc))"
  shows "foldl reply_step rp (claude_events v s now) = claude_reply rp (CStart i cr cc)"
proof -
  let ?us = "[(''input_tokens'', JInt i), (''cache_read_input_tokens'', JInt cr), (''cache_creation_input_tokens'', JInt cc)]"
  obtain ms where ms: "claude_json (CStart i cr cc) = JObj ms" by auto
  note V = claude_object [OF ms assms(2)]
  have mm: "map_of ms ''message'' = Some (JObj [(''usage'', JObj ?us)])" using ms by auto
  have um: "map_of [(''usage'', JObj ?us)] ''usage'' = Some (JObj ?us)" by simp
  note u = nested_view [OF nested_view(1,2) [OF V mm] um]
  have rng: "int_ok i" "int_ok cr" "int_ok cc" using assms by simp_all
  have "json_get_string v ''type'' = Some ''message_start''"
    using ms by (intro json_get_string_view [OF V]) (auto simp: NUL_def)
  moreover have "json_get_int (json_get (json_get v ''message'') ''usage'') ''input_tokens'' = i"
    "json_get_int (json_get (json_get v ''message'') ''usage'') ''cache_read_input_tokens'' = cr"
    "json_get_int (json_get (json_get v ''message'') ''usage'') ''cache_creation_input_tokens'' = cc"
    using rng by (auto intro!: json_get_int_view [OF u(1,2)] simp: int_ok_def)
  ultimately show ?thesis using u(3)
    by (auto simp: claude_eval_defs usage_claude_start_def event_blank_def keep_pos_def split: prod.split)
qed

lemma claude_tool_start_eval:
  assumes "claude_ok (CToolStart i n)" "is_view v (claude_json (CToolStart i n))"
  shows "foldl reply_step rp (claude_events v s now) = claude_reply rp (CToolStart i n)"
proof -
  obtain ms where ms: "claude_json (CToolStart i n) = JObj ms" by auto
  note V = claude_object [OF ms assms(2)]
  have mm: "map_of ms ''content_block'' =
      Some (JObj [(''type'', JStr ''tool_use''), (''id'', JStr i), (''name'', JStr n)])"
    using ms by auto
  note b = nested_view [OF V mm]
  have rng: "nulfree i" "nulfree n" using assms by simp_all
  have "json_get_string v ''type'' = Some ''content_block_start''"
    using ms by (intro json_get_string_view [OF V]) (auto simp: NUL_def)
  moreover have "json_get_string (json_get v ''content_block'') ''type'' = Some ''tool_use''"
    "json_get_string (json_get v ''content_block'') ''id'' = Some i"
    "json_get_string (json_get v ''content_block'') ''name'' = Some n"
    using rng by (auto intro!: json_get_string_view [OF b(1,2)] simp: NUL_def)
  ultimately show ?thesis by (simp add: claude_eval_defs event_blank_def)
qed

lemma claude_stop_eval:
  assumes "claude_ok (CStop q ou)" "is_view v (claude_json (CStop q ou))"
  shows "foldl reply_step rp (claude_events v s now) = claude_reply rp (CStop q ou)"
proof -
  obtain ms where ms: "claude_json (CStop q ou) = JObj ms" by auto
  note V = claude_object [OF ms assms(2)]
  have dm: "map_of ms ''delta'' = Some (JObj [(''stop_reason'', JStr q)])"
    and um: "map_of ms ''usage'' = Some (JObj [(''output_tokens'', JInt ou)])"
    using ms by auto
  note d = nested_view [OF V dm] and u = nested_view [OF V um]
  have rng: "nulfree q" "int_ok ou" using assms by simp_all
  have "json_get_string v ''type'' = Some ''message_delta''"
    using ms by (intro json_get_string_view [OF V]) (auto simp: NUL_def)
  moreover have "json_get_string (json_get v ''delta'') ''stop_reason'' = Some q"
    using rng by (auto intro!: json_get_string_view [OF d(1,2)])
  moreover have "json_get_int (json_get v ''usage'') ''output_tokens'' = ou"
    using rng by (auto intro!: json_get_int_view [OF u(1,2)] simp: int_ok_def)
  moreover have "json_get_int (json_get v ''usage'') k = 0" if "k \<noteq> ''output_tokens''" for k
    using get_missing [OF u(1,2), of k] that by simp
  ultimately show ?thesis using u(3)
    by (auto simp: claude_eval_defs usage_claude_delta_def event_blank_def keep_pos_def split: prod.split)
qed

lemma claude_events_eval:
  assumes "claude_ok e"
  shows "foldl reply_step rp (claude_events (view (claude_json e) r) s now) = claude_reply rp e"
proof -
  let ?v = "view (claude_json e) r"
  obtain ms where ms: "claude_json e = JObj ms" by (cases e) auto
  note V = claude_object [OF ms is_viewI [of "claude_json e" r]]
  have type: "json_get_string ?v ''type'' = Some ty" if "map_of ms ''type'' = Some (JStr ty)" "nulfree ty" for ty
    using that by (intro json_get_string_view [OF V])
  show ?thesis
  proof (cases e)
    case (CText t)
    note d = delta_view [of ?v "''text_delta''" "''text''" t]
    show ?thesis using CText V ms d assms by (auto simp: claude_eval_defs NUL_def)
  next
    case (CThinking t)
    note d = delta_view [of ?v "''thinking_delta''" "''thinking''" t]
    show ?thesis using CThinking V ms d assms by (auto simp: claude_eval_defs NUL_def)
  next
    case (CToolInput t)
    note d = delta_view [of ?v "''input_json_delta''" "''partial_json''" t]
    show ?thesis using CToolInput V ms d assms by (auto simp: claude_eval_defs NUL_def)
  next
    case CBlockStop
    have "json_get_string ?v ''type'' = Some ''content_block_stop''"
      using CBlockStop ms by (intro type) (auto simp: NUL_def)
    with CBlockStop show ?thesis by (simp add: claude_eval_defs)
  next
    case CMessageStop
    have "json_get_string ?v ''type'' = Some ''message_stop''"
      using CMessageStop ms by (intro type) (auto simp: NUL_def)
    with CMessageStop show ?thesis by (simp add: claude_eval_defs)
  qed (use assms claude_start_eval claude_tool_start_eval claude_stop_eval in simp_all)
qed

lemma json_text_parse: "json_ok v \<Longrightarrow> json_parse (json_text v) = JOk (view v []) []"
  using parse_text [of v] unfolding reads_def by (metis append_Nil2 sep_simps(1))

lemma claude_type:
  "json_get_string (view (claude_json e) r) ''type'' = Some ''message_stop'' \<longleftrightarrow> e = CMessageStop"
  "json_get_string (view (claude_json e) r) ''type'' \<noteq> Some ''error''"
proof -
  obtain ty ms where ms: "claude_json e = JObj ((''type'', JStr ty) # ms)" "nulfree ty"
    "ty = ''message_stop'' \<longleftrightarrow> e = CMessageStop" "ty \<noteq> ''error''"
    by (cases e) (auto simp: NUL_def)
  have "json_get_string (view (claude_json e) r) ''type'' = Some ty"
    using claude_json_ok [of e] unfolding ms(1) by (rule get_str) (simp_all add: ms(2))
  with ms(3,4) show "json_get_string (view (claude_json e) r) ''type'' = Some ''message_stop'' \<longleftrightarrow> e = CMessageStop"
    "json_get_string (view (claude_json e) r) ''type'' \<noteq> Some ''error''" by simp_all
qed

abbreviation no_errors :: "sse_event list \<Rightarrow> bool" where
  "no_errors evs \<equiv> list_all (\<lambda>x. ev_type x \<noteq> SSE_ERROR) evs"

lemma events_no_error:
  assumes "json_get_string jr ''type'' \<noteq> Some ''error''"
  shows "no_errors (claude_events jr s now)"
proof -
  have i: "ty \<noteq> SSE_ERROR \<Longrightarrow> no_errors (emit_if ty m)" for ty m by (simp add: emit_if_def split: option.split)
  have u: "ev_type (usage_claude_delta us s now) = SSE_USAGE" "ev_type (usage_claude_start us s now) = SSE_USAGE" for us
    by (simp_all add: usage_claude_delta_def usage_claude_start_def Let_def)
  have d: "no_errors (claude_delta_events jr)" "no_errors (claude_start_events jr)"
    by (simp_all add: claude_delta_events_def claude_start_events_def Let_def i)
  show ?thesis
  proof (cases "json_get_string jr ''type''")
    case (Some ty)
    then have "ty \<noteq> ''error''" using assms by blast
    with Some show ?thesis by (simp add: claude_events_def Let_def d i u)
  qed (simp add: claude_events_def)
qed

lemma claude_text_start: "\<exists>t. json_text (claude_json e) = CHR ''{'' # t \<and> last (json_text (claude_json e)) \<noteq> CR"
proof -
  obtain ms where "claude_json e = JObj ms" by (cases e) auto
  then show ?thesis by (simp add: CR_def)
qed

lemma claude_data_line:
  assumes "sc_provider sctx = ''claude''" "claude_ok e"
  shows "stream_line sctx (strip_cr (''data: '' @ json_text (claude_json e))) now =
     (claude_events (view (claude_json e) []) (sc_start_ms sctx) now,
      if e = CMessageStop then sctx\<lparr>sc_complete := True\<rparr> else sctx)"
proof -
  obtain t where t: "json_text (claude_json e) = CHR ''{'' # t" "last (json_text (claude_json e)) \<noteq> CR"
    using claude_text_start by blast
  have "strip_cr (''data: '' @ json_text (claude_json e)) = ''data: '' @ json_text (claude_json e)"
    using t by (simp add: strip_cr_def)
  moreover have "json_text (claude_json e) \<noteq> []" "json_text (claude_json e) \<noteq> ''[DONE]''"
    using t(1) by simp_all
  moreover note json_text_parse [OF claude_json_ok [of e]]
  ultimately show ?thesis using assms(1)
    by (simp add: stream_line_def stream_data_def parse_claude_stream_event_def sse_parse_event_def claude_type)
qed

lemma skipped_lines:
  assumes "sc_provider sctx = ''claude''"
  shows "stream_line sctx (strip_cr (''event: '' @ name)) now = ([], sctx)" "stream_line sctx (strip_cr []) now = ([], sctx)"
  using assms by (auto simp: strip_cr_def stream_line_def butlast_append)

definition claude_lines :: "(string \<times> claude_event) list \<Rightarrow> string list" where
  "claude_lines es = concat (map (\<lambda>(name, e). [''event: '' @ name, ''data: '' @ json_text (claude_json e), []]) es)"

definition claude_bytes :: "(string \<times> claude_event) list \<Rightarrow> string" where
  "claude_bytes es = concat (map (\<lambda>(name, e). claude_wire name e) es)"

lemma stream_lines_append: "stream_lines sctx now (xs @ ys) =
   (let (evs, s) = stream_lines sctx now xs; (evs', s') = stream_lines s now ys in (evs @ evs', s'))"
  by (induction xs arbitrary: sctx) (simp_all add: case_prod_beta Let_def)

lemma claude_lines_run:
  "sc_provider sctx = ''claude'' \<Longrightarrow> \<forall>p \<in> set es. claude_ok (snd p) \<Longrightarrow>
     \<exists>evs s. stream_lines sctx now (claude_lines es) = (evs, s)
       \<and> foldl reply_step rp evs = foldl claude_reply rp (map snd es)
       \<and> (sc_complete s \<longleftrightarrow> sc_complete sctx \<or> CMessageStop \<in> snd ` set es)
       \<and> no_errors evs"
proof (induction es arbitrary: sctx rp)
  case Nil
  then show ?case by (simp add: claude_lines_def)
next
  case (Cons p es)
  obtain name e where p: "p = (name, e)" by (cases p)
  define s1 where "s1 = (if e = CMessageStop then sctx\<lparr>sc_complete := True\<rparr> else sctx)"
  define evs1 where "evs1 = claude_events (view (claude_json e) []) (sc_start_ms sctx) now"
  have e: "claude_ok e" using Cons.prems(2) p by simp
  have pr: "sc_provider s1 = ''claude''" using Cons.prems(1) by (simp add: s1_def)
  have r1: "foldl reply_step rp evs1 = claude_reply rp e"
    unfolding evs1_def by (rule claude_events_eval [OF e])
  obtain evs2 s where IH: "stream_lines s1 now (claude_lines es) = (evs2, s)"
    "foldl reply_step (claude_reply rp e) evs2 = foldl claude_reply (claude_reply rp e) (map snd es)"
    "sc_complete s \<longleftrightarrow> sc_complete s1 \<or> CMessageStop \<in> snd ` set es" "no_errors evs2"
    using Cons.IH [OF pr, of "claude_reply rp e"] Cons.prems(2) by auto
  have ls: "claude_lines (p # es) =
      (''event: '' @ name) # (''data: '' @ json_text (claude_json e)) # [] # claude_lines es"
    by (simp add: claude_lines_def p)
  have "stream_lines sctx now (claude_lines (p # es)) = (evs1 @ evs2, s)"
    unfolding ls stream_lines.simps(2) skipped_lines [OF Cons.prems(1)] Let_def prod.case
      claude_data_line [OF Cons.prems(1) e] s1_def [symmetric] evs1_def [symmetric]
      skipped_lines [OF pr] IH(1) by simp
  moreover have "sc_complete s1 \<longleftrightarrow> sc_complete sctx \<or> e = CMessageStop" by (simp add: s1_def)
  moreover have "no_errors evs1" using events_no_error [OF claude_type(2)] by (simp add: evs1_def)
  ultimately show ?case using IH r1 p by auto
qed

lemma claude_split:
  assumes "\<forall>p \<in> set es. line_ok (fst p)"
  shows "split_lines (claude_bytes es) = (claude_lines es, [])" "nulfree (claude_bytes es)"
proof -
  have j: "line_ok (json_text (claude_json e))" for e by (rule json_text_line_ok [OF claude_json_line])
  have "claude_bytes es = join_lines (claude_lines es) @ []"
    by (induction es) (auto simp: claude_bytes_def claude_lines_def claude_wire_def)
  moreover have "\<forall>l \<in> set (claude_lines es). LF \<notin> set l"
    using assms j by (auto simp: claude_lines_def line_ok_def LF_def)
  ultimately show "split_lines (claude_bytes es) = (claude_lines es, [])"
    using split_lines_join [of "claude_lines es" "[]"] by simp
  show "nulfree (claude_bytes es)"
    using assms j by (auto simp: claude_bytes_def claude_wire_def line_ok_def nulfree_def NUL_def LF_def)
qed

lemma claude_stream_run:
  assumes "\<forall>p \<in> set es. line_ok (fst p) \<and> claude_ok (snd p)"
  shows "\<exists>evs sctx. stream_loop (stream_ctx_init ''claude'' s) (feed_of now (claude_bytes es)) = Some (True, evs, sctx)
    \<and> foldl reply_step empty_reply evs = foldl claude_reply empty_reply (map snd es)
    \<and> (sc_complete sctx \<longleftrightarrow> CMessageStop \<in> snd ` set es)
    \<and> no_errors evs \<and> sb_len (sc_line_buf sctx) = 0"
proof -
  let ?c = "stream_ctx_init ''claude'' s"
  have c: "sc_provider ?c = ''claude''" "sc_line_buf ?c = sb_init" "\<not> sc_complete ?c"
    by (simp_all add: stream_ctx_init_def)
  obtain evs t where run: "stream_lines ?c now (claude_lines es) = (evs, t)"
    "foldl reply_step empty_reply evs = foldl claude_reply empty_reply (map snd es)"
    "sc_complete t \<longleftrightarrow> CMessageStop \<in> snd ` set es" "no_errors evs"
    using claude_lines_run [OF c(1), of es now empty_reply] assms c(3) by auto
  have h: "claude_bytes es = [] \<or> hd (claude_bytes es) \<noteq> LF"
    by (cases es) (auto simp: claude_bytes_def claude_wire_def LF_def)
  obtain b where "stream_loop ?c (feed_of now (claude_bytes es)) = Some (True, evs, with_buf b t)" "strbuf_ok b" "sb_str b = []"
    using stream_loop_lines [of ?c "claude_bytes es" "claude_lines es" "[]" now evs t] c claude_split [of es]
      assms h run(1) by auto
  then show ?thesis using run(2-4) sb_len_str [of b] by (intro exI [of _ evs] exI [of _ "with_buf b t"]) simp
qed

text \<open>
  C4: A Claude stream is accumulated into the reply it spells.  For every sequence of message
  events, in the layout of the server (an event line, a data line with the JSON object, an empty
  line), the bytes fed to \<open>stream_cb\<close> produce events that leave in the accumulator exactly the text,
  the thinking, the tool calls with their input, the token counts and the stop reason of the
  sequence, and the stream counts as complete when it has the final event.
\<close>

theorem claude_stream_reply:
  assumes "\<forall>p \<in> set es. line_ok (fst p) \<and> claude_ok (snd p)"
  shows "\<exists>evs sctx. stream_loop (stream_ctx_init ''claude'' s) (feed_of now (claude_bytes es)) = Some (True, evs, sctx)
    \<and> reply_of (accumulate sse_accum_init evs) = foldl claude_reply empty_reply (map snd es)
    \<and> (sc_complete sctx \<longleftrightarrow> CMessageStop \<in> snd ` set es)"
proof -
  have "reply_of (accumulate sse_accum_init evs) = foldl reply_step empty_reply evs" for evs
    using accumulate_step [OF init_acc(1), of evs] by simp
  then show ?thesis using claude_stream_run [OF assms, of s now] by metis
qed

lemma claude_stream_reply_witness:
  "\<exists>evs sctx. stream_loop (stream_ctx_init ''claude'' 0)
      (feed_of 7 (claude_bytes [(''x'', CText ''Hi''), (''x'', CToolStart ''t1'' ''Bash''),
         (''x'', CToolInput ''{}''), (''x'', CMessageStop)])) = Some (True, evs, sctx)
    \<and> reply_of (accumulate sse_accum_init evs) =
        empty_reply\<lparr>rp_text := ''Hi'', rp_tools := [(Some ''t1'', Some ''Bash'', ''{}'')]\<rparr>
    \<and> sc_complete sctx"
  using claude_stream_reply [of "[(''x'', CText ''Hi''), (''x'', CToolStart ''t1'' ''Bash''),
      (''x'', CToolInput ''{}''), (''x'', CMessageStop)]" 0 7]
  by (simp add: empty_reply_def add_input_def LF_def NUL_def)

text \<open>
  A speed is reported only after a complete reply: when any event of a request carries the
  speed flag, the request returned 0, and its last attempt ended without a curl error, with a 2xx
  status, uncancelled, after the protocol's own end of stream.
\<close>

lemma speed_only_when_complete:
  assumes "http_post_sse provider s env = Some (res, evs)" "e \<in> set evs" "ev_speed_ready e"
    "\<forall>k. 0 \<le> at_http (env k)"
  shows "res = 0 \<and> (\<exists>k evs' sctx. k \<le> 2 \<and> 200 \<le> at_http (env k) \<and> at_http (env k) < 300
    \<and> \<not> at_cancelled (env k) 1 \<and> sc_complete sctx
    \<and> perform (stream_ctx_init provider s) (at_chunks (env k)) (at_rc (env k)) = Some (CURLE_OK, evs', sctx))"
proof -
  have "\<exists>j last. j \<le> k + n - 1 \<and> sse_attempt provider s j (env j) = Some (Some res, last) \<and> \<not> plain last"
    if "sse_attempts provider s env k n = Some (res, es)" "e \<in> set es" for k n es
    using that
  proof (induction n arbitrary: k es)
    case (Suc n)
    obtain m evs1 where a: "sse_attempt provider s k (env k) = Some (m, evs1)"
      using Suc.prems(1) by (cases "sse_attempt provider s k (env k)") auto
    show ?case
    proof (cases m)
      case (Some r)
      then have "r = res" "e \<in> set evs1" using a Suc.prems by simp_all
      then show ?thesis using a Some assms(3) by (intro exI [of _ k] exI [of _ evs1]) (auto simp: plain_def)
    next
      case None
      then obtain evs2 where r: "sse_attempts provider s env (Suc k) n = Some (res, evs2)" "es = evs1 @ evs2"
        using a Suc.prems(1) by (auto split: option.splits)
      obtain evs' where "evs1 = evs' @ [event_blank SSE_RETRY]" "plain evs'"
        using a None sse_attempt_retry by blast
      then have "e \<notin> set evs1" using assms(3) by (auto simp: plain_def)
      then have "e \<in> set evs2" using r Suc.prems(2) by simp
      from Suc.IH [OF r(1) this] show ?thesis by auto
    qed
  qed simp
  from this [OF assms(1) [unfolded http_post_sse_def] assms(2)]
  obtain j last where j: "j \<le> 2" "sse_attempt provider s j (env j) = Some (Some res, last)" "\<not> plain last"
    by (auto simp: MAX_RETRIES_def)
  from attempt_speed [OF j(2,3)] assms(4) j(1) show ?thesis by blast
qed

definition demo_done :: "nat \<Rightarrow> attempt" where
  "demo_done k =
     \<lparr>at_init = True, at_chunks = [(False, feed_of 1 (claude_bytes [(''x'', CMessageStop)]))], at_rc = 0,
      at_http = 200, at_now = 9, at_total_us = 2500, at_ttfb_us = 1000, at_cancelled = (\<lambda>i. False),
      at_elapsed_ms = 1000\<rparr>"

lemma demo_done_run:
  "\<exists>evs e. http_post_sse ''claude'' 0 demo_done = Some (0, evs) \<and> e \<in> set evs \<and> ev_speed_ready e"
proof -
  obtain evs sctx where run: "stream_loop (stream_ctx_init ''claude'' 0)
      (feed_of 1 (claude_bytes [(''x'', CMessageStop)])) = Some (True, evs, sctx)" "sc_complete sctx"
    using claude_stream_run [of "[(''x'', CMessageStop)]" 0 1] by (auto simp: LF_def NUL_def)
  let ?fs = "feed_of 1 (claude_bytes [(''x'', CMessageStop)])"
  have "perform (stream_ctx_init ''claude'' 0) [(False, ?fs)] 0 = Some (0, evs, sctx)"
    using run perform_chunks [of "[(False, ?fs)]" "stream_ctx_init ''claude'' 0" 0] by simp
  then have "sse_attempt ''claude'' 0 0 (demo_done 0)
      = Some (Some 0, evs @ process_residual_json sctx ''claude'' 9 @ [speed_event (demo_done 0) sctx 0 200])"
    by (simp del: perform.simps add: sse_attempt_def demo_done_def should_retry_def CURLE_OK_def
        CURLE_WRITE_ERROR_def finish_attempt_def final_code_def)
  then have "http_post_sse ''claude'' 0 demo_done
      = Some (0, evs @ process_residual_json sctx ''claude'' 9 @ [speed_event (demo_done 0) sctx 0 200])"
    by (simp add: http_post_sse_def)
  moreover have "ev_speed_ready (speed_event (demo_done 0) sctx 0 200)"
    using run(2) by (simp add: speed_event_ready stream_speed_ready_def CURLE_OK_def demo_done_def)
  ultimately show ?thesis by (intro exI conjI) auto
qed

lemma speed_only_when_complete_witness:
  "\<exists>k evs' sctx. k \<le> 2 \<and> 200 \<le> at_http (demo_done k) \<and> at_http (demo_done k) < 300
    \<and> \<not> at_cancelled (demo_done k) 1 \<and> sc_complete sctx
    \<and> perform (stream_ctx_init ''claude'' 0) (at_chunks (demo_done k)) (at_rc (demo_done k))
        = Some (CURLE_OK, evs', sctx)"
proof -
  obtain evs e where r: "http_post_sse ''claude'' 0 demo_done = Some (0, evs)" "e \<in> set evs" "ev_speed_ready e"
    using demo_done_run by blast
  have h: "\<forall>k. 0 \<le> at_http (demo_done k)" by (simp add: demo_done_def)
  show ?thesis using speed_only_when_complete [OF r h] by (rule conjunct2)
qed

end
