(* ===== verification/OpenAI.thy ===== *)
theory OpenAI
  imports Wire
begin

text \<open>
  OpenAI chat streams: the fragments of tool calls that arrive in many chunks, interleaved by index,
  are put together, and handed on when the stream says why it stops.
\<close>

section \<open>Fragments\<close>

text \<open>A fragment: index, id, name, a piece of the arguments.  An empty id or name is the usual filler
  of later fragments.\<close>

type_synonym frag = "int \<times> string \<times> string \<times> string"

fun frag_json :: "frag \<Rightarrow> json" where
  "frag_json (i, tid, name, args) =
     JObj [(''index'', JInt i), (''id'', JStr tid),
           (''function'', JObj [(''name'', JStr name), (''arguments'', JStr args)])]"

fun frag_ok :: "frag \<Rightarrow> bool" where
  "frag_ok (i, tid, name, args) \<longleftrightarrow> int_ok i \<and> nulfree tid \<and> nulfree name \<and> nulfree args"

text \<open>The calls in the order of their first fragment: the last id and name that are not empty, the
  arguments joined.\<close>

fun add_frag :: "frag list \<Rightarrow> frag \<Rightarrow> frag list" where
  "add_frag [] f = [f]"
| "add_frag ((j, t, n, a) # fs) (i, tid, name, args) =
     (if j = i then (j, if tid = [] then t else tid, if name = [] then n else name, a @ args) # fs
      else (j, t, n, a) # add_frag fs (i, tid, name, args))"

definition assemble :: "frag list \<Rightarrow> frag list" where
  "assemble fs = foldl add_frag [] fs"

definition slot_frag :: "openai_tool \<Rightarrow> frag" where
  "slot_frag t = (ot_index t, opt_default [] (ot_id t), opt_default [] (ot_name t), sb_str (ot_arguments t))"

definition used_slots :: "stream_ctx \<Rightarrow> openai_tool list" where
  "used_slots sctx = take (sc_tool_count sctx) (sc_tools sctx)"

text \<open>The slots in use are real slots, their buffers are sound, and no free slot holds a name yet.\<close>

definition slots_ok :: "stream_ctx \<Rightarrow> bool" where
  "slots_ok sctx \<longleftrightarrow> sc_tool_count sctx \<le> length (sc_tools sctx)
     \<and> (\<forall>t \<in> set (sc_tools sctx). strbuf_ok (ot_arguments t))
     \<and> (\<forall>t \<in> set (drop (sc_tool_count sctx) (sc_tools sctx)). ot_id t = None \<and> ot_name t = None)"

lemma find_tool_Some: "find_tool ts i = Some k \<Longrightarrow>
    k < length ts \<and> ot_index (ts ! k) = i \<and> (\<forall>j < k. ot_index (ts ! j) \<noteq> i)"
proof (induction ts arbitrary: k)
  case (Cons t ts)
  show ?case
  proof (cases "ot_index t = i")
    case False
    with Cons.prems obtain m where m: "find_tool ts i = Some m" "k = Suc m" by auto
    with Cons.IH [OF m(1)] False show ?thesis by (auto simp: nth_Cons' less_Suc_eq_0_disj)
  qed (use Cons.prems in auto)
qed simp

lemma find_tool_None: "find_tool ts i = None \<longleftrightarrow> (\<forall>t \<in> set ts. ot_index t \<noteq> i)"
  by (induction ts) auto

lemma add_frag_here:
  "k < length fs \<Longrightarrow> fst (fs ! k) = i \<Longrightarrow> \<forall>j < k. fst (fs ! j) \<noteq> i \<Longrightarrow>
     add_frag fs (i, tid, name, args) =
       fs[k := (case fs ! k of (j, t, n, a) \<Rightarrow>
                 (j, if tid = [] then t else tid, if name = [] then n else name, a @ args))]"
proof (induction fs arbitrary: k)
  case (Cons f fs)
  obtain j t n a where f: "f = (j, t, n, a)" by (cases f)
  show ?case
  proof (cases k)
    case 0
    with Cons.prems f show ?thesis by simp
  next
    case (Suc m)
    then have "j \<noteq> i" using Cons.prems(3) f by auto
    moreover have "\<forall>j < m. fst (fs ! j) \<noteq> i" using Cons.prems(3) Suc by auto
    ultimately show ?thesis using Cons.IH [of m] Cons.prems Suc f by simp
  qed
qed simp

lemma add_frag_new: "\<forall>f \<in> set fs. fst f \<noteq> i \<Longrightarrow> add_frag fs (i, tid, name, args) = fs @ [(i, tid, name, args)]"
  by (induction fs "(i, tid, name, args)" rule: add_frag.induct) auto

text \<open>Taking a slot.\<close>

lemma ensure_new:
  assumes "slots_ok sctx" "find_tool (used_slots sctx) i = None"
    "streamctx_ensure_openai_tool sctx i = (s, k)"
  shows "slots_ok s" "k < length (used_slots s)"
    "used_slots s = used_slots sctx @ [\<lparr>ot_index = i, ot_id = None, ot_name = None, ot_arguments = sb_init\<rparr>]"
    "k = length (used_slots sctx)" "s = sctx\<lparr>sc_tools := sc_tools s, sc_tool_count := sc_tool_count s\<rparr>"
proof -
  let ?n = "sc_tool_count sctx"
  define slots where "slots = (if length (sc_tools sctx) \<le> ?n
     then sc_tools sctx @ replicate ((if length (sc_tools sctx) = 0 then 4 else length (sc_tools sctx) * 2)
            - length (sc_tools sctx)) tool_zero
     else sc_tools sctx)"
  have n: "?n \<le> length (sc_tools sctx)" using assms(1) by (simp add: slots_ok_def)
  have len: "?n < length slots" using n by (auto simp: slots_def)
  have z: "strbuf_ok (ot_arguments tool_zero)" "ot_id tool_zero = None" "ot_name tool_zero = None"
    by (simp_all add: tool_zero_def)
  have sl: "\<forall>t \<in> set slots. strbuf_ok (ot_arguments t)"
    "\<forall>t \<in> set (drop ?n slots). ot_id t = None \<and> ot_name t = None" "take ?n slots = take ?n (sc_tools sctx)"
    using assms(1) z n by (auto simp: slots_def slots_ok_def split: if_splits)
  have nth: "slots ! ?n \<in> set (drop ?n slots)"
    using len by (metis Cons_nth_drop_Suc list.set_intros(1))
  then have blank: "(slots ! ?n)\<lparr>ot_index := i, ot_arguments := sb_init\<rparr>
      = \<lparr>ot_index = i, ot_id = None, ot_name = None, ot_arguments = sb_init\<rparr>"
    using sl(2) by auto
  have s: "s = sctx\<lparr>sc_tools := slots[?n := \<lparr>ot_index = i, ot_id = None, ot_name = None, ot_arguments = sb_init\<rparr>],
      sc_tool_count := ?n + 1\<rparr>" "k = ?n"
    using assms(2,3) blank
    by (auto simp: streamctx_ensure_openai_tool_def used_slots_def Let_def slots_def [symmetric])
  have "drop (Suc ?n) (slots[?n := x]) = drop (Suc ?n) slots" for x by (simp add: drop_update_cancel)
  moreover have "set (drop (Suc ?n) slots) \<subseteq> set (drop ?n slots)"
    by (rule set_drop_subset_set_drop) simp
  ultimately show "slots_ok s"
    using s sl len by (auto simp: slots_ok_def dest!: set_update_subset_insert [THEN subsetD])
  show u: "used_slots s = used_slots sctx @ [\<lparr>ot_index = i, ot_id = None, ot_name = None, ot_arguments = sb_init\<rparr>]"
    using s len sl(3) by (simp add: used_slots_def take_Suc_conv_app_nth)
  show "k = length (used_slots sctx)" using s n by (simp add: used_slots_def)
  then show "k < length (used_slots s)" by (simp add: u)
  show "s = sctx\<lparr>sc_tools := sc_tools s, sc_tool_count := sc_tool_count s\<rparr>" using s by simp
qed

lemma ensure_old:
  assumes "find_tool (used_slots sctx) i = Some k"
  shows "streamctx_ensure_openai_tool sctx i = (sctx, k)"
  using assms by (simp add: streamctx_ensure_openai_tool_def used_slots_def)

lemma used_update:
  assumes "slots_ok sctx" "k < length (used_slots sctx)" "strbuf_ok (ot_arguments (f (used_slots sctx ! k)))"
  shows "slots_ok (update_tool k f sctx)"
    "used_slots (update_tool k f sctx) = (used_slots sctx)[k := f (used_slots sctx ! k)]"
proof -
  have k: "k < sc_tool_count sctx" "k < length (sc_tools sctx)" and nth: "used_slots sctx ! k = sc_tools sctx ! k"
    using assms(2) by (simp_all add: used_slots_def)
  show "used_slots (update_tool k f sctx) = (used_slots sctx)[k := f (used_slots sctx ! k)]"
    using nth by (simp add: used_slots_def update_tool_def take_update_swap)
  have "drop (sc_tool_count sctx) ((sc_tools sctx)[k := x]) = drop (sc_tool_count sctx) (sc_tools sctx)" for x
    using k by (simp add: drop_update_cancel)
  then show "slots_ok (update_tool k f sctx)"
    using assms(1,3) nth by (auto simp: slots_ok_def update_tool_def dest!: set_update_subset_insert [THEN subsetD])
qed

lemma frag_views:
  assumes "is_view tc (frag_json (i, tid, name, args))" "frag_ok (i, tid, name, args)"
  shows "json_get_int tc ''index'' = i" "json_get_string tc ''id'' = Some tid"
    "json_get_string (json_get tc ''function'') ''name'' = Some name"
    "json_get_string (json_get tc ''function'') ''arguments'' = Some args"
proof -
  define ms where "ms = [(''index'', JInt i), (''id'', JStr tid),
           (''function'', JObj [(''name'', JStr name), (''arguments'', JStr args)])]"
  have v: "is_view tc (JObj ms)" using assms(1) by (simp add: ms_def)
  have ok: "json_ok (JObj ms)" by (simp add: ms_def simple_key_def char_defs)
  have fm: "map_of ms ''function'' = Some (JObj [(''name'', JStr name), (''arguments'', JStr args)])"
    by (simp add: ms_def)
  note f = nested_view [OF v ok fm]
  show "json_get_int tc ''index'' = i"
    by (rule json_get_int_view [OF v ok]) (use assms(2) in \<open>simp_all add: ms_def int_ok_def\<close>)
  show "json_get_string tc ''id'' = Some tid"
    by (rule json_get_string_view [OF v ok]) (use assms(2) in \<open>simp_all add: ms_def\<close>)
  show "json_get_string (json_get tc ''function'') ''name'' = Some name"
    "json_get_string (json_get tc ''function'') ''arguments'' = Some args"
    by (rule json_get_string_view [OF f(1,2)]; use assms(2) in simp)+
qed

lemma or_keep_default: "opt_default [] (or_keep (Some s) old) = (if s = [] then opt_default [] old else s)"
  by (simp add: or_keep_def)

lemma delta_step:
  assumes "slots_ok sctx" "is_view tc (frag_json f)" "frag_ok f"
  shows "slots_ok (openai_tool_delta sctx tc)
    \<and> map slot_frag (used_slots (openai_tool_delta sctx tc)) = add_frag (map slot_frag (used_slots sctx)) f
    \<and> sc_start_ms (openai_tool_delta sctx tc) = sc_start_ms sctx"
proof -
  obtain i tid name args where f: "f = (i, tid, name, args)" by (cases f)
  note v = frag_views [OF assms(2,3) [unfolded f]]
  define g where "g = (\<lambda>t::openai_tool. t\<lparr>ot_id := or_keep (Some tid) (ot_id t), ot_name := or_keep (Some name) (ot_name t),
      ot_arguments := sb_append (ot_arguments t) (Some args)\<rparr>)"
  obtain s k where e: "streamctx_ensure_openai_tool sctx i = (s, k)" by fastforce
  have d: "openai_tool_delta sctx tc = update_tool k g s"
    by (simp add: openai_tool_delta_def v e g_def)
  have sg: "slot_frag (g t) = (ot_index t, if tid = [] then opt_default [] (ot_id t) else tid,
      if name = [] then opt_default [] (ot_name t) else name, sb_str (ot_arguments t) @ args)"
    if "strbuf_ok (ot_arguments t)" for t
    using that by (simp add: slot_frag_def g_def or_keep_default)
  show ?thesis
  proof (cases "find_tool (used_slots sctx) i")
    case None
    note new = ensure_new [OF assms(1) None e]
    let ?t = "\<lparr>ot_index = i, ot_id = None, ot_name = None, ot_arguments = sb_init\<rparr>"
    have t: "used_slots s ! k = ?t" using new(3,4) by (simp add: nth_append)
    have gok: "strbuf_ok (ot_arguments (g (used_slots s ! k)))" unfolding t by (simp add: g_def)
    have "used_slots (update_tool k g s) = used_slots sctx @ [g ?t]"
      using used_update(2) [where f = g, OF new(1,2) gok] new(3,4) t by simp
    moreover have "slot_frag (g ?t) = f" using sg [of ?t] by (simp add: f)
    moreover have "add_frag (map slot_frag (used_slots sctx)) f = map slot_frag (used_slots sctx) @ [f]"
      unfolding f using None by (intro add_frag_new) (auto simp: find_tool_None slot_frag_def)
    moreover have "sc_start_ms s = sc_start_ms sctx" by (subst new(5)) simp
    ultimately show ?thesis using d used_update(1) [where f = g, OF new(1,2) gok] by (simp add: update_tool_def)
  next
    case (Some m)
    have sk: "s = sctx" "k = m" using ensure_old [OF Some] e by simp_all
    note ft = find_tool_Some [OF Some]
    let ?u = "used_slots sctx"
    have tok: "strbuf_ok (ot_arguments (?u ! m))"
      using assms(1) ft by (auto simp: slots_ok_def used_slots_def dest: nth_mem)
    have gok: "strbuf_ok (ot_arguments (g (?u ! m)))" using tok by (simp add: g_def)
    have ml: "m < length ?u" using ft by simp
    have "map slot_frag (used_slots (update_tool m g sctx)) = (map slot_frag ?u)[m := slot_frag (g (?u ! m))]"
      using used_update(2) [where f = g, OF assms(1) ml gok] by (simp add: map_update)
    also have "\<dots> = add_frag (map slot_frag ?u) f"
      unfolding f
      by (subst add_frag_here [of m]) (use ft ml sg [OF tok] in \<open>auto simp: slot_frag_def\<close>)
    finally show ?thesis using d sk used_update(1) [where f = g, OF assms(1) ml gok] by (simp add: update_tool_def)
  qed
qed

section \<open>Chunks\<close>

lemma json_elems_view:
  assumes "is_view jv (JArr xs)" "json_ok (JArr xs)"
  shows "list_all2 is_view (json_elems jv) xs"
  using json_array_view [OF assms] by (auto simp: json_elems_def list_all2_conv_all_nth)

lemma deltas_step:
  "list_all2 is_view tcs (map frag_json fs) \<Longrightarrow> slots_ok sctx \<Longrightarrow> \<forall>f \<in> set fs. frag_ok f \<Longrightarrow>
     slots_ok (foldl openai_tool_delta sctx tcs)
     \<and> map slot_frag (used_slots (foldl openai_tool_delta sctx tcs)) = foldl add_frag (map slot_frag (used_slots sctx)) fs
     \<and> sc_provider (foldl openai_tool_delta sctx tcs) = sc_provider sctx"
proof (induction fs arbitrary: tcs sctx)
  case (Cons f fs)
  then obtain tc tcs' where t: "tcs = tc # tcs'" "is_view tc (frag_json f)" "list_all2 is_view tcs' (map frag_json fs)"
    by (auto simp: list_all2_Cons2)
  have d: "slots_ok (openai_tool_delta sctx tc)"
    "map slot_frag (used_slots (openai_tool_delta sctx tc)) = add_frag (map slot_frag (used_slots sctx)) f"
    using delta_step [OF Cons.prems(2) t(2)] Cons.prems(3) by simp_all
  have p: "sc_provider (openai_tool_delta sctx tc) = sc_provider sctx"
    by (simp add: openai_tool_delta_def streamctx_ensure_openai_tool_def update_tool_def Let_def split: option.split)
  show ?case using Cons.IH [OF t(3) d(1)] Cons.prems(3) d(2) p t(1) by simp
qed simp

definition chunk_json :: "frag list \<Rightarrow> string option \<Rightarrow> json" where
  "chunk_json fs fin =
     JObj [(''object'', JStr ''chat.completion.chunk''),
           (''choices'', JArr [JObj [(''delta'', JObj [(''tool_calls'', JArr (map frag_json fs))]),
              (''finish_reason'', (case fin of None \<Rightarrow> JNull | Some f \<Rightarrow> JStr f))]])]"

definition chunk_line :: "frag list \<Rightarrow> string option \<Rightarrow> string" where
  "chunk_line fs fin = ''data: '' @ json_text (chunk_json fs fin)"

lemma frag_json_ok: "json_ok (frag_json f)"
  by (cases f) (simp add: simple_key_def char_defs)

lemma chunk_json_ok: "json_ok (chunk_json fs fin)"
  by (auto simp: chunk_json_def simple_key_def char_defs frag_json_ok split: option.split)

lemma null_string: "jv_type v = JSON_NULL \<Longrightarrow> json_string_val v = None"
  by (simp add: json_string_val_def)

lemma openai_chunk_step:
  assumes "\<forall>f \<in> set fs. frag_ok f" "\<forall>f. fin = Some f \<longrightarrow> nulfree f"
  shows "\<exists>tcs. list_all2 is_view tcs (map frag_json fs) \<and>
     parse_openai_sse_event sctx (json_text (chunk_json fs fin)) now =
       openai_finish (foldl openai_tool_delta sctx tcs) fin"
proof -
  let ?v = "view (chunk_json fs fin) []"
  define finj where "finj = (case fin of None \<Rightarrow> JNull | Some f \<Rightarrow> JStr f)"
  define dl where "dl = [(''tool_calls'', JArr (map frag_json fs))]"
  define ch where "ch = [(''delta'', JObj dl), (''finish_reason'', finj)]"
  define ms where "ms = [(''object'', JStr ''chat.completion.chunk''), (''choices'', JArr [JObj ch])]"
  have c: "chunk_json fs fin = JObj ms" by (simp add: chunk_json_def ms_def ch_def dl_def finj_def)
  have ok: "json_ok (JObj ms)" using chunk_json_ok [of fs fin] c by simp
  have v: "is_view ?v (JObj ms)" by (simp add: c)
  have m1: "map_of ms ''choices'' = Some (JArr [JObj ch])" by (simp add: ms_def)
  have m2: "map_of ch ''delta'' = Some (JObj dl)" "map_of ch ''finish_reason'' = Some finj" by (simp_all add: ch_def)
  have m3: "map_of dl ''tool_calls'' = Some (JArr (map frag_json fs))" by (simp add: dl_def)
  have choices: "is_view (json_get ?v ''choices'') (JArr [JObj ch])" by (rule json_get_some [OF v ok m1])
  have aok: "json_ok (JArr [JObj ch])" by (rule json_ok_member [OF ok m1])
  then have chok: "json_ok (JObj ch)" by simp
  define choice where "choice = json_array_get (json_get ?v ''choices'') 0"
  have choice: "is_view choice (JObj ch)"
    using json_array_view(2) [OF choices aok, of 0] by (simp add: choice_def)
  note delta = nested_view [OF choice chok m2(1)]
  have tcv: "is_view (json_get (json_get choice ''delta'') ''tool_calls'') (JArr (map frag_json fs))"
    by (rule json_get_some [OF delta(1,2) m3])
  have tcok: "json_ok (JArr (map frag_json fs))" by (rule json_ok_member [OF delta(2) m3])
  have finish: "json_get_string choice ''finish_reason'' = fin"
    using json_get_some [OF choice chok m2(2)] is_view_type [of "json_get choice ''finish_reason''" finj] assms(2)
    by (cases fin) (auto simp: finj_def json_get_string_def null_string json_string_view)
  have none: "json_get_string (json_get choice ''delta'') k = None" if "k \<noteq> ''tool_calls''" for k
    using get_missing [OF delta(1,2), of k] that by (simp add: dl_def)
  have usage: "jv_type (json_get ?v ''usage'') = JSON_NULL"
    using get_missing [OF v ok, of "''usage''"] by (simp add: ms_def)
  have obj: "json_get_string ?v ''object'' = Some ''chat.completion.chunk''"
    by (rule json_get_string_view [OF v ok]) (simp_all add: ms_def NUL_def)
  have types: "jv_type (json_get ?v ''choices'') = JSON_ARRAY"
    "jv_type (json_get (json_get choice ''delta'') ''tool_calls'') = JSON_ARRAY"
    using is_view_type [OF choices] is_view_type [OF tcv] by simp_all
  have "json_text (chunk_json fs fin) \<noteq> []" "json_text (chunk_json fs fin) \<noteq> ''[DONE]''"
    by (simp_all add: chunk_json_def)
  then have "parse_openai_sse_event sctx (json_text (chunk_json fs fin)) now =
      openai_finish (foldl openai_tool_delta sctx (json_elems (json_get (json_get choice ''delta'') ''tool_calls''))) fin"
    using json_text_parse [OF chunk_json_ok [of fs fin]] obj types usage finish none [of "''content''"]
      none [of "''reasoning_content''"] none [of "''reasoning''"]
    by (simp add: parse_openai_sse_event_def openai_choice_def choice_def [symmetric] reasoning_of_def
        emit_if_def openai_usage_def case_prod_beta Let_def)
  then show ?thesis using json_elems_view [OF tcv tcok] by blast
qed

lemma chunk_stream_line:
  assumes "sc_provider sctx = ''openai''"
  shows "stream_line sctx (strip_cr (chunk_line fs fin)) now =
    parse_openai_sse_event sctx (json_text (chunk_json fs fin)) now"
proof -
  have "strip_cr (chunk_line fs fin) = chunk_line fs fin"
    by (simp add: strip_cr_def chunk_line_def chunk_json_def CR_def)
  then show ?thesis using assms
    by (simp add: stream_line_def stream_data_def) (simp add: chunk_line_def)
qed

lemma finish_none [simp]: "openai_finish sctx None = ([], sctx)"
  by (simp add: openai_finish_def)

lemma chunks_run:
  "sc_provider sctx = ''openai'' \<Longrightarrow> slots_ok sctx \<Longrightarrow> \<forall>fs \<in> set fss. \<forall>f \<in> set fs. frag_ok f \<Longrightarrow>
     \<exists>s. stream_lines sctx now (map (\<lambda>fs. chunk_line fs None) fss) = ([], s) \<and> slots_ok s
       \<and> sc_provider s = ''openai''
       \<and> map slot_frag (used_slots s) = foldl add_frag (map slot_frag (used_slots sctx)) (concat fss)"
proof (induction fss arbitrary: sctx)
  case (Cons fs fss)
  obtain tcs where t: "list_all2 is_view tcs (map frag_json fs)"
    "parse_openai_sse_event sctx (json_text (chunk_json fs None)) now = ([], foldl openai_tool_delta sctx tcs)"
    using openai_chunk_step [of fs None sctx now] Cons.prems(3) by auto
  note d = deltas_step [OF t(1) Cons.prems(2)]
  obtain s where "stream_lines (foldl openai_tool_delta sctx tcs) now (map (\<lambda>fs. chunk_line fs None) fss) = ([], s)"
    "slots_ok s" "sc_provider s = ''openai''"
    "map slot_frag (used_slots s) = foldl add_frag (map slot_frag (used_slots (foldl openai_tool_delta sctx tcs))) (concat fss)"
    using Cons.IH [of "foldl openai_tool_delta sctx tcs"] Cons.prems d by auto
  then show ?case using d Cons.prems t(2) chunk_stream_line [OF Cons.prems(1), of fs None now] by simp
qed simp

lemma emit_slots:
  assumes "slots_ok sctx"
  shows "fst (streamctx_emit_openai_tool_calls sctx) =
    map (\<lambda>(i, t, n, a). call_event (Some t) (Some n) a)
      (filter (\<lambda>(i, t, n, a). a \<noteq> []) (map slot_frag (used_slots sctx)))"
proof -
  have ok: "\<forall>t \<in> set (used_slots sctx). strbuf_ok (ot_arguments t)"
    using assms by (auto simp: slots_ok_def used_slots_def dest: in_set_takeD)
  have R: "tool_ready t \<longleftrightarrow> sb_str (ot_arguments t) \<noteq> []" if "strbuf_ok (ot_arguments t)" for t
    using sb_len_str [OF that] by (simp add: tool_ready_def)
  have E: "tool_event t = call_event (Some (opt_default [] (ot_id t))) (Some (opt_default [] (ot_name t)))
      (sb_str (ot_arguments t))" if "sb_str (ot_arguments t) \<noteq> []" for t
    using that by (cases "sb_data (ot_arguments t)") (simp_all add: tool_event_def sb_str_def)
  have "map tool_event (filter tool_ready ts) =
    map (\<lambda>(i, t, n, a). call_event (Some t) (Some n) a)
      (filter (\<lambda>(i, t, n, a). a \<noteq> []) (map slot_frag ts))"
    if "\<forall>t \<in> set ts. strbuf_ok (ot_arguments t)" for ts
    using that by (induction ts) (auto simp: slot_frag_def R E)
  from this [OF ok] have "map tool_event (filter tool_ready (used_slots sctx)) =
    map (\<lambda>(i, t, n, a). call_event (Some t) (Some n) a)
      (filter (\<lambda>(i, t, n, a). a \<noteq> []) (map slot_frag (used_slots sctx)))" .
  then show ?thesis by (simp add: streamctx_emit_openai_tool_calls_def used_slots_def Let_def)
qed

text \<open>
  C13: Tool calls of an OpenAI stream are put together from their fragments.  Whatever the chunks and
  the interleaving of the indexes, when the stream stops for tool calls the events are one call per
  index in the order of the first fragments, with the last id and name that are not empty and the
  joined arguments, then the stop.  A call whose arguments are all empty is dropped, although the
  stop still announces a tool use.
\<close>

theorem openai_calls_reassembled:
  assumes "\<forall>fs \<in> set fss. \<forall>f \<in> set fs. frag_ok f"
  shows "fst (stream_lines (stream_ctx_init ''openai'' start) now
      (map (\<lambda>fs. chunk_line fs None) fss @ [chunk_line [] (Some ''tool_calls'')])) =
    map (\<lambda>(i, t, n, a). call_event (Some t) (Some n) a)
      (filter (\<lambda>(i, t, n, a). a \<noteq> []) (assemble (concat fss)))
    @ [emit_simple_event SSE_STOP (Some ''tool_use'')]"
proof -
  let ?c = "stream_ctx_init ''openai'' start"
  have c: "sc_provider ?c = ''openai''" "slots_ok ?c" "used_slots ?c = []"
    by (simp_all add: stream_ctx_init_def slots_ok_def used_slots_def)
  obtain s where s: "stream_lines ?c now (map (\<lambda>fs. chunk_line fs None) fss) = ([], s)" "slots_ok s"
    "sc_provider s = ''openai''" "map slot_frag (used_slots s) = assemble (concat fss)"
    using chunks_run [OF c(1,2) assms, of now] c(3) by (auto simp: assemble_def)
  define s1 where "s1 = s\<lparr>sc_finished := True\<rparr>"
  have s1: "slots_ok s1" "used_slots s1 = used_slots s" using s(2) by (simp_all add: s1_def slots_ok_def used_slots_def)
  have "stream_line s (strip_cr (chunk_line [] (Some ''tool_calls''))) now =
      openai_finish s (Some ''tool_calls'')"
    using chunk_stream_line [OF s(3)] openai_chunk_step [of "[]" "Some ''tool_calls''" s now]
    by (auto simp: NUL_def)
  also have "\<dots> = (fst (streamctx_emit_openai_tool_calls s1) @ [emit_simple_event SSE_STOP (Some ''tool_use'')],
      snd (streamctx_emit_openai_tool_calls s1))"
    by (simp add: openai_finish_def s1_def case_prod_beta Let_def)
  finally have "fst (stream_lines s now [chunk_line [] (Some ''tool_calls'')]) =
      fst (streamctx_emit_openai_tool_calls s1) @ [emit_simple_event SSE_STOP (Some ''tool_use'')]"
    by (simp add: case_prod_beta Let_def)
  then show ?thesis
    unfolding stream_lines_append s(1) Let_def prod.case emit_slots [OF s1(1)] s1(2) s(4) [symmetric]
    by (simp add: case_prod_beta)
qed

lemma openai_calls_reassembled_witness:
  "fst (stream_lines (stream_ctx_init ''openai'' 0) 5
      (map (\<lambda>fs. chunk_line fs None)
         [[(0, ''a'', ''Bash'', ''{''), (1, ''b'', ''Read'', [])], [(0, [], [], ''}'')]]
       @ [chunk_line [] (Some ''tool_calls'')])) =
    [call_event (Some ''a'') (Some ''Bash'') ''{}'', emit_simple_event SSE_STOP (Some ''tool_use'')]"
  using openai_calls_reassembled [of "[[(0, ''a'', ''Bash'', ''{''), (1, ''b'', ''Read'', [])], [(0, [], [], ''}'')]]" 0 5]
  by (simp add: int_ok_def NUL_def assemble_def)

end
