(* ===== verification/ConvertProps.thy ===== *)
theory ConvertProps
  imports Convert OpenAI
begin

text \<open>
  What the request builder and the converters produce, as JSON terms: the Claude body the store's
  lines are put into, and the OpenAI chat body made from it.
\<close>

section \<open>Looking into views\<close>

definition lookup_str :: "(string \<times> json) list \<Rightarrow> string \<Rightarrow> string option" where
  "lookup_str ms k = (case map_of ms k of Some (JStr s) \<Rightarrow> Some s | _ \<Rightarrow> None)"

text \<open>Strings are free of NUL, and no member is raw text.\<close>

definition plain_members :: "(string \<times> json) list \<Rightarrow> string \<Rightarrow> bool" where
  "plain_members ms k \<longleftrightarrow>
     (case map_of ms k of Some (JStr s) \<Rightarrow> nulfree s | Some (JRaw s) \<Rightarrow> False | _ \<Rightarrow> True)"

lemma get_string_of:
  assumes "is_view jv (JObj ms)" "json_ok (JObj ms)" "plain_members ms k"
  shows "json_get_string jv k = lookup_str ms k"
proof (cases "map_of ms k")
  case None
  then show ?thesis using get_missing [OF assms(1,2)] by (simp add: lookup_str_def)
next
  case (Some v)
  note g = json_get_some [OF assms(1,2) Some]
  show ?thesis
  proof (cases "\<exists>s. v = JStr s")
    case True
    then show ?thesis using json_string_view [of "json_get jv k"] g Some assms(3)
      by (auto simp: json_get_string_def lookup_str_def plain_members_def)
  next
    case False
    then have "jv_type (json_get jv k) \<noteq> JSON_STRING"
      using is_view_type [OF g] assms(3) Some by (cases v) (auto simp: plain_members_def)
    then show ?thesis using False Some
      by (cases v) (auto simp: json_get_string_def json_string_val_def lookup_str_def)
  qed
qed

lemma get_array_of:
  assumes "is_view jv (JObj ms)" "json_ok (JObj ms)" "map_of ms k = Some (JArr xs)"
  shows "jv_type (json_get jv k) = JSON_ARRAY" "list_all2 is_view (json_elems (json_get jv k)) xs"
  using json_get_some [OF assms] json_elems_view [OF _ json_ok_member [OF assms(2,3)]] is_view_type [of _ "JArr xs"]
  by auto

lemma raw_view: "is_view jv v \<Longrightarrow> json_kind v \<noteq> JSON_NULL \<Longrightarrow> sb_append_json_val jv = json_text v"
  by (simp add: sb_append_json_val_def is_view_type is_view_raw)

lemma map_view:
  "list_all2 is_view bs vs \<Longrightarrow> (\<And>b v. v \<in> set vs \<Longrightarrow> is_view b v \<Longrightarrow> f b = g v) \<Longrightarrow> map f bs = map g vs"
  by (induction bs vs rule: list_all2_induct) auto

section \<open>Conversations\<close>

datatype conv_msg = UserMsg string | AssistMsg string string "(string \<times> string \<times> string) list"

fun conv_json :: "conv_msg \<Rightarrow> json" where
  "conv_json (UserMsg c) = user_json c"
| "conv_json (AssistMsg th tx tools) = assistant_json th tx tools"

fun conv_ok :: "conv_msg \<Rightarrow> bool" where
  "conv_ok (UserMsg c) \<longleftrightarrow> nulfree c"
| "conv_ok (AssistMsg th tx tools) \<longleftrightarrow> nulfree th \<and> nulfree tx
     \<and> (\<forall>t \<in> set tools. nulfree (fst t) \<and> nulfree (fst (snd t)) \<and> input_ok (snd (snd t))
          \<and> json_kind (JRaw (snd (snd t))) \<noteq> JSON_NULL)"

definition call_json :: "string \<times> string \<times> string \<Rightarrow> json" where
  "call_json t =
     JObj [(''id'', JStr (fst t)), (''type'', JStr ''function''),
           (''function'', JObj [(''name'', JStr (fst (snd t))), (''arguments'', JStr (snd (snd t)))])]"

fun chat_json :: "conv_msg \<Rightarrow> json" where
  "chat_json (UserMsg c) = user_json c"
| "chat_json (AssistMsg th tx tools) =
     JObj ([(''role'', JStr ''assistant''), (''reasoning_content'', JStr th), (''content'', JStr tx)]
           @ (if tools = [] then [] else [(''tool_calls'', JArr (map call_json tools))]))"

lemma conv_json_ok: "conv_ok m \<Longrightarrow> json_ok (conv_json m)"
  by (cases m) (auto intro: user_json_ok assistant_json_ok)

lemma quote_function [simp]: "json_quote ''function'' = ''\"function\"''"
  by (subst json_quote_plain; simp add: ord_def char_defs)

lemma call_text:
  "''{\"id\":'' @ json_quote i @ '',\"type\":\"function\",\"function\":{\"name\":'' @ json_quote n
     @ '',\"arguments\":'' @ json_quote a @ ''}}'' = json_text (call_json (i, n, a))"
  by (simp add: call_json_def QUOTE_def)

lemma tool_use_call:
  assumes "is_view b (tool_use_json t)" "nulfree (fst t)" "nulfree (fst (snd t))" "input_ok (snd (snd t))"
    "json_kind (JRaw (snd (snd t))) \<noteq> JSON_NULL"
  shows "json_get_string b ''type'' = Some ''tool_use''" "openai_call b = json_text (call_json t)"
proof -
  obtain i n a where t: "t = (i, n, a)" by (cases t)
  let ?ms = "[(''type'', JStr ''tool_use''), (''id'', JStr i), (''name'', JStr n), (''input'', JRaw a)]"
  have v: "is_view b (JObj ?ms)" using assms(1) by (simp add: t tool_use_json_def)
  have ok: "json_ok (JObj ?ms)" using assms(4) by (simp add: t input_ok_def)
  show "json_get_string b ''type'' = Some ''tool_use''"
    using get_string_of [OF v ok, of "''type''"] by (simp add: plain_members_def lookup_str_def NUL_def)
  have s: "json_get_string b ''id'' = Some i" "json_get_string b ''name'' = Some n"
    using get_string_of [OF v ok] assms(2,3) t by (simp_all add: plain_members_def lookup_str_def)
  have inp: "is_view (json_get b ''input'') (JRaw a)" by (rule json_get_some [OF v ok]) simp
  have "jv_type (json_get b ''input'') \<noteq> JSON_NULL" "sb_append_json_val (json_get b ''input'') = a"
    using is_view_type [OF inp] raw_view [OF inp] assms(5) t by simp_all
  then show "openai_call b = json_text (call_json t)"
    unfolding openai_call_def s arguments_text_def qstr_def opt_default_simps Let_def t
    by (simp only: if_False call_text)
qed

lemma sep_append_commas: "xs \<noteq> [] \<Longrightarrow> commas xs \<noteq> [] \<Longrightarrow> sep_append (commas xs) x = commas (xs @ [x])"
  by (simp add: sep_append_def commas_snoc)

lemma commas_nonempty: "xs \<noteq> [] \<Longrightarrow> \<forall>x \<in> set xs. x \<noteq> [] \<Longrightarrow> commas xs \<noteq> []"
  by (cases xs) (auto simp: commas_Cons)

lemma call_text_nonempty: "json_text (call_json t) \<noteq> []"
  by (simp add: call_json_def)

lemma tool_blocks:
  "list_all2 is_view bs (map tool_use_json tools) \<Longrightarrow>
     \<forall>t \<in> set tools. nulfree (fst t) \<and> nulfree (fst (snd t)) \<and> input_ok (snd (snd t))
       \<and> json_kind (JRaw (snd (snd t))) \<noteq> JSON_NULL \<Longrightarrow>
     foldl assistant_block (tx, th, commas (map (\<lambda>t. json_text (call_json t)) done)) bs
       = (tx, th, commas (map (\<lambda>t. json_text (call_json t)) (done @ tools)))"
proof (induction tools arbitrary: bs "done")
  case (Cons t tools)
  then obtain b bs' where b: "bs = b # bs'" "is_view b (tool_use_json t)" "list_all2 is_view bs' (map tool_use_json tools)"
    by (auto simp: list_all2_Cons2)
  note c = tool_use_call [OF b(2)]
  have "sep_append (commas (map (\<lambda>t. json_text (call_json t)) done)) (json_text (call_json t))
      = commas (map (\<lambda>t. json_text (call_json t)) (done @ [t]))"
  proof (cases "done = []")
    case False
    then show ?thesis
      using sep_append_commas [of "map (\<lambda>t. json_text (call_json t)) done" "json_text (call_json t)"]
        commas_nonempty [of "map (\<lambda>t. json_text (call_json t)) done"] call_text_nonempty by simp
  qed (simp add: sep_append_def)
  then have "assistant_block (tx, th, commas (map (\<lambda>t. json_text (call_json t)) done)) b =
      (tx, th, commas (map (\<lambda>t. json_text (call_json t)) (done @ [t])))"
    using c Cons.prems(2) by (simp add: assistant_block_def Let_def)
  then show ?case using Cons.IH [OF b(3), of "done @ [t]"] Cons.prems(2) b(1) by simp
qed simp

section \<open>Messages\<close>

lemma foldl_skip: "foldl assistant_block st (b # bs) = foldl assistant_block (assistant_block st b) bs"
  by simp

lemma assistant_message_text:
  assumes "is_view content (JArr ([JObj [(''type'', JStr ''thinking''), (''thinking'', JStr th)],
      JObj [(''type'', JStr ''text''), (''text'', JStr tx)]] @ map tool_use_json tools))"
    "conv_ok (AssistMsg th tx tools)"
  shows "openai_convert_assistant_message content = json_text (chat_json (AssistMsg th tx tools))"
proof -
  let ?th = "[(''type'', JStr ''thinking''), (''thinking'', JStr th)]"
  let ?tx = "[(''type'', JStr ''text''), (''text'', JStr tx)]"
  have ok: "json_ok (JArr ([JObj ?th, JObj ?tx] @ map tool_use_json tools))"
    using conv_json_ok [OF assms(2)] by (simp add: assistant_json_def)
  obtain b1 b2 bs where e: "json_elems content = b1 # b2 # bs" "is_view b1 (JObj ?th)" "is_view b2 (JObj ?tx)"
    "list_all2 is_view bs (map tool_use_json tools)"
    using json_elems_view [OF assms(1) ok] by (auto simp: list_all2_Cons2)
  have o: "json_ok (JObj ?th)" "json_ok (JObj ?tx)" using ok by simp_all
  have n: "nulfree th" "nulfree tx" using assms(2) by simp_all
  have s1: "json_get_string b1 ''type'' = Some ''thinking''" "json_get_string b1 ''thinking'' = Some th"
    using get_string_of [OF e(2) o(1)] n by (simp_all add: plain_members_def lookup_str_def NUL_def)
  have s2: "json_get_string b2 ''type'' = Some ''text''" "json_get_string b2 ''text'' = Some tx"
    using get_string_of [OF e(3) o(2)] n by (simp_all add: plain_members_def lookup_str_def NUL_def)
  have "foldl assistant_block ([], [], []) (json_elems content) = foldl assistant_block (tx, th, []) bs"
    by (simp add: e(1) assistant_block_def s1 s2 Let_def)
  also have "\<dots> = (tx, th, commas (map (\<lambda>t. json_text (call_json t)) tools))"
    using tool_blocks [OF e(4), of tx th "[]"] assms(2) by simp
  finally have f: "foldl assistant_block ([], [], []) (json_elems content)
      = (tx, th, commas (map (\<lambda>t. json_text (call_json t)) tools))" .
  have "commas (map (\<lambda>t. json_text (call_json t)) tools) \<noteq> [] \<longleftrightarrow> tools \<noteq> []"
    using commas_nonempty [of "map (\<lambda>t. json_text (call_json t)) tools"] call_text_nonempty by auto
  then show ?thesis
    by (simp add: openai_convert_assistant_message_def f QUOTE_def comp_def)
qed

lemma user_members_plain [simp]:
  "plain_members [(''role'', JStr ''user''), (''content'', JStr c)] ''role''"
  "plain_members [(''role'', JStr ''user''), (''content'', JArr xs)] ''role''"
  "plain_members [(''role'', JStr ''assistant''), (''content'', JArr xs)] ''role''"
  by (simp_all add: plain_members_def NUL_def)

lemma openai_message_conv:
  assumes "is_view m (conv_json c)" "conv_ok c"
  shows "openai_message (out, wrote) m =
    (out @ (if 0 < wrote then '','' else []) @ json_text (chat_json c), wrote + 1)"
proof (cases c)
  case (UserMsg t)
  let ?ms = "[(''role'', JStr ''user''), (''content'', JStr t)]"
  have v: "is_view m (JObj ?ms)" "json_ok (JObj ?ms)" using assms(1) UserMsg by (simp_all add: user_json_def)
  have r: "json_get_string m ''role'' = Some ''user''"
    using get_string_of [OF v, of "''role''"] by (simp add: lookup_str_def)
  have ct: "jv_type (json_get m ''content'') = JSON_STRING"
    using is_view_type [OF json_get_some [OF v, of "''content''"]] by simp
  have "sb_append_json_val m = json_text (user_json t)"
    using raw_view [OF assms(1)] UserMsg by (simp add: user_json_def)
  then show ?thesis using UserMsg by (simp add: openai_message_def r ct Let_def)
next
  case (AssistMsg th tx tools)
  let ?xs = "[JObj [(''type'', JStr ''thinking''), (''thinking'', JStr th)],
      JObj [(''type'', JStr ''text''), (''text'', JStr tx)]] @ map tool_use_json tools"
  let ?ms = "[(''role'', JStr ''assistant''), (''content'', JArr ?xs)]"
  have v: "is_view m (JObj ?ms)" "json_ok (JObj ?ms)"
    using assms(1) conv_json_ok [OF assms(2)] AssistMsg by (simp_all add: assistant_json_def)
  have r: "json_get_string m ''role'' = Some ''assistant''"
    using get_string_of [OF v, of "''role''"] by (simp add: lookup_str_def)
  have cm: "map_of ?ms ''content'' = Some (JArr ?xs)" by simp
  have cv: "is_view (json_get m ''content'') (JArr ?xs)" by (rule json_get_some [OF v cm])
  have "jv_type (json_get m ''content'') = JSON_ARRAY" using is_view_type [OF cv] by simp
  then show ?thesis using assistant_message_text [OF cv] assms(2) AssistMsg
    by (simp add: openai_message_def r Let_def)
qed

lemma openai_messages_conv:
  "list_all2 is_view ms (map conv_json cs) \<Longrightarrow> \<forall>c \<in> set cs. conv_ok c \<Longrightarrow>
     foldl openai_message (commas (map (\<lambda>c. json_text (chat_json c)) done), length done) ms =
       (commas (map (\<lambda>c. json_text (chat_json c)) (done @ cs)), length done + length cs)"
proof (induction cs arbitrary: ms "done")
  case (Cons c cs)
  then obtain m ms' where m: "ms = m # ms'" "is_view m (conv_json c)" "list_all2 is_view ms' (map conv_json cs)"
    by (auto simp: list_all2_Cons2)
  have "openai_message (commas (map (\<lambda>c. json_text (chat_json c)) done), length done) m =
      (commas (map (\<lambda>c. json_text (chat_json c)) (done @ [c])), length (done @ [c]))"
    using openai_message_conv [OF m(2)] Cons.prems(2) by (cases "done = []") (simp_all add: commas_snoc)
  then show ?case using Cons.IH [OF m(3), of "done @ [c]"] Cons.prems(2) m(1) by simp
qed simp

lemma messages_text:
  assumes "is_view v (JArr (map conv_json cs))" "\<forall>c \<in> set cs. conv_ok c"
  shows "openai_convert_messages v = json_text (JArr (map chat_json cs))"
proof -
  have "json_ok (JArr (map conv_json cs))" using assms(2) conv_json_ok by simp
  from openai_messages_conv [OF json_elems_view [OF assms(1) this] assms(2), of "[]"]
  show ?thesis by (simp add: openai_convert_messages_def comp_def)
qed

lemma chat_json_ok: "conv_ok m \<Longrightarrow> json_ok (chat_json m)"
  by (cases m) (auto simp: user_json_ok call_json_def simple_key_def char_defs)

section \<open>Requests\<close>

text \<open>A tool: name, description, schema.\<close>

definition tool_json :: "string \<times> string \<times> string \<Rightarrow> json" where
  "tool_json t = JObj [(''name'', JStr (fst t)), (''description'', JStr (fst (snd t))), (''input_schema'', JRaw (snd (snd t)))]"

definition fn_json :: "string \<times> string \<times> string \<Rightarrow> json" where
  "fn_json t = JObj [(''type'', JStr ''function''),
     (''function'', JObj [(''name'', JStr (fst t)), (''description'', JStr (fst (snd t))), (''parameters'', JRaw (snd (snd t)))])]"

definition tool_ok :: "string \<times> string \<times> string \<Rightarrow> bool" where
  "tool_ok t \<longleftrightarrow> nulfree (fst t) \<and> nulfree (fst (snd t)) \<and> raw_ok (snd (snd t))
     \<and> json_kind (JRaw (snd (snd t))) \<noteq> JSON_NULL"

record request =
  rq_model :: string
  rq_system :: string
  rq_tools :: "(string \<times> string \<times> string) list"
  rq_msgs :: "conv_msg list"
  rq_max :: int
  rq_thinking :: string
  rq_effort :: string

definition request_ok :: "request \<Rightarrow> bool" where
  "request_ok r \<longleftrightarrow> nulfree (rq_model r) \<and> nulfree (rq_system r) \<and> (\<forall>t \<in> set (rq_tools r). tool_ok t)
     \<and> (\<forall>m \<in> set (rq_msgs r). conv_ok m) \<and> int_ok (rq_max r) \<and> nulfree (rq_thinking r) \<and> nulfree (rq_effort r)
     \<and> rq_effort r \<noteq> []"

definition claude_request :: "request \<Rightarrow> (string \<times> json) list" where
  "claude_request r =
     [(''max_tokens'', JInt (rq_max r)), (''messages'', JArr (map conv_json (rq_msgs r))), (''model'', JStr (rq_model r))]
     @ (if rq_thinking r = ''disabled'' then [] else [(''output_config'', JObj [(''effort'', JStr (rq_effort r))])])
     @ [(''stream'', JBool True)]
     @ (if rq_system r = [] then [] else [(''system'', JStr (rq_system r))])
     @ (if rq_thinking r = ''disabled'' then [] else [(''thinking'', JObj [(''type'', JStr (rq_thinking r))])])
     @ [(''tools'', JArr (map tool_json (rq_tools r)))]"

definition chat_request :: "request \<Rightarrow> (string \<times> json) list" where
  "chat_request r =
     [(''model'', JStr (rq_model r)), (''max_tokens'', JInt (rq_max r)), (''stream'', JBool True),
      (''stream_options'', JObj [(''include_usage'', JBool True)])]
     @ (if rq_thinking r \<in> {''adaptive'', ''enabled''}
        then [(''thinking'', JObj [(''type'', JStr ''enabled'')]), (''reasoning_effort'', JStr (rq_effort r))] else [])
     @ (if rq_tools r = [] then [] else [(''tools'', JArr (map fn_json (rq_tools r)))])
     @ [(''messages'', JArr ((if rq_system r = [] then []
           else [JObj [(''role'', JStr ''system''), (''content'', JStr (rq_system r))]])
         @ map chat_json (rq_msgs r)))]"

lemma words_quoted [simp]:
  "json_quote ''system'' = ''\"system\"''" "json_quote ''enabled'' = ''\"enabled\"''"
  by (subst json_quote_plain; simp add: ord_def char_defs)+

definition build :: "fsys \<Rightarrow> request \<Rightarrow> string option" where
  "build fs r =
     build_claude_request fs (Some (rq_model r)) (Some (rq_system r))
       (Some (json_text (JArr (map tool_json (rq_tools r)))))
       (map (\<lambda>m. Some (json_text (conv_json m))) (rq_msgs r)) (rq_max r)
       (Some (rq_thinking r)) (Some (rq_effort r)) None"

lemma conv_text_nonempty: "json_text (conv_json m) \<noteq> []"
  by (cases m) (simp_all add: user_json_def assistant_json_def)

lemma request_messages_plain:
  "request_messages fs False (map (\<lambda>m. Some (json_text (conv_json m))) ms) = Some (map (\<lambda>m. json_text (conv_json m)) ms)"
  by (induction ms) (simp_all add: conv_text_nonempty)

lemma build_text: "build fs r = Some (json_text (JObj (claude_request r)))"
  by (simp add: build_def build_claude_request_def request_messages_plain claude_request_def jstr_def
      QUOTE_def comp_def)

lemma claude_request_ok: "request_ok r \<Longrightarrow> json_ok (JObj (claude_request r))"
  by (auto simp: claude_request_def request_ok_def conv_json_ok tool_json_def tool_ok_def simple_key_def char_defs)

lemma claude_members:
  "map_of (claude_request r) ''max_tokens'' = Some (JInt (rq_max r))"
  "map_of (claude_request r) ''messages'' = Some (JArr (map conv_json (rq_msgs r)))"
  "map_of (claude_request r) ''model'' = Some (JStr (rq_model r))"
  "map_of (claude_request r) ''output_config'' =
     (if rq_thinking r = ''disabled'' then None else Some (JObj [(''effort'', JStr (rq_effort r))]))"
  "map_of (claude_request r) ''system'' = (if rq_system r = [] then None else Some (JStr (rq_system r)))"
  "map_of (claude_request r) ''thinking'' =
     (if rq_thinking r = ''disabled'' then None else Some (JObj [(''type'', JStr (rq_thinking r))]))"
  "map_of (claude_request r) ''tools'' = Some (JArr (map tool_json (rq_tools r)))"
  by (simp_all add: claude_request_def)

lemma tool_converted:
  assumes "is_view td (tool_json t)" "tool_ok t"
  shows "openai_function td = json_text (fn_json t)"
proof -
  obtain n d sc where t: "t = (n, d, sc)" by (cases t)
  let ?ms = "[(''name'', JStr n), (''description'', JStr d), (''input_schema'', JRaw sc)]"
  have v: "is_view td (JObj ?ms)" using assms(1) by (simp add: t tool_json_def)
  have ok: "json_ok (JObj ?ms)" using assms(2) by (simp add: t tool_ok_def simple_key_def char_defs)
  have s: "json_get_string td ''name'' = Some n" "json_get_string td ''description'' = Some d"
    "json_get_string td ''type'' = None"
    using get_string_of [OF v ok] assms(2) t by (simp_all add: plain_members_def lookup_str_def tool_ok_def)
  have inp: "is_view (json_get td ''input_schema'') (JRaw sc)" by (rule json_get_some [OF v ok]) simp
  have k: "json_kind (JRaw sc) \<noteq> JSON_NULL" using assms(2) t by (simp add: tool_ok_def)
  have "jv_type (json_get td ''input_schema'') \<noteq> JSON_NULL" "sb_append_json_val (json_get td ''input_schema'') = sc"
    using is_view_type [OF inp] raw_view [OF inp k] k by simp_all
  then have sc: "schema_text td = sc" by (simp add: schema_text_def Let_def)
  show ?thesis unfolding openai_function_def s qstr_def opt_default_simps sc t fn_json_def
    by (simp add: QUOTE_def)
qed

lemma tools_converted:
  assumes "is_view tv (JArr (map tool_json ts))" "\<forall>t \<in> set ts. tool_ok t"
  shows "openai_convert_tools tv = json_text (JArr (map fn_json ts))"
proof -
  have ok: "json_ok (JArr (map tool_json ts))"
    using assms(2) by (auto simp: tool_json_def tool_ok_def simple_key_def char_defs)
  have "list_all2 is_view (json_elems tv) (map tool_json ts)" by (rule json_elems_view [OF assms(1) ok])
  then have l: "length (json_elems tv) = length ts"
    and e: "\<And>i. i < length ts \<Longrightarrow> is_view (json_elems tv ! i) (tool_json (ts ! i))"
    by (auto simp: list_all2_conv_all_nth)
  have "map openai_function (json_elems tv) = map (\<lambda>t. json_text (fn_json t)) ts"
  proof (rule nth_equalityI)
    fix i assume "i < length (map openai_function (json_elems tv))"
    then have i: "i < length ts" using l by simp
    show "map openai_function (json_elems tv) ! i = map (\<lambda>t. json_text (fn_json t)) ts ! i"
      using tool_converted [OF e [OF i]] assms(2) i l by simp
  qed (simp add: l)
  then show ?thesis using is_view_type [OF assms(1)] by (simp add: openai_convert_tools_def comp_def)
qed


lemma null_member: "json_get_string null_val k = None" "jv_type null_val = JSON_NULL"
  by (simp_all add: json_get_string_def json_get_def json_string_val_def null_val_def)

lemma with_system_text:
  assumes "jv_type sv = JSON_NULL \<longleftrightarrow> sys = []" "sys \<noteq> [] \<Longrightarrow> json_as_string sv = Some sys" "\<forall>x \<in> set xs. json_text x \<noteq> []"
  shows "with_system sv (json_text (JArr xs)) =
    json_text (JArr ((if sys = [] then [] else [JObj [(''role'', JStr ''system''), (''content'', JStr sys)]]) @ xs))"
proof (cases "sys = []")
  case True
  then show ?thesis using assms(1) by (simp add: with_system_def)
next
  case False
  have c: "commas (map json_text xs) \<noteq> [] \<longleftrightarrow> xs \<noteq> []"
    using commas_nonempty [of "map json_text xs"] assms(3) by auto
  show ?thesis
  proof (cases xs)
    case Nil
    then show ?thesis using False assms(1,2) by (simp add: with_system_def QUOTE_def)
  next
    case (Cons y ys)
    then have "0 < length (commas (map json_text xs))" using c by simp
    then have "2 < length (json_text (JArr xs))" by simp
    then show ?thesis using False assms(1,2) Cons
      by (simp add: with_system_def QUOTE_def commas_Cons)
  qed
qed

lemma effort_plain: "is_view ev (JObj [(''effort'', JStr e)]) \<Longrightarrow> nulfree e \<Longrightarrow> e \<noteq> [] \<Longrightarrow> effort_text ev = json_quote e"
  using get_string_of [of ev "[(''effort'', JStr e)]" "''effort''"]
  by (simp add: effort_text_def plain_members_def lookup_str_def simple_key_def char_defs Let_def)

text \<open>What the conversion reads from a view of the Claude request.\<close>

lemma system_member:
  assumes v: "is_view jr (JObj (claude_request r))" and ok: "json_ok (JObj (claude_request r))" and r: "request_ok r"
  shows "jv_type (json_get jr ''system'') = JSON_NULL \<longleftrightarrow> rq_system r = []"
    "rq_system r \<noteq> [] \<Longrightarrow> json_as_string (json_get jr ''system'') = Some (rq_system r)"
proof -
  note mem = claude_members [of r]
  show "jv_type (json_get jr ''system'') = JSON_NULL \<longleftrightarrow> rq_system r = []"
    using json_get_view [OF v ok, of "''system''"] is_view_type [of "json_get jr ''system''"]
    by (cases "rq_system r = []") (auto simp: mem null_member)
  assume ne: "rq_system r \<noteq> []"
  then have sm: "map_of (claude_request r) ''system'' = Some (JStr (rq_system r))" by (simp add: mem)
  note sv = json_get_some [OF v ok sm]
  show "json_as_string (json_get jr ''system'') = Some (rq_system r)"
    using is_view_type [OF sv] json_string_view [OF sv] r by (simp add: json_as_string_def request_ok_def)
qed

lemma thinking_member:
  assumes v: "is_view jr (JObj (claude_request r))" and ok: "json_ok (JObj (claude_request r))" and r: "request_ok r"
  shows "thinking_on (json_get jr ''thinking'') \<longleftrightarrow> rq_thinking r \<in> {''adaptive'', ''enabled''}"
    "rq_thinking r \<in> {''adaptive'', ''enabled''} \<Longrightarrow> effort_text (json_get jr ''output_config'') = json_quote (rq_effort r)"
proof -
  note mem = claude_members [of r]
  show "thinking_on (json_get jr ''thinking'') \<longleftrightarrow> rq_thinking r \<in> {''adaptive'', ''enabled''}"
  proof (cases "rq_thinking r = ''disabled''")
    case True
    then have "json_get jr ''thinking'' = null_val" using json_get_none [OF v ok] by (simp add: mem)
    then show ?thesis using True by (simp add: thinking_on_def null_member)
  next
    case False
    then have tm: "map_of (claude_request r) ''thinking'' = Some (JObj [(''type'', JStr (rq_thinking r))])"
      by (simp add: mem)
    note tv = nested_view [OF v ok tm]
    show ?thesis using get_string_of [OF tv(1,2), of "''type''"] r
      by (simp add: thinking_on_def plain_members_def lookup_str_def request_ok_def)
  qed
  assume "rq_thinking r \<in> {''adaptive'', ''enabled''}"
  then have em: "map_of (claude_request r) ''output_config'' = Some (JObj [(''effort'', JStr (rq_effort r))])"
    by (auto simp: mem)
  show "effort_text (json_get jr ''output_config'') = json_quote (rq_effort r)"
    using effort_plain [OF json_get_some [OF v ok em]] r by (simp add: request_ok_def)
qed

lemma tools_member:
  assumes v: "is_view jr (JObj (claude_request r))" and ok: "json_ok (JObj (claude_request r))" and r: "request_ok r"
  shows "json_array_len (json_get jr ''tools'') = int (length (rq_tools r))" "jv_type (json_get jr ''tools'') = JSON_ARRAY"
    "openai_convert_tools (json_get jr ''tools'') = json_text (JArr (map fn_json (rq_tools r)))"
    "rq_tools r \<noteq> [] \<Longrightarrow> json_text (JArr (map fn_json (rq_tools r))) \<noteq> ''[]''"
proof -
  note mem = claude_members [of r]
  have tview: "is_view (json_get jr ''tools'') (JArr (map tool_json (rq_tools r)))"
    by (rule json_get_some [OF v ok mem(7)])
  have tok: "json_ok (JArr (map tool_json (rq_tools r)))" by (rule json_ok_member [OF ok mem(7)])
  show "json_array_len (json_get jr ''tools'') = int (length (rq_tools r))"
    using json_array_view(1) [OF tview tok] by simp
  show "jv_type (json_get jr ''tools'') = JSON_ARRAY" using is_view_type [OF tview] by simp
  show "openai_convert_tools (json_get jr ''tools'') = json_text (JArr (map fn_json (rq_tools r)))"
    using tools_converted [OF tview] r by (simp add: request_ok_def)
  show "rq_tools r \<noteq> [] \<Longrightarrow> json_text (JArr (map fn_json (rq_tools r))) \<noteq> ''[]''"
    by (cases "rq_tools r") (simp_all add: commas_Cons fn_json_def)
qed

text \<open>
  C5: The two halves of a request fit together.  From a conversation of user and assistant messages
  with their tool calls, \<open>build_claude_request\<close> makes a body that is the JSON text of the Claude
  request, and \<open>convert_to_openai\<close> turns that body into the JSON text of the corresponding OpenAI
  chat request: the system prompt becomes the first message, a tool call's input becomes a string
  of JSON, tools are wrapped as functions, thinking becomes an effort.
\<close>

theorem chat_request_refines:
  assumes "request_ok r"
  shows "build fs r = Some (json_text (JObj (claude_request r)))
    \<and> convert_to_openai (json_text (JObj (claude_request r))) = json_text (JObj (chat_request r))"
proof
  show "build fs r = Some (json_text (JObj (claude_request r)))" by (rule build_text)
  define jr where "jr = view (JObj (claude_request r)) []"
  have ok: "json_ok (JObj (claude_request r))" by (rule claude_request_ok [OF assms])
  have v: "is_view jr (JObj (claude_request r))" by (simp add: jr_def)
  have root: "json_parse_root (Some (json_text (JObj (claude_request r)))) = JOk jr []"
    using json_text_root [OF ok] by (simp add: jr_def del: json_text.simps)
  note mem = claude_members [of r]
  have model: "json_get_string jr ''model'' = Some (rq_model r)"
    using json_get_string_view [OF v ok mem(3)] assms by (simp add: request_ok_def)
  have maxt: "json_get_int jr ''max_tokens'' = rq_max r"
    using json_get_int_view [OF v ok mem(1)] assms by (simp add: request_ok_def int_ok_def)
  have msgs: "openai_convert_messages (json_get jr ''messages'') = json_text (JArr (map chat_json (rq_msgs r)))"
    using messages_text [OF json_get_some [OF v ok mem(2)]] assms by (simp add: request_ok_def)
  have "json_text (chat_json m) \<noteq> []" for m by (cases m) (simp_all add: user_json_def)
  then have nonempty: "\<forall>x \<in> set (map chat_json (rq_msgs r)). json_text x \<noteq> []" by simp
  note tools = tools_member [OF v ok assms] and think = thinking_member [OF v ok assms]
  define T where "T = (if rq_tools r = [] then [] else '',\"tools\":'' @ json_text (JArr (map fn_json (rq_tools r))))"
  define H where "H = (if rq_thinking r \<in> {''adaptive'', ''enabled''}
      then '',\"thinking\":{\"type\":\"enabled\"}'' @ '',\"reasoning_effort\":'' @ json_quote (rq_effort r) else [])"
  define M where "M = json_text (JArr ((if rq_system r = [] then []
           else [JObj [(''role'', JStr ''system''), (''content'', JStr (rq_system r))]]) @ map chat_json (rq_msgs r)))"
  have W: "with_system (json_get jr ''system'') (openai_convert_messages (json_get jr ''messages'')) = M"
    unfolding msgs M_def by (rule with_system_text [OF system_member [OF v ok assms] nonempty])
  have "convert_to_openai (json_text (JObj (claude_request r))) =
    ''{\"model\":'' @ json_quote (rq_model r) @ '',\"max_tokens\":'' @ int_dec (rq_max r)
      @ '',\"stream\":true,\"stream_options\":{\"include_usage\":true}'' @ H @ T @ '',\"messages\":'' @ M @ ''}''"
    unfolding convert_to_openai_def root jres.case Let_def model maxt W tools(1-3) think(1) qstr_def opt_default_simps
    using think(2) tools(4) by (cases "rq_tools r = []") (simp_all add: H_def T_def)
  also have "\<dots> = json_text (JObj (chat_request r))"
    by (simp add: chat_request_def H_def T_def M_def QUOTE_def)
  finally show "convert_to_openai (json_text (JObj (claude_request r))) = json_text (JObj (chat_request r))" .
qed

definition demo_request :: request where
  "demo_request = \<lparr>rq_model = ''m'', rq_system = ''s'', rq_tools = [(''Read'', ''d'', ''{}'')],
     rq_msgs = [UserMsg ''hi'', AssistMsg [] ''ok'' [(''t1'', ''Read'', ''{}'')]], rq_max = 9,
     rq_thinking = ''adaptive'', rq_effort = ''low''\<rparr>"

lemma demo_request_ok: "request_ok demo_request"
proof -
  have "json_parse ''{}'' = JOk \<lparr>jv_type = JSON_OBJECT, jv_src = ''{}'', jv_len = 2\<rparr> []"
    by (simp add: json_parse_first skip_ws_def make_val_def is_ws_def char_defs)
  then have "json_kind (JRaw ''{}'') = JSON_OBJECT" "input_ok ''{}''"
    using empty_object_raw by (simp_all add: parsed_val_def input_ok_def LF_def NUL_def)
  then show ?thesis
    using empty_object_raw
    by (simp add: request_ok_def demo_request_def tool_ok_def int_ok_def NUL_def)
qed

lemma chat_request_refines_witness:
  "convert_to_openai (the (build demo_fs demo_request)) = json_text (JObj (chat_request demo_request))
   \<and> map_of (chat_request demo_request) ''reasoning_effort'' = Some (JStr ''low'')"
  using chat_request_refines [OF demo_request_ok, of demo_fs] by (simp add: chat_request_def demo_request_def)

section \<open>Tool results\<close>

lemma array_loop_bad:
  "xs \<noteq> [] \<Longrightarrow> \<forall>x \<in> set xs. json_ok x \<Longrightarrow> json_kind (last xs) \<noteq> JSON_NUMBER \<Longrightarrow>
     \<exists>e. array_loop st (commas (map json_text xs) @ CHR ''{'' # r) = JErr e"
proof (induction xs)
  case (Cons x xs)
  then have x: "json_ok x" "reads x" using parse_text by auto
  show ?case
  proof (cases "xs = []")
    case True
    have "json_parse (json_text x @ CHR ''{'' # r) = JOk (view x (CHR ''{'' # r)) (CHR ''{'' # r)"
      using x(2) Cons.prems(3) True by (simp add: reads_def)
    with True text_first [OF x(1)] show ?thesis
      by (subst array_loop_eq) (simp add: Let_def)
  next
    case False
    let ?r = "CHR '','' # commas (map json_text xs) @ CHR ''{'' # r"
    have "json_parse (json_text x @ ?r) = JOk (view x ?r) ?r"
      using x(2) by (simp add: reads_def)
    with False text_first [OF x(1), of ?r] Cons show ?thesis
      by (subst array_loop_eq) (simp add: Let_def commas_Cons)
  qed
qed simp

definition tool_msg_json :: "string \<times> string \<Rightarrow> json" where
  "tool_msg_json r =
     JObj [(''role'', JStr ''tool''), (''tool_call_id'', JStr (fst r)), (''content'', JStr (snd r))]"

lemma quote_tool [simp]: "json_quote ''tool'' = ''\"tool\"''"
  by (subst json_quote_plain; simp add: ord_def char_defs)

lemma tool_result_converted:
  assumes "is_view b (tool_result_json r)" "nulfree (fst r)" "nulfree (snd r)"
  shows "json_get_string b ''type'' = Some ''tool_result''" "openai_result b = json_text (tool_msg_json r)"
proof -
  let ?ms = "[(''type'', JStr ''tool_result''), (''tool_use_id'', JStr (fst r)), (''content'', JStr (snd r))]"
  have v: "is_view b (JObj ?ms)" using assms(1) by (simp add: tool_result_json_def)
  have ok: "json_ok (JObj ?ms)" by simp
  show "json_get_string b ''type'' = Some ''tool_result''"
    using get_string_of [OF v ok, of "''type''"] by (simp add: plain_members_def lookup_str_def NUL_def)
  have "json_get_string b ''tool_use_id'' = Some (fst r)" "json_get_string b ''content'' = Some (snd r)"
    using get_string_of [OF v ok] assms(2,3) by (simp_all add: plain_members_def lookup_str_def)
  then show "openai_result b = json_text (tool_msg_json r)"
    by (simp add: openai_result_def qstr_def tool_msg_json_def QUOTE_def)
qed

lemma list_all2_filter_map:
  assumes "list_all2 is_view bs (map h rs)" "\<And>b r. r \<in> set rs \<Longrightarrow> is_view b (h r) \<Longrightarrow> P b \<and> f b = g r"
  shows "filter P bs = bs" "map f bs = map g rs"
proof -
  have l: "length bs = length rs" and v: "\<And>i. i < length rs \<Longrightarrow> is_view (bs ! i) (h (rs ! i))"
    using assms(1) by (auto simp: list_all2_conv_all_nth)
  show "filter P bs = bs"
    using assms(2) v l by (intro filter_True) (metis in_set_conv_nth nth_mem)
  show "map f bs = map g rs"
    using assms(2) v l by (intro nth_equalityI) (simp, metis length_map nth_map nth_mem)
qed

lemma openai_message_results:
  assumes "is_view m (tool_results_json rs)" "\<forall>r \<in> set rs. nulfree (fst r) \<and> nulfree (snd r)" "rs \<noteq> []"
  shows "openai_message (out, wrote) m =
    (out @ commas (map (\<lambda>r. json_text (tool_msg_json r)) rs), wrote + length rs)"
proof -
  let ?xs = "map tool_result_json rs"
  let ?ms = "[(''role'', JStr ''user''), (''content'', JArr ?xs)]"
  have v: "is_view m (JObj ?ms)" using assms(1) by (simp add: tool_results_json_def)
  have ok: "json_ok (JObj ?ms)" using tool_results_json_ok [of rs] by (simp add: tool_results_json_def)
  have r: "json_get_string m ''role'' = Some ''user''"
    using get_string_of [OF v ok, of "''role''"] by (simp add: lookup_str_def)
  have cm: "map_of ?ms ''content'' = Some (JArr ?xs)" by simp
  note c = get_array_of [OF v ok cm]
  note conv = list_all2_filter_map [OF c(2)]
  have f: "filter (\<lambda>b. json_get_string b ''type'' = Some ''tool_result'') (json_elems (json_get m ''content''))
      = json_elems (json_get m ''content'')"
    by (rule conv(1) [where f = openai_result and g = "\<lambda>r. json_text (tool_msg_json r)"])
      (use tool_result_converted assms(2) in blast)
  have g: "map openai_result (json_elems (json_get m ''content'')) = map (\<lambda>r. json_text (tool_msg_json r)) rs"
    by (rule conv(2) [where P = "\<lambda>b. json_get_string b ''type'' = Some ''tool_result''"])
      (use tool_result_converted assms(2) in blast)
  have l: "length (json_elems (json_get m ''content'')) = length rs"
    using c(2) by (simp add: list_all2_conv_all_nth)
  have "\<forall>b \<in> set (json_elems (json_get m ''content'')). json_get_string b ''type'' = Some ''tool_result''"
    using f by (simp only: filter_id_conv)
  then have "\<not> openai_content_has_image (json_get m ''content'')"
    by (simp add: openai_content_has_image_def list_ex_iff)
  then show ?thesis using c(1) r f g l assms(3)
    by (simp add: openai_message_def openai_convert_tool_results_def Let_def)
qed

text \<open>
  Tool results break the OpenAI body.  A message with tool results that follows at least one
  other message (it always does: the model asked for the tools) is appended without the comma
  before it, so the messages array that \<open>convert_to_openai\<close> sends is not JSON.
\<close>

lemma openai_tool_results_unseparated:
  assumes "is_view v (JArr (map conv_json cs @ [tool_results_json rs]))"
    "\<forall>c \<in> set cs. conv_ok c" "cs \<noteq> []" "\<forall>r \<in> set rs. nulfree (fst r) \<and> nulfree (snd r)" "rs \<noteq> []"
  shows "\<exists>e. json_parse (openai_convert_messages v) = JErr e"
proof -
  have ok: "json_ok (JArr (map conv_json cs @ [tool_results_json rs]))"
    using assms(2) conv_json_ok tool_results_json_ok by simp
  have e: "list_all2 is_view (json_elems v) (map conv_json cs @ [tool_results_json rs])"
    by (rule json_elems_view [OF assms(1) ok])
  then obtain ms m where m: "json_elems v = ms @ [m]" "list_all2 is_view ms (map conv_json cs)"
    "is_view m (tool_results_json rs)"
    by (auto simp: list_all2_append2 list_all2_Cons2)
  define C where "C = commas (map (\<lambda>c. json_text (chat_json c)) cs)"
  define R where "R = commas (map (\<lambda>r. json_text (tool_msg_json r)) rs)"
  have "foldl openai_message ([], 0) (json_elems v) = (C @ R, length cs + length rs)"
    using openai_messages_conv [OF m(2) assms(2), of "[]"]
    by (simp add: m(1) openai_message_results [OF m(3) assms(4,5)] C_def R_def)
  then have out: "openai_convert_messages v = CHR ''['' # C @ R @ '']''"
    by (simp add: openai_convert_messages_def)
  obtain u where R: "R = CHR ''{'' # u"
    using assms(5) by (cases rs) (auto simp: R_def commas_Cons tool_msg_json_def)
  obtain c0 cs' where c0: "cs = c0 # cs'" using assms(3) by (cases cs) auto
  have cok: "\<forall>x \<in> set (map chat_json cs). json_ok x" using assms(2) chat_json_ok by simp
  have k: "json_kind (last (map chat_json cs)) \<noteq> JSON_NUMBER"
    using assms(3) by (cases "last cs") (simp_all add: last_map user_json_def)
  obtain t where t: "C @ R @ '']'' = CHR ''{'' # t"
    by (cases c0) (auto simp: C_def c0 commas_Cons user_json_def)
  have "\<exists>e. array_loop st (C @ CHR ''{'' # u @ '']'') = JErr e" for st
    using array_loop_bad [OF _ cok k, of st "u @ '']''"] assms(3) by (simp add: C_def comp_def)
  then have A: "\<exists>e. array_loop st (CHR ''{'' # t) = JErr e" for st using t R by simp
  show ?thesis unfolding out t using A by (simp add: json_parse_first Let_def)
qed

lemma openai_tool_results_unseparated_witness:
  "\<exists>e. json_parse (openai_convert_messages
     (view (JArr [user_json ''q'', tool_results_json [(''t1'', ''r'')]]) [])) = JErr e"
  using openai_tool_results_unseparated [of _ "[UserMsg ''q'']" "[(''t1'', ''r'')]"]
  by (simp add: NUL_def)

section \<open>Attachments\<close>

lemma vision_lines_fail:
  "l \<in> set ls \<Longrightarrow> vision_is_mapping_line l \<Longrightarrow> util_read_file_len fs (mapping_path l) = None \<Longrightarrow>
     vision_lines fs ls img n = None"
  by (induction ls arbitrary: img n) (auto split: option.split)

lemma request_messages_fail:
  "Some line \<in> set ls \<Longrightarrow> line \<noteq> [] \<Longrightarrow> expand_vision_line fs line = VFail \<Longrightarrow> request_messages fs True ls = None"
  by (induction ls) (auto split: option.split vision.split)

text \<open>
  No request goes out without its images.  With vision on, when a user message has an image
  section with a mapping line whose file cannot be read, the whole body is refused.
\<close>

lemma vision_all_or_nothing:
  assumes "nulfree t" "strstr t IMG_OPEN = Some start"
    "strstr (drop (length IMG_OPEN) start) IMG_CLOSE = Some stop"
    "l \<in> set (section_lines (take (length (drop (length IMG_OPEN) start) - length stop) (drop (length IMG_OPEN) start)))"
    "vision_is_mapping_line l" "util_read_file_len fs (mapping_path l) = None"
    "Some (json_text (user_json t)) \<in> set conv_lines"
  shows "build_claude_request fs model sys tools conv_lines maxt thinking effort (Some ''on'') = None"
proof -
  let ?v = "view (user_json t) []"
  let ?ms = "[(''role'', JStr ''user''), (''content'', JStr t)]"
  have v: "is_view ?v (JObj ?ms)" "json_ok (JObj ?ms)" by (simp_all add: user_json_def)
  have root: "json_parse_root (Some (json_text (user_json t))) = JOk ?v []"
    using json_text_root [OF user_json_ok, of t] by (simp add: user_json_def)
  have s: "json_get_string ?v ''role'' = Some ''user''"
    using get_string_of [OF v, of "''role''"] by (simp add: lookup_str_def)
  have cv: "is_view (json_get ?v ''content'') (JStr t)" by (rule json_get_some [OF v]) simp
  have c: "jv_type (json_get ?v ''content'') = JSON_STRING" "json_string_val (json_get ?v ''content'') = Some t"
    using is_view_type [OF cv] json_string_view [OF cv] assms(1) by simp_all
  have "vision_loop fs t [] 0 = None"
    by (subst vision_loop.simps) (use assms(2,3) vision_lines_fail [OF assms(4,5,6)] in \<open>simp add: Let_def\<close>)
  then have "vision_convert_text fs t [] 0 = None" by (simp add: vision_convert_text_def)
  then have "expand_vision_line fs (json_text (user_json t)) = VFail"
    using root s c is_view_type [OF v(1)] by (simp add: expand_vision_line_def Let_def)
  then have "request_messages fs True conv_lines = None"
    using request_messages_fail [OF assms(7)] by (simp add: user_json_def)
  then show ?thesis by (simp add: build_claude_request_def)
qed

definition demo_text :: string where
  "demo_text = ''see '' @ IMG_OPEN @ ''[Image #1] => /s/images/1.png'' @ [LF] @ IMG_CLOSE"

lemma vision_all_or_nothing_witness:
  "build_claude_request demo_fs (Some ''m'') None None [Some (json_text (user_json demo_text))] 9 None None (Some ''on'') = None"
proof (rule vision_all_or_nothing)
  show "strstr demo_text IMG_OPEN = Some (drop 4 demo_text)" by code_simp
  show "strstr (drop (length IMG_OPEN) (drop 4 demo_text)) IMG_CLOSE = Some IMG_CLOSE" by code_simp
  show "''[Image #1] => /s/images/1.png'' \<in> set (section_lines (take (length (drop (length IMG_OPEN) (drop 4 demo_text)) - length IMG_CLOSE)
      (drop (length IMG_OPEN) (drop 4 demo_text))))" by code_simp
  show "vision_is_mapping_line ''[Image #1] => /s/images/1.png''" by code_simp
  show "util_read_file_len demo_fs (mapping_path ''[Image #1] => /s/images/1.png'') = None" by code_simp
  show "nulfree demo_text" by (simp add: demo_text_def IMG_OPEN_def IMG_CLOSE_def LF_def NUL_def)
qed simp

text \<open>
  A text block that is nothing but an image section is not taken out of a content array: the
  cleaned text is empty, so its buffer is a NULL pointer, and the test for an empty text does not
  see it; the block is sent with its mapping lines beside the images.
\<close>

lemma vision_empty_text_kept:
  assumes "is_view block (JObj [(''type'', JStr ''text''), (''text'', JStr t)])" "nulfree t"
    "vision_loop fs t img n = Some ([], img', n')"
  shows "vision_block fs (out, img, n) block = Some (sep_append out (json_raw block), img', n')"
proof -
  let ?ms = "[(''type'', JStr ''text''), (''text'', JStr t)]"
  have ok: "json_ok (JObj ?ms)" by simp
  have ty: "json_get_string block ''type'' = Some ''text''"
    using get_string_of [OF assms(1) ok, of "''type''"] by (simp add: plain_members_def lookup_str_def NUL_def)
  have tv: "is_view (json_get block ''text'') (JStr t)" by (rule json_get_some [OF assms(1) ok]) simp
  then have "json_string_val (json_get block ''text'') = Some t"
    using json_string_view [OF tv] assms(2) by simp
  then show ?thesis using ty is_view_type [OF assms(1)] assms(3)
    by (simp add: vision_block_def vision_convert_text_def Let_def)
qed

definition demo_image_fs :: fsys where
  "demo_image_fs = \<lparr>fs_nodes = [''/s/images/1.png'' \<mapsto> FFile ''x''], fs_deny = (\<lambda>_. False), fs_rdonly = (\<lambda>_. False)\<rparr>"

lemma vision_empty_text_kept_witness:
  "\<exists>img. vision_block demo_image_fs ([], [], 0) (view (JObj [(''type'', JStr ''text''), (''text'', JStr (drop 4 demo_text))]) [])
     = Some (json_text (JObj [(''type'', JStr ''text''), (''text'', JStr (drop 4 demo_text))]), img, 1)"
proof -
  let ?j = "JObj [(''type'', JStr ''text''), (''text'', JStr (drop 4 demo_text))]"
  have loop: "vision_loop demo_image_fs (drop 4 demo_text) [] 0
      = Some ([], image_block (util_base64_encode ''x''), 1)"
  proof -
    let ?l = "''[Image #1] => /s/images/1.png''"
    have a: "strstr (drop 4 demo_text) IMG_OPEN = Some (drop 4 demo_text)" by code_simp
    have b: "strstr (drop (length IMG_OPEN) (drop 4 demo_text)) IMG_CLOSE = Some IMG_CLOSE" by code_simp
    have c: "section_lines (take (length (drop (length IMG_OPEN) (drop 4 demo_text)) - length IMG_CLOSE)
      (drop (length IMG_OPEN) (drop 4 demo_text))) = [?l]" by code_simp
    have d: "vision_is_mapping_line ?l" "mapping_path ?l = ''/s/images/1.png''" by code_simp+
    have e: "util_read_file_len demo_image_fs ''/s/images/1.png'' = Some ''x''"
      by (simp add: demo_image_fs_def util_read_file_len_def fs_get_def)
    have f: "vision_lines demo_image_fs [?l] [] 0 = Some (image_block (util_base64_encode ''x''), 1)"
      using d e by (simp add: sep_append_def)
    have g: "vision_loop demo_image_fs [] i k = Some ([], i, k)" for i k
      by (subst vision_loop.simps) (simp add: IMG_OPEN_def)
    have h: "take (length (drop 4 demo_text) - length (drop 4 demo_text)) (drop 4 demo_text) = []" by simp
    show ?thesis
      by (subst vision_loop.simps) (simp only: a b c f g h Let_def option.case prod.case strip_gap_def,
        simp add: g)
  qed
  have nf: "nulfree (drop 4 demo_text)"
    by (simp add: demo_text_def IMG_OPEN_def IMG_CLOSE_def LF_def NUL_def)
  have v: "is_view (view ?j []) ?j" by simp
  have raw: "json_raw (view ?j []) = json_text ?j" by (rule is_view_raw [OF v])
  show ?thesis using vision_empty_text_kept [OF v nf loop, of "[]"] raw by (simp add: sep_append_def)
qed

end
