(* ===== verification/BashPolicyProps.thy ===== *)
theory BashPolicyProps
  imports BashPolicy
begin

text \<open>
  Properties of the shell safety policy: the mask only grows while a command is scanned, a sequence
  needs the union of what its parts need, and what the policy does not see.
\<close>

section \<open>The mask only grows\<close>

lemma add_mode_or: "bash_add_mode m s p = m OR bash_add_mode 0 s p"
  by (simp add: bash_add_mode_def Let_def or.assoc)

lemma add_path_or: "bash_add_path env m path p = m OR bash_add_path env 0 path p"
  using add_mode_or [of m "path_scope env (clean_path path)" p] by (simp add: bash_add_path_def Let_def)

lemma add_mode_or_left: "bash_add_mode (m OR a) s p = m OR bash_add_mode a s p"
  by (metis add_mode_or or.assoc)

lemma add_path_or_left: "bash_add_path env (m OR a) path p = m OR bash_add_path env a path p"
  by (metis add_path_or or.assoc)

lemma scan_words_or: "scan_words (m OR a) seg = m OR scan_words a seg"
  unfolding scan_words_def Let_def by (simp only: add_mode_or_left if_distrib [where f = "\<lambda>x. m OR x", symmetric] cong: if_cong)

lemma scan_token_or:
  "scan_token env pb (m OR a, r, f) tok = (case scan_token env pb (a, r, f) tok of (x, r', f') \<Rightarrow> (m OR x, r', f'))"
  by (simp add: scan_token_def add_path_or_left)

lemma scan_tokens_or:
  "foldl (scan_token env pb) (m OR a, r, f) toks =
     (case foldl (scan_token env pb) (a, r, f) toks of (x, r', f') \<Rightarrow> (m OR x, r', f'))"
proof (induction toks arbitrary: a r f)
  case (Cons tok toks)
  obtain x r' f' where s: "scan_token env pb (a, r, f) tok = (x, r', f')" by (cases "scan_token env pb (a, r, f) tok")
  show ?case using Cons [of x r' f'] by (simp add: scan_token_or s)
qed simp

lemma scan_segment_or: "bash_scan_segment env (m OR a) seg = m OR bash_scan_segment env a seg"
  by (simp add: bash_scan_segment_def Let_def scan_words_or scan_tokens_or add_mode_or_left case_prod_beta)

lemma scan_segments_or:
  "foldl (bash_scan_segment env) (m OR a) segs = m OR foldl (bash_scan_segment env) a segs"
  by (induction segs arbitrary: a) (simp_all add: scan_segment_or)

section \<open>Sequences\<close>

lemma tokens_append:
  assumes "d c"
  shows "tokens d (x @ c # y) = tokens d x @ tokens d y"
proof (induction "length x" arbitrary: x rule: less_induct)
  case less
  have skip: "tokens d (c # y) = tokens d y"
    using assms by (simp add: tokens.simps [of d "c # y"] tokens.simps [of d y])
  show ?case
  proof (cases "dropWhile d x")
    case Nil
    then have all: "\<forall>z \<in> set x. d z" by (simp add: dropWhile_eq_Nil_conv)
    then have "dropWhile d (x @ c # y) = dropWhile d (c # y)" by (simp add: dropWhile_append2)
    then have "tokens d (x @ c # y) = tokens d (c # y)"
      by (simp add: tokens.simps [of d "x @ c # y"] tokens.simps [of d "c # y"])
    moreover have "tokens d x = []" by (subst tokens.simps) (simp only: Nil list.case)
    ultimately show ?thesis using skip by simp
  next
    case (Cons b u)
    then have dx: "dropWhile d (x @ c # y) = b # u @ c # y"
      by (metis Cons_eq_appendI dropWhile_append list.distinct(1) set_dropWhileD dropWhile_append1
          append_Cons dropWhile_eq_Nil_conv)
    have tw: "takeWhile (\<lambda>z. \<not> d z) (u @ c # y) = takeWhile (\<lambda>z. \<not> d z) u"
      using assms by (induction u) auto
    have dw: "dropWhile (\<lambda>z. \<not> d z) (u @ c # y) = dropWhile (\<lambda>z. \<not> d z) u @ c # y"
      using assms by (induction u) auto
    have "length (b # u) \<le> length x" using length_dropWhile_le [of d x] Cons by simp
    then have "length (dropWhile (\<lambda>z. \<not> d z) u) < length x"
      using length_dropWhile_le [of "\<lambda>z. \<not> d z" u] by simp
    from less [OF this] show ?thesis
      by (simp add: tokens.simps [of d "x @ c # y"] tokens.simps [of d x] dx Cons tw dw)
  qed
qed

lemma join_continued_semi: "join_continued (x @ CHR '';'' # y) = join_continued x @ CHR '';'' # join_continued y"
proof (induction x rule: join_continued.induct, goal_cases)
  case 2
  then show ?case by (cases y) (simp_all add: BSLASH_def LF_def)
next
  case 3
  then show ?case by (cases y) (simp_all add: BSLASH_def LF_def)
qed auto

lemma break_segments_semi: "break_segments (x @ CHR '';'' # y) = break_segments x @ LF # break_segments y"
proof (induction x rule: break_segments.induct)
  case (2 a)
  then show ?case by (cases y) auto
next
  case 3
  then show ?case by (cases y) auto
qed auto

lemma lower_semi: "lower (x @ CHR '';'' # y) = lower x @ CHR '';'' # lower y"
  by (simp add: lower_def tolower_def isupper_def ord_def)

lemma starts_with_split:
  "c \<notin> set n \<Longrightarrow> starts_with n (x @ c # y) \<longleftrightarrow> starts_with n x"
  by (induction n x rule: starts_with.induct) auto

lemma contains_split:
  "c \<notin> set n \<Longrightarrow> n \<noteq> [] \<Longrightarrow> str_contains (x @ c # y) n \<longleftrightarrow> str_contains x n \<or> str_contains y n"
proof (induction x)
  case Nil
  then show ?case by (cases n) (auto simp: str_contains_def)
next
  case (Cons a x)
  have "starts_with n (a # x @ c # y) \<longleftrightarrow> starts_with n (a # x)"
    using starts_with_split [OF Cons.prems(1), of "a # x" y] by simp
  with Cons show ?case by (simp add: str_contains_def)
qed

lemma segments_semi: "segments (x @ CHR '';'' # y) = segments x @ segments y"
  by (simp add: segments_def lower_semi join_continued_semi break_segments_semi tokens_append)

lemma command_mask_semi:
  "command_mask env (x @ CHR '';'' # y) = command_mask env x OR command_mask env y"
proof -
  let ?t = "bash_add_mode 0 2 6"
  let ?c = "\<lambda>z. str_contains (join_continued (lower z)) ''/dev/tcp''"
  have c: "?c (x @ CHR '';'' # y) \<longleftrightarrow> ?c x \<or> ?c y"
    unfolding lower_semi join_continued_semi by (rule contains_split) simp_all
  define F where "F = foldl (bash_scan_segment env)"
  have F: "F m (xs @ ys) = m OR (F 0 xs OR F 0 ys)" for m xs ys
    using scan_segments_or [of env "F m xs" 0 ys] scan_segments_or [of env m 0 xs]
    by (simp add: F_def or.assoc)
  have F1: "F m xs = m OR F 0 xs" for m xs
    using scan_segments_or [of env m 0 xs] by (simp add: F_def)
  show ?thesis
    unfolding command_mask_def c segments_semi F_def [symmetric]
    by (cases "?c x"; cases "?c y") (simp_all add: F F1 [of ?t] or.assoc or.left_commute)
qed

section \<open>Twelve bits\<close>

definition perm :: "mask \<Rightarrow> bool" where
  "perm p \<longleftrightarrow> take_bit 3 p = p"

definition small :: "mask \<Rightarrow> bool" where
  "small m \<longleftrightarrow> take_bit 12 m = m"

lemma perm_small: "perm p \<Longrightarrow> k \<le> 9 \<Longrightarrow> small (push_bit k p)"
proof -
  assume p: "perm p" and k: "k \<le> 9"
  have "3 \<le> 12 - k" using k by simp
  then have t: "take_bit (12 - k) (take_bit 3 p) = take_bit 3 p" by (simp only: take_bit_take_bit min_absorb2)
  have "take_bit 3 p = p" using p by (simp only: perm_def)
  with t have "take_bit (12 - k) p = p" by metis
  then show "small (push_bit k p)" using k by (simp add: small_def take_bit_push_bit)
qed

lemma small_simps [simp]: "small 0" "small m \<Longrightarrow> small n \<Longrightarrow> small (m OR n)"
  by (simp_all add: small_def)

lemma small_add_mode: "small m \<Longrightarrow> perm p \<Longrightarrow> small (bash_add_mode m s p)"
  using perm_small [of p 9] perm_small [of p 6] perm_small [of p 3] perm_small [of p 0]
  by (simp add: bash_add_mode_def Let_def)

lemma perm_simps [simp]: "perm 0" "perm 1" "perm 2" "perm 4" "perm 6"
  by (simp_all add: perm_def take_bit_eq_mod)

lemma small_add_path: "small m \<Longrightarrow> perm p \<Longrightarrow> small (bash_add_path env m path p)"
  by (simp add: bash_add_path_def Let_def small_add_mode)

lemma small_words: "small m \<Longrightarrow> small (scan_words m seg)"
  by (simp add: scan_words_def Let_def small_add_mode)

lemma small_token:
  "small m \<Longrightarrow> perm r \<Longrightarrow> perm pb \<Longrightarrow>
     (case scan_token env pb (m, r, f) tok of (m', r', f') \<Rightarrow> small m' \<and> perm r')"
  by (simp add: scan_token_def small_add_path)

lemma small_tokens:
  "small m \<Longrightarrow> perm r \<Longrightarrow> perm pb \<Longrightarrow>
     small (fst (foldl (scan_token env pb) (m, r, f) toks))"
proof (induction toks arbitrary: m r f)
  case (Cons tok toks)
  obtain m' r' f' where s: "scan_token env pb (m, r, f) tok = (m', r', f')"
    by (cases "scan_token env pb (m, r, f) tok")
  with Cons small_token [of m r pb env f tok] show ?case by simp
qed simp

lemma small_segment: "small m \<Longrightarrow> small (bash_scan_segment env m seg)"
  using small_tokens [OF small_words, of m 0 "if writes_files seg then 6 else 4" env seg
      "if writes_files seg then 1 else 0" "tokens blank seg"]
  by (auto simp: bash_scan_segment_def Let_def case_prod_beta small_add_mode)

lemma small_segments: "small m \<Longrightarrow> small (foldl (bash_scan_segment env) m segs)"
  by (induction segs arbitrary: m) (simp_all add: small_segment)

lemma small_command: "small (command_mask env c)"
  by (simp add: command_mask_def small_segments small_add_mode)

lemma small_unat: "small m \<Longrightarrow> unat m < 4096"
proof -
  assume "small m"
  then have "m = take_bit 12 m" by (simp add: small_def)
  then have "unat m = take_bit 12 (unat m)" by (metis unsigned_take_bit_eq)
  then show ?thesis using take_bit_nat_less_exp [of 12 "unat m"] by simp
qed

section \<open>Modes as text\<close>

lemma mod8: "(k::nat) mod 8 \<le> 7"
  using mod_less_divisor [of 8 k] by linarith

lemma oct4_digits: "list_all octal_char (oct4 n)"
  by (simp add: oct4_def octal_char_def mod8)

lemma octal_normal:
  assumes "list_all octal_char s" "length s = 4"
  shows "bash_mode_normalize (Some s) = s"
proof -
  have t: "takeWhile octal_char s = s"
    using assms(1) by (simp add: takeWhile_eq_all_conv list_all_iff)
  have "s \<noteq> []" "take 4 s = s" using assms(2) by auto
  then show ?thesis using assms(2) by (simp add: bash_mode_normalize_def t)
qed

lemma digits_sum: "n < 4096 \<Longrightarrow> ((n div 512 mod 8 * 8 + n div 64 mod 8) * 8 + n div 8 mod 8) * 8 + n mod 8 = (n::nat)"
proof -
  assume n: "n < 4096"
  have e: "n div 8 div 8 = n div 64" "n div 64 div 8 = n div 512" by (simp_all only: div_mult2_eq [symmetric]) simp_all
  have a: "n div 8 = n div 64 * 8 + n div 8 mod 8" using div_mult_mod_eq [of "n div 8" 8] e(1) by linarith
  have b: "n div 64 = n div 512 * 8 + n div 64 mod 8" using div_mult_mod_eq [of "n div 64" 8] e(2) by linarith
  have c: "n div 512 mod 8 = n div 512" using n by simp
  have d: "n = n div 8 * 8 + n mod 8" by simp
  have "\<And>q r s x y z :: nat. n = q * 8 + x \<Longrightarrow> q = r * 8 + y \<Longrightarrow> r = s * 8 + z \<Longrightarrow> ((s * 8 + z) * 8 + y) * 8 + x = n"
    by simp
  from this [OF d a b] show ?thesis unfolding c .
qed

lemma oct_val_oct4: "n < 4096 \<Longrightarrow> oct_val (oct4 n) = n"
  using digits_sum [of n] by (simp add: oct_val_def oct4_def)

lemma or_and_zero: "(u OR v) AND k = 0 \<longleftrightarrow> u AND k = 0 \<and> v AND (k::nat) = 0"
  by (auto simp: bit_eq_iff bit_simps)

text \<open>What a command needs, as a number, and when the policy lets it pass.\<close>

definition required :: "policy_env \<Rightarrow> string \<Rightarrow> nat" where
  "required env c = unat (if command_mask env c = 0 then bash_add_mode 0 1 4 else command_mask env c)"

definition allowed_bits :: "string option \<Rightarrow> nat" where
  "allowed_bits mode = oct_val (bash_mode_normalize (Some (opt_default ''0467'' mode)))"

lemma required_less: "required env c < 4096"
  using small_unat [OF small_command, of env c] small_unat [OF small_add_mode, of 0 4 1]
  by (simp add: required_def)

lemma normalize_octal: "list_all octal_char (bash_mode_normalize m) \<and> length (bash_mode_normalize m) = 4"
proof -
  define t where "t = (if nonempty_opt m then the m else ''0467'')"
  have n: "bash_mode_normalize m = (if length (takeWhile octal_char (take 4 t)) = 4 \<and> length t = 4 then t else ''0000'')"
    by (simp only: bash_mode_normalize_def t_def Let_def)
  show ?thesis
  proof (cases "length (takeWhile octal_char (take 4 t)) = 4 \<and> length t = 4")
    case True
    then have "take 4 t = t" by simp
    with True have "length (takeWhile octal_char t) = length t" by simp
    then have "takeWhile octal_char t = t" by (metis takeWhile_eq_take take_all order_refl)
    then have "list_all octal_char t" by (simp add: takeWhile_eq_all_conv list_all_iff)
    moreover have "bash_mode_normalize m = t" using True by (simp only: n) simp
    ultimately show ?thesis using True by simp
  next
    case False
    then have "bash_mode_normalize m = ''0000''" using n by (simp only: if_False)
    then show ?thesis by (simp add: octal_char_def ord_def)
  qed
qed

lemma normalize_normal: "bash_mode_normalize (Some (bash_mode_normalize m)) = bash_mode_normalize m"
  using normalize_octal [of m] by (simp add: octal_normal)

lemma check_command_iff:
  assumes "c \<noteq> []"
  shows "check_command env mode c = None \<longleftrightarrow> required env c AND (4095 XOR allowed_bits mode) = 0"
proof -
  have r: "bash_classify_required_mode env (Some c) = oct4 (required env c)"
    using assms by (simp add: bash_classify_required_mode_def required_def Let_def)
  have n: "bash_mode_normalize (Some (oct4 (required env c))) = oct4 (required env c)"
    by (rule octal_normal [OF oct4_digits]) (simp add: oct4_def)
  show ?thesis
    by (simp add: check_command_def Let_def r bash_mode_allows_def n normalize_normal
        oct_val_oct4 [OF required_less] allowed_bits_def)
qed

text \<open>
  C16: A semicolon hides nothing from the policy. The permissions a sequence of two commands asks for are
  the union of those its parts ask for, and the sequence is let through exactly when each part that asks
  for any is. A part that asks for none by itself (\<open>true\<close>) adds nothing to a part that does; alone, or
  beside another such part, it needs the default 0004, so when neither part asks for any both must be let
  through.
\<close>

theorem policy_sequence:
  assumes "x \<noteq> []" "y \<noteq> []"
  shows "command_mask env (x @ CHR '';'' # y) = command_mask env x OR command_mask env y
    \<and> (check_command env mode (x @ CHR '';'' # y) = None \<longleftrightarrow>
         (command_mask env x \<noteq> 0 \<or> command_mask env y = 0 \<longrightarrow> check_command env mode x = None)
         \<and> (command_mask env y \<noteq> 0 \<or> command_mask env x = 0 \<longrightarrow> check_command env mode y = None))"
proof
  show u: "command_mask env (x @ CHR '';'' # y) = command_mask env x OR command_mask env y"
    by (rule command_mask_semi)
  have "required env (x @ CHR '';'' # y) =
      (if command_mask env x = 0 then required env y
       else if command_mask env y = 0 then required env x
       else required env x OR required env y)"
    using u by (simp add: required_def unsigned_or_eq or_eq_0_iff)
  then show "check_command env mode (x @ CHR '';'' # y) = None \<longleftrightarrow>
         (command_mask env x \<noteq> 0 \<or> command_mask env y = 0 \<longrightarrow> check_command env mode x = None)
         \<and> (command_mask env y \<noteq> 0 \<or> command_mask env x = 0 \<longrightarrow> check_command env mode y = None)"
    using assms by (auto simp: check_command_iff or_and_zero required_def)
qed

definition plain_env :: policy_env where
  "plain_env = \<lparr>pe_cwd = ''/w'', pe_home = ''/h''\<rparr>"

lemma plain_masks:
  "command_mask plain_env ''ls /usr'' = 2048"
  "command_mask plain_env ''cat /etc/shadow'' = 2048"
  "command_mask plain_env ''cat </etc/shadow'' = 0"
  "command_mask plain_env ''echo x 2>/etc/passwd'' = 2"
  "command_mask plain_env ''sudo echo hi'' = 512"
  "command_mask plain_env ''cat ~/note.txt'' = 256"
  "command_mask plain_env ''curl https://example.com'' = 32"
  "command_mask plain_env ''true'' = 0"
  by code_simp+

lemma classify_mask:
  "c \<noteq> [] \<Longrightarrow> bash_classify_required_mode env (Some c) = oct4 (unat (if command_mask env c = 0 then bash_add_mode 0 1 4 else command_mask env c))"
  by (simp add: bash_classify_required_mode_def Let_def)

lemma default_bits: "allowed_bits None = 311" "allowed_bits (Some ''0467'') = 311"
  by (code_simp, code_simp)

lemma system_bits: "allowed_bits (Some ''4000'') = 2048"
  by code_simp

lemma policy_sequence_witness:
  "check_command plain_env None (''ls /usr'' @ CHR '';'' # ''sudo echo hi'') \<noteq> None
   \<and> check_command plain_env (Some ''4000'') ''true'' \<noteq> None
   \<and> check_command plain_env (Some ''4000'') (''true'' @ CHR '';'' # ''cat /etc/shadow'') = None"
proof (intro conjI)
  have "check_command plain_env None ''ls /usr'' \<noteq> None"
    by (simp add: check_command_iff required_def plain_masks default_bits)
  then show "check_command plain_env None (''ls /usr'' @ CHR '';'' # ''sudo echo hi'') \<noteq> None"
    using conjunct2 [OF policy_sequence [of "''ls /usr''" "''sudo echo hi''" plain_env None]] by (simp add: plain_masks)
  have "unat (bash_add_mode 0 1 4) = 4" by code_simp
  then have four: "required plain_env ''true'' = 4" by (simp add: required_def plain_masks)
  have "4 AND (4095 XOR 2048) \<noteq> (0::nat)" "2048 AND (4095 XOR 2048) = (0::nat)" by simp_all
  then show "check_command plain_env (Some ''4000'') ''true'' \<noteq> None"
    by (simp only: check_command_iff list.discI not_False_eq_True simp_thms four system_bits)
  have "check_command plain_env (Some ''4000'') ''cat /etc/shadow'' = None"
    using \<open>2048 AND (4095 XOR 2048) = (0::nat)\<close> by (simp add: check_command_iff required_def plain_masks system_bits)
  then show "check_command plain_env (Some ''4000'') (''true'' @ CHR '';'' # ''cat /etc/shadow'') = None"
    using conjunct2 [OF policy_sequence [of "''true''" "''cat /etc/shadow''" plain_env "Some ''4000''"]] by (simp add: plain_masks)
qed

text \<open>
  What the policy does not see. With the default mode reading \<open>/etc/shadow\<close> is refused, but the
  same file is read through \<open>cat </etc/shadow\<close>, and written through \<open>2>/etc/passwd\<close>, by commands
  that ask for workspace permissions only.
\<close>

lemma policy_bypasses:
  "bash_classify_required_mode plain_env (Some ''cat /etc/shadow'') = ''4000''
   \<and> bash_classify_required_mode plain_env (Some ''cat </etc/shadow'') = ''0004''
   \<and> bash_classify_required_mode plain_env (Some ''echo x 2>/etc/passwd'') = ''0002''
   \<and> check_command plain_env None ''cat /etc/shadow'' \<noteq> None
   \<and> check_command plain_env None ''cat </etc/shadow'' = None
   \<and> check_command plain_env None ''echo x 2>/etc/passwd'' = None"
proof -
  have o: "oct4 2048 = ''4000''" "oct4 4 = ''0004''" "oct4 2 = ''0002''" by code_simp+
  have w: "unat (bash_add_mode 0 (Suc 0) 4) = 4" by code_simp
  show ?thesis by (simp add: classify_mask plain_masks check_command_iff required_def default_bits o w)
qed

end
