(* ===== verification/ToolsProps.thy ===== *)
theory ToolsProps
  imports Tools StoreProps ConvertProps BashPolicyProps
begin

text \<open>
  Properties of the tools: which lines Read returns, what Edit does to a file, what a call can change,
  and how long a shortened result is.
\<close>

section \<open>Inputs\<close>

definition read_input :: "string \<Rightarrow> int \<Rightarrow> int \<Rightarrow> json" where
  "read_input p off cnt = JObj [(''path'', JStr p), (''offset'', JInt off), (''limit'', JInt cnt)]"

definition write_input :: "string \<Rightarrow> string \<Rightarrow> json" where
  "write_input p c = JObj [(''path'', JStr p), (''content'', JStr c)]"

definition edit_input :: "string \<Rightarrow> string \<Rightarrow> string \<Rightarrow> json" where
  "edit_input p old new = JObj [(''path'', JStr p), (''old_string'', JStr old), (''new_string'', JStr new)]"

lemma inputs_ok [simp]: "json_ok (read_input p off cnt)" "json_ok (write_input p c)" "json_ok (edit_input p old new)"
  by (simp_all add: read_input_def write_input_def edit_input_def simple_key_def char_defs)

lemma read_input_members:
  assumes "nulfree p" "- (2 ^ 31) \<le> off" "off < 2 ^ 31" "- (2 ^ 31) \<le> cnt" "cnt < 2 ^ 31"
  shows "json_get_string (view (read_input p off cnt) []) ''path'' = Some p"
    "json_get_int (view (read_input p off cnt) []) ''offset'' = off"
    "json_get_int (view (read_input p off cnt) []) ''limit'' = cnt"
  using inputs_ok(1) [of p off cnt] assms unfolding read_input_def
  by (auto intro!: get_str json_get_int_view [OF is_viewI])

lemma write_input_members:
  assumes "nulfree p" "nulfree c"
  shows "json_get_string (view (write_input p c) []) ''path'' = Some p"
    "json_get_string (view (write_input p c) []) ''content'' = Some c"
  using inputs_ok(2) [of p c] assms unfolding write_input_def by (auto intro!: get_str)

lemma edit_input_members:
  assumes "nulfree p" "nulfree old" "nulfree new"
  shows "json_get_string (view (edit_input p old new) []) ''path'' = Some p"
    "json_get_string (view (edit_input p old new) []) ''old_string'' = Some old"
    "json_get_string (view (edit_input p old new) []) ''new_string'' = Some new"
  using inputs_ok(3) [of p old new] assms unfolding edit_input_def by (auto intro!: get_str)

section \<open>Reading lines\<close>

text \<open>The lines of a text: those that end in LF and a last one that does not, unless it is empty.\<close>

definition text_lines :: "string \<Rightarrow> string list" where
  "text_lines s = (let (ls, r) = split_lines s in if r = [] then ls else ls @ [r])"

definition line_range :: "int \<Rightarrow> int \<Rightarrow> string list \<Rightarrow> string list" where
  "line_range off cnt ls = (if 0 < cnt then take (nat cnt) else id) (drop (nat (off - 1)) ls)"

lemma before_LF [simp]: "LF \<notin> set l \<Longrightarrow> before LF (l @ LF # s) = l" "LF \<notin> set l \<Longrightarrow> before LF l = l"
  unfolding before_def by (induction l) auto

lemma strchr_LF [simp]: "LF \<notin> set l \<Longrightarrow> strchr (l @ LF # s) LF = Some (LF # s)" "LF \<notin> set l \<Longrightarrow> strchr l LF = None"
  by (induction l) auto

declare read_loop.simps [simp del]

lemma read_loop_lines:
  assumes "\<forall>l \<in> set ls. LF \<notin> set l" "LF \<notin> set r" "1 \<le> n" "n + int (length ls) < 2 ^ 31 - 1" "n \<le> en"
  shows "read_loop (join_lines ls @ r) n st en =
    join_lines (drop (nat (st - n)) (take (nat (en - n + 1)) (ls @ (if r = [] then [] else [r]))))"
  using assms
proof (induction ls arbitrary: n)
  case Nil
  have "nat (en - n + 1) = Suc (nat (en - n))" using Nil by linarith
  then show ?case using Nil by (cases "nat (st - n)") (auto simp: read_loop.simps [of r])
next
  case (Cons l ls)
  have n1: "s32 (n + 1) = n + 1" using Cons.prems by (intro s32_id) auto
  have t: "nat (en - n + 1) = Suc (nat (en - n))" using Cons.prems by linarith
  define X where "X = ls @ (if r = [] then [] else [r])"
  have step: "read_loop (join_lines (l # ls) @ r) n st en =
      (if st \<le> n then l @ [LF] else []) @
      (if en < n + 1 then [] else read_loop (join_lines ls @ r) (n + 1) st en)"
    using Cons.prems by (simp add: read_loop.simps [of "l @ LF # join_lines ls @ r"] n1)
  show ?case
  proof (cases "en < n + 1")
    case True
    then have "nat (en - n) = 0" using Cons.prems by linarith
    then show ?thesis using step True t by (cases "nat (st - n)") auto
  next
    case False
    have IH: "read_loop (join_lines ls @ r) (n + 1) st en = join_lines (drop (nat (st - (n + 1))) (take (nat (en - n)) X))"
      using Cons.IH [of "n + 1"] Cons.prems False by (simp add: X_def)
    show ?thesis
    proof (cases "st \<le> n")
      case True
      then have "nat (st - n) = 0" "nat (st - (n + 1)) = 0" by auto
      then show ?thesis using step IH t True False by (simp add: X_def [symmetric])
    next
      case False': False
      then have "nat (st - n) = Suc (nat (st - (n + 1)))" by linarith
      then show ?thesis using step IH t False False' by (simp add: X_def [symmetric])
    qed
  qed
qed

lemma split_length: "split_lines s = (ls, r) \<Longrightarrow> length ls \<le> length s"
proof -
  assume "split_lines s = (ls, r)"
  then have "s = join_lines ls @ r" using join_split_lines by metis
  moreover have "length ls \<le> length (join_lines ls)" by (induction ls) auto
  ultimately show ?thesis by simp
qed

lemma read_loop_range:
  assumes "length s < 2 ^ 31 - 3" "1 \<le> st" "1 \<le> en"
  shows "read_loop s 1 st en = join_lines (drop (nat (st - 1)) (take (nat en) (text_lines s)))"
proof -
  obtain ls r where s: "split_lines s = (ls, r)" by (cases "split_lines s")
  have "length ls \<le> length s" by (rule split_length [OF s])
  then have "int (length ls) < 2 ^ 31 - 3" using assms(1) by simp
  then have "read_loop (join_lines ls @ r) 1 st en =
      join_lines (drop (nat (st - 1)) (take (nat (en - 1 + 1)) (ls @ (if r = [] then [] else [r]))))"
    using split_lines_no_LF_inside [OF s] assms by (intro read_loop_lines) auto
  then show ?thesis using join_split_lines [OF s] s by (auto simp: text_lines_def)
qed




section \<open>Editing\<close>

text \<open>\<open>old\<close> occurs in the text after \<open>pre\<close>, before \<open>suf\<close>, and nowhere else.\<close>

definition occurs_once :: "string \<Rightarrow> string \<Rightarrow> string \<Rightarrow> string \<Rightarrow> bool" where
  "occurs_once content old pre suf \<longleftrightarrow>
     content = pre @ old @ suf \<and> (\<forall>u t. content = u @ old @ t \<longrightarrow> u = pre)"

lemma occurs_once_unique:
  assumes "occurs_once content old pre suf" "occurs_once content old x y"
  shows "x = pre \<and> y = suf"
proof -
  have x: "content = x @ old @ y" using assms(2) unfolding occurs_once_def by (rule conjunct1)
  have p: "content = pre @ old @ suf" "\<forall>u t. content = u @ old @ t \<longrightarrow> u = pre"
    using assms(1) unfolding occurs_once_def by (rule conjunct1, rule conjunct2)
  have "x = pre" using x p(2) by blast
  then show ?thesis using x p(1) by simp
qed

lemma strstr_split: "strstr s n = Some t \<Longrightarrow> \<exists>u v. s = u @ n @ v \<and> t = n @ v"
  using strstr_Some [of s n t] by (auto simp: starts_with_iff)

lemma strstr_first: "strstr (u @ n @ t) n = Some p \<Longrightarrow> length (n @ t) \<le> length p"
proof (induction u arbitrary: p)
  case Nil
  have "starts_with n (n @ t)" by (auto simp: starts_with_iff)
  then show ?case using Nil by (cases "n @ t") auto
next
  case (Cons c u)
  then show ?case by (auto split: if_splits)
qed

lemma first_occurrence_only:
  assumes "strstr (w @ old @ t) old = Some (old @ v)" "w @ old @ t = u @ old @ v" "old \<noteq> []"
    and none: "strstr (tl old @ v) old = None"
  shows "w = u"
proof -
  have "length (old @ t) \<le> length (old @ v)" by (rule strstr_first [OF assms(1)])
  moreover have "length w + length t = length u + length v"
    using arg_cong [OF assms(2), of length] by simp
  ultimately have le: "length u \<le> length w" by simp
  have "\<not> length u < length w"
  proof
    assume "length u < length w"
    then obtain a x where wx: "w = u @ a # x" using assms(2)
      by (metis append_eq_append_conv_if append_take_drop_id drop_eq_Nil leD list.exhaust nat_less_le)
    then have "old @ v = (a # x) @ old @ t" using assms(2) by simp
    then have "tl old @ v = x @ old @ t" using assms(3) by (cases old) auto
    then show False using none by (auto simp: strstr_None)
  qed
  with le assms(2) show ?thesis by (metis append_eq_append_conv le_neq_implies_less)
qed

lemma later_occurrence:
  assumes "content = u @ old @ v" "old \<noteq> []" "strstr (tl old @ v) old = Some q"
  shows "\<not> occurs_once content old pre suf"
proof
  assume "occurs_once content old pre suf"
  then have only: "\<forall>u t. content = u @ old @ t \<longrightarrow> u = pre" unfolding occurs_once_def by (rule conjunct2)
  obtain x y where "tl old @ v = x @ old @ y" using strstr_split assms(3) by metis
  then have "old @ v = (hd old # x) @ old @ y" using assms(2) by (cases old) auto
  then have "content = (u @ hd old # x) @ old @ y" using assms(1) by simp
  then have "u = pre" "u @ hd old # x = pre" using only assms(1) by blast+
  then show False by simp
qed

lemma edit_find_iff:
  assumes "old \<noteq> []"
  shows "edit_find content old = OneMatch pre suf \<longleftrightarrow> occurs_once content old pre suf"
proof (cases "strstr content old")
  case None
  then have "edit_find content old = NoMatch" by (simp add: edit_find_def)
  then show ?thesis using None by (auto simp: strstr_None occurs_once_def)
next
  case (Some pos)
  then obtain u v where c: "content = u @ old @ v" and pos: "pos = old @ v" using strstr_split by blast
  have tl: "tl pos = tl old @ v" using assms pos by simp
  have take: "take (length content - length pos) content = u" "drop (length old) pos = v"
    using c pos by simp_all
  show ?thesis
  proof (cases "strstr (tl pos) old")
    case None
    have "w = u" if "content = w @ old @ t" for w t
      by (rule first_occurrence_only [of w old t v]) (use Some None c pos tl that assms in simp_all)
    then have o: "occurs_once content old u v" unfolding occurs_once_def using c by blast
    have e: "edit_find content old = OneMatch u v" using Some None take by (simp add: edit_find_def)
    show ?thesis using o occurs_once_unique [OF o, of pre suf] by (auto simp: e)
  next
    case (Some q)
    then have "edit_find content old = ManyMatches" using \<open>strstr content old = Some pos\<close> by (simp add: edit_find_def)
    moreover have "\<not> occurs_once content old pre suf"
      by (rule later_occurrence [OF c assms]) (use Some tl in simp)
    ultimately show ?thesis by simp
  qed
qed

text \<open>The scratch files of one process.\<close>

definition edit_files :: "int \<Rightarrow> string set" where
  "edit_files pid = {edit_tmp ''old'' pid, edit_tmp ''new'' pid}"

lemma fs_same_trans: "fs_same a b P \<Longrightarrow> fs_same b c P \<Longrightarrow> fs_same a c P"
  by (simp add: fs_same_def)

lemma fs_same_mono: "fs_same a b P \<Longrightarrow> P \<subseteq> Q \<Longrightarrow> fs_same a b Q"
  by (auto simp: fs_same_def)

lemma fs_same_remove: "p \<in> P \<Longrightarrow> fs_same fs (fs_remove fs p) P"
  by (auto simp: fs_same_def fs_remove_def)

lemma fs_same_write: "p \<in> P \<Longrightarrow> fs_same fs (snd (util_write_file fs p c)) P"
  using util_write_file_facts(4) [of fs p c] by (cases "util_write_file fs p c") (auto simp: fs_same_def)

section \<open>Commands that only read\<close>

text \<open>
  What \<open>popen\<close> does is up to the command, so a call may change any file unless the command is known.
  \<open>sh_args\<close> reads a command line as the shell does, words with one blank after each, and
  \<open>simple_call\<close> is a line that is one call of one program with its errors thrown away.  Two programs are
  relied on, by what their manuals say: \<open>diff\<close> writes nothing but its output whatever its arguments, and
  neither does \<open>rg\<close> with the options the tools pass.  Other options of \<open>rg\<close> (\<open>--pre\<close>) name programs to run.
\<close>

fun sh_args :: "nat \<Rightarrow> string \<Rightarrow> (string list \<times> string) option" where
  "sh_args 0 s = Some ([], s)"
| "sh_args (Suc n) s =
     (if starts (CHR '' '') s then None
      else case sh_word Plain s of
        Some (w, c # r) \<Rightarrow> if c = CHR '' '' then map_option (\<lambda>(ws, q). (w # ws, q)) (sh_args n r) else None
      | _ \<Rightarrow> None)"

definition simple_call :: "string \<Rightarrow> string list \<Rightarrow> bool" where
  "simple_call cmd ws \<longleftrightarrow> sh_args (length ws) cmd = Some (ws, ''2>/dev/null || true'')"

fun rg_reading :: "string list \<Rightarrow> bool" where
  "rg_reading [] = True"
| "rg_reading [w] = (\<not> starts (CHR ''-'') w)"
| "rg_reading (w # v # ws) =
     (if w = ''--'' then True
      else if w \<in> {''-C'', ''-g'', ''--color''} then rg_reading ws
      else (w \<in> {''--files'', ''-n'', ''--heading''} \<or> \<not> starts (CHR ''-'') w) \<and> rg_reading (v # ws))"

definition reading_call :: "string list \<Rightarrow> bool" where
  "reading_call ws \<longleftrightarrow> (case ws of [] \<Rightarrow> False | p # as \<Rightarrow> p = ''diff'' \<or> p = ''rg'' \<and> rg_reading as)"

definition popen_reads :: "popen_fun \<Rightarrow> bool" where
  "popen_reads run \<longleftrightarrow> (\<forall>fs cmd ws. simple_call cmd ws \<and> reading_call ws \<longrightarrow> snd (run fs cmd) = fs)"

lemma sh_word_plain: "\<forall>c \<in> set s. sh_plain c \<Longrightarrow> sh_word Plain (s @ CHR '' '' # r) = Some (s, CHR '' '' # r)"
proof (induction s)
  case Nil
  show ?case by (simp add: sh_plain_def char_defs isdigit_def isupper_def islower_def ord_def)
next
  case (Cons c s)
  have "c \<noteq> SQUOTE" "c \<noteq> BSLASH"
    using Cons.prems by (auto simp: sh_plain_def char_defs isdigit_def isupper_def islower_def ord_def)
  then show ?case using Cons by simp
qed

lemma sh_word_raw: "SQUOTE \<notin> set s \<Longrightarrow> sh_word Quoted (s @ SQUOTE # r) = map_option (\<lambda>(w, q). (s @ w, q)) (sh_word Plain r)"
proof (induction s)
  case Nil
  then show ?case by (cases "sh_word Plain r") auto
next
  case (Cons c s)
  then show ?case by (cases "sh_word Plain r") auto
qed

text \<open>\<open>sh_spells t w\<close>: before a blank the shell reads \<open>t\<close> as the word \<open>w\<close>.  The tools write a word as it
  is, between quotes, or quoted.\<close>

definition sh_spells :: "string \<Rightarrow> string \<Rightarrow> bool" where
  "sh_spells t w \<longleftrightarrow> \<not> starts (CHR '' '') (t @ '' '') \<and> (\<forall>r. sh_word Plain (t @ CHR '' '' # r) = Some (w, CHR '' '' # r))"

lemma spells_plain: "list_all sh_plain w \<Longrightarrow> w \<noteq> [] \<Longrightarrow> sh_spells w w"
  using sh_word_plain [of w]
  by (cases w) (auto simp: sh_spells_def starts_def list_all_iff sh_plain_def isdigit_def isupper_def islower_def ord_def)

lemma spells_raw: "SQUOTE \<notin> set w \<Longrightarrow> sh_spells (SQUOTE # w @ [SQUOTE]) w"
  using sh_word_raw [of w] sh_word_plain [of "[]"] by (simp add: sh_spells_def starts_def char_defs)

lemma spells_quote: "sh_spells (shell_quote w) w"
  using sh_word_quoted [of w] sh_word_plain [of "[]"]
  by (simp add: sh_spells_def shell_quote_def starts_def char_defs)

lemma sh_args_spelled:
  "list_all (\<lambda>(t, w). sh_spells t w) ps \<Longrightarrow>
     sh_args (length ps) (concat (map (\<lambda>(t, w). t @ '' '') ps) @ r) = Some (map snd ps, r)"
proof (induction ps)
  case (Cons p ps)
  obtain t w where p: "p = (t, w)" by (cases p)
  then have "sh_spells t w" using Cons.prems by simp
  moreover from this have "\<not> starts (CHR '' '') (t @ CHR '' '' # x)" for x by (cases t) (simp_all add: sh_spells_def starts_def)
  ultimately show ?case using Cons by (simp add: p sh_spells_def)
qed simp

lemma simple_callI:
  assumes "cmd = concat (map (\<lambda>(t, w). t @ '' '') ps) @ ''2>/dev/null || true''" "list_all (\<lambda>(t, w). sh_spells t w) ps"
  shows "simple_call cmd (map snd ps)"
  using sh_args_spelled [OF assms(2)] by (simp add: simple_call_def assms(1))

lemma int_dec_spells: "0 < n \<Longrightarrow> sh_spells (int_dec n) (int_dec n)"
  using nat_dec_digits [of "nat n"]
  by (intro spells_plain) (auto simp: int_dec_def list_all_iff sh_plain_def isdigit_def ord_def)

lemma edit_tmp_plain: "SQUOTE \<notin> set (edit_tmp kind pid)" if "SQUOTE \<notin> set kind"
  using that nat_dec_digits [of "nat pid"] nat_dec_digits [of "nat (- pid)"]
  by (auto simp: edit_tmp_def int_dec_def char_defs isdigit_def ord_def)

text \<open>The commands of Edit, Glob and Grep are such calls: for Edit the path may hold no quote, for Glob the
  directory may not begin with a dash.\<close>

lemma diff_command_reads:
  assumes "SQUOTE \<notin> set path"
  shows "\<exists>ws. simple_call (diff_command path (edit_tmp ''old'' pid) (edit_tmp ''new'' pid)) ws \<and> reading_call ws"
proof -
  define l where "l = (if starts (CHR ''/'') path then tl path else path)"
  let ?o = "edit_tmp ''old'' pid" and ?n = "edit_tmp ''new'' pid"
  let ?q = "\<lambda>w. (SQUOTE # w @ [SQUOTE], w)" and ?p = "\<lambda>w::string. (w, w)"
  let ?ps = "[?p ''diff'', ?p ''-u'', ?p ''--color=always'', ?p ''--label'', ?q (''a/'' @ l), ?p ''--label'', ?q (''b/'' @ l),
      ?p ''--'', ?q ?o, ?q ?n]"
  have l: "SQUOTE \<notin> set l" using assms by (cases path) (auto simp: l_def)
  have "simple_call (diff_command path ?o ?n) (map snd ?ps)"
  proof (rule simple_callI)
    show "diff_command path ?o ?n = concat (map (\<lambda>(t, w). t @ '' '') ?ps) @ ''2>/dev/null || true''"
      by (simp add: diff_command_def l_def Let_def)
    have "SQUOTE \<notin> set (''a/'' @ l)" "SQUOTE \<notin> set (''b/'' @ l)" using l by (simp_all add: char_defs)
    moreover have "SQUOTE \<notin> set ?o" "SQUOTE \<notin> set ?n" by (rule edit_tmp_plain; simp add: char_defs)+
    ultimately have "list_all (\<lambda>w. sh_spells (SQUOTE # w @ [SQUOTE]) w) [''a/'' @ l, ''b/'' @ l, ?o, ?n]"
      by (simp only: list.pred_inject spells_raw simp_thms)
    then show "list_all (\<lambda>(t, w). sh_spells t w) ?ps"
      by (simp add: spells_plain sh_plain_def isdigit_def isupper_def islower_def ord_def del: append.simps)
  qed
  moreover have "reading_call (map snd ?ps)" by (simp add: reading_call_def)
  ultimately show ?thesis by blast
qed

lemma glob_command_reads:
  assumes "\<not> starts (CHR ''-'') base"
  shows "\<exists>ws. simple_call (glob_command base pattern) ws \<and> reading_call ws"
proof -
  let ?ps = "[(''rg'', ''rg''), (''--files'', ''--files''), (shell_quote base, base), (''-g'', ''-g''), (shell_quote pattern, pattern)]"
  have "simple_call (glob_command base pattern) (map snd ?ps)"
  proof (rule simple_callI)
    show "glob_command base pattern = concat (map (\<lambda>(t, w). t @ '' '') ?ps) @ ''2>/dev/null || true''"
      by (simp add: glob_command_def)
    show "list_all (\<lambda>(t, w). sh_spells t w) ?ps"
      by (simp add: spells_quote spells_plain sh_plain_def isdigit_def isupper_def islower_def ord_def del: append.simps)
  qed
  moreover have "reading_call (map snd ?ps)" using assms by (auto simp: reading_call_def starts_def)
  ultimately show ?thesis by blast
qed

lemma grep_command_reads:
  "\<exists>ws. simple_call (grep_command base glob_pat ctx pattern) ws \<and> reading_call ws"
proof -
  let ?c = "if 0 < ctx then [(''-C'', ''-C''), (int_dec ctx, int_dec ctx)] else []"
  let ?g = "if nonempty_opt glob_pat then [(''-g'', ''-g''), (shell_quote (the glob_pat), the glob_pat)] else []"
  let ?ps = "[(''rg'', ''rg''), (''-n'', ''-n''), (''--color'', ''--color''), (''never'', ''never''), (''--heading'', ''--heading'')]
      @ ?c @ ?g @ [(''--'', ''--''), (shell_quote pattern, pattern), (shell_quote base, base)]"
  have "simple_call (grep_command base glob_pat ctx pattern) (map snd ?ps)"
  proof (rule simple_callI)
    show "grep_command base glob_pat ctx pattern = concat (map (\<lambda>(t, w). t @ '' '') ?ps) @ ''2>/dev/null || true''"
      by (simp add: grep_command_def)
    show "list_all (\<lambda>(t, w). sh_spells t w) ?ps"
      by (simp add: spells_quote int_dec_spells spells_plain sh_plain_def isdigit_def isupper_def islower_def ord_def del: append.simps)
  qed
  moreover have "reading_call (map snd ?ps)" by (simp add: reading_call_def starts_def)
  ultimately show ?thesis by blast
qed

lemma popen_readsD:
  "popen_reads run \<Longrightarrow> \<exists>ws. simple_call cmd ws \<and> reading_call ws \<Longrightarrow> snd (run fs cmd) = fs"
  by (auto simp: popen_reads_def)

section \<open>Edit, continued\<close>

lemma edit_diff_same:
  assumes "popen_reads run" "SQUOTE \<notin> set path"
  shows "fs_same fs (snd (edit_diff run pid fs path c d)) (edit_files pid)"
proof -
  let ?o = "edit_tmp ''old'' pid" and ?n = "edit_tmp ''new'' pid" and ?P = "edit_files pid"
  have P: "?o \<in> ?P" "?n \<in> ?P" by (simp_all add: edit_files_def)
  obtain r1 f1 where f1: "util_write_file fs ?o [] = (r1, f1)" by (cases "util_write_file fs ?o []")
  obtain r2 f2 where f2: "util_write_file f1 ?n [] = (r2, f2)" by (cases "util_write_file f1 ?n []")
  have s2: "fs_same fs f2 ?P" using fs_same_write [OF P(1), of fs "[]"] fs_same_write [OF P(2), of f1 "[]"] f1 f2
    by (metis fs_same_trans snd_conv)
  define f3 where "f3 = snd (util_write_file f2 ?o c)"
  define f4 where "f4 = snd (util_write_file f3 ?n d)"
  obtain ls where run: "run f4 (diff_command path ?o ?n) = (ls, f4)"
    using popen_readsD [OF assms(1) diff_command_reads [OF assms(2)], of f4 pid] by (metis prod.collapse)
  have "fs_same f2 f4 ?P" unfolding f4_def f3_def by (rule fs_same_trans [OF fs_same_write [OF P(1)] fs_same_write [OF P(2)]])
  moreover have "fs_same f4 (fs_remove (fs_remove f4 ?o) ?n) ?P" by (rule fs_same_trans [OF fs_same_remove [OF P(1)] fs_same_remove [OF P(2)]])
  ultimately have s5: "fs_same fs (fs_remove (fs_remove f4 ?o) ?n) ?P" using s2 fs_same_trans by blast
  have "snd (edit_diff run pid fs path c d) = (if r1 = 0 \<and> r2 = 0 then fs_remove (fs_remove f4 ?o) ?n else f2)"
    using run by (simp add: edit_diff_def Let_def f1 f2 f4_def f3_def)
  then show ?thesis using s2 s5 by simp
qed

lemma edit_apply_done:
  assumes "popen_reads run" "SQUOTE \<notin> set p" "fs_get fs p = Some b" "p \<notin> edit_files pid" "new_content \<noteq> []"
    and e: "edit_apply run pid fs p content new_content = (r, fs')"
  shows "if fs_can_write fs p
    then tr_exit r = 0 \<and> fs_get fs' p = Some new_content \<and> fs_same fs fs' (insert p (edit_files pid))
    else r = tool_fail ''Error: cannot write file'' \<and> fs_same fs fs' (edit_files pid)"
proof -
  obtain ls f1 where d: "edit_diff run pid fs p content new_content = (ls, f1)"
    by (cases "edit_diff run pid fs p content new_content")
  have s1: "fs_same fs f1 (edit_files pid)" using edit_diff_same [OF assms(1,2), of fs pid content new_content] d by simp
  then have "fs_get f1 p = Some b" using fs_same_get assms(3,4) by metis
  then have can: "fs_can_write f1 p \<longleftrightarrow> fs_can_write fs p"
    using fs_get_can_write [of f1 p b] fs_get_can_write [OF assms(3)] fs_same_rdonly [OF s1] by simp
  obtain rc f2 where w: "util_write_file f1 p new_content = (rc, f2)" by (cases "util_write_file f1 p new_content")
  note wf = util_write_file_facts [OF w]
  have r: "r = (if rc \<noteq> 0 then tool_fail ''Error: cannot write file'' else tool_done (edit_report p ls))" "fs' = f2"
    using assms(5) e by (auto simp: edit_apply_def d w)
  have "fs_same fs f2 (insert p (edit_files pid))"
    using s1 wf(4) fs_same_mono fs_same_trans by (metis insert_is_Un subset_insertI sup_ge1)
  then show ?thesis using r wf(1-3) can s1 by (auto simp: tool_done_def)
qed

text \<open>
  C32: Edit of a file that can be read, at a path without a quote that is not a scratch file, succeeds
  exactly when the old text occurs once in the file, the result is not empty and the file can be written;
  then the file holds the text with that occurrence replaced. Otherwise it reports an error and the file
  is as before. Apart from the file and the scratch files nothing changes, provided \<open>diff\<close> only reads.
\<close>

theorem edit_replaces_once:
  assumes "nulfree p" "nulfree old" "nulfree new" "p \<noteq> []" "old \<noteq> []" "fs_get fs p = Some b" "p \<notin> edit_files pid"
    and "SQUOTE \<notin> set p" "popen_reads run"
    and r: "tool_edit run pid fs (json_text (edit_input p old new)) = (r, fs')"
  shows "if \<exists>pre suf. occurs_once (c_string b) old pre suf \<and> pre @ new @ suf \<noteq> []
    then if fs_can_write fs p
      then tr_exit r = 0 \<and> fs_same fs fs' (insert p (edit_files pid))
        \<and> (\<exists>pre suf. occurs_once (c_string b) old pre suf \<and> fs_get fs' p = Some (pre @ new @ suf))
      else r = tool_fail ''Error: cannot write file'' \<and> fs_same fs fs' (edit_files pid)
    else tr_exit r = 1 \<and> fs' = fs"
proof -
  have e: "(r, fs') = (case edit_find (c_string b) old of
      NoMatch \<Rightarrow> (tool_fail (edit_missing_text p), fs)
    | ManyMatches \<Rightarrow> (tool_fail ''Error: old_string found multiple times, must be unique'', fs)
    | OneMatch pre suf \<Rightarrow> edit_apply run pid fs p (c_string b) (pre @ new @ suf))"
    using r [symmetric] assms edit_input_members [OF assms(1-3)]
    by (simp add: tool_edit_def json_root_text util_read_file_def nonempty_opt_def Let_def cong: edit_match.case_cong)
  show ?thesis
  proof (cases "edit_find (c_string b) old")
    case (OneMatch pre suf)
    then have once: "occurs_once (c_string b) old pre suf" using edit_find_iff [OF assms(5)] by blast
    note only = occurs_once_unique [OF once]
    have ap: "edit_apply run pid fs p (c_string b) (pre @ new @ suf) = (r, fs')" using e OneMatch by simp
    show ?thesis
    proof (cases "pre @ new @ suf = []")
      case True
      then have "r = tool_fail ''Error: edit produced empty result'' \<and> fs' = fs" using ap by (simp add: edit_apply_def)
      moreover have "\<not> (\<exists>pre suf. occurs_once (c_string b) old pre suf \<and> pre @ new @ suf \<noteq> [])" using only True by metis
      ultimately show ?thesis by (simp add: tool_fail_def)
    next
      case False
      then show ?thesis using edit_apply_done [OF assms(9,8,6,7) False ap] once by (auto split: if_splits)
    qed
  next
    case NoMatch
    then have "\<not> occurs_once (c_string b) old pre suf" for pre suf
      using edit_find_iff [OF assms(5)] by (metis edit_match.distinct(3))
    then show ?thesis using e NoMatch by (simp add: tool_fail_def)
  next
    case ManyMatches
    then have "\<not> occurs_once (c_string b) old pre suf" for pre suf
      using edit_find_iff [OF assms(5)] by (metis edit_match.distinct(5))
    then show ?thesis using e ManyMatches by (simp add: tool_fail_def)
  qed
qed

text \<open>A system on which a command that is not known may do anything, here leave a file.\<close>

definition demo_popen :: popen_fun where
  "demo_popen fs cmd =
     (if \<exists>ws. simple_call cmd ws \<and> reading_call ws then ([''+Q'' @ [LF]], fs) else ([], fs_set fs ''/tmp/pwned'' []))"

lemma demo_popen_reads: "popen_reads demo_popen"
  by (auto simp: popen_reads_def demo_popen_def)

lemma edit_replaces_once_witness:
  "(let fs = \<lparr>fs_nodes = [''a'' \<mapsto> FFile ''xyz''], fs_deny = (\<lambda>p. False), fs_rdonly = (\<lambda>p. False)\<rparr>;
        (r, fs') = tool_edit demo_popen 7 fs (json_text (edit_input ''a'' ''y'' ''Q''))
    in tr_exit r = 0 \<and> fs_get fs' ''a'' = Some ''xQz'')"
proof -
  let ?fs = "\<lparr>fs_nodes = [''a'' \<mapsto> FFile ''xyz''], fs_deny = (\<lambda>p. False), fs_rdonly = (\<lambda>p. False)\<rparr>"
  obtain r fs' where r: "tool_edit demo_popen 7 ?fs (json_text (edit_input ''a'' ''y'' ''Q'')) = (r, fs')"
    by (cases "tool_edit demo_popen 7 ?fs (json_text (edit_input ''a'' ''y'' ''Q''))")
  have p: "nulfree ''a''" "nulfree ''y''" "nulfree ''Q''" "''a'' \<noteq> []" "''y'' \<noteq> []" "fs_get ?fs ''a'' = Some ''xyz''"
    by (simp_all add: nulfree_def NUL_def fs_get_def)
  have q: "''a'' \<notin> edit_files 7" "SQUOTE \<notin> set ''a''" by (simp_all add: edit_files_def edit_tmp_def SQUOTE_def)
  have w: "fs_can_write ?fs ''a''" by (simp add: fs_can_write_def)
  have c: "c_string ''xyz'' = ''xyz''" by (simp add: c_string_def NUL_def)
  have once: "occurs_once ''xyz'' ''y'' ''x'' ''z''"
    using edit_find_iff [of "''y''" "''xyz''" "''x''" "''z''"] by (simp add: edit_find_def)
  then have "\<exists>pre suf. occurs_once (c_string ''xyz'') ''y'' pre suf \<and> pre @ ''Q'' @ suf \<noteq> []" unfolding c by blast
  then obtain pre suf where e: "tr_exit r = 0" "occurs_once ''xyz'' ''y'' pre suf" "fs_get fs' ''a'' = Some (pre @ ''Q'' @ suf)"
    using edit_replaces_once [OF p q demo_popen_reads r] w unfolding c by (simp only: if_True) blast
  have "pre = ''x'' \<and> suf = ''z''" by (rule occurs_once_unique [OF once e(2)])
  then show ?thesis using e(1,3) r by (simp add: Let_def)
qed


section \<open>What a call can change\<close>

definition call_path :: "string \<Rightarrow> string option" where
  "call_path inp = (case json_root inp of None \<Rightarrow> None | Some v \<Rightarrow> json_get_string v ''path'')"

definition call_command :: "string \<Rightarrow> string option" where
  "call_command inp = (case json_root inp of None \<Rightarrow> None | Some v \<Rightarrow> json_get_string v ''command'')"

lemma tool_write_same:
  "snd (tool_write fs inp) \<noteq> fs \<Longrightarrow> \<exists>p. call_path inp = Some p \<and> fs_same fs (snd (tool_write fs inp)) {p}"
proof (cases "json_root inp")
  case (Some v)
  assume ch: "snd (tool_write fs inp) \<noteq> fs"
  show ?thesis
  proof (cases "nonempty_opt (json_get_string v ''path'') \<and> json_get_string v ''content'' \<noteq> None")
    case True
    then obtain p c where p: "json_get_string v ''path'' = Some p" "p \<noteq> []" "json_get_string v ''content'' = Some c"
      by (auto simp: nonempty_opt_def split: option.splits)
    then have "snd (tool_write fs inp) = snd (util_write_file fs p c)"
      by (simp add: tool_write_def Some nonempty_opt_def case_prod_beta)
    then show ?thesis using p(1) Some by (simp add: call_path_def fs_same_write)
  next
    case False
    then have "snd (tool_write fs inp) = fs" using Some by (auto simp: tool_write_def Let_def)
    then show ?thesis using ch by simp
  qed
qed (simp add: tool_write_def)

lemma edit_apply_same:
  assumes "popen_reads run" "SQUOTE \<notin> set p"
  shows "fs_same fs (snd (edit_apply run pid fs p c d)) (insert p (edit_files pid))"
proof -
  obtain ls f1 where d: "edit_diff run pid fs p c d = (ls, f1)" by (cases "edit_diff run pid fs p c d")
  then have "fs_same fs f1 (insert p (edit_files pid))"
    using edit_diff_same [OF assms, of fs pid c d] by (metis fs_same_mono snd_conv subset_insertI)
  moreover have "fs_same f1 (snd (util_write_file f1 p d)) (insert p (edit_files pid))" by (simp add: fs_same_write)
  ultimately have "fs_same fs (snd (util_write_file f1 p d)) (insert p (edit_files pid))" by (rule fs_same_trans)
  then show ?thesis using d by (simp add: edit_apply_def case_prod_beta)
qed

lemma tool_edit_same:
  assumes "popen_reads run" "snd (tool_edit run pid fs inp) \<noteq> fs"
  shows "\<exists>p. call_path inp = Some p \<and> (SQUOTE \<in> set p \<or> fs_same fs (snd (tool_edit run pid fs inp)) (insert p (edit_files pid)))"
proof -
  obtain v where v: "json_root inp = Some v" using assms by (cases "json_root inp") (auto simp: tool_edit_def)
  then obtain p where p: "json_get_string v ''path'' = Some p"
    using assms by (cases "json_get_string v ''path''") (auto simp: tool_edit_def nonempty_opt_def)
  have "\<exists>c d. snd (tool_edit run pid fs inp) = snd (edit_apply run pid fs p c d)"
    using assms(2) by (auto simp: tool_edit_def v p Let_def split: if_splits option.splits edit_match.splits)
  then show ?thesis using edit_apply_same [OF assms(1), of p] v p by (cases "SQUOTE \<in> set p") (auto simp: call_path_def)
qed

lemma tool_glob_same:
  assumes "popen_reads run" "snd (tool_glob run fs inp cwd) \<noteq> fs" "\<not> starts (CHR ''-'') cwd"
  shows "\<exists>p. call_path inp = Some p \<and> starts (CHR ''-'') p"
proof -
  obtain v where v: "json_root inp = Some v" using assms by (cases "json_root inp") (auto simp: tool_glob_def)
  have "starts (CHR ''-'') (search_base v cwd)"
    using assms(2) popen_readsD [OF assms(1) glob_command_reads, of "search_base v cwd"]
    by (auto simp: tool_glob_def v Let_def case_prod_beta split: if_splits)
  then have "nonempty_opt (json_get_string v ''path'') \<and> starts (CHR ''-'') (the (json_get_string v ''path''))"
    using assms(3) by (auto simp: search_base_def Let_def split: if_splits)
  then show ?thesis using v by (auto simp: call_path_def nonempty_opt_def split: option.splits)
qed

lemma tool_grep_same: "popen_reads run \<Longrightarrow> snd (tool_grep run fs inp cwd) = fs"
  by (auto simp: tool_grep_def Let_def case_prod_beta popen_readsD [OF _ grep_command_reads] split: option.splits)

lemma tool_bash_allowed:
  assumes "snd (tool_bash env mode run fs inp t) \<noteq> fs"
  shows "\<exists>c. call_command inp = Some c \<and> check_command env mode c = None"
proof -
  obtain v where v: "json_root inp = Some v" using assms by (cases "json_root inp") (auto simp: tool_bash_def)
  then obtain c where c: "json_get_string v ''command'' = Some c"
    using assms by (cases "json_get_string v ''command''") (auto simp: tool_bash_def nonempty_opt_def)
  then have "check_command env mode c = None"
    using assms by (cases "check_command env mode c") (auto simp: tool_bash_def v Let_def split: if_splits)
  then show ?thesis using v c by (simp add: call_command_def)
qed

text \<open>
  C14: A tool call that changes a file is a Bash command the policy lets through, or it passed the guard
  and is one of: a Write that touched only the file it names, an Edit that touched only the file it names
  and the scratch files, an Edit of a path with a quote (which ends the quoted label, so any command may
  run), or a Glob in a directory that begins with a dash (which \<open>rg\<close> takes as an option). This assumes
  that \<open>diff\<close> and \<open>rg\<close> only read when called as one command with the known options, and that the name of
  the working directory does not begin with a dash.
\<close>

theorem dispatch_confined:
  assumes "tool_dispatch te fs name inp = (r, fs')" "fs' \<noteq> fs"
    and "popen_reads (te_popen te)" "\<not> starts (CHR ''-'') (te_cwd te)"
  shows "(name = ''Bash'' \<and> (\<exists>c. call_command inp = Some c \<and> check_command (te_policy te) (te_mode te) c = None))
    \<or> (native_file_mode_guard (te_policy te) (te_mode te) name inp = None
        \<and> (\<exists>p. call_path inp = Some p
              \<and> (name = ''Write'' \<and> fs_same fs fs' {p}
                 \<or> name = ''Edit'' \<and> (SQUOTE \<in> set p \<or> fs_same fs fs' (insert p (edit_files (te_pid te))))
                 \<or> name = ''Glob'' \<and> starts (CHR ''-'') p)))"
proof -
  have g: "guarded name \<Longrightarrow> native_file_mode_guard (te_policy te) (te_mode te) name inp = None"
    and run: "run_tool te fs name inp = (r, fs')"
    using assms(1,2) by (auto simp: tool_dispatch_def split: option.splits if_splits)
  consider "name = ''Write''" | "name = ''Edit''" | "name = ''Glob''" | "name = ''Bash''"
    | "name \<notin> {''Write'', ''Edit'', ''Glob'', ''Bash''}" by blast
  then show ?thesis
  proof cases
    case 1
    then have "snd (tool_write fs inp) = fs'" using run by (simp add: run_tool_def)
    then show ?thesis using tool_write_same [of fs inp] assms(2) 1 g by (auto simp: guarded_def)
  next
    case 2
    then have "snd (tool_edit (te_popen te) (te_pid te) fs inp) = fs'" using run by (simp add: run_tool_def)
    then show ?thesis using tool_edit_same [OF assms(3), of "te_pid te" fs inp] assms(2) 2 g by (auto simp: guarded_def)
  next
    case 3
    then have "snd (tool_glob (te_popen te) fs inp (te_cwd te)) = fs'" using run by (simp add: run_tool_def)
    then show ?thesis using tool_glob_same [OF assms(3) _ assms(4), of fs inp] assms(2) 3 g by (auto simp: guarded_def)
  next
    case 4
    then have "snd (tool_bash (te_policy te) (te_mode te) (te_bash te) fs inp (te_timeout te)) = fs'"
      using run by (simp add: run_tool_def)
    then show ?thesis using tool_bash_allowed [of "te_policy te" "te_mode te" "te_bash te" fs inp "te_timeout te"] assms(2) 4
      by simp
  next
    case 5
    then have "fs' = fs" using run tool_grep_same [OF assms(3), of fs inp "te_cwd te"]
      by (auto simp: run_tool_def split: if_splits)
    then show ?thesis using assms(2) by simp
  qed
qed

section \<open>Shortened results\<close>

lemma nat_dec_short: "length (nat_dec n) \<le> Suc n"
proof (induction n rule: nat_dec.induct)
  case (1 n)
  then show ?case by (cases "n < 10") (auto simp: nat_dec.simps [of n])
qed

definition lf_count :: "string \<Rightarrow> nat" where
  "lf_count s = length (filter (\<lambda>c. c = LF) s)"

lemma tail_rev_all: "nl + lf_count s < 5 \<Longrightarrow> tail_rev nl s = s"
  by (induction s arbitrary: nl) (auto simp: lf_count_def)

lemma tail_rev_prefix: "\<exists>u. s = tail_rev nl s @ u"
  by (induction s arbitrary: nl) auto

lemma tail_part_suffix: "\<exists>u. s = u @ tail_part s"
proof -
  obtain u where "rev s = tail_rev 0 (rev s) @ u" using tail_rev_prefix by blast
  then have "rev (rev s) = rev (tail_rev 0 (rev s) @ u)" by (rule arg_cong)
  then show ?thesis by (auto simp: tail_part_def)
qed

lemma tail_rev_count: "nl < 5 \<Longrightarrow> nl + lf_count (tail_rev nl s) < 5"
proof (induction s arbitrary: nl)
  case (Cons c s)
  then show ?case using Cons.IH [of "nl + 1"] Cons.IH [of nl] by (auto simp: lf_count_def)
qed (simp add: lf_count_def)

text \<open>
  When the marker and the last lines fit, a shortened result has exactly the size asked for: a
  prefix of the output, the marker, and a suffix of at most five lines.
\<close>

lemma format_result_bounded:
  assumes "max_bytes < int (length s)" "length s < 2 ^ 31"
    "int (length (trunc_marker (length s))) + int (length (tail_part s)) \<le> max_bytes"
  shows "int (length (tool_format_result (Some s) max_bytes)) = max_bytes
    \<and> (\<exists>h u v. tool_format_result (Some s) max_bytes = h @ trunc_marker (length s) @ tail_part s
         \<and> s = h @ u \<and> s = v @ tail_part s \<and> lf_count (tail_part s) < 5)"
proof -
  let ?h = "max_bytes - int (length (trunc_marker (length s))) - int (length (tail_part s))"
  have "int (length s) < 2 ^ 31" using assms(2) by simp
  then have "int (length s) < 2147483648" by simp
  then have h: "0 \<le> ?h" "?h \<le> int (length s)" "?h < 18446744073709551616" using assms(1,3) by linarith+
  then have "u64 ?h = nat ?h" by (simp add: u64_def)
  moreover have "s32 (int (length s)) = int (length s)" using assms(2) by (intro s32_id) auto
  ultimately have f: "tool_format_result (Some s) max_bytes = take (nat ?h) s @ trunc_marker (length s) @ tail_part s"
    using assms h by (simp add: tool_format_result_def Let_def nat_le_iff)
  have "length (take (nat ?h) s) = nat ?h" using h by simp
  then have "int (length (tool_format_result (Some s) max_bytes)) = max_bytes"
    using h unfolding f length_append by linarith
  moreover have "lf_count (tail_part s) < 5"
    using tail_rev_count [of 0 "rev s"] by (simp add: tail_part_def lf_count_def rev_filter [symmetric])
  ultimately show ?thesis using f tail_part_suffix [of s] by (metis append_take_drop_id)
qed

text \<open>
  Too long a result with fewer than five line feeds is not shortened: the tail is the whole
  output, the length of the head wraps around, and what comes back is longer than the output.
\<close>

lemma format_result_grows:
  assumes "0 \<le> max_bytes" "max_bytes < int (length s)" "length s < 2 ^ 31" "lf_count s < 5"
  shows "tool_format_result (Some s) max_bytes = take (length s div 2) s @ trunc_marker (length s) @ s
    \<and> length s < length (tool_format_result (Some s) max_bytes)"
proof -
  have t: "tail_part s = s"
    using tail_rev_all [of 0 "rev s"] assms(4) by (simp add: tail_part_def lf_count_def rev_filter [symmetric])
  have m: "0 < length (trunc_marker (length s))" "length (trunc_marker (length s)) \<le> 100 + length s"
    using nat_dec_short [of "length s"] by (simp_all add: trunc_marker_def)
  have l: "int (length s) < 2 ^ 31" using assms(3) by simp
  let ?h = "max_bytes - int (length (trunc_marker (length s))) - int (length s)"
  have "int (length s) < 2147483648" using l by simp
  then have h: "?h < 0" "- 9223372036854775808 \<le> ?h" using assms(1,2) m by linarith+
  have "?h mod 2 ^ 64 = (?h + 2 ^ 64) mod 2 ^ 64" by simp
  also have "\<dots> = ?h + 2 ^ 64" using h by (intro mod_pos_pos_trivial) simp_all
  finally have "int (u64 ?h) = ?h + 2 ^ 64" using h by (simp add: u64_def)
  then have "u64 ?h > length s" using h l by simp
  moreover have "s32 (int (length s)) = int (length s)" using assms(3) by (intro s32_id) auto
  ultimately have "tool_format_result (Some s) max_bytes = take (length s div 2) s @ trunc_marker (length s) @ s"
    using assms by (simp add: tool_format_result_def Let_def t)
  then show ?thesis using m by simp
qed


lemma format_result_bounded_witness:
  "int (length (tool_format_result (Some (replicate 90 CHR ''x'' @ replicate 9 LF)) 98)) = 98"
proof -
  let ?s = "replicate 90 CHR ''x'' @ replicate 9 LF"
  have t: "tail_part ?s = replicate 4 LF"
    by (simp add: tail_part_def numeral_eq_Suc LF_def)
  have m: "length (trunc_marker 99) = 64" by code_simp
  show ?thesis using format_result_bounded [of 98 ?s] by (simp add: t m)
qed

lemma format_result_grows_witness:
  "100 < length (tool_format_result (Some (replicate 100 CHR ''x'')) 99)"
  using format_result_grows [of 99 "replicate 100 CHR ''x''"] by (simp add: lf_count_def LF_def)

text \<open>Calls for the witnesses.\<close>

definition demo_te :: tool_env where
  "demo_te = \<lparr>te_policy = plain_env, te_mode = None, te_cwd = ''/w'', te_home = ''/h'',
     te_timeout = 600, te_paths = None, te_pid = 7, te_popen = demo_popen, te_bash = (\<lambda>fs _ _. (PipeFailed, fs))\<rparr>"

definition bare_fs :: fsys where
  "bare_fs = \<lparr>fs_nodes = Map.empty, fs_deny = (\<lambda>p. False), fs_rdonly = (\<lambda>p. False)\<rparr>"

lemma dispatch_confined_witness:
  "\<exists>p. call_path (json_text (write_input ''a'' ''b'')) = Some p
     \<and> fs_same bare_fs (snd (tool_dispatch demo_te bare_fs ''Write'' (json_text (write_input ''a'' ''b'')))) {p}"
proof -
  let ?i = "json_text (write_input ''a'' ''b'')"
  obtain r fs' where r: "tool_dispatch demo_te bare_fs ''Write'' ?i = (r, fs')"
    by (cases "tool_dispatch demo_te bare_fs ''Write'' ?i")
  have mask: "command_mask plain_env '': > ./a'' = 2" by code_simp
  have m: "json_get_string (view (write_input ''a'' ''b'') []) ''path'' = Some ''a''"
    "json_get_string (view (write_input ''a'' ''b'') []) ''content'' = Some ''b''"
    using write_input_members [of "''a''" "''b''"] by (simp_all add: nulfree_def NUL_def)
  have "json_get_string (view (write_input ''a'' ''b'') []) ''pattern'' = None"
    using get_missing [OF is_viewI, of "[(''path'', JStr ''a''), (''content'', JStr ''b'')]" "''pattern''"] inputs_ok(2) [of "''a''" "''b''"]
    by (simp add: write_input_def)
  then have g: "native_file_mode_guard (te_policy demo_te) (te_mode demo_te) ''Write'' ?i = None"
    using json_text_root [OF inputs_ok(2) [of "''a''" "''b''"]] m
    by (simp add: native_file_mode_guard_def demo_te_def guard_probe_def guard_target_def nonempty_opt_def
        check_command_iff required_def mask default_bits)
  have "snd (tool_write bare_fs ?i) = fs_set bare_fs ''a'' ''b''"
    by (simp add: tool_write_def json_root_text m nonempty_opt_def util_write_file_def fs_write_def fs_can_write_def
        fs_is_dir_def dir_of_def bare_fs_def)
  then have "fs' = fs_set bare_fs ''a'' ''b''" using r g by (simp add: tool_dispatch_def guarded_def run_tool_def)
  then have "fs_get fs' ''a'' = Some ''b''" by (simp add: bare_fs_def)
  moreover have "fs_get bare_fs ''a'' = None" by (simp add: bare_fs_def fs_get_def)
  ultimately have "fs_get fs' ''a'' \<noteq> fs_get bare_fs ''a''" by simp
  then have "fs' \<noteq> bare_fs" by blast
  moreover have "popen_reads (te_popen demo_te)" "\<not> starts (CHR ''-'') (te_cwd demo_te)"
    using demo_popen_reads by (simp_all add: demo_te_def starts_def)
  ultimately show ?thesis using dispatch_confined [OF r] r by simp
qed


section \<open>The command Edit runs\<close>

text \<open>
  The label of the comparison Edit runs is put between quotes without escaping: for a path with a
  quote the shell's word ends there, and a semicolon after it starts a command of its own.
\<close>

lemma edit_label_injection:
  assumes "SQUOTE \<notin> set u" "\<not> starts (CHR ''/'') u" "u \<noteq> []"
  shows "\<exists>rest more. diff_command (u @ SQUOTE # CHR '';'' # w) old_file new_file
           = ''diff -u --color=always --label '' @ rest
      \<and> sh_word Plain rest = Some (''a/'' @ u, CHR '';'' # w @ more)"
proof -
  obtain m where m: "diff_command (u @ SQUOTE # CHR '';'' # w) old_file new_file
      = ''diff -u --color=always --label '' @ SQUOTE # (''a/'' @ u) @ SQUOTE # CHR '';'' # w @ m"
    using assms(2,3) by (cases u) (simp_all add: diff_command_def starts_def Let_def)
  have p: "\<not> sh_plain (CHR '';'')" "CHR '';'' \<noteq> SQUOTE" "CHR '';'' \<noteq> BSLASH" "CHR ''a'' \<noteq> SQUOTE" "CHR ''/'' \<noteq> SQUOTE"
    by (simp_all add: sh_plain_def isdigit_def isupper_def islower_def char_defs ord_def)
  have "sh_word Plain (SQUOTE # (''a/'' @ u) @ SQUOTE # CHR '';'' # w @ m) = Some (''a/'' @ u, CHR '';'' # w @ m)"
    using sh_word_raw [of "''a/'' @ u" "CHR '';'' # w @ m"] assms(1) p by simp
  with m show ?thesis by blast
qed

lemma edit_label_injection_witness:
  "\<exists>rest more. diff_command (''x'' @ SQUOTE # CHR '';'' # ''reboot #'') ''/tmp/o'' ''/tmp/n''
       = ''diff -u --color=always --label '' @ rest
    \<and> sh_word Plain rest = Some (''a/x'', CHR '';'' # ''reboot #'' @ more)"
  using edit_label_injection [of "''x''" "''reboot #''" "''/tmp/o''" "''/tmp/n''"] by (simp add: SQUOTE_def starts_def)

text \<open>The directory of a Glob stands before any \<open>--\<close>: one that begins with a dash is a word \<open>rg\<close> takes as
  an option, here one that names a program.\<close>

lemma glob_dash_is_option:
  "simple_call (glob_command ''--pre=./x'' ''y'') [''rg'', ''--files'', ''--pre=./x'', ''-g'', ''y'']
   \<and> \<not> reading_call [''rg'', ''--files'', ''--pre=./x'', ''-g'', ''y'']"
proof -
  have "simple_call (glob_command ''--pre=./x'' ''y'') (map snd [(''rg'', ''rg''), (''--files'', ''--files''),
      (shell_quote ''--pre=./x'', ''--pre=./x''), (''-g'', ''-g''), (shell_quote ''y'', ''y'')])"
  proof (rule simple_callI)
    show "list_all (\<lambda>(t, w). sh_spells t w) [(''rg'', ''rg''), (''--files'', ''--files''),
      (shell_quote ''--pre=./x'', ''--pre=./x''), (''-g'', ''-g''), (shell_quote ''y'', ''y'')]"
      by (simp add: spells_quote spells_plain sh_plain_def isdigit_def isupper_def islower_def ord_def)
  qed (simp add: glob_command_def)
  then show ?thesis by (simp add: reading_call_def starts_def)
qed

end
