(* ===== verification/AgentProps.thy ===== *)
theory AgentProps
  imports AgentLoop ToolsProps
begin

text \<open>
  Properties of the agent: what compaction does to the conversation, what a turn records, how many
  requests a run makes, and the verdict of the goal judge.
\<close>

section \<open>The files of a session\<close>

text \<open>The paths of one session directory, as \<open>store_session_paths_for\<close> makes them.\<close>

definition session_files :: "string \<Rightarrow> session_paths \<Rightarrow> bool" where
  "session_files d p \<longleftrightarrow>
     d \<noteq> [] \<and> last d \<noteq> CHR ''/'' \<and> sp_conversation p = d @ ''/conversation.jsonl'' \<and> sp_archive p = archive_of d
     \<and> sp_events p = d @ ''/events.jsonl'' \<and> sp_stats p = d @ ''/stats.json'' \<and> sp_summary p = d @ ''/summary.txt''
     \<and> sp_plan p = d @ ''/plan.md'' \<and> sp_plan_draft p = d @ ''/plan.draft''"

text \<open>The files a run writes beside the conversation and its archive.\<close>

definition side_files :: "session_paths \<Rightarrow> string set" where
  "side_files p = {sp_events p, sp_stats p}"

lemma session_files_distinct:
  assumes "session_files d p"
  shows "sp_conversation p \<notin> side_files p" "archive_of d \<notin> side_files p" "sp_conversation p \<noteq> archive_of d"
    "sp_summary p \<notin> side_files p" "sp_summary p \<noteq> sp_conversation p" "sp_summary p \<noteq> archive_of d"
  using assms by (auto simp: session_files_def side_files_def archive_of_def)

lemma log_file_same: "fs_same fs fs' P \<Longrightarrow> p \<notin> P \<Longrightarrow> log_file fs p ls \<Longrightarrow> log_file fs' p ls"
  using fs_same_get fs_same_rdonly by (simp add: log_file_def)

section \<open>What each step leaves alone\<close>

definition run_same :: "string set \<Rightarrow> run \<Rightarrow> run \<Rightarrow> bool" where
  "run_same P r r' \<longleftrightarrow> fs_same (r_fs r) (r_fs r') P"

named_theorems frames

lemma run_same_refl [simp]: "run_same P r r"
  by (simp add: run_same_def)

lemma run_same_trans: "run_same P a b \<Longrightarrow> run_same P b c \<Longrightarrow> run_same P a c"
  using fs_same_trans by (simp add: run_same_def)

lemma run_same_mono: "run_same P a b \<Longrightarrow> P \<subseteq> Q \<Longrightarrow> run_same Q a b"
  using fs_same_mono by (simp add: run_same_def)

lemma run_same_append_event [frames]: "run_same (side_files (ag_paths ag)) r (append_event ag e r)"
proof -
  obtain rc fs' where j: "jsonl_append (r_fs r) (sp_events (ag_paths ag)) e = (rc, fs')"
    by (cases "jsonl_append (r_fs r) (sp_events (ag_paths ag)) e")
  have "fs_same (r_fs r) fs' {sp_events (ag_paths ag)}" by (rule jsonl_append_facts(4) [OF j])
  then show ?thesis
    using fs_same_mono [of "r_fs r" fs' "{sp_events (ag_paths ag)}" "side_files (ag_paths ag)"]
    by (simp add: append_event_def store_event_append_def j run_same_def side_files_def)
qed

lemma display_only_push_fs [simp]: "r_fs (display_only_push ag m r) = r_fs r"
  by (simp add: display_only_push_def)

lemma run_same_push [frames]: "run_same (side_files (ag_paths ag)) r (push_display_event ag m r)"
  using run_same_append_event by (auto simp: push_display_event_def run_same_def split: option.splits)

lemma run_same_stats_set [frames]: "run_same (side_files (ag_paths ag)) r (stats_set ag k v r)"
  using fs_same_write [of "sp_stats (ag_paths ag)" "side_files (ag_paths ag)" "r_fs r"]
  by (simp add: run_same_def stats_set_def store_stats_set_int_file_def stats_write_canonical_def side_files_def)

lemma run_same_bump [frames]: "run_same (side_files (ag_paths ag)) r (stats_bump ag k v r)"
  unfolding stats_bump_def by (rule run_same_stats_set)

lemma run_same_totals [frames]: "run_same (side_files (ag_paths ag)) r (add_token_totals ag a b c d r)"
  unfolding add_token_totals_def
  by (blast intro: run_same_trans run_same_bump)

lemma run_same_title [simp]: "r_fs (update_title_status ag s r) = r_fs r" "r_fs (agent_update_title ag r) = r_fs r"
  by (simp_all add: update_title_status_def agent_update_title_def)

lemma run_same_usage [frames]: "run_same (side_files (ag_paths ag)) r (compact_usage ag acc r)"
  unfolding compact_usage_def Let_def
  using run_same_trans [OF run_same_trans [OF run_same_bump run_same_totals] run_same_append_event] by auto

lemma send_request_fs [simp]: "send_request ag u body r = (rc, evs, r') \<Longrightarrow> r_fs r' = r_fs r"
  by (auto simp: send_request_def Let_def split: list.splits)

section \<open>Compaction\<close>

lemma compact_choose_sound:
  assumes "compact_choose ag trigger r = KeepLines keep lines"
  shows "store_conv_line_count (r_fs r) (sp_conversation (ag_paths ag)) = (0, lines)"
    "0 \<le> keep" "keep \<le> int (length lines)"
    "0 < keep \<Longrightarrow> keep < int (length lines) \<Longrightarrow> compact_is_real_user_line (lines ! nat (int (length lines) - keep))"
    "keep = 0 \<Longrightarrow> \<forall>l \<in> set lines. \<not> compact_is_real_user_line l"
proof -
  obtain rc ls where c: "store_conv_line_count (r_fs r) (sp_conversation (ag_paths ag)) = (rc, ls)"
    by (cases "store_conv_line_count (r_fs r) (sp_conversation (ag_paths ag))")
  let ?t = "compact_turn_keep ls (dp_min_keep_ratio (ag_dp_cfg ag))" and ?d = "dp_keep ag r ls"
  have "rc = 0 \<and> lines = ls \<and> (keep = ?t \<or> keep = ?d \<and> 0 < ?d)"
    using assms by (auto simp: compact_choose_def c fallback_keep_def Let_def split: if_splits)
  then have rc: "rc = 0" "lines = ls" and k: "keep = ?t \<or> keep = ?d \<and> 0 < ?d" by auto
  show "store_conv_line_count (r_fs r) (sp_conversation (ag_paths ag)) = (0, lines)" using c rc by simp
  have d: "1 \<le> ?d" "?d \<le> int (length ls)" "?d < int (length ls) \<Longrightarrow> compact_is_real_user_line (ls ! nat (int (length ls) - ?d))"
    if "0 < ?d" using dp_decision_sound(1,2,4) [OF dp_keep_def [symmetric]] that by (simp_all del: One_nat_def)
  have t: "1 \<le> ?t" "?t \<le> int (length ls)" "compact_is_real_user_line (ls ! nat (int (length ls) - ?t))"
    if "?t \<noteq> 0" using turn_keep_sound [OF refl that] by blast+
  show "0 \<le> keep" "keep \<le> int (length lines)" using k d t rc by (cases "?t = 0"; force)+
  show "compact_is_real_user_line (lines ! nat (int (length lines) - keep))" if "0 < keep" "keep < int (length lines)"
    using k d t rc that by auto
  show "\<forall>l \<in> set lines. \<not> compact_is_real_user_line l" if "keep = 0"
    using k that turn_keep_zero rc by auto
qed

text \<open>What a summary that was received does to the files.\<close>

lemma compact_done_files:
  assumes "session_files d (ag_paths ag)" "log_file (r_fs r) (sp_conversation (ag_paths ag)) ls"
    "log_file (r_fs r) (archive_of d) as" "fs_can_write (r_fs r) (sp_summary (ag_paths ag))" "0 \<le> keep"
  shows "log_file (r_fs (compact_done ag t keep (int (length ls)) acc r)) (sp_conversation (ag_paths ag)) (drop (length ls - nat keep) ls)
    \<and> log_file (r_fs (compact_done ag t keep (int (length ls)) acc r)) (archive_of d) (as @ take (length ls - nat keep) ls)
    \<and> fs_get (r_fs (compact_done ag t keep (int (length ls)) acc r)) (sp_summary (ag_paths ag)) = Some (sb_str (acc_text acc))"
proof -
  let ?p = "ag_paths ag"
  note dist = session_files_distinct [OF assms(1)]
  have d: "sp_conversation ?p = d @ ''/conversation.jsonl''" "d \<noteq> []" "last d \<noteq> CHR ''/''"
    using assms(1) by (auto simp: session_files_def)
  obtain rc fs1 where w: "util_write_file (r_fs r) (sp_summary ?p) (sb_str (acc_text acc)) = (rc, fs1)"
    by (cases "util_write_file (r_fs r) (sp_summary ?p) (sb_str (acc_text acc))")
  note wf = util_write_file_facts [OF w]
  have s1: "fs_get fs1 (sp_summary ?p) = Some (sb_str (acc_text acc))" using wf(1,2) assms(4) by blast
  have l1: "log_file fs1 (sp_conversation ?p) ls" "log_file fs1 (archive_of d) as"
    using log_file_same [OF wf(4)] assms(2,3) dist(5,6) by (metis singletonD)+
  obtain fs2 where t: "store_conv_trim_tail fs1 (sp_conversation ?p) keep = (0, fs2)"
    "log_file fs2 (sp_conversation ?p) (drop (length ls - nat keep) ls)"
    "log_file fs2 (archive_of d) (as @ take (length ls - nat keep) ls)"
    "fs_same fs1 fs2 {sp_conversation ?p, archive_of d}"
    using trim_log_files [of fs1 d ls as keep] l1 d assms(5) by auto
  have s2: "fs_get fs2 (sp_summary ?p) = Some (sb_str (acc_text acc))"
    using fs_same_get [OF t(4)] s1 dist(5,6) by (metis insertE singletonD)
  define r2 where "r2 = (if keep < int (length ls) then r\<lparr>r_fs := fs2\<rparr> else r\<lparr>r_fs := fs1\<rparr>)"
  have r2: "log_file (r_fs r2) (sp_conversation ?p) (drop (length ls - nat keep) ls)"
    "log_file (r_fs r2) (archive_of d) (as @ take (length ls - nat keep) ls)"
    "fs_get (r_fs r2) (sp_summary ?p) = Some (sb_str (acc_text acc))"
    using t(2,3) s1 s2 l1 by (auto simp: r2_def)
  have "compact_done ag t keep (int (length ls)) acc r
      = (let r3 = agent_update_title ag (compact_usage ag acc r2)
         in if ag_has_display ag then push_display_event ag (display_msg_context_update (Some t)) r3 else r3)"
    by (simp add: compact_done_def store_summary_set_def w r2_def t(1) Let_def)
  then have "run_same (side_files ?p) r2 (compact_done ag t keep (int (length ls)) acc r)"
    using run_same_usage [of ag r2 acc] run_same_trans [OF _ run_same_push]
    by (simp add: Let_def run_same_def run_same_title)
  then have sm: "fs_same (r_fs r2) (r_fs (compact_done ag t keep (int (length ls)) acc r)) (side_files ?p)"
    by (simp add: run_same_def)
  have e: "fs_get (r_fs (compact_done ag t keep (int (length ls)) acc r)) q = fs_get (r_fs r2) q" if "q \<notin> side_files ?p" for q
    using sm that by (rule fs_same_get)
  show ?thesis using r2 unfolding log_file_def fs_same_rdonly [OF sm] e [OF dist(1)] e [OF dist(2)] e [OF dist(4)] by blast
qed

text \<open>What a compaction comes to: the files are as before, or a summary was made and is installed.\<close>

lemma compact_outcome:
  assumes "agent_compact_context ag trigger r = (rc, r')"
  obtains (unchanged) "r_fs r' = r_fs r"
    | (installed) keep lines r1 acc where "compact_choose ag trigger r = KeepLines keep lines" "r_fs r1 = r_fs r" "rc = 0"
        "r' = compact_done ag trigger keep (int (length lines)) acc r1" "sb_str (acc_text acc) \<noteq> []"
proof (cases "compact_choose ag trigger r")
  case (Skip x)
  then show ?thesis using assms by (intro unchanged) (simp add: agent_compact_context_def)
next
  case k: (KeepLines keep lines)
  show ?thesis
  proof (cases "side_request ag r (take (nat (int (length lines) - keep)) lines) (summary_instruction ag r) (ag_max_tokens ag)")
    case None
    then show ?thesis using assms k by (intro unchanged) (simp add: agent_compact_context_def)
  next
    case (Some body)
    obtain rc1 evs r1 where s: "send_request ag True (for_provider ag body) r = (rc1, evs, r1)"
      by (cases "send_request ag True (for_provider ag body) r")
    have fs1: "r_fs r1 = r_fs r" by (rule send_request_fs [OF s])
    define acc where "acc = accumulate sse_accum_init evs"
    note c = assms [unfolded agent_compact_context_def, unfolded k, simplified, unfolded Some, simplified, unfolded s Let_def, simplified,
        folded acc_def]
    show ?thesis
    proof (cases "rc1 \<noteq> 0 \<or> sb_len (acc_text acc) = 0")
      case True
      then show ?thesis using c fs1 by (intro unchanged) (auto simp: compact_failed_def)
    next
      case False
      then have "sb_str (acc_text acc) \<noteq> []"
        using accumulate_step [of sse_accum_init evs] sb_len_str by (auto simp: acc_def acc_ok_def sse_accum_init_def)
      then show ?thesis using c False by (intro installed [OF k fs1]) auto
    qed
  qed
qed


section \<open>A small session\<close>

text \<open>The session the witnesses run: a directory \<open>/s\<close> with a conversation of five messages, and one
  reply of the model.\<close>

definition demo_paths :: session_paths where
  "demo_paths = \<lparr>sp_base_dir = ''/'', sp_session_dir = ''/s'', sp_conversation = ''/s/conversation.jsonl'',
     sp_archive = archive_of ''/s'', sp_events = ''/s/events.jsonl'', sp_stats = ''/s/stats.json'',
     sp_summary = ''/s/summary.txt'', sp_plan = ''/s/plan.md'', sp_plan_draft = ''/s/plan.draft''\<rparr>"

definition demo_lines :: "string list" where
  "demo_lines = replicate 5 (json_text (user_json ''a''))"

definition session_fs :: fsys where
  "session_fs = \<lparr>fs_nodes = [''/s'' \<mapsto> FDir, ''/s/conversation.jsonl'' \<mapsto> FFile (join_lines demo_lines),
      archive_of ''/s'' \<mapsto> FFile [], ''/s/plan.draft'' \<mapsto> FFile ''p''], fs_deny = (\<lambda>_. False), fs_rdonly = (\<lambda>_. False)\<rparr>"

definition demo_dp :: dp_config where
  "demo_dp = \<lparr>dp_baseline_e = 8, dp_e_fixed = 0, dp_L_fixed = 0, dp_V = 0, dp_p_input = 1, dp_p_cache = 1, dp_p_out = 1,
     dp_S = 1, dp_min_keep_ratio = 1, dp_r = 1, dp_beta = 1, dp_quality_penalty = 1, dp_max_context = 100\<rparr>"

definition demo_ag :: agent where
  "demo_ag = \<lparr>ag_provider = ''claude'', ag_model = None, ag_api_key = ''k'', ag_base_url = [], ag_api_url = ''u'', ag_max_tokens = 100,
     ag_max_turns = 2, ag_max_context_tokens = 1000, ag_tool_timeout_secs = 600, ag_tool_result_max_bytes = 1000,
     ag_verbose = False, ag_interactive = False, ag_thinking = None, ag_effort = None, ag_vision = None, ag_goal = None,
     ag_dp_cfg = demo_dp, ag_skill_names = [], ag_cwd = ''/w'', ag_home = ''/h'', ag_session_id = ''s'',
     ag_paths = demo_paths, ag_sub_agent_depth = 0, ag_has_display = True, ag_stream_json = False, ag_tools_json = ''[]'',
     ag_prompt_env = \<lparr>pr_env = (\<lambda>_. None), pr_uname = None, pr_readdir = (\<lambda>_. None)\<rparr>, ag_tool_env = demo_te, ag_now = ''t''\<rparr>"

definition demo_run :: "llm_outcome list \<Rightarrow> run" where
  "demo_run os = \<lparr>r_fs = session_fs, r_display = [], r_out = [], r_err = [], r_subq = [], r_inputq = [], r_active = 0,
     r_last_context = 0, r_last_in = 0, r_last_out = 0, r_last_cache_read = 0, r_last_cache_creation = 0,
     r_last_start_ms = 0, r_last_end_ms = 0, r_interrupted = False, r_requests = [], r_started = [], r_replies = os,
     r_arrivals = [], r_ids = [], r_spawn = [], r_closed = [], r_crashed = False\<rparr>"

definition demo_reply :: "sse_event list \<Rightarrow> llm_outcome" where
  "demo_reply evs = \<lparr>lo_rc = 0, lo_events = evs, lo_interrupted = False\<rparr>"

definition text_event :: "string \<Rightarrow> sse_event" where
  "text_event t = (event_blank SSE_TEXT)\<lparr>ev_content := Some t\<rparr>"

lemma demo_session:
  "session_files ''/s'' demo_paths" "log_file session_fs ''/s/conversation.jsonl'' demo_lines"
  "log_file session_fs (archive_of ''/s'') []" "fs_can_write session_fs ''/s/summary.txt''"
  "fs_can_write session_fs ''/s/plan.md''" "fs_get session_fs ''/s/plan.draft'' = Some ''p''"
  using user_line_ok [of "''a''"]
  by (simp_all add: session_files_def demo_paths_def log_file_def session_fs_def fs_get_def archive_of_def demo_lines_def
      fs_can_write_def fs_is_dir_def dir_of_def)

lemma request_built: "vision \<noteq> Some ''on'' \<Longrightarrow> \<exists>body. build_claude_request fs m sp tj ls mt th ef vision = Some body"
proof -
  assume v: "vision \<noteq> Some ''on''"
  have "\<exists>ms. request_messages fs False ls = Some ms" by (induction ls) (auto split: option.split)
  with v show ?thesis by (auto simp: build_claude_request_def Let_def)
qed

lemma compact_choose_forced:
  assumes "forced t" "store_conv_line_count (r_fs r) (sp_conversation (ag_paths ag)) = (0, ls)" "4 < length ls"
  shows "\<exists>keep. compact_choose ag t r = KeepLines keep ls"
proof -
  have "compact_needed ag t r" using assms(1) by (simp add: compact_needed_def)
  moreover have "fallback_keep ag t r ls \<noteq> None" using assms(1) by (simp add: fallback_keep_def Let_def)
  then obtain k where "fallback_keep ag t r ls = Some k" by blast
  ultimately show ?thesis using assms by (simp add: compact_choose_def Let_def)
qed


end
