(* ===== verification/StartUpProps.thy ===== *)
theory StartUpProps
  imports StartUp AgentFrames AgentProps
begin

text \<open>
  Properties of the start: the command line says what the options are, the key goes to the host it
  belongs to, and starting a session changes nothing outside it.
\<close>

section \<open>The command line\<close>

definition spell :: "string \<Rightarrow> string option \<Rightarrow> string list" where
  "spell name v = (case v of None \<Rightarrow> [] | Some x \<Rightarrow> [name, x])"

definition spell_flag :: "string \<Rightarrow> bool \<Rightarrow> string list" where
  "spell_flag name b = (if b then [name] else [])"

text \<open>The arguments that say what is in a record of options.\<close>

definition command_line :: "options \<Rightarrow> string list" where
  "command_line opt =
     [''--provider'', op_provider opt] @ spell ''--model'' (op_model opt) @ spell ''--api-key'' (op_api_key opt)
     @ spell ''--base-url'' (op_base_url opt) @ [''--output'', op_output opt]
     @ spell ''--max-context'' (op_max_context opt) @ spell ''--max-tokens'' (op_max_tokens opt)
     @ spell ''--max-turns'' (op_max_turns opt) @ spell ''--effort'' (op_effort opt) @ spell ''--goal'' (op_goal opt)
     @ spell ''--thinking'' (op_thinking opt) @ spell ''--tool-timeout'' (op_tool_timeout opt)
     @ spell ''--vision'' (op_vision opt) @ [''--session'', op_session opt]
     @ spell_flag ''--continue'' (op_continue opt) @ spell_flag ''--fork'' (op_fork opt)
     @ spell_flag ''--interactive'' (op_interactive opt) @ spell_flag ''--verbose'' (op_verbose opt)
     @ spell_flag ''--print'' (op_print opt) @ concat (map (\<lambda>s. [''--skill'', s]) (op_skills opt))
     @ (case op_prompt opt of None \<Rightarrow> [] | Some p \<Rightarrow> [p])"

lemma set_value_other:
  "set_value ''--skill'' v opt = None" "set_value ''--session'' v opt = None" "set_value ''--vision'' v opt = None"
  "set_value ''--continue'' v opt = None" "set_value ''--fork'' v opt = None" "set_value ''--interactive'' v opt = None"
  "set_value ''--verbose'' v opt = None" "set_value ''--print'' v opt = None"
  by (simp_all add: set_value_def)

lemma set_value_names:
  "set_value ''--provider'' v opt = Some (opt\<lparr>op_provider := v\<rparr>)" "set_value ''--model'' v opt = Some (opt\<lparr>op_model := Some v\<rparr>)"
  "set_value ''--api-key'' v opt = Some (opt\<lparr>op_api_key := Some v\<rparr>)"
  "set_value ''--base-url'' v opt = Some (opt\<lparr>op_base_url := Some v\<rparr>)"
  "set_value ''--output'' v opt = Some (opt\<lparr>op_output := v\<rparr>)"
  "set_value ''--max-context'' v opt = Some (opt\<lparr>op_max_context := Some v\<rparr>)"
  "set_value ''--max-tokens'' v opt = Some (opt\<lparr>op_max_tokens := Some v\<rparr>)"
  "set_value ''--max-turns'' v opt = Some (opt\<lparr>op_max_turns := Some v\<rparr>)"
  "set_value ''--goal'' v opt = Some (opt\<lparr>op_goal := Some v\<rparr>)" "set_value ''--effort'' v opt = Some (opt\<lparr>op_effort := Some v\<rparr>)"
  "set_value ''--thinking'' v opt = Some (opt\<lparr>op_thinking := Some v\<rparr>)"
  "set_value ''--tool-timeout'' v opt = Some (opt\<lparr>op_tool_timeout := Some v\<rparr>)"
  by (simp_all add: set_value_def)

lemma parse_value: "set_value a v opt = Some opt' \<Longrightarrow> parse_args opt (a # v # rest) = parse_args opt' rest"
  by simp

lemma parse_spell:
  "op_model o1 = None \<Longrightarrow> parse_args o1 (spell ''--model'' v @ rest) = parse_args (o1\<lparr>op_model := v\<rparr>) rest"
  "op_api_key o1 = None \<Longrightarrow> parse_args o1 (spell ''--api-key'' v @ rest) = parse_args (o1\<lparr>op_api_key := v\<rparr>) rest"
  "op_base_url o1 = None \<Longrightarrow> parse_args o1 (spell ''--base-url'' v @ rest) = parse_args (o1\<lparr>op_base_url := v\<rparr>) rest"
  "op_max_context o1 = None \<Longrightarrow> parse_args o1 (spell ''--max-context'' v @ rest) = parse_args (o1\<lparr>op_max_context := v\<rparr>) rest"
  "op_max_tokens o1 = None \<Longrightarrow> parse_args o1 (spell ''--max-tokens'' v @ rest) = parse_args (o1\<lparr>op_max_tokens := v\<rparr>) rest"
  "op_max_turns o1 = None \<Longrightarrow> parse_args o1 (spell ''--max-turns'' v @ rest) = parse_args (o1\<lparr>op_max_turns := v\<rparr>) rest"
  "op_effort o1 = None \<Longrightarrow> parse_args o1 (spell ''--effort'' v @ rest) = parse_args (o1\<lparr>op_effort := v\<rparr>) rest"
  "op_goal o1 = None \<Longrightarrow> parse_args o1 (spell ''--goal'' v @ rest) = parse_args (o1\<lparr>op_goal := v\<rparr>) rest"
  "op_thinking o1 = None \<Longrightarrow> parse_args o1 (spell ''--thinking'' v @ rest) = parse_args (o1\<lparr>op_thinking := v\<rparr>) rest"
  "op_tool_timeout o1 = None \<Longrightarrow> parse_args o1 (spell ''--tool-timeout'' v @ rest) = parse_args (o1\<lparr>op_tool_timeout := v\<rparr>) rest"
  by (cases v; cases o1; simp add: spell_def set_value_names)+

lemma parse_session:
  "\<not> starts (CHR ''-'') v \<Longrightarrow> parse_args opt (''--session'' # v # rest) = parse_args (opt\<lparr>op_session := v\<rparr>) rest"
  by (simp add: set_value_other set_optional_def)

lemma parse_vision:
  "\<not> starts (CHR ''-'') v \<Longrightarrow> parse_args opt (''--vision'' # v # rest) = parse_args (opt\<lparr>op_vision := Some v\<rparr>) rest"
  by (simp add: set_value_other set_optional_def)

lemma parse_flag:
  assumes "\<And>v. set_value a v opt = None" "a \<notin> {''--skill'', ''--session'', ''--vision'', ''--list-sessions'', ''-h'', ''--help''}"
  shows "parse_args opt (a # rest) = parse_args (set_flag a opt) rest"
  using assms by (cases rest) simp_all

lemma parse_skills:
  "length (op_skills opt @ ss) \<le> MAX_SKILLS \<Longrightarrow>
     parse_args opt (concat (map (\<lambda>s. [''--skill'', s]) ss) @ rest) = parse_args (opt\<lparr>op_skills := op_skills opt @ ss\<rparr>) rest"
proof (induction ss arbitrary: opt)
  case (Cons s ss)
  have "parse_args opt (''--skill'' # s # t) = parse_args (opt\<lparr>op_skills := op_skills opt @ [s]\<rparr>) t" for t
    using Cons.prems by (simp add: set_value_other)
  with Cons show ?case by simp
qed simp

lemma parse_prompt: "\<not> starts (CHR ''-'') p \<Longrightarrow> parse_args opt [p] = RunWith (opt\<lparr>op_prompt := Some p\<rparr>)"
  by (cases p) (simp_all add: set_flag_def starts_def)

lemma parse_end: "parse_args opt [] = RunWith opt"
  by simp

declare parse_args.simps [simp del]

text \<open>
  C28: Every choice of options can be given on the command line: with at most 32 skills, and a prompt,
  session and vision value that do not begin with a dash, the arguments are read back as exactly these
  options, whatever the other values are (also values that look like options).
\<close>

theorem command_line_read_back:
  assumes "length (op_skills opt) \<le> MAX_SKILLS" "\<not> starts (CHR ''-'') (op_session opt)"
    and "\<forall>p. op_prompt opt = Some p \<longrightarrow> \<not> starts (CHR ''-'') p"
    and "\<forall>v. op_vision opt = Some v \<longrightarrow> \<not> starts (CHR ''-'') v"
  shows "parse_args default_options (command_line opt) = RunWith opt"
proof -
  have vision: "parse_args o1 (spell ''--vision'' (op_vision opt) @ rest) = parse_args (o1\<lparr>op_vision := op_vision opt\<rparr>) rest"
    if "op_vision o1 = None" for o1 rest
    using that assms(4) by (cases "op_vision opt"; cases o1) (simp_all add: spell_def parse_vision)
  have prompt: "parse_args o1 (case op_prompt opt of None \<Rightarrow> [] | Some p \<Rightarrow> [p]) = RunWith (o1\<lparr>op_prompt := op_prompt opt\<rparr>)"
    if "op_prompt o1 = None" for o1
    using that assms(3) by (cases "op_prompt opt"; cases o1) (simp_all add: parse_prompt parse_end)
  have skills: "parse_args o1 (concat (map (\<lambda>s. [''--skill'', s]) (op_skills opt)) @ rest)
      = parse_args (o1\<lparr>op_skills := op_skills opt\<rparr>) rest" if "op_skills o1 = []" for o1 rest
    using parse_skills [of o1 "op_skills opt"] that assms(1) by simp
  have flags: "parse_args o1 (spell_flag ''--continue'' c @ spell_flag ''--fork'' f @ spell_flag ''--interactive'' i
        @ spell_flag ''--verbose'' v @ spell_flag ''--print'' p @ rest)
      = parse_args (o1\<lparr>op_continue := c, op_fork := f, op_interactive := i, op_verbose := v, op_print := p\<rparr>) rest"
    if "\<not> op_continue o1 \<and> \<not> op_fork o1 \<and> \<not> op_interactive o1 \<and> \<not> op_verbose o1 \<and> \<not> op_print o1" for o1 rest c f i v p
    using that by (cases c; cases f; cases i; cases v; cases p; cases o1)
      (simp_all add: spell_flag_def parse_flag set_value_other set_flag_def)
  show ?thesis
    by (simp add: command_line_def default_options_def parse_value set_value_names parse_spell parse_session assms(2)
        vision flags skills prompt)
qed

lemma command_line_read_back_witness:
  "let opt = default_options\<lparr>op_model := Some ''--fork'', op_session := ''s'', op_vision := Some ''on'',
               op_skills := [''a'', ''-b''], op_prompt := Some ''hi''\<rparr>
   in parse_args default_options (command_line opt) = RunWith opt"
  unfolding Let_def by (rule command_line_read_back) (simp_all add: default_options_def starts_def MAX_SKILLS_def)

text \<open>The value of a skill too many is read as the prompt.\<close>

lemma skill_too_many:
  assumes "length (op_skills opt) = MAX_SKILLS" "\<not> starts (CHR ''-'') s"
  shows "parse_args opt [''--skill'', s] = RunWith (opt\<lparr>op_prompt := Some s\<rparr>)"
  using assms parse_prompt [of s opt] by (simp add: parse_args.simps(3) set_value_other)

text \<open>A size is checked as a \<open>long\<close> and stored in an \<open>int\<close>: three thousand million tokens of context
  become a negative limit.\<close>

lemma size_wraps: "size_option (Some ''3g'') old = - 1294967296"
proof -
  have "util_parse_size (Some ''3g'') = 3000000000" by code_simp
  then show ?thesis by (simp add: size_option_def s32_def)
qed

text \<open>The cost model of compaction is made before \<open>--max-context\<close> is read and keeps the default.\<close>

lemma context_option_not_in_cost_model:
  assumes "make_agent se opt r = Inr (ag, r')"
  shows "dp_max_context (ag_dp_cfg ag) = 200000"
proof -
  have "dp_max_context (ag_dp_cfg (apply_options opt (fst (agent_create se sj p m k b c h sid i sk d x)))) = 200000"
    for sj p m k b c h sid i sk d x
    by (simp add: apply_options_def agent_create_def dp_config_init_def Let_def case_prod_beta)
  with assms show ?thesis
    by (auto simp: make_agent_def Let_def case_prod_beta split: if_splits sum.splits)
qed

section \<open>Keys\<close>

text \<open>The requests whose URL or headers are not those of the agent.\<close>

definition foreign_requests :: "agent \<Rightarrow> run \<Rightarrow> (string \<times> string list \<times> string) list" where
  "foreign_requests ag r =
     filter (\<lambda>(u, h, b). u \<noteq> ag_api_url ag \<or> h \<notin> {request_headers ag True, request_headers ag False}) (r_requests r)"

lemma own_headers: "request_headers ag u \<in> {request_headers ag True, request_headers ag False}"
  by (cases u) simp_all

interpretation fr: quiet_view ag "foreign_requests ag" for ag
proof (unfold_locales, goal_cases)
  case (20 u b r rc evs r')
  then have "r_requests r' = r_requests r @ [(ag_api_url ag, request_headers ag u, b)]"
    by (cases "r_replies r") (auto simp: send_request_def Let_def)
  then show ?case using own_headers [of ag u] by (simp add: foreign_requests_def)
qed (simp_all add: foreign_requests_def spawn_def split: list.split)

lemma fr_start [simp]:
  "foreign_requests ag (show_replay ag' r) = foreign_requests ag r"
  "foreign_requests ag (new_session sj p r) = foreign_requests ag r"
  "foreign_requests ag (snd (next_id r)) = foreign_requests ag r"
  by (simp_all add: show_replay_def new_session_def case_prod_beta)

lemma foreign_run:
  "foreign_requests ag (run_interactive script late ag r) = foreign_requests ag r"
  "foreign_requests ag (run_batch se opt script late ag r) = foreign_requests ag r"
  by (simp_all add: run_interactive_def run_batch_def wait_end_def Let_def)

text \<open>What the agent of a command has from its options.\<close>

lemma make_agent_endpoint:
  assumes "make_agent se opt r = Inr (ag, r')"
  shows "\<exists>ep. choose_endpoint (se_env se) opt = Inr ep \<and> ag_provider ag = ep_provider ep \<and> ag_api_key ag = ep_api_key ep
     \<and> ag_api_url ag = api_url_of (ep_provider ep) (ep_base_url ep)"
    and "foreign_requests ag2 r' = foreign_requests ag2 r"
proof -
  have o: "foreign_requests ag2 (snd (open_session se opt r)) = foreign_requests ag2 r"
    by (simp add: open_session_def Let_def case_prod_beta)
  obtain ep where ep: "choose_endpoint (se_env se) opt = Inr ep"
    using assms by (auto simp: make_agent_def split: if_splits sum.splits)
  let ?c = "agent_create se (stream_output opt) (ep_provider ep) (Some (ep_model ep)) (ep_api_key ep) (ep_base_url ep)
      (se_cwd se) (session_home (se_env se)) (fst (open_session se opt r)) (is_interactive se opt) (op_skills opt) True
      (snd (open_session se opt r))"
  have c: "ag = apply_options opt (fst ?c)" "r' = snd ?c"
    using assms ep by (auto simp: make_agent_def Let_def case_prod_beta split: if_splits)
  show "\<exists>ep. choose_endpoint (se_env se) opt = Inr ep \<and> ag_provider ag = ep_provider ep \<and> ag_api_key ag = ep_api_key ep
     \<and> ag_api_url ag = api_url_of (ep_provider ep) (ep_base_url ep)"
    using ep c by (simp add: apply_options_def agent_create_def Let_def case_prod_beta)
  show "foreign_requests ag2 r' = foreign_requests ag2 r"
    using o c by (simp add: agent_create_def Let_def case_prod_beta)
qed

lemma deepseek_url: "api_url_of ''claude'' DEEPSEEK_URL = ''https://api.deepseek.com/anthropic/messages''"
  by (simp add: api_url_of_def DEEPSEEK_URL_def)

lemma endpoint_cases:
  assumes "choose_endpoint env opt = Inr ep"
  shows "\<exists>key base. configured env opt = Some (key, base)
     \<and> (if key = [] \<and> base = []
        then env ''DEEPSEEK_API_KEY'' = Some (ep_api_key ep) \<and> ep_provider ep = ''claude''
          \<and> api_url_of (ep_provider ep) (ep_base_url ep) = ''https://api.deepseek.com/anthropic/messages''
        else ep_api_key ep = key \<and> ep_provider ep = op_provider opt
          \<and> api_url_of (ep_provider ep) (ep_base_url ep) = api_url_of (op_provider opt) base)"
proof -
  obtain key base where c: "configured env opt = Some (key, base)"
    using assms by (cases "configured env opt") (auto simp: choose_endpoint_def)
  show ?thesis
  proof (cases "key = [] \<and> base = []")
    case True
    then obtain k where "env ''DEEPSEEK_API_KEY'' = Some k" "nonempty_opt (Some k)"
      using assms c by (cases "env ''DEEPSEEK_API_KEY''") (auto simp: choose_endpoint_def split: if_splits)
    with True c assms show ?thesis by (auto simp: choose_endpoint_def deepseek_url)
  next
    case False
    with c assms show ?thesis by (auto simp: choose_endpoint_def)
  qed
qed

text \<open>
  C6: A key goes to the host it belongs to. Every request of a run started from the command line, of
  compaction and the goal judge too, is posted to the URL of the one agent with its headers; its key and
  its URL are those
  configured for the chosen provider by argument or environment, and only when neither a key nor a URL is
  configured the DeepSeek key, with the URL of DeepSeek.
\<close>

theorem key_goes_to_its_host:
  assumes "cagent_main se prog argv script late r = Ran ag r'" "r_requests r = []"
  shows "(\<forall>(u, h, b) \<in> set (r_requests r'). u = ag_api_url ag \<and> h \<in> {request_headers ag True, request_headers ag False})
     \<and> (\<exists>opt key base. parse_args default_options argv = RunWith opt \<and> configured (se_env se) opt = Some (key, base)
          \<and> (if key = [] \<and> base = []
             then se_env se ''DEEPSEEK_API_KEY'' = Some (ag_api_key ag) \<and> ag_provider ag = ''claude''
               \<and> ag_api_url ag = ''https://api.deepseek.com/anthropic/messages''
             else ag_api_key ag = key \<and> ag_provider ag = op_provider opt \<and> ag_api_url ag = api_url_of (op_provider opt) base))"
proof -
  obtain opt r1 where opt: "parse_args default_options argv = RunWith opt" and m: "make_agent se opt r = Inr (ag, r1)"
    and r': "r' = (if is_interactive se opt then run_interactive script late ag r1 else run_batch se opt script late ag r1)"
    using assms(1) by (auto simp: cagent_main_def split: command.splits sum.splits)
  have "foreign_requests ag r' = []"
    using make_agent_endpoint(2) [OF m, of ag] assms(2) by (simp add: r' foreign_run) (simp add: foreign_requests_def)
  then have "\<forall>(u, h, b) \<in> set (r_requests r'). u = ag_api_url ag \<and> h \<in> {request_headers ag True, request_headers ag False}"
    by (auto simp: foreign_requests_def filter_empty_conv)
  moreover obtain ep where ep: "choose_endpoint (se_env se) opt = Inr ep" "ag_provider ag = ep_provider ep"
    "ag_api_key ag = ep_api_key ep" "ag_api_url ag = api_url_of (ep_provider ep) (ep_base_url ep)"
    using make_agent_endpoint(1) [OF m] by blast
  ultimately show ?thesis using opt endpoint_cases [OF ep(1)] by (simp only: ep(2-4)) blast
qed

text \<open>A process to start: nothing in the environment but a key, standard input is no terminal.\<close>

definition demo_se :: sysenv where
  "demo_se = \<lparr>se_env = (\<lambda>n. if n = ''ANTHROPIC_API_KEY'' then Some ''k'' else None), se_cwd = ''/w'', se_stdin_tty = False,
     se_stdin = [], se_sessions = (\<lambda>_. None), se_time_str = (\<lambda>_. []),
     se_prompt_env = \<lparr>pr_env = (\<lambda>_. None), pr_uname = None, pr_readdir = (\<lambda>_. None)\<rparr>, se_tool_env = demo_te,
     se_tools_json = ''[]'', se_now = ''t''\<rparr>"

lemma demo_start:
  "parse_args default_options [''hi''] = RunWith (default_options\<lparr>op_prompt := Some ''hi''\<rparr>)"
  "\<exists>x. make_agent demo_se (default_options\<lparr>op_prompt := Some ''hi''\<rparr>) (demo_run []) = Inr x"
proof -
  show "parse_args default_options [''hi''] = RunWith (default_options\<lparr>op_prompt := Some ''hi''\<rparr>)"
    by (rule parse_prompt) (simp add: starts_def)
  have "\<exists>ep. choose_endpoint (se_env demo_se) (default_options\<lparr>op_prompt := Some ''hi''\<rparr>) = Inr ep"
    by (simp add: choose_endpoint_def configured_def demo_se_def default_options_def given_def util_env_def)
  then show "\<exists>x. make_agent demo_se (default_options\<lparr>op_prompt := Some ''hi''\<rparr>) (demo_run []) = Inr x"
    by (auto simp: make_agent_def default_options_def case_prod_beta Let_def)
qed

lemma key_goes_to_its_host_witness:
  "\<exists>ag r'. cagent_main demo_se ''cagent'' [''hi''] [] [] (demo_run []) = Ran ag r'
     \<and> (\<forall>(u, h, b) \<in> set (r_requests r'). u = ag_api_url ag \<and> h \<in> {request_headers ag True, request_headers ag False})"
proof -
  obtain ag r' where r: "cagent_main demo_se ''cagent'' [''hi''] [] [] (demo_run []) = Ran ag r'"
    using demo_start by (auto simp: cagent_main_def)
  moreover have "r_requests (demo_run []) = []" by (simp add: demo_run_def)
  ultimately show ?thesis using key_goes_to_its_host [OF r] by blast
qed

section \<open>Starting a session\<close>

text \<open>\<open>below d q\<close>: the path \<open>q\<close> lies in the directory \<open>d\<close>, a slash between them; the sibling \<open>ab\<close> of \<open>a\<close>
  does not.  What is not below \<open>d\<close>, \<open>d\<close> itself too, stays as it is, but for directories that are made.\<close>

definition below :: "string \<Rightarrow> string \<Rightarrow> bool" where
  "below d q \<longleftrightarrow> starts_with (d @ ''/'') q"

definition keeps_outside :: "string \<Rightarrow> fsys \<Rightarrow> fsys \<Rightarrow> bool" where
  "keeps_outside d fs fs' \<longleftrightarrow>
     (\<forall>q. \<not> below d q \<longrightarrow>
        fs_nodes fs' q = fs_nodes fs q \<or> fs_nodes fs q = None \<and> fs_nodes fs' q = Some FDir)"

lemma keeps_outside_refl [simp]: "keeps_outside d fs fs"
  by (simp add: keeps_outside_def)

lemma keeps_outside_trans: "keeps_outside d a b \<Longrightarrow> keeps_outside d b c \<Longrightarrow> keeps_outside d a c"
  by (simp add: keeps_outside_def) metis

lemma keeps_outside_set: "below d p \<Longrightarrow> keeps_outside d fs (fs_set fs p b)"
  by (auto simp: keeps_outside_def fs_set_def)

lemma mkdir_all_adds:
  "mkdir_all fs ps = (rc, fs') \<Longrightarrow>
     fs_nodes fs' q = fs_nodes fs q \<or> fs_nodes fs q = None \<and> fs_nodes fs' q = Some FDir"
proof (induction fs ps rule: mkdir_all.induct)
  case (2 fs p ps)
  obtain m fs1 where m: "fs_mkdir fs p = (m, fs1)" by (cases "fs_mkdir fs p")
  then have "fs_nodes fs1 q = fs_nodes fs q \<or> fs_nodes fs q = None \<and> fs_nodes fs1 q = Some FDir"
    by (auto simp: fs_mkdir_def split: if_splits)
  with 2 m show ?case by (cases m) auto
qed simp

lemma keeps_outside_mkdirs [simp]: "keeps_outside d fs (snd (util_mkdirs fs p))" "keeps_outside d fs (snd (fs_mkdir fs p))"
proof -
  obtain rc fs' where "util_mkdirs fs p = (rc, fs')" by (cases "util_mkdirs fs p")
  then show "keeps_outside d fs (snd (util_mkdirs fs p))"
    using mkdir_all_adds [of fs "slash_prefixes (take 1 p) (drop 1 p) @ [p]" rc fs']
    by (auto simp: keeps_outside_def util_mkdirs_def)
  show "keeps_outside d fs (snd (fs_mkdir fs p))" by (auto simp: keeps_outside_def fs_mkdir_def)
qed

lemma keeps_outside_writes:
  assumes "below d p"
  shows "keeps_outside d fs (snd (touch_file fs p))" "keeps_outside d fs (snd (util_write_file fs p b))"
    "fs_write fs p b = Some fs' \<Longrightarrow> keeps_outside d fs fs'" "keeps_outside d fs (snd (jsonl_append fs p l))"
  using keeps_outside_set [OF assms]
  by (auto simp: touch_file_def util_write_file_def jsonl_append_def fs_append_def fs_write_def split: if_splits)

lemma keeps_outside_touch_all: "\<forall>p \<in> set ps. below d p \<Longrightarrow> keeps_outside d fs (touch_all fs ps)"
proof (induction ps arbitrary: fs)
  case (Cons p ps)
  then show ?case
    using keeps_outside_trans [OF keeps_outside_writes(1) [of d p fs]] by (simp add: touch_all_def)
qed (simp add: touch_all_def)

lemma keeps_outside_copy: "below d q \<Longrightarrow> keeps_outside d fs (copy_nonempty fs p q)"
  by (auto simp: copy_nonempty_def keeps_outside_writes split: option.split)

text \<open>The files of a session lie in its directory.\<close>

definition session_below :: "session_paths \<Rightarrow> bool" where
  "session_below p \<longleftrightarrow>
     (\<forall>q \<in> {sp_conversation p, sp_archive p, sp_events p, sp_stats p, sp_summary p, sp_plan p, sp_plan_draft p}.
        below (sp_session_dir p) q)"

lemma session_below_paths [simp]: "session_below (store_session_paths_for h c sid)"
  by (simp add: session_below_def below_def store_session_paths_for_def Let_def starts_with_iff)

lemma keeps_outside_fork:
  assumes "session_below p" shows "keeps_outside (sp_session_dir p) fs (snd (store_session_fork fs q p))"
proof -
  note b = assms [unfolded session_below_def, simplified]
  note t = keeps_outside_trans [OF _ keeps_outside_copy]
  show ?thesis unfolding store_session_fork_def Let_def snd_conv by (intro t keeps_outside_mkdirs) (use b in simp_all)
qed

lemma keeps_outside_init:
  assumes "session_below p" shows "keeps_outside (sp_session_dir p) fs (fst (snd (store_session_init sj fs p new)))"
proof -
  let ?d = "sp_session_dir p"
  note b = assms [unfolded session_below_def, simplified]
  define fs2 where "fs2 = snd (util_mkdirs (snd (util_mkdirs fs (sp_base_dir p))) ?d)"
  define fs4 where "fs4 = touch_all (snd (fs_mkdir fs2 (store_session_image_dir p)))
      [sp_conversation p, sp_archive p, sp_events p, sp_summary p, sp_plan p, sp_plan_draft p]"
  have 2: "keeps_outside ?d fs fs2" unfolding fs2_def by (rule keeps_outside_trans [OF keeps_outside_mkdirs(1) keeps_outside_mkdirs(1)])
  have "keeps_outside ?d fs2 fs4"
    unfolding fs4_def by (rule keeps_outside_trans [OF _ keeps_outside_touch_all]) (use b in simp_all)
  with 2 have 4: "keeps_outside ?d fs fs4" by (rule keeps_outside_trans)
  have ev: "keeps_outside ?d x (fst (snd (store_event_append sj x p l)))" for x l
    using keeps_outside_writes(4) [of ?d "sp_events p" x l] b by (simp add: store_event_append_def case_prod_beta)
  have w: "fs_write fs4 (sp_stats p) initial_stats = Some y \<Longrightarrow> keeps_outside ?d fs y" for y
    using keeps_outside_trans [OF 4 keeps_outside_writes(3) [of ?d "sp_stats p" fs4]] b by blast
  have t: "keeps_outside ?d fs (snd (touch_file fs4 (sp_stats p)))"
    using keeps_outside_trans [OF 4 keeps_outside_writes(1)] b by blast
  have md: "keeps_outside ?d fs (snd (util_mkdirs x q))" if "keeps_outside ?d fs x" for x q
    using keeps_outside_trans [OF that] by simp
  have ev': "keeps_outside ?d fs (fst (snd (store_event_append sj x p l)))" if "keeps_outside ?d fs x" for x l
    using keeps_outside_trans [OF that ev] .
  show ?thesis
    using 2 4 w t
    by (auto simp: store_session_init_def Let_def case_prod_beta fs2_def [symmetric] fs4_def [symmetric]
        intro: md ev' split: option.split)
qed

text \<open>
  C29: Starting disturbs no other session: every path outside the directory of the session that is
  created, resumed or forked - the source of a fork and sessions whose name only begins the same too -
  is afterwards what it was. The only new things outside are directories.
\<close>

theorem start_touches_own_session:
  assumes "make_agent se opt r = Inr (ag, r')" "\<not> below (sp_session_dir (ag_paths ag)) q" "fst (next_id r) \<noteq> []"
  shows "fs_nodes (r_fs r') q = fs_nodes (r_fs r) q \<or> fs_nodes (r_fs r) q = None \<and> fs_nodes (r_fs r') q = Some FDir"
proof -
  obtain ep where ep: "choose_endpoint (se_env se) opt = Inr ep"
    using assms(1) by (auto simp: make_agent_def split: if_splits sum.splits)
  obtain sid r1 where o: "open_session se opt r = (sid, r1)" by (cases "open_session se opt r")
  let ?p = "\<lambda>s. store_session_paths_for (session_home (se_env se)) (Some (se_cwd se)) s"
  have sid: "sid \<noteq> []"
    using o assms(3) by (auto simp: open_session_def Let_def case_prod_beta split: if_splits)
  have p: "ag_paths ag = ?p sid" and r': "r' = new_session (stream_output opt) (?p sid) r1"
    using assms(1) ep o sid by (auto simp: make_agent_def agent_create_def apply_options_def Let_def case_prod_beta split: if_splits)
  have 1: "keeps_outside (sp_session_dir (?p sid)) (r_fs r1) (r_fs r')"
    by (simp add: r' new_session_def case_prod_beta keeps_outside_init)
  have "keeps_outside (sp_session_dir (?p sid)) (r_fs r) (r_fs r1)"
    using o by (auto simp: open_session_def Let_def case_prod_beta next_id_def keeps_outside_fork split: if_splits list.splits)
  then show ?thesis using keeps_outside_trans [OF _ 1] assms(2) unfolding p keeps_outside_def by blast
qed

lemma start_touches_own_session_witness:
  "\<exists>ag r'. make_agent demo_se (default_options\<lparr>op_prompt := Some ''hi'', op_session := ''t''\<rparr>) ((demo_run [])\<lparr>r_ids := [''i'']\<rparr>) = Inr (ag, r')
     \<and> fs_nodes (r_fs r') ''/s/conversation.jsonl'' = fs_nodes session_fs ''/s/conversation.jsonl''
     \<and> fs_nodes (r_fs r') (sp_session_dir (ag_paths ag) @ ''2/plan.md'') \<noteq> Some (FFile [])"
proof -
  let ?o = "default_options\<lparr>op_prompt := Some ''hi'', op_session := ''t''\<rparr>"
  let ?r = "(demo_run [])\<lparr>r_ids := [''i'']\<rparr>"
  obtain ep where ep: "choose_endpoint (se_env demo_se) ?o = Inr ep"
    by (simp add: choose_endpoint_def configured_def demo_se_def default_options_def given_def util_env_def)
  obtain ag r' where m: "make_agent demo_se ?o ?r = Inr (ag, r')"
    using ep by (auto simp: make_agent_def default_options_def case_prod_beta Let_def)
  have "open_session demo_se ?o ?r = (''t'', ?r)"
    by (simp add: open_session_def resumed_session_def default_options_def)
  then have "ag_paths ag = store_session_paths_for (session_home (se_env demo_se)) (Some ''/w'') ''t''"
    using m ep by (auto simp: make_agent_def agent_create_def apply_options_def Let_def case_prod_beta demo_se_def split: if_splits)
  then obtain d where d: "sp_session_dir (ag_paths ag) = ''/tmp'' @ d"
    by (simp add: store_session_paths_for_def Let_def session_home_def util_home_dir_def util_env_def demo_se_def)
  have id: "fst (next_id ?r) \<noteq> []" by (simp add: next_id_def)
  have "\<not> below (sp_session_dir (ag_paths ag)) ''/s/conversation.jsonl''"
    "\<not> below (sp_session_dir (ag_paths ag)) (sp_session_dir (ag_paths ag) @ ''2/plan.md'')"
    by (auto simp: d below_def starts_with_iff)
  note two = this [THEN start_touches_own_session [OF m _ id]]
  moreover have "fs_nodes (r_fs ?r) ''/s/conversation.jsonl'' \<noteq> None" "r_fs ?r = session_fs"
    "fs_nodes session_fs (sp_session_dir (ag_paths ag) @ ''2/plan.md'') = None"
    by (simp_all add: demo_run_def session_fs_def archive_of_def d)
  ultimately show ?thesis using m by (intro exI [of _ ag] exI [of _ r']) auto
qed

end
