(* ===== verification/AgentTurns.thy ===== *)
theory AgentTurns
  imports AgentProps
begin

text \<open>
  What a turn leaves in the conversation, in the plan and in the event log.
\<close>

section \<open>Frames of the rest of a turn\<close>

lemma side_push: "fs_same (r_fs r) (r_fs (push_display_event ag m r)) (side_files (ag_paths ag))"
  using run_same_push [of ag r m] by (simp add: run_same_def)

lemma run_same_before: "run_same P a c \<Longrightarrow> r_fs a = r_fs b \<Longrightarrow> run_same P b c"
  by (simp add: run_same_def)

lemma run_same_sub_result: "run_same (side_files (ag_paths ag)) r (agent_handle_sub_agent_result ag res r)"
proof -
  have "run_same (side_files (ag_paths ag)) r
      (stats_bump ag k1 v1 (stats_bump ag k2 v2 (add_token_totals ag a b c d
        (append_event ag e1 (append_event ag e2 (append_event ag e3 r))))))" for k1 v1 k2 v2 a b c d e1 e2 e3
    by (intro run_same_trans [OF _ run_same_bump] run_same_trans [OF _ run_same_totals] run_same_append_event
        run_same_trans [OF _ run_same_append_event])
  then show ?thesis by (simp add: agent_handle_sub_agent_result_def Let_def run_same_def)
qed

lemma run_same_process: "process_result ag m r = Some (c, k, r') \<Longrightarrow> run_same (side_files (ag_paths ag)) r r'"
proof (cases m)
  case (MSG_ASYNC_TASK_RESULT tid code out)
  assume a: "process_result ag m r = Some (c, k, r')"
  let ?r1 = "append_event ag (async_event tid code out) r"
  let ?r2 = "if 0 < r_active ?r1 then ?r1\<lparr>r_active := r_active ?r1 - 1\<rparr> else ?r1"
  have "run_same (side_files (ag_paths ag)) r ?r2"
    using run_same_append_event [of ag r] by (simp add: run_same_def)
  from run_same_trans [OF this run_same_push]
  have "run_same (side_files (ag_paths ag)) r
      (push_display_event ag (display_msg_async_task_result tid code (Some (opt_default [] out))) ?r2)" .
  with a show ?thesis unfolding process_result_def MSG_ASYNC_TASK_RESULT Let_def by simp
qed (auto simp: process_result_def run_same_sub_result run_same_push)

section \<open>The conversation grows\<close>

text \<open>\<open>grows ag r r' new\<close>: the conversation gains exactly these lines.\<close>

definition grows :: "agent \<Rightarrow> run \<Rightarrow> run \<Rightarrow> string list \<Rightarrow> bool" where
  "grows ag r r' new \<longleftrightarrow>
     (\<forall>ls. log_file (r_fs r) (sp_conversation (ag_paths ag)) ls
        \<longrightarrow> log_file (r_fs r') (sp_conversation (ag_paths ag)) (ls @ new))"

lemma grows_refl [simp]: "grows ag r r []"
  by (simp add: grows_def)

lemma grows_trans: "grows ag a b xs \<Longrightarrow> grows ag b c ys \<Longrightarrow> grows ag a c (xs @ ys)"
  unfolding grows_def append_assoc [symmetric] by blast

lemma grows_same: "session_files d (ag_paths ag) \<Longrightarrow> run_same (side_files (ag_paths ag)) r r' \<Longrightarrow> grows ag r r' []"
  using log_file_same session_files_distinct(1) by (auto simp: grows_def run_same_def)

lemma grows_user: "grows ag r (conv_add_user ag t r) [json_text (user_json t)]"
proof -
  have "log_file (r_fs (conv_add_user ag t r)) (sp_conversation (ag_paths ag)) (ls @ [json_text (user_json t)])"
    if "log_file (r_fs r) (sp_conversation (ag_paths ag)) ls" for ls
    using log_file_append [OF that user_line_ok [of t]] by (auto simp: conv_add_user_def store_conv_add_user_text)
  then show ?thesis by (simp add: grows_def)
qed

definition user_lines :: "string list \<Rightarrow> bool" where
  "user_lines ls \<longleftrightarrow> (\<exists>ts. ls = map (\<lambda>t. json_text (user_json t)) ts)"

definition adds_user :: "agent \<Rightarrow> run \<Rightarrow> run \<Rightarrow> bool" where
  "adds_user ag r r' \<longleftrightarrow> (\<exists>new. grows ag r r' new \<and> user_lines new)"

lemma adds_user_same: "grows ag r r' [] \<Longrightarrow> adds_user ag r r'"
  unfolding adds_user_def user_lines_def by auto

lemma adds_user_trans:
  assumes "adds_user ag a b" "adds_user ag b c" shows "adds_user ag a c"
proof -
  obtain xs ys where "grows ag a b (map (\<lambda>t. json_text (user_json t)) xs)" "grows ag b c (map (\<lambda>t. json_text (user_json t)) ys)"
    using assms by (auto simp: adds_user_def user_lines_def)
  from grows_trans [OF this] show ?thesis
    unfolding adds_user_def user_lines_def map_append [symmetric] by blast
qed

lemma adds_user_add: "adds_user ag r (conv_add_user ag t r)"
  unfolding adds_user_def user_lines_def using grows_user [of ag r t] by (intro exI [of _ "[json_text (user_json t)]"]) (auto intro: exI [of _ "[t]"])

lemma adds_user_process:
  assumes "session_files d (ag_paths ag)"
  shows "adds_user ag r (snd (agent_process_sub_result ag m r))"
proof (cases "process_result ag m r")
  case None
  then show ?thesis by (simp add: agent_process_sub_result_def adds_user_same)
next
  case (Some x)
  obtain c k r' where x: "x = (c, k, r')" by (cases x)
  have "grows ag r r' []" using grows_same [OF assms run_same_process] Some x by blast
  then show ?thesis
    using Some x adds_user_trans [OF adds_user_same adds_user_add] by (simp add: agent_process_sub_result_def)
qed

lemma adds_user_fold:
  assumes "session_files d (ag_paths ag)"
  shows "adds_user ag (snd st) (snd (foldl (drain_step ag) st ms))"
proof (induction ms arbitrary: st)
  case Nil
  show ?case by (simp add: adds_user_same)
next
  case (Cons m ms)
  have "snd (drain_step ag st m) = snd (agent_process_sub_result ag m (snd st))"
    by (simp add: drain_step_def split: prod.split)
  then have "adds_user ag (snd st) (snd (drain_step ag st m))" using adds_user_process [OF assms] by simp
  from adds_user_trans [OF this Cons] show ?case by simp
qed

lemma adds_user_drain:
  assumes "session_files d (ag_paths ag)"
  shows "adds_user ag r (snd (agent_drain_sub_results ag r))"
proof -
  have "adds_user ag r (snd (foldl (drain_step ag) (0, r\<lparr>r_subq := [], r_arrivals := a\<rparr>) ms))" for a ms
  proof (rule adds_user_trans)
    show "adds_user ag r (r\<lparr>r_subq := [], r_arrivals := a\<rparr>)" by (rule adds_user_same) (simp add: grows_def)
    show "adds_user ag (r\<lparr>r_subq := [], r_arrivals := a\<rparr>) (snd (foldl (drain_step ag) (0, r\<lparr>r_subq := [], r_arrivals := a\<rparr>) ms))"
      using adds_user_fold [OF assms, of "(0, r\<lparr>r_subq := [], r_arrivals := a\<rparr>)"] by simp
  qed
  then show ?thesis
    unfolding agent_drain_sub_results_def Let_def by (simp only: case_prod_beta)
qed

section \<open>A turn is recorded\<close>

lemma grows_show: "session_files d (ag_paths ag) \<Longrightarrow> grows ag r (show_stop ag t r) []"
  "session_files d (ag_paths ag) \<Longrightarrow> grows ag r (show_error ag t r) []"
  using grows_same run_same_push unfolding show_stop_def show_error_def by blast+

lemma grows_end:
  assumes "session_files d (ag_paths ag)"
  shows "adds_user ag r (snd (end_turn ag acc r))" "tool_stop (acc_stop_reason acc) \<Longrightarrow> grows ag r (snd (end_turn ag acc r)) []"
proof -
  note g = grows_show [OF assms]
  define r1 where "r1 = (case acc_stop_reason acc of None \<Rightarrow> r | Some t \<Rightarrow> show_stop ag t r)"
  have r1: "grows ag r r1 []" using g(1) by (simp add: r1_def split: option.split)
  have "adds_user ag r (snd (agent_drain_sub_results ag r1))"
    by (rule adds_user_trans [OF adds_user_same [OF r1] adds_user_drain [OF assms]])
  then show "adds_user ag r (snd (end_turn ag acc r))"
    using adds_user_same [OF r1] adds_user_same [OF g(2) [of r "''Response truncated (max_tokens reached)''"]] adds_user_same [OF grows_refl]
    unfolding end_turn_def Let_def r1_def [symmetric] by (simp add: case_prod_beta)
  show "grows ag r (snd (end_turn ag acc r)) []" if t: "tool_stop (acc_stop_reason acc)"
  proof -
    have "acc_stop_reason acc \<notin> {Some ''error'', Some ''max_tokens'', Some ''length''}" using t by (auto simp: tool_stop_def)
    then have "snd (end_turn ag acc r) = r1" using t unfolding end_turn_def Let_def r1_def [symmetric] by simp
    with r1 show ?thesis by simp
  qed
qed

lemma run_all_length: "length (fst (run_all ag tcs r)) = length tcs"
  by (induction tcs arbitrary: r) (simp_all add: case_prod_beta)

text \<open>The lines \<open>save_reply\<close> writes.\<close>

definition reply_line :: "sse_accum \<Rightarrow> (string \<times> string \<times> string) list \<Rightarrow> string" where
  "reply_line acc tools = json_text (assistant_json (sb_str (acc_thinking acc)) (sb_str (acc_text acc)) tools)"

definition result_lines :: "(string \<times> string \<times> string) list \<Rightarrow> string list option \<Rightarrow> string list" where
  "result_lines tools results =
     (case results of None \<Rightarrow> [] | Some cs \<Rightarrow> [json_text (tool_results_json (zip (map fst tools) cs))])"

lemma zip_some2: "zip (map Some xs) (map Some ys) = map some2 (zip xs ys)"
  by (induction xs ys rule: list_induct2') (simp_all add: some2_def)

lemma grows_save:
  assumes t: "tool_uses acc = map some3 tools" and ok: "\<forall>t \<in> set tools. input_ok (snd (snd t))"
    and cs: "\<forall>cs. results = Some cs \<longrightarrow> length cs = length tools"
  shows "grows ag r (save_reply ag acc results r) (reply_line acc tools # result_lines tools results)"
proof -
  let ?p = "sp_conversation (ag_paths ag)"
  have ids: "map ta_id (acc_tools acc) = map Some (map fst tools)"
  proof -
    have "map fst (tool_uses acc) = map fst (map some3 tools)" using t by simp
    then show ?thesis by (simp add: tool_uses_def comp_def some3_def case_prod_beta)
  qed
  have a: "assistant_line (sb_data (acc_thinking acc)) (sb_data (acc_text acc)) (tool_uses acc) = reply_line acc tools"
    unfolding reply_line_def t assistant_text [symmetric] by (simp add: assistant_line_def sb_str_def)
  have "log_file (r_fs (save_reply ag acc results r)) ?p (ls @ reply_line acc tools # result_lines tools results)"
    if l: "log_file (r_fs r) ?p ls" for ls
  proof -
    have lo: "line_ok (reply_line acc tools)" unfolding reply_line_def by (rule assistant_line_ok [OF ok])
    obtain fs1 where f1: "jsonl_append (r_fs r) ?p (reply_line acc tools) = (0, fs1)"
      "log_file fs1 ?p (ls @ [reply_line acc tools])" using log_file_append [OF l lo] by auto
    show ?thesis
    proof (cases results)
      case None
      then show ?thesis using f1 by (simp add: save_reply_def Let_def store_conv_add_assistant_def a result_lines_def)
    next
      case (Some cs)
      obtain fs2 where f2: "jsonl_append fs1 ?p (json_text (tool_results_json (zip (map fst tools) cs))) = (0, fs2)"
        "log_file fs2 ?p ((ls @ [reply_line acc tools]) @ [json_text (tool_results_json (zip (map fst tools) cs))])"
        using log_file_append [OF f1(2) tool_results_line_ok] by blast
      then show ?thesis using f1 Some
        by (simp add: save_reply_def Let_def store_conv_add_assistant_def a result_lines_def store_conv_add_tool_results_def
            ids zip_some2 tool_results_text del: map_map)
    qed
  qed
  then show ?thesis by (simp add: grows_def)
qed

text \<open>
  C2: A finished turn is recorded as a pair. After the reply and its tools ran, the conversation gains the
  line of the assistant, with every call, and, when the model stopped for its tools, one line with
  exactly one result for each call, under the call's id and in their order; results of background
  tasks that came in the meantime follow as messages of the user, but never between the two.
\<close>

theorem turn_recorded:
  assumes "session_files d (ag_paths ag)" "tool_uses acc = map some3 tools" "\<forall>t \<in> set tools. input_ok (snd (snd t))"
    and "run_tools ag acc (note_reply ag acc r) = (results, r1)" "log_file (r_fs r1) (sp_conversation (ag_paths ag)) ls"
    and "finish_turn ag acc r = (e, r')"
  shows "\<exists>new. log_file (r_fs r') (sp_conversation (ag_paths ag)) (ls @ reply_line acc tools # result_lines tools results @ new)
    \<and> user_lines new \<and> (tool_stop (acc_stop_reason acc) \<longrightarrow> new = [])
    \<and> (results \<noteq> None \<longleftrightarrow> tools \<noteq> [] \<and> tool_stop (acc_stop_reason acc))
    \<and> (\<forall>cs. results = Some cs \<longrightarrow> length cs = length tools)"
proof -
  have len: "length (acc_tools acc) = length tools" using arg_cong [OF assms(2), of length] by (simp add: tool_uses_def)
  then have none: "acc_tools acc = [] \<longleftrightarrow> tools = []" by (cases tools) auto
  have res: "results \<noteq> None \<longleftrightarrow> tools \<noteq> [] \<and> tool_stop (acc_stop_reason acc)"
    using assms(4) none by (auto simp: run_tools_def split: if_splits prod.splits)
  have cs: "\<forall>cs. results = Some cs \<longrightarrow> length cs = length tools"
    using assms(4) run_all_length [of ag "acc_tools acc" "note_reply ag acc r"] len
    by (auto simp: run_tools_def split: if_splits prod.splits)
  obtain new where n: "grows ag (save_reply ag acc results r1) (snd (end_turn ag acc (save_reply ag acc results r1))) new"
    "user_lines new" "tool_stop (acc_stop_reason acc) \<longrightarrow> new = []"
  proof (cases "tool_stop (acc_stop_reason acc)")
    case True
    moreover have "user_lines []" by (simp add: user_lines_def)
    ultimately show ?thesis using that grows_end(2) [OF assms(1)] by blast
  next
    case False
    then show ?thesis using that grows_end(1) [OF assms(1)] unfolding adds_user_def by blast
  qed
  have "r' = snd (end_turn ag acc (save_reply ag acc results r1))" using assms(4,6) by (simp add: finish_turn_def)
  then have "grows ag r1 r' ((reply_line acc tools # result_lines tools results) @ new)"
    using grows_trans [OF grows_save [OF assms(2,3) cs, of ag r1] n(1)] by simp
  then show ?thesis using assms(5) n(2,3) res cs by (auto simp: grows_def)
qed


section \<open>Requests that fail\<close>

lemma run_same_fold:
  assumes "\<And>r x. run_same P r (f r x)"
  shows "run_same P r (foldl f r xs)"
proof (induction xs arbitrary: r)
  case (Cons x xs)
  from run_same_trans [OF assms Cons] show ?case by simp
qed simp

lemma mark_crash_fs [simp]: "r_fs (mark_crash b r) = r_fs r"
  by (simp add: mark_crash_def)

lemma mark_crash_push: "run_same (side_files (ag_paths ag)) r (push_display_event ag m (mark_crash b r))"
  by (rule run_same_before [OF run_same_push]) simp

lemma run_same_stream: "run_same (side_files (ag_paths ag)) (snd st) (snd (foldl (stream_display_callback ag) st evs))"
proof (induction evs arbitrary: st)
  case (Cons e evs)
  have "run_same (side_files (ag_paths ag)) (snd st) (snd (stream_display_callback ag st e))"
    by (cases st) (simp add: stream_display_callback_def Let_def run_same_push split: sse_type.split)
  from run_same_trans [OF this Cons] show ?case by simp
qed simp

lemma stream_accum_fold: "fst (foldl (stream_display_callback ag) st evs) = foldl stream_accum (fst st) evs"
proof (induction evs arbitrary: st)
  case (Cons e evs)
  have "fst (stream_display_callback ag st e) = stream_accum (fst st) e"
    by (cases st) (simp add: stream_display_callback_def Let_def)
  with Cons show ?case by simp
qed simp

lemma run_same_note: "run_same (side_files (ag_paths ag)) r (note_reply ag acc r)"
proof -
  let ?P = "side_files (ag_paths ag)"
  have c: "run_same ?P r (foldl (show_call ag) r ts)" for r ts
    by (rule run_same_fold) (simp add: show_call_def Let_def mark_crash_push)
  have u: "run_same ?P r (note_usage ag acc r)" for r
  proof -
    obtain x y where x: "note_usage ag acc r = x \<or> note_usage ag acc r = stats_set ag ''current_context_tokens'' y x"
      "run_same ?P r x"
    proof (cases "0 < acc_in_tokens acc \<or> 0 < acc_out_tokens acc")
      case False
      then have "run_same ?P r (note_usage ag acc r)" by (simp add: note_usage_def Let_def run_same_def)
      then show ?thesis using that by blast
    next
      case True
      define r0 where "r0 = r\<lparr>r_last_in := acc_in_tokens acc, r_last_out := acc_out_tokens acc,
        r_last_cache_read := acc_cache_read_tokens acc, r_last_cache_creation := acc_cache_creation_tokens acc,
        r_last_context := s32 (acc_in_tokens acc + acc_out_tokens acc + acc_cache_read_tokens acc + acc_cache_creation_tokens acc),
        r_last_start_ms := acc_start_ms acc, r_last_end_ms := acc_end_ms acc\<rparr>"
      define x where "x = add_token_totals ag (acc_in_tokens acc) (acc_out_tokens acc) (acc_cache_read_tokens acc) (acc_cache_creation_tokens acc)
        (stats_bump ag ''agent_request_count'' 1 (push_display_event ag
          (display_msg_usage (acc_in_tokens acc) (acc_out_tokens acc) (acc_cache_read_tokens acc) (acc_cache_creation_tokens acc)) r0))"
      have "run_same ?P r0 x" unfolding x_def
        by (rule run_same_trans [OF run_same_trans [OF run_same_push run_same_bump] run_same_totals])
      then have "run_same ?P r x" by (rule run_same_before) (simp add: r0_def)
      moreover have "note_usage ag acc r = (if 0 < r_last_context x then stats_set ag ''current_context_tokens'' (r_last_context x) x else x)"
        unfolding note_usage_def Let_def r0_def [symmetric] x_def [symmetric] using True by simp
      ultimately show ?thesis using that by metis
    qed
    then show ?thesis using run_same_trans [OF x(2) run_same_stats_set] by metis
  qed
  have v: "run_same ?P r (note_speed ag acc r)" for r
    by (simp add: note_speed_def Let_def run_same_stats_set)
  from run_same_trans [OF run_same_trans [OF c u] v] show ?thesis
    by (simp add: note_reply_def Let_def run_same_def)
qed

lemma started_push [simp]: "r_started (push_display_event ag m x) = r_started x"
  by (auto simp: push_display_event_def display_only_push_def append_event_def split: option.split prod.split)

lemma started_stream: "r_started (snd (foldl (stream_display_callback ag) s evs)) = r_started (snd s)"
proof (induction evs arbitrary: s)
  case (Cons e evs)
  have "r_started (snd (stream_display_callback ag s e)) = r_started (snd s)"
    by (cases s) (simp add: stream_display_callback_def Let_def split: sse_type.split)
  with Cons show ?case by simp
qed simp

text \<open>The ways in which a turn ends with an error: what it shows leaves the conversation and the tasks
  alone.\<close>

lemma shown_keeps:
  assumes "session_files d (ag_paths ag)" "log_file (r_fs r2) (sp_conversation (ag_paths ag)) ls"
    and "run_same (side_files (ag_paths ag)) r2 x" "r_started x = r_started r2"
    and "y \<in> {show_stop ag t x, show_stop ag t (show_error ag u x)}"
  shows "log_file (r_fs y) (sp_conversation (ag_paths ag)) ls \<and> r_started y = r_started r2"
proof -
  have "run_same (side_files (ag_paths ag)) r2 y"
    using assms(3,5) run_same_trans run_same_push unfolding show_stop_def show_error_def by blast
  then have "log_file (r_fs y) (sp_conversation (ag_paths ag)) ls"
    using log_file_same session_files_distinct(1) [OF assms(1)] assms(2) by (auto simp: run_same_def)
  then show ?thesis using assms(4,5) by (auto simp: show_stop_def show_error_def)
qed

text \<open>
  C25: A request that fails leaves no trace in the conversation. When the transport gives up or the
  stream reports an error, the turn ends the run, nothing of the partial reply is saved and no tool
  runs: the conversation holds what was sent.
\<close>

theorem failed_request_keeps_conversation:
  assumes "session_files d (ag_paths ag)"
    and "r2 = snd (agent_compact_context ag ''auto'' (snd (agent_drain_sub_results ag (r\<lparr>r_interrupted := False\<rparr>))))"
    and "log_file (r_fs r2) (sp_conversation (ag_paths ag)) ls" "r_replies r2 = o1 # os"
    and "lo_rc o1 \<noteq> 0 \<or> acc_error (foldl stream_accum sse_accum_init (lo_events o1)) \<noteq> None"
    and "agent_turn ag r = (e, r')"
  shows "e \<in> {Return 0, Return (- 1)} \<and> log_file (r_fs r') (sp_conversation (ag_paths ag)) ls \<and> r_started r' = r_started r2"
proof -
  note keeps = shown_keeps [OF assms(1,3)]
  note unf = agent_turn_def assms(2) [symmetric] Let_def log_file_lines [OF assms(3)] prod.case
  show ?thesis
  proof (cases "build_claude_request (r_fs r2) (ag_model ag) (Some (system_prompt ag r2)) (Some (ag_tools_json ag))
                      (map Some ls) (ag_max_tokens ag) (ag_thinking ag) (ag_effort ag) (ag_vision ag)")
    case None
    then have r': "e = Return (- 1)" "r' = show_stop ag ''error'' (show_error ag ''Failed to build messages'' r2)"
      using assms(6) unfolding unf by simp_all
    then show ?thesis using keeps [OF run_same_refl, of r'] by blast
  next
    case (Some body)
    define r3 where "r3 = r2\<lparr>r_err := r_err r2 @ verbose_text ag (for_provider ag body)\<rparr>"
    obtain r4 where s: "send_request ag True (for_provider ag body) r3 = (lo_rc o1, lo_events o1, r4)"
      "r_fs r4 = r_fs r2" "r_started r4 = r_started r2"
      using assms(4) by (simp add: send_request_def Let_def r3_def)
    obtain acc r5 where f: "foldl (stream_display_callback ag) (sse_accum_init, r4) (lo_events o1) = (acc, r5)"
      by (cases "foldl (stream_display_callback ag) (sse_accum_init, r4) (lo_events o1)")
    have acc: "acc = foldl stream_accum sse_accum_init (lo_events o1)"
      using stream_accum_fold [of ag "(sse_accum_init, r4)" "lo_events o1"] f by simp
    have s5: "run_same (side_files (ag_paths ag)) r2 r5"
      using run_same_before [OF run_same_stream [of ag "(sse_accum_init, r4)" "lo_events o1"]] f s(2) by simp
    have st5: "r_started r5 = r_started r2" using started_stream [of ag "(sse_accum_init, r4)" "lo_events o1"] f s(3) by simp
    note one = keeps [OF s5 st5 insertI1] and two = keeps [OF s5 st5 insertI2 [OF singletonI]]
    show ?thesis
      using assms(5,6) one two unfolding unf acc [symmetric]
      by (auto simp: Some r3_def [symmetric] s(1) f split: if_splits option.splits)
  qed
qed


section \<open>Witnesses\<close>

definition call_acc :: sse_accum where
  "call_acc = sse_accum_init\<lparr>acc_tools := [\<lparr>ta_id = Some ''i'', ta_name = Some ''X'', ta_input = sb_append sb_init (Some ''{}'')\<rparr>],
     acc_stop_reason := Some ''tool_use''\<rparr>"

lemma unknown_call_same:
  assumes "ta_name tc = Some ''X''"
  shows "run_same (side_files (ag_paths ag)) r (snd (run_one ag tc r))"
proof -
  have "guarded ''X'' = False" by (simp add: guarded_def)
  then have "snd (tool_dispatch te fs ''X'' inp) = fs" for te fs inp by (simp add: tool_dispatch_def run_tool_def)
  then have "r_fs (snd (run_call ag tc x)) = r_fs x" for x
    using assms by (simp add: run_call_def call_name_def dispatch_def Let_def case_prod_beta)
  then show ?thesis
    using run_same_before [OF run_same_push] by (simp add: run_one_def Let_def case_prod_beta)
qed

lemma turn_recorded_witness:
  "\<exists>cs e r'. length cs = 1 \<and> finish_turn demo_ag call_acc (demo_run []) = (e, r')
     \<and> log_file (r_fs r') ''/s/conversation.jsonl''
         (demo_lines @ [reply_line call_acc [(''i'', ''X'', ''{}'')], json_text (tool_results_json (zip [''i''] cs))])"
proof -
  let ?r = "note_reply demo_ag call_acc (demo_run [])" and ?ts = "[(''i'', ''X'', ''{}'')]"
  have p: "ag_paths demo_ag = demo_paths" "sp_conversation demo_paths = ''/s/conversation.jsonl''"
    by (simp_all add: demo_ag_def demo_paths_def)
  have u: "tool_uses call_acc = map some3 ?ts"
    by (simp add: tool_uses_def call_acc_def some3_def sb_append_def sb_appendn_def sb_ensure_def sb_init_def Let_def)
  have ok: "\<forall>t \<in> set ?ts. input_ok (snd (snd t))" using empty_object_raw by (simp add: input_ok_def line_ok_def LF_def NUL_def)
  obtain tc where tc: "acc_tools call_acc = [tc]" "ta_name tc = Some ''X''" by (simp add: call_acc_def)
  obtain c r1 where c: "run_one demo_ag tc ?r = (c, r1)" by (cases "run_one demo_ag tc ?r")
  have s: "tool_stop (acc_stop_reason call_acc)" by (simp add: call_acc_def tool_stop_def)
  have run: "run_tools demo_ag call_acc ?r = (Some [c], r1)"
    using tc s c by (simp add: run_tools_def call_name_def)
  have "run_same (side_files demo_paths) (demo_run []) r1"
    using run_same_trans [OF run_same_note unknown_call_same [OF tc(2)], of demo_ag "demo_run []" call_acc] c p by simp
  then have l: "log_file (r_fs r1) (sp_conversation (ag_paths demo_ag)) demo_lines"
    using log_file_same [of session_fs] session_files_distinct(1) [OF demo_session(1)] demo_session(2)
    by (simp add: run_same_def p demo_run_def)
  obtain e r' where f: "finish_turn demo_ag call_acc (demo_run []) = (e, r')" by (cases "finish_turn demo_ag call_acc (demo_run [])")
  show ?thesis
    using turn_recorded [OF _ u ok run l f, of "''/s''"] s demo_session(1) f
    by (auto simp: p result_lines_def intro!: exI [of _ "[c]"])
qed

definition short_run :: "llm_outcome list \<Rightarrow> run" where
  "short_run os = (demo_run os)\<lparr>r_fs := fs_set session_fs ''/s/conversation.jsonl'' (join_lines [json_text (user_json ''a'')])\<rparr>"

lemma failed_request_keeps_conversation_witness:
  "\<exists>e r'. agent_turn demo_ag (short_run [\<lparr>lo_rc = - 1, lo_events = [text_event ''half''], lo_interrupted = False\<rparr>]) = (e, r')
     \<and> e \<in> {Return 0, Return (- 1)} \<and> log_file (r_fs r') ''/s/conversation.jsonl'' [json_text (user_json ''a'')]"
proof -
  let ?o = "\<lparr>lo_rc = - 1, lo_events = [text_event ''half''], lo_interrupted = False\<rparr>"
  let ?r = "short_run [?o]"
  have p: "ag_paths demo_ag = demo_paths" "sp_conversation demo_paths = ''/s/conversation.jsonl''"
    by (simp_all add: demo_ag_def demo_paths_def)
  define r1 where "r1 = snd (agent_drain_sub_results demo_ag (?r\<lparr>r_interrupted := False\<rparr>))"
  have r1: "r_fs r1 = r_fs ?r" "r_replies r1 = [?o]"
    by (simp_all add: r1_def agent_drain_sub_results_def short_run_def demo_run_def)
  have l: "log_file (r_fs r1) ''/s/conversation.jsonl'' [json_text (user_json ''a'')]"
    unfolding r1 using user_line_ok [of "''a''"] by (simp add: short_run_def log_file_def session_fs_def)
  then have "agent_compact_context demo_ag ''auto'' r1 = (0, r1)"
    using log_file_lines [OF l] by (simp add: agent_compact_context_def compact_choose_def compact_needed_def forced_def p)
  then have r2: "r1 = snd (agent_compact_context demo_ag ''auto'' (snd (agent_drain_sub_results demo_ag (?r\<lparr>r_interrupted := False\<rparr>))))"
    by (simp add: r1_def)
  obtain e r' where t: "agent_turn demo_ag ?r = (e, r')" by (cases "agent_turn demo_ag ?r")
  show ?thesis
    using failed_request_keeps_conversation [OF _ r2 _ r1(2) _ t, of "''/s''"] demo_session(1) l t by (auto simp: p)
qed

section \<open>Confirming a plan\<close>

lemma trim_same:
  assumes "session_files d p"
  shows "fs_same fs (snd (store_conv_trim_tail fs (sp_conversation p) k)) {sp_conversation p, archive_of d}"
proof -
  have a: "strrchr (sp_conversation p) (CHR ''/'') = Some ''/conversation.jsonl''" "d \<noteq> []" "last d \<noteq> CHR ''/''"
    using assms strrchr_last [of "''conversation.jsonl''" d] by (auto simp: session_files_def)
  have b: "util_path_join (take (length (sp_conversation p) - length ''/conversation.jsonl'') (sp_conversation p)) ''conversation-archive.jsonl''
      = archive_of d"
    using assms a(2,3) by (simp add: session_files_def util_path_join_def archive_of_def)
  show ?thesis
    unfolding store_conv_trim_tail_def Let_def a(1) option.case b
    by (auto simp: fs_append_def fs_write_def split: option.split)
qed

lemma run_same_compact:
  assumes "session_files d (ag_paths ag)"
  shows "run_same (side_files (ag_paths ag) \<union> {sp_summary (ag_paths ag), sp_conversation (ag_paths ag), archive_of d}) r
    (snd (agent_compact_context ag t r))"
proof -
  let ?P = "side_files (ag_paths ag) \<union> {sp_summary (ag_paths ag), sp_conversation (ag_paths ag), archive_of d}"
  have push: "run_same ?P x (push_display_event ag m x)" for x m by (rule run_same_mono [OF run_same_push]) auto
  have usage: "run_same ?P x (compact_usage ag acc x)" for x acc by (rule run_same_mono [OF run_same_usage]) auto
  have stored: "run_same ?P r1 (compact_done ag t keep n acc r1)" for keep n acc r1
  proof -
    define x where "x = r1\<lparr>r_fs := snd (store_summary_set (r_fs r1) (ag_paths ag) (sb_str (acc_text acc)))\<rparr>"
    define y where "y = (if keep < n then x\<lparr>r_fs := snd (store_conv_trim_tail (r_fs x) (sp_conversation (ag_paths ag)) keep)\<rparr> else x)"
    have "run_same ?P r1 x" unfolding x_def run_same_def store_summary_set_def by (simp add: fs_same_write)
    moreover have "run_same ?P x y" using trim_same [OF assms, of "r_fs x" keep] by (auto simp: y_def run_same_def fs_same_def)
    ultimately have y: "run_same ?P r1 (compact_usage ag acc y)" by (intro run_same_trans [OF run_same_trans usage])
    have "run_same ?P r1 (agent_update_title ag (compact_usage ag acc y))" using y by (simp add: run_same_def)
    from run_same_trans [OF this push] this show ?thesis
      unfolding compact_done_def Let_def x_def [symmetric] y_def [symmetric] by simp
  qed
  have "snd (agent_compact_context ag t r) = r \<or> r_fs (snd (agent_compact_context ag t r)) = r_fs r
    \<or> (\<exists>keep n acc r1. r_fs r1 = r_fs r \<and> snd (agent_compact_context ag t r) = compact_done ag t keep n acc r1)"
  proof (cases "compact_choose ag t r")
    case (KeepLines keep lines)
    show ?thesis
    proof (cases "side_request ag r (take (nat (int (length lines) - keep)) lines) (summary_instruction ag r) (ag_max_tokens ag)")
      case (Some body)
      obtain rc evs r1 where s: "send_request ag True (for_provider ag body) r = (rc, evs, r1)"
        by (cases "send_request ag True (for_provider ag body) r")
      have f: "r_fs r1 = r_fs r" by (rule send_request_fs [OF s])
      let ?acc = "accumulate sse_accum_init evs"
      show ?thesis
      proof (cases "rc \<noteq> 0 \<or> sb_len (acc_text ?acc) = 0")
        case True
        then show ?thesis using KeepLines Some s f by (auto simp: agent_compact_context_def Let_def compact_failed_def)
      next
        case False
        then have "snd (agent_compact_context ag t r) = compact_done ag t keep (int (length lines)) ?acc r1"
          using KeepLines Some s by (simp add: agent_compact_context_def Let_def)
        with f show ?thesis by blast
      qed
    qed (simp add: agent_compact_context_def KeepLines)
  qed (simp add: agent_compact_context_def)
  then show ?thesis
  proof (elim disjE exE conjE)
    fix keep n acc r1 assume "r_fs r1 = r_fs r" "snd (agent_compact_context ag t r) = compact_done ag t keep n acc r1"
    with run_same_before [OF stored] show ?thesis by metis
  qed (simp_all add: run_same_def)
qed


lemma plan_files_distinct:
  assumes "session_files d p"
  shows "{sp_plan p, sp_plan_draft p} \<inter> (side_files p \<union> {sp_summary p, sp_conversation p, archive_of d}) = {}"
    "sp_plan p \<noteq> sp_plan_draft p"
  using assms by (auto simp: session_files_def side_files_def archive_of_def)

text \<open>
  C37: Confirming a plan installs the draft. Whatever the compaction before it does, also when it fails,
  the plan file then holds the draft's text and the draft is empty; without a draft the plan stays.
  A file that refuses to be written keeps what it held, and since no return code is looked at, the draft
  is emptied even when the plan could not be written.
\<close>

theorem confirm_plan_installs:
  assumes "session_files d (ag_paths ag)" "fs_get (r_fs r) (sp_plan (ag_paths ag)) = Some old"
    and "fs_get (r_fs r) (sp_plan_draft (ag_paths ag)) = Some draft" "nulfree draft"
  shows "fs_get (r_fs (confirm_plan ag r)) (sp_plan (ag_paths ag))
      = Some (if draft = [] \<or> fs_rdonly (r_fs r) (sp_plan (ag_paths ag)) then old else draft)
    \<and> fs_get (r_fs (confirm_plan ag r)) (sp_plan_draft (ag_paths ag))
      = Some (if fs_rdonly (r_fs r) (sp_plan_draft (ag_paths ag)) then draft else [])"
proof -
  let ?p = "ag_paths ag" and ?r1 = "snd (agent_compact_context ag ''plan_confirm'' r)"
  note dist = plan_files_distinct [OF assms(1)]
  have same: "fs_same (r_fs r) (r_fs ?r1) (side_files ?p \<union> {sp_summary ?p, sp_conversation ?p, archive_of d})"
    using run_same_compact [OF assms(1), of r "''plan_confirm''"] by (simp add: run_same_def)
  have g: "fs_get (r_fs ?r1) (sp_plan ?p) = Some old" "fs_get (r_fs ?r1) (sp_plan_draft ?p) = Some draft"
    using fs_same_get [OF same, of "sp_plan ?p"] fs_same_get [OF same, of "sp_plan_draft ?p"] assms(2,3) dist(1) by auto
  have rd: "store_plan_draft_read (r_fs ?r1) ?p = Some draft"
    using g(2) assms(4) by (simp add: store_plan_draft_read_def util_read_file_def)
  show ?thesis
  proof (cases "draft = []")
    case True
    then show ?thesis using rd g by (simp add: confirm_plan_def Let_def)
  next
    case False
    have ro: "fs_rdonly (r_fs ?r1) = fs_rdonly (r_fs r)" by (rule fs_same_rdonly [OF same])
    obtain rc fs1 where w1: "util_write_file (r_fs ?r1) (sp_plan ?p) draft = (rc, fs1)"
      by (cases "util_write_file (r_fs ?r1) (sp_plan ?p) draft")
    note f1 = util_write_file_over [OF w1 g(1), unfolded ro]
    have d1: "fs_get fs1 (sp_plan_draft ?p) = Some draft"
      using fs_same_get [OF util_write_file_facts(4) [OF w1], of "sp_plan_draft ?p"] g(2) dist(2) by simp
    obtain rc2 fs2 where w2: "util_write_file fs1 (sp_plan_draft ?p) [] = (rc2, fs2)"
      by (cases "util_write_file fs1 (sp_plan_draft ?p) []")
    note f2 = util_write_file_over [OF w2 d1, unfolded f1(2)]
    have "fs_get fs2 (sp_plan ?p) = fs_get fs1 (sp_plan ?p)"
      using fs_same_get [OF util_write_file_facts(4) [OF w2], of "sp_plan ?p"] dist(2) by simp
    then show ?thesis using False rd w1 w2 f1 f2
      by (simp add: confirm_plan_def Let_def store_plan_set_def store_plan_draft_clear_def)
  qed
qed

lemma confirm_plan_installs_witness:
  "\<exists>r. fs_get (r_fs r) ''/s/plan.md'' = Some ''o'' \<and> fs_get (r_fs r) ''/s/plan.draft'' = Some ''p''
     \<and> fs_get (r_fs (confirm_plan demo_ag r)) ''/s/plan.md'' = Some ''p''
     \<and> fs_get (r_fs (confirm_plan demo_ag r)) ''/s/plan.draft'' = Some []"
proof -
  let ?r = "(demo_run [])\<lparr>r_fs := fs_set session_fs ''/s/plan.md'' ''o''\<rparr>"
  have p: "ag_paths demo_ag = demo_paths" "sp_plan demo_paths = ''/s/plan.md''" "sp_plan_draft demo_paths = ''/s/plan.draft''"
    by (simp_all add: demo_ag_def demo_paths_def)
  have g: "fs_get (r_fs ?r) ''/s/plan.md'' = Some ''o''" "fs_get (r_fs ?r) ''/s/plan.draft'' = Some ''p''"
    using demo_session(6) by (simp_all add: session_fs_def)
  have "nulfree ''p''" by (simp add: nulfree_def NUL_def)
  moreover have "fs_rdonly (r_fs ?r) = (\<lambda>_. False)" by (simp add: session_fs_def)
  ultimately show ?thesis using confirm_plan_installs [of "''/s''" demo_ag ?r "''o''" "''p''"]
    g demo_session(1) p by (intro exI [of _ ?r]) simp
qed

section \<open>Events of background tasks\<close>

lemma append_event_log:
  assumes "log_file (r_fs r) (sp_events (ag_paths ag)) es" "line_ok e"
  shows "log_file (r_fs (append_event ag e r)) (sp_events (ag_paths ag)) (es @ [e])"
proof -
  obtain fs' where "jsonl_append (r_fs r) (sp_events (ag_paths ag)) e = (0, fs')" "log_file fs' (sp_events (ag_paths ag)) (es @ [e])"
    using log_file_append [OF assms(1,2)] by blast
  then show ?thesis by (simp add: append_event_def store_event_append_def)
qed


text \<open>One result of a background command is written to the event log twice, as the same line.\<close>

lemma async_result_recorded_twice:
  assumes l: "log_file (r_fs r) (sp_events (ag_paths ag)) es" and q: "json_quote tid = QUOTE # tid @ [QUOTE]"
    and p: "process_result ag (MSG_ASYNC_TASK_RESULT (Some tid) code out) r = Some (c, k, r')"
  shows "log_file (r_fs r') (sp_events (ag_paths ag))
    (es @ [async_event (Some tid) code out, async_event (Some tid) code out])"
proof -
  let ?e = "async_event (Some tid) code out"
  let ?j = "JObj [(''type'', JStr ''async_task_result''), (''task_id'', JStr tid), (''exit_code'', JInt code),
    (''output'', JStr (opt_default [] out))]"
  have t: "json_quote ''async_task_result'' = QUOTE # ''async_task_result'' @ [QUOTE]"
    by (subst json_quote_plain; simp add: ord_def char_defs)
  have e: "?e = json_text ?j" by (simp add: async_event_def str_arg_def q t QUOTE_def)
  have ok: "line_ok ?e" unfolding e by (rule json_text_line_ok) (simp add: LF_def NUL_def)
  let ?r1 = "append_event ag ?e r"
  let ?r2 = "if 0 < r_active ?r1 then ?r1\<lparr>r_active := r_active ?r1 - 1\<rparr> else ?r1"
  let ?m = "display_msg_async_task_result (Some tid) code (Some (opt_default [] out))"
  have 1: "log_file (r_fs ?r2) (sp_events (ag_paths ag)) (es @ [?e])" using append_event_log [OF l ok] by simp
  have "display_msg_to_event ?m = Some ?e"
    by (simp add: display_msg_to_event_def display_msg_defs dm_text_def async_event_def str_arg_def q)
  then have "r_fs (push_display_event ag ?m ?r2) = r_fs (append_event ag ?e ?r2)" by (simp add: push_display_event_def)
  moreover have "r' = push_display_event ag ?m ?r2" using p by (simp add: process_result_def Let_def)
  ultimately show ?thesis using append_event_log [OF 1 ok] by simp
qed

end
