(* ===== verification/Background.thy ===== *)
theory Background
  imports StartUpProps MsgQueue AgentTurns
begin

text \<open>
  The threads behind a tool call (c/agent.c): a background Bash command and a sub-agent, from their
  start to the message with which they report.  What the child process did is a record; the requests
  of a sub-agent are a tape of its own run.  The sub-agent works on the files it finds: what other
  threads write while it runs is not modelled.
\<close>

section \<open>Reporting\<close>

definition agent_signal_notify :: "input_message msgqueue option \<Rightarrow> nat \<Rightarrow> input_message msgqueue option" where
  "agent_signal_notify input_queue node =
     (case input_queue of None \<Rightarrow> None | Some q \<Rightarrow> Some (snd (q_push q MSG_NOTIFY_PENDING node)))"

text \<open>The result goes to the queue of results; the wake-up only follows when it was accepted.\<close>

definition report_result :: "input_message \<Rightarrow> input_message msgqueue \<Rightarrow> input_message msgqueue option \<Rightarrow> nat \<Rightarrow> nat
    \<Rightarrow> input_message msgqueue \<times> input_message msgqueue option" where
  "report_result m sub_result_queue input_queue node1 node2 =
     (case q_push sub_result_queue m node1 of
        (ok, s) \<Rightarrow> (s, if ok then agent_signal_notify input_queue node2 else input_queue))"

section \<open>A Bash command in the background\<close>

text \<open>How the child ended, as \<open>fork\<close> and \<open>waitpid\<close> tell; whether \<open>mkstemp\<close> made a file, and what is in
  it when it is read (\<open>None\<close>: it cannot be opened).\<close>

datatype child_end = ForkFailed | WaitFailed | Exited int | Signaled int | OtherEnd

record bash_job =
  bj_temp :: bool
  bj_end :: child_end
  bj_content :: "string option"

fun child_exit_code :: "child_end \<Rightarrow> int" where
  "child_exit_code ForkFailed = 127"
| "child_exit_code WaitFailed = 127"
| "child_exit_code (Exited n) = n"
| "child_exit_code (Signaled n) = 128 + n"
| "child_exit_code OtherEnd = 1"

definition job_output :: "bash_job \<Rightarrow> string" where
  "job_output job =
     (case bj_content job of
        None \<Rightarrow> []
      | Some b \<Rightarrow>
          opt_default []
            (util_sanitize_utf8 (Some (c_string (if bj_end job = ForkFailed then ''Failed to fork async bash'' @ [LF] else b)))))"

definition async_bash_message :: "bash_job \<Rightarrow> string \<Rightarrow> input_message" where
  "async_bash_message job task_id =
     (if \<not> bj_temp job then MSG_ASYNC_TASK_RESULT (Some task_id) 1 (Some ''Failed to create temp file'')
      else MSG_ASYNC_TASK_RESULT (Some task_id) (child_exit_code (bj_end job)) (Some (job_output job)))"

definition async_bash_thread_fn :: "bash_job \<Rightarrow> string \<Rightarrow> input_message msgqueue \<Rightarrow> input_message msgqueue option
    \<Rightarrow> nat \<Rightarrow> nat \<Rightarrow> input_message msgqueue \<times> input_message msgqueue option" where
  "async_bash_thread_fn job task_id sub_result_queue input_queue node1 node2 =
     report_result (async_bash_message job task_id) sub_result_queue input_queue node1 node2"

section \<open>A sub-agent\<close>

text \<open>The agent of the thread: its own session, no skills, no queues, and the limits of its parent.  The
  flag for stream-json lines is local to each thread and off in this one.\<close>

definition sub_agent_of :: "sysenv \<Rightarrow> agent \<Rightarrow> string \<Rightarrow> run \<Rightarrow> agent \<times> run" where
  "sub_agent_of se parent sub_session_id r =
     (let (sub, r1) = agent_create se False (ag_provider parent) (ag_model parent) (ag_api_key parent)
                        (ag_base_url parent) (ag_cwd parent) (ag_home parent) sub_session_id False [] False r
      in (sub\<lparr>ag_verbose := False, ag_max_turns := ag_max_turns parent, ag_max_tokens := ag_max_tokens parent,
             ag_max_context_tokens := ag_max_context_tokens parent, ag_tool_timeout_secs := ag_tool_timeout_secs parent,
             ag_tool_result_max_bytes := ag_tool_result_max_bytes parent,
             ag_sub_agent_depth := ag_sub_agent_depth parent + 1,
             ag_dp_cfg := dp_config_init (se_env se) (ag_max_context_tokens parent),
             ag_thinking := ag_thinking parent, ag_effort := ag_effort parent\<rparr>, r1))"

definition copy_parent :: "agent \<Rightarrow> string \<Rightarrow> run \<Rightarrow> run" where
  "copy_parent parent sub_session_id r =
     (case store_session_init_sub False (r_fs r) (ag_paths parent)
             (store_session_paths_for (ag_home parent) (Some (ag_cwd parent)) sub_session_id) True of
        (rc, fs', out) \<Rightarrow> r\<lparr>r_fs := fs', r_out := r_out r @ out\<rparr>)"

definition sub_agent_result :: "agent \<Rightarrow> string \<Rightarrow> int \<Rightarrow> run \<Rightarrow> agent_result" where
  "sub_agent_result sub sub_session_id rc r =
     (case last_answer (snd (store_conv_line_count (r_fs r) (sp_conversation (ag_paths sub)))) of
        (thinking, answer) \<Rightarrow>
          \<lparr>ar_session_id = Some sub_session_id, ar_status = Some (if rc = 0 then ''ok'' else ''failed''),
           ar_thinking = thinking, ar_text = Some (opt_default [] answer),
           ar_in_tokens = r_last_in r, ar_out_tokens = r_last_out r, ar_cache_read_tokens = r_last_cache_read r,
           ar_cache_creation_tokens = r_last_cache_creation r,
           ar_request_count = store_stats_get_file_int (r_fs r) (sp_stats (ag_paths sub)) ''agent_request_count''\<rparr>)"

text \<open>The run of the sub-agent and its result; \<open>late\<close> are the results of its own background tasks that
  arrive while it waits for them at the end.\<close>

definition sub_agent_run :: "sysenv \<Rightarrow> agent \<Rightarrow> string \<Rightarrow> bool \<Rightarrow> string \<Rightarrow> input_message list \<Rightarrow> run \<Rightarrow> agent_result \<times> run" where
  "sub_agent_run se parent prompt fork_mode sub_session_id late r =
     (let (sub, r1) = sub_agent_of se parent sub_session_id r;
          r2 = (if fork_mode then copy_parent parent sub_session_id r1 else r1);
          (rc, r3) = agent_loop sub (Some prompt) (Some ''user_input'') r2;
          (waited, r4) = agent_wait_for_sub_agents sub late r3;
          rc' = (if waited \<noteq> 0 \<and> rc = 0 then - 1 else rc)
      in (sub_agent_result sub sub_session_id rc' r4, r4))"

definition create_failed :: "string \<Rightarrow> agent_result" where
  "create_failed sub_session_id =
     \<lparr>ar_session_id = Some sub_session_id, ar_status = Some ''failed'', ar_thinking = None,
      ar_text = Some ''Failed to create sub-agent'', ar_in_tokens = 0, ar_out_tokens = 0, ar_cache_read_tokens = 0,
      ar_cache_creation_tokens = 0, ar_request_count = 0\<rparr>"

text \<open>\<open>created\<close>: whether \<open>agent_create\<close> found memory.  The fork of the session was made by the parent.\<close>

definition sub_agent_thread_fn :: "sysenv \<Rightarrow> bool \<Rightarrow> agent \<Rightarrow> string \<Rightarrow> string \<Rightarrow> input_message list \<Rightarrow> run
    \<Rightarrow> input_message msgqueue \<Rightarrow> input_message msgqueue option \<Rightarrow> nat \<Rightarrow> nat
    \<Rightarrow> input_message msgqueue \<times> input_message msgqueue option" where
  "sub_agent_thread_fn se created parent prompt sub_session_id late r sub_result_queue input_queue node1 node2 =
     report_result
       (MSG_AGENT_RESULT
          (if created then fst (sub_agent_run se parent prompt False sub_session_id late r) else create_failed sub_session_id))
       sub_result_queue input_queue node1 node2"

section \<open>A result is delivered\<close>

lemma report_result_queues:
  assumes "mq_inv s" "q_fresh s n1" "mq_inv i" "q_fresh i n2" "\<not> mq_closed i"
    and "report_result m s (Some i) n1 n2 = (s', Some i')"
  shows "mq_inv s' \<and> mq_inv i'
    \<and> (if mq_closed s then s' = s \<and> i' = i
       else mq_list s' = mq_list s @ [m] \<and> mq_list i' = mq_list i @ [MSG_NOTIFY_PENDING])"
proof (cases "mq_closed s")
  case True
  then show ?thesis using mq.push_closed [of s m n1] assms by (auto simp: report_result_def)
next
  case False
  have "fst (q_push s m n1)" "mq_list (snd (q_push s m n1)) = mq_list s @ [m]" "mq_inv (snd (q_push s m n1))"
    using mq.push_open [OF assms(1,2) False] by simp_all
  moreover have "mq_list (snd (q_push i MSG_NOTIFY_PENDING n2)) = mq_list i @ [MSG_NOTIFY_PENDING]"
    "mq_inv (snd (q_push i MSG_NOTIFY_PENDING n2))"
    using mq.push_open [OF assms(3,4,5)] by simp_all
  ultimately show ?thesis
    using False assms(6) by (auto simp: report_result_def agent_signal_notify_def split: prod.splits if_splits)
qed

text \<open>Whatever happens, a sub-agent says which session it is, whether it failed, and a text.\<close>

definition answered :: "string \<Rightarrow> agent_result \<Rightarrow> bool" where
  "answered sid res \<longleftrightarrow>
     ar_session_id res = Some sid \<and> ar_text res \<noteq> None \<and> ar_status res \<in> {Some ''ok'', Some ''failed''}"

lemma answered_result: "answered sid (sub_agent_result sub sid rc r)" "answered sid (create_failed sid)"
  by (simp_all add: answered_def sub_agent_result_def create_failed_def case_prod_beta)

lemma answered_run: "answered sid (fst (sub_agent_run se parent prompt f sid late r))"
  by (simp add: sub_agent_run_def case_prod_beta Let_def answered_result)

text \<open>
  A finished task wakes an idle agent. The message of a background command or a sub-agent is the
  last one of the queue of results, whatever became of the process or the requests, and a wake-up follows
  in the input queue; once the agent has closed its queue of results nothing is queued and nobody is woken.
\<close>

lemma task_reports_once:
  assumes "mq_inv s" "q_fresh s n1" "mq_inv i" "q_fresh i n2" "\<not> mq_closed i"
    and "(s', Some i') \<in> {async_bash_thread_fn job tid s (Some i) n1 n2,
                           sub_agent_thread_fn se created parent prompt tid late r s (Some i) n1 n2}"
  shows "if mq_closed s then s' = s \<and> i' = i
    else (\<exists>m. mq_list s' = mq_list s @ [m] \<and> mq_list i' = mq_list i @ [MSG_NOTIFY_PENDING] \<and>
           ((\<exists>code out. m = MSG_ASYNC_TASK_RESULT (Some tid) code (Some out))
            \<or> (\<exists>res. m = MSG_AGENT_RESULT res \<and> answered tid res)))"
proof -
  obtain m where m: "report_result m s (Some i) n1 n2 = (s', Some i')"
    and k: "(\<exists>code out. m = MSG_ASYNC_TASK_RESULT (Some tid) code (Some out)) \<or> (\<exists>res. m = MSG_AGENT_RESULT res \<and> answered tid res)"
    using assms(6) answered_run answered_result(2)
    by (auto simp: async_bash_thread_fn_def sub_agent_thread_fn_def async_bash_message_def split: if_splits)
  show ?thesis using report_result_queues [OF assms(1-5) m] k by auto
qed

lemma task_reports_once_witness:
  "\<exists>s' i' m. async_bash_thread_fn \<lparr>bj_temp = True, bj_end = Signaled 9, bj_content = Some ''x''\<rparr> ''t'' mq_init (Some mq_init) 1 2 = (s', Some i')
     \<and> mq_list s' = [m] \<and> mq_list i' = [MSG_NOTIFY_PENDING]"
proof -
  let ?j = "\<lparr>bj_temp = True, bj_end = Signaled 9, bj_content = Some ''x''\<rparr>"
  let ?q = "mq_init :: input_message msgqueue"
  have q: "mq_inv ?q" "q_fresh ?q 1" "q_fresh ?q 2" "\<not> mq_closed ?q" "mq_list ?q = []"
    using mq_init_facts by (simp_all add: q_fresh_def mq_init_def)
  obtain s' i' where d: "async_bash_thread_fn ?j ''t'' ?q (Some ?q) 1 2 = (s', Some i')"
    by (cases "async_bash_thread_fn ?j ''t'' ?q (Some ?q) 1 2")
      (auto simp: async_bash_thread_fn_def report_result_def agent_signal_notify_def split: prod.splits if_splits)
  then show ?thesis
    using task_reports_once [OF q(1) q(2) q(1) q(3) q(4), where s' = s' and i' = i' and job = ?j and tid = "''t''"] q by auto
qed

section \<open>Results in the conversation\<close>

text \<open>What a message of the queue of results adds to the conversation.\<close>

fun result_text :: "input_message \<Rightarrow> string option" where
  "result_text (MSG_AGENT_RESULT res) = Some (sub_agent_context res)"
| "result_text (MSG_ASYNC_TASK_RESULT task_id exit_code output) = Some (async_context task_id exit_code output)"
| "result_text (MSG_USER_NOTIFY t) = Some (opt_default [] t)"
| "result_text (MSG_USER_INPUT t) = None"
| "result_text MSG_NOTIFY_PENDING = None"

lemma process_result_text: "map_option fst (process_result ag m r) = result_text m"
  by (cases m) (simp_all add: process_result_def Let_def)

definition result_texts :: "input_message list \<Rightarrow> string list" where
  "result_texts ms = List.map_filter result_text ms"

lemma result_texts_simps [simp]:
  "result_texts [] = []"
  "result_texts (m # ms) = (case result_text m of None \<Rightarrow> result_texts ms | Some t \<Rightarrow> t # result_texts ms)"
  by (simp_all add: result_texts_def map_filter_simps split: option.split)

definition as_user_lines :: "string list \<Rightarrow> string list" where
  "as_user_lines ts = map (\<lambda>t. json_text (user_json t)) ts"

lemma grows_process:
  assumes "session_files d (ag_paths ag)"
  shows "grows ag r (snd (agent_process_sub_result ag m r)) (as_user_lines (case result_text m of None \<Rightarrow> [] | Some t \<Rightarrow> [t]))
    \<and> fst (agent_process_sub_result ag m r) = (if result_text m = None then 0 else 1)"
proof (cases "process_result ag m r")
  case None
  then have "result_text m = None" using process_result_text [of ag m r] by simp
  with None show ?thesis by (simp add: agent_process_sub_result_def as_user_lines_def)
next
  case (Some x)
  obtain c k r1 where x: "x = (c, k, r1)" by (cases x)
  have "result_text m = Some c" using process_result_text [of ag m r] Some x by simp
  moreover have "grows ag r (conv_add_user ag c r1) ([] @ [json_text (user_json c)])"
    by (rule grows_trans [OF grows_same [OF assms run_same_process] grows_user]) (use Some x in simp)
  ultimately show ?thesis using Some x by (simp add: agent_process_sub_result_def as_user_lines_def)
qed

lemma grows_drain_fold:
  assumes "session_files d (ag_paths ag)"
  shows "grows ag (snd st) (snd (foldl (drain_step ag) st ms)) (as_user_lines (result_texts ms))
    \<and> fst (foldl (drain_step ag) st ms) = fst st + int (length (result_texts ms))"
proof (induction ms arbitrary: st)
  case Nil
  show ?case by (simp add: as_user_lines_def)
next
  case (Cons m ms)
  let ?st = "drain_step ag st m"
  have 1: "grows ag (snd st) (snd ?st) (as_user_lines (case result_text m of None \<Rightarrow> [] | Some t \<Rightarrow> [t]))"
    and n: "fst ?st = fst st + (if result_text m = None then 0 else 1)"
    using grows_process [OF assms, of "snd st" m] by (auto simp: drain_step_def case_prod_beta)
  show ?case
    using grows_trans [OF 1 conjunct1 [OF Cons [of ?st]]] Cons [of ?st] n
    by (cases "result_text m") (simp_all add: as_user_lines_def)
qed

lemma subq_process: "process_result ag m r = Some (c, k, r') \<Longrightarrow> r_subq r' = r_subq r"
proof -
  have 1: "r_subq (append_event ag e x) = r_subq x" "r_subq (display_only_push ag y x) = r_subq x"
    "r_subq (stats_bump ag k v x) = r_subq x" "r_subq (agent_update_title ag x) = r_subq x" for e x y k v
    by (simp_all add: append_event_def display_only_push_def stats_bump_def stats_set_def update_title_status_def
        agent_update_title_def split: prod.split)
  have 2: "r_subq (push_display_event ag y x) = r_subq x" "r_subq (add_token_totals ag i out cr cc x) = r_subq x" for x y i out cr cc
    by (simp_all add: push_display_event_def add_token_totals_def 1 split: option.split)
  show "process_result ag m r = Some (c, k, r') \<Longrightarrow> r_subq r' = r_subq r"
    by (auto simp: process_result_def agent_handle_sub_agent_result_def Let_def 1 2 split: input_message.splits)
qed

lemma subq_drain_fold: "r_subq (snd (foldl (drain_step ag) st ms)) = r_subq (snd st)"
proof (induction ms arbitrary: st)
  case (Cons m ms)
  have "r_subq (snd (drain_step ag st m)) = r_subq (snd st)"
    by (auto simp: drain_step_def case_prod_beta agent_process_sub_result_def conv_add_user_def dest: subq_process
        split: option.split)
  with Cons show ?case by simp
qed simp

lemma drained_in_order:
  assumes "session_files d (ag_paths ag)" "log_file (r_fs r) (sp_conversation (ag_paths ag)) ls"
    and "agent_drain_sub_results ag r = (n, r')"
  shows "log_file (r_fs r') (sp_conversation (ag_paths ag)) (ls @ as_user_lines (result_texts (r_subq r @ concat (take 1 (r_arrivals r)))))
    \<and> n = int (length (result_texts (r_subq r @ concat (take 1 (r_arrivals r))))) \<and> r_subq r' = []"
proof -
  define arr r0 where "arr = concat (take 1 (r_arrivals r))" and "r0 = r\<lparr>r_subq := [], r_arrivals := tl (r_arrivals r)\<rparr>"
  have d: "agent_drain_sub_results ag r = foldl (drain_step ag) (0, r0) (r_subq r @ arr)"
    by (cases "r_arrivals r") (simp_all add: agent_drain_sub_results_def arr_def r0_def)
  have f: "foldl (drain_step ag) (0, r0) (r_subq r @ arr) = (n, r')" using assms(3) unfolding d .
  have "grows ag r0 r' (as_user_lines (result_texts (r_subq r @ arr)))" "n = int (length (result_texts (r_subq r @ arr)))"
    using grows_drain_fold [OF assms(1), of "(0, r0)" "r_subq r @ arr"] unfolding f by simp_all
  moreover have "r_subq r' = []" using subq_drain_fold [of ag "(0, r0)" "r_subq r @ arr"] unfolding f by (simp add: r0_def)
  moreover have "log_file (r_fs r0) (sp_conversation (ag_paths ag)) ls" using assms(2) by (simp add: r0_def)
  ultimately show ?thesis by (simp add: grows_def arr_def)
qed

text \<open>
  Every result that is waiting enters the conversation once and in order: draining the queue adds one
  user line for each result of a sub-agent, each result of a command and each note of the user, those
  queued before those that arrive meanwhile, counts them, and adds nothing else.
\<close>

lemma results_enter_in_order:
  assumes "session_files d (ag_paths ag)" "log_file (r_fs r) (sp_conversation (ag_paths ag)) ls"
    and "agent_drain_sub_results ag r = (n, r')"
  shows "log_file (r_fs r') (sp_conversation (ag_paths ag)) (ls @ as_user_lines (result_texts (r_subq r @ concat (take 1 (r_arrivals r)))))
    \<and> n = int (length (result_texts (r_subq r @ concat (take 1 (r_arrivals r))))) \<and> r_subq r' = []"
  using drained_in_order [OF assms] .

lemma results_enter_in_order_witness:
  "\<exists>n r'. agent_drain_sub_results demo_ag ((demo_run [])\<lparr>r_subq := [MSG_USER_NOTIFY (Some ''note''), MSG_NOTIFY_PENDING]\<rparr>) = (n, r')
     \<and> log_file (r_fs r') ''/s/conversation.jsonl'' (demo_lines @ [json_text (user_json ''note'')]) \<and> n = 1"
proof -
  let ?r = "(demo_run [])\<lparr>r_subq := [MSG_USER_NOTIFY (Some ''note''), MSG_NOTIFY_PENDING]\<rparr>"
  obtain n r' where d: "agent_drain_sub_results demo_ag ?r = (n, r')" by (cases "agent_drain_sub_results demo_ag ?r")
  have p: "ag_paths demo_ag = demo_paths" "sp_conversation demo_paths = ''/s/conversation.jsonl''"
    by (simp_all add: demo_ag_def demo_paths_def)
  have q: "result_texts (r_subq ?r @ concat (take 1 (r_arrivals ?r))) = [''note'']"
    by (simp add: demo_run_def)
  have "log_file (r_fs ?r) (sp_conversation (ag_paths demo_ag)) demo_lines"
    using demo_session(2) by (simp add: p demo_run_def)
  then show ?thesis
    using results_enter_in_order [of "''/s''" demo_ag ?r demo_lines n r'] demo_session(1) d unfolding q p
    by (simp add: as_user_lines_def)
qed

section \<open>No nesting\<close>

text \<open>The sub-agents a run has started; only looked at when the agent is one itself.\<close>

fun is_sub_task :: "task \<Rightarrow> bool" where
  "is_sub_task (SubAgentTask sid p d fork) = True"
| "is_sub_task (BashTask cmd task_id) = False"

definition nested :: "agent \<Rightarrow> run \<Rightarrow> task list" where
  "nested ag r = (if 1 \<le> ag_sub_agent_depth ag then filter is_sub_task (r_started r) else [])"

interpretation ns: quiet_view ag "nested ag" for ag
proof (unfold_locales, goal_cases)
  case (20 u b r rc evs r')
  then show ?case by (cases "r_replies r") (auto simp: send_request_def Let_def nested_def)
qed (simp_all add: nested_def spawn_def split: list.split)

lemma nested_sub_agent_of:
  "nested ag (snd (sub_agent_of se parent sid r)) = nested ag r" "nested ag (copy_parent parent sid r) = nested ag r"
  by (simp_all add: sub_agent_of_def agent_create_def new_session_def copy_parent_def case_prod_beta Let_def)

text \<open>
  C7: A sub-agent never starts another sub-agent: over its whole run, with all its turns, tool calls,
  compactions and the results it waits for, whatever the model asks, the threads it starts are Bash
  commands only.
\<close>

theorem sub_agents_do_not_nest:
  assumes "0 \<le> ag_sub_agent_depth parent" "r_started r = []"
    and "sub_agent_run se parent prompt fork_mode sid late r = (res, r')"
  shows "\<forall>t \<in> set (r_started r'). \<exists>cmd task_id. t = BashTask cmd task_id"
proof -
  define sub where "sub = fst (sub_agent_of se parent sid r)"
  have depth: "1 \<le> ag_sub_agent_depth sub"
    using assms(1) by (simp add: sub_def sub_agent_of_def case_prod_beta Let_def)
  have "nested sub r' = nested sub r"
    using assms(3) by (auto simp: sub_agent_run_def case_prod_beta Let_def sub_def nested_sub_agent_of)
  then have "filter is_sub_task (r_started r') = []" using depth assms(2) by (simp add: nested_def)
  then have "\<forall>t \<in> set (r_started r'). \<not> is_sub_task t" by (simp add: filter_empty_conv)
  then show ?thesis by (metis is_sub_task.elims(3))
qed

lemma sub_agents_do_not_nest_witness:
  "\<exists>res r'. sub_agent_run demo_se demo_ag ''p'' False ''sub_1'' [] (demo_run []) = (res, r')
     \<and> (\<forall>t \<in> set (r_started r'). \<exists>cmd task_id. t = BashTask cmd task_id)"
proof -
  obtain res r' where r: "sub_agent_run demo_se demo_ag ''p'' False ''sub_1'' [] (demo_run []) = (res, r')"
    by (cases "sub_agent_run demo_se demo_ag ''p'' False ''sub_1'' [] (demo_run [])")
  have "0 \<le> ag_sub_agent_depth demo_ag" "r_started (demo_run []) = []" by (simp_all add: demo_ag_def demo_run_def)
  from sub_agents_do_not_nest [OF this r] r show ?thesis by blast
qed

end
