(* ===== verification/LineInput.thy ===== *)
theory LineInput
  imports Background
begin

text \<open>
  The terminal thread (c/readline.c): the loop over the lines the user types, the interrupt, and the
  note that is put into a running conversation.  The vendored line editor is what it returns: a line,
  an interrupt, the end of input, or that it cannot be started.
\<close>

section \<open>Lines\<close>

definition MAX_LINE :: nat where
  "MAX_LINE = 65536"

definition build_history_path :: "string option \<Rightarrow> string" where
  "build_history_path home = opt_default ''/'' home @ ''/.bash-agent/history''"

datatype edit_result = Entered string | CtrlC | EndOfInput | CannotStart

text \<open>One pass of the loop: what the editor returned, whether the agent was running then, and whether
  the agent had closed the input queue.\<close>

record edit =
  ed_result :: edit_result
  ed_running :: bool
  ed_closed :: bool

record terminal =
  tm_queue :: "input_message list"
  tm_closed :: bool
  tm_history :: "string list"
  tm_interrupted :: bool
  tm_err :: string

definition typed_line :: "string \<Rightarrow> string" where
  "typed_line t = util_rtrim (take (MAX_LINE - 1) t)"

definition tm_close :: "terminal \<Rightarrow> terminal" where
  "tm_close tm = tm\<lparr>tm_closed := True\<rparr>"

text \<open>The queue refuses when it is closed.\<close>

definition tm_push :: "bool \<Rightarrow> string \<Rightarrow> terminal \<Rightarrow> terminal" where
  "tm_push shut line tm =
     (if shut then tm else tm\<lparr>tm_queue := tm_queue tm @ [MSG_USER_INPUT (Some line)]\<rparr>)"

definition is_exit :: "string \<Rightarrow> bool" where
  "is_exit line \<longleftrightarrow> line = ''exit'' \<or> line = ''quit''"

text \<open>The loop; at the end of the list it waits for the user.\<close>

fun readline_loop :: "edit list \<Rightarrow> terminal \<Rightarrow> terminal" where
  "readline_loop [] tm = tm"
| "readline_loop (e # es) tm =
     (case ed_result e of
        CannotStart \<Rightarrow> tm_close tm
      | CtrlC \<Rightarrow> readline_loop es (if ed_running e then tm\<lparr>tm_interrupted := True\<rparr> else tm)
      | EndOfInput \<Rightarrow> tm_close (tm\<lparr>tm_err := tm_err tm @ [LF]\<rparr>)
      | Entered t \<Rightarrow>
          (let line = typed_line t in
           if line = [] then readline_loop es tm
           else if is_exit line then tm_close tm
           else let tm' = tm_push (ed_closed e) line (tm\<lparr>tm_history := tm_history tm @ [line]\<rparr>)
                in if ed_closed e then tm_close tm' else readline_loop es tm'))"

text \<open>A terminal that is not interactive is read to its end, or to the line for which the queue is found
  closed.\<close>

definition readline_batch :: "string \<Rightarrow> nat option \<Rightarrow> terminal \<Rightarrow> terminal" where
  "readline_batch stdin shut tm =
     (let ls = input_lines stdin
      in tm_close (foldl (\<lambda>t l. tm_push False l t) tm (case shut of None \<Rightarrow> ls | Some n \<Rightarrow> take n ls)))"

text \<open>The directory of the history file is made first.\<close>

definition readline_thread_fn :: "bool \<Rightarrow> string option \<Rightarrow> edit list \<Rightarrow> string \<Rightarrow> nat option \<Rightarrow> fsys \<times> terminal \<Rightarrow> fsys \<times> terminal" where
  "readline_thread_fn interactive home edits stdin shut st =
     (if interactive
      then (snd (fs_mkdir (fst st) (dir_of (build_history_path home))), readline_loop edits (snd st))
      else (fst st, readline_batch stdin shut (snd st)))"

text \<open>The handler of \<open>SIGINT\<close>.\<close>

definition sigint_handler :: "terminal \<Rightarrow> terminal" where
  "sigint_handler tm = tm\<lparr>tm_interrupted := True\<rparr>"

section \<open>Notes\<close>

text \<open>Ctrl+O: the text in the editor goes to the queue of results, with a wake-up after it.  The queues
  are there once \<open>readline_set_inject_queues\<close> has set them.\<close>

definition inject_callback :: "string option \<Rightarrow> nat \<Rightarrow> (input_message msgqueue \<times> input_message msgqueue) option \<Rightarrow> nat \<Rightarrow> nat
    \<Rightarrow> int \<times> (input_message msgqueue \<times> input_message msgqueue) option" where
  "inject_callback buf len queues node1 node2 =
     (case (buf, queues) of
        (Some b, Some (s, i)) \<Rightarrow>
          if len = 0 then (1, queues)
          else (case q_push s (MSG_USER_NOTIFY (Some (c_string (take len b)))) node1 of
                  (ok, s') \<Rightarrow>
                    if ok then (0, Some (s', snd (q_push i MSG_NOTIFY_PENDING node2))) else (1, Some (s', i)))
      | _ \<Rightarrow> (1, queues))"

section \<open>What reaches the agent\<close>

text \<open>The passes before the loop ends.\<close>

definition goes_on :: "edit \<Rightarrow> bool" where
  "goes_on e \<longleftrightarrow>
     (case ed_result e of
        Entered t \<Rightarrow> typed_line t = [] \<or> \<not> is_exit (typed_line t) \<and> \<not> ed_closed e
      | CtrlC \<Rightarrow> True | _ \<Rightarrow> False)"

fun sent_line :: "edit_result \<Rightarrow> string option" where
  "sent_line (Entered t) = (if typed_line t = [] then None else Some (typed_line t))"
| "sent_line CtrlC = None"
| "sent_line EndOfInput = None"
| "sent_line CannotStart = None"

definition sent_lines :: "edit list \<Rightarrow> string list" where
  "sent_lines es = List.map_filter (\<lambda>e. sent_line (ed_result e)) (takeWhile goes_on es)"

lemma sent_lines_simps [simp]:
  "sent_lines [] = []"
  "sent_lines (e # es) =
     (if goes_on e then (case sent_line (ed_result e) of None \<Rightarrow> sent_lines es | Some l \<Rightarrow> l # sent_lines es) else [])"
  by (simp_all add: sent_lines_def map_filter_simps split: option.split)

lemma rtrim_last: "util_rtrim s \<noteq> [] \<Longrightarrow> \<not> is_trim (last (util_rtrim s))"
  using hd_dropWhile [of is_trim "rev s"] by (simp add: util_rtrim_def last_rev)

text \<open>
  C19: The agent is sent what the user typed, and nothing else: up to the first line \<open>exit\<close> or \<open>quit\<close>, the
  end of the input or the closing of the queue, the input queue gets each line without its trailing
  blanks, in order, the empty ones left out; an interrupt sends nothing, and the queue is closed exactly
  when the loop has ended.
\<close>

theorem readline_sends_lines:
  "tm_queue (readline_loop es tm) = tm_queue tm @ map (\<lambda>l. MSG_USER_INPUT (Some l)) (sent_lines es)
   \<and> (\<forall>l \<in> set (sent_lines es). l \<noteq> [] \<and> \<not> is_trim (last l) \<and> length l < MAX_LINE)
   \<and> (tm_closed (readline_loop es tm) \<longleftrightarrow> tm_closed tm \<or> \<not> list_all goes_on es)"
proof -
  have 1: "tm_queue (readline_loop es tm) = tm_queue tm @ map (\<lambda>l. MSG_USER_INPUT (Some l)) (sent_lines es)"
    by (induction es arbitrary: tm) (simp_all add: Let_def tm_push_def tm_close_def goes_on_def split: edit_result.split)
  have "typed_line t \<noteq> [] \<Longrightarrow> \<not> is_trim (last (typed_line t)) \<and> length (typed_line t) < MAX_LINE" for t
  proof -
    obtain u where "take (MAX_LINE - 1) t = typed_line t @ u"
      using util_rtrim_prefix [of "take (MAX_LINE - 1) t"] by (auto simp: typed_line_def)
    then have "length (typed_line t) \<le> MAX_LINE - 1" by (metis append_eq_conv_conj length_take min.cobounded2 min.coboundedI1 take_take)
    then show "typed_line t \<noteq> [] \<Longrightarrow> \<not> is_trim (last (typed_line t)) \<and> length (typed_line t) < MAX_LINE"
      using rtrim_last by (auto simp: typed_line_def MAX_LINE_def)
  qed
  then have "sent_line x = Some l \<Longrightarrow> l \<noteq> [] \<and> \<not> is_trim (last l) \<and> length l < MAX_LINE" for x l
    by (cases x) (auto split: if_splits)
  then have 2: "\<forall>l \<in> set (sent_lines es). l \<noteq> [] \<and> \<not> is_trim (last l) \<and> length l < MAX_LINE"
    by (induction es) (auto split: option.split)
  have "tm_closed (readline_loop es tm) \<longleftrightarrow> tm_closed tm \<or> \<not> list_all goes_on es"
    by (induction es arbitrary: tm)
      (simp_all add: Let_def tm_push_def tm_close_def goes_on_def is_exit_def split: edit_result.split)
  with 1 2 show ?thesis by blast
qed

lemma readline_sends_lines_witness:
  "let es = [\<lparr>ed_result = Entered ''hi '', ed_running = False, ed_closed = False\<rparr>,
             \<lparr>ed_result = EndOfInput, ed_running = False, ed_closed = False\<rparr>];
       tm = \<lparr>tm_queue = [], tm_closed = False, tm_history = [], tm_interrupted = False, tm_err = []\<rparr>
   in tm_queue (readline_loop es tm) = [MSG_USER_INPUT (Some ''hi'')] \<and> tm_closed (readline_loop es tm)"
proof -
  have "typed_line ''hi '' = ''hi''" by (simp add: typed_line_def MAX_LINE_def util_rtrim_def is_trim_def LF_def CR_def TAB_def)
  then show ?thesis
    using readline_sends_lines [of "[\<lparr>ed_result = Entered ''hi '', ed_running = False, ed_closed = False\<rparr>,
        \<lparr>ed_result = EndOfInput, ed_running = False, ed_closed = False\<rparr>]"
        "\<lparr>tm_queue = [], tm_closed = False, tm_history = [], tm_interrupted = False, tm_err = []\<rparr>"]
    by (simp add: goes_on_def is_exit_def)
qed

section \<open>A note reaches the model\<close>

lemma inject_queues:
  assumes "mq_inv s" "q_fresh s n1" "mq_inv i" "q_fresh i n2" "\<not> mq_closed s" "\<not> mq_closed i" "len \<noteq> 0"
  shows "\<exists>s' i'. inject_callback (Some b) len (Some (s, i)) n1 n2 = (0, Some (s', i'))
    \<and> mq_list s' = mq_list s @ [MSG_USER_NOTIFY (Some (c_string (take len b)))] \<and> mq_list i' = mq_list i @ [MSG_NOTIFY_PENDING]"
proof -
  note p = mq.push_open [OF assms(1,2,5), of "MSG_USER_NOTIFY (Some (c_string (take len b)))"]
  have "inject_callback (Some b) len (Some (s, i)) n1 n2
      = (0, Some (snd (q_push s (MSG_USER_NOTIFY (Some (c_string (take len b)))) n1), snd (q_push i MSG_NOTIFY_PENDING n2)))"
    using p assms(7) by (simp add: inject_callback_def case_prod_beta)
  then show ?thesis using p mq.push_open [OF assms(3,4,6), of MSG_NOTIFY_PENDING] by simp
qed

lemma grows_begin_notify:
  assumes "session_files d (ag_paths ag)"
  shows "grows ag r (begin_loop ag i (Some ''notify'') r) []"
proof (rule grows_same [OF assms])
  have 1: "run_same (side_files (ag_paths ag)) r (agent_update_title ag (stats_bump ag k v (r\<lparr>r_interrupted := b\<rparr>)))" for k v b
  proof -
    have "run_same (side_files (ag_paths ag)) r (stats_bump ag k v (r\<lparr>r_interrupted := b\<rparr>))"
      by (rule run_same_before [OF run_same_bump]) simp
    then show ?thesis by (simp add: run_same_def agent_update_title_def update_title_status_def)
  qed
  then show "run_same (side_files (ag_paths ag)) r (begin_loop ag i (Some ''notify'') r)"
    using run_same_trans [OF 1 run_same_append_event] by (auto simp: begin_loop_def typed_def Let_def)
qed

text \<open>
  C20: A note typed into a running conversation is answered. The callback puts it behind the results that
  wait and wakes the agent; the run that the wake-up starts goes into its turns with the conversation
  extended by all that waited, the note last but for what arrives meanwhile.
\<close>

theorem injected_note_is_answered:
  assumes "mq_inv s" "q_fresh s n1" "mq_inv i" "q_fresh i n2" "\<not> mq_closed s" "\<not> mq_closed i" "len \<noteq> 0"
    and "inject_callback (Some b) len (Some (s, i)) n1 n2 = (rc, Some (s', i'))" "r_subq r = mq_list s'"
    and "session_files d (ag_paths ag)" "log_file (r_fs r) (sp_conversation (ag_paths ag)) ls"
  shows "rc = 0 \<and> mq_list i' = mq_list i @ [MSG_NOTIFY_PENDING]
    \<and> (\<exists>r1. agent_loop ag (Some []) (Some ''notify'') r = run_turns ag r1
         \<and> log_file (r_fs r1) (sp_conversation (ag_paths ag))
             (ls @ as_user_lines (result_texts (mq_list s) @ [c_string (take len b)] @ result_texts (concat (take 1 (r_arrivals r))))))"
proof -
  have q: "rc = 0" "mq_list s' = mq_list s @ [MSG_USER_NOTIFY (Some (c_string (take len b)))]"
    "mq_list i' = mq_list i @ [MSG_NOTIFY_PENDING]"
    using inject_queues [OF assms(1-7), of b] assms(8) by auto
  obtain n r0 where d: "agent_drain_sub_results ag r = (n, r0)" by (cases "agent_drain_sub_results ag r")
  let ?ts = "result_texts (mq_list s) @ [c_string (take len b)] @ result_texts (concat (take 1 (r_arrivals r)))"
  have ts: "result_texts (r_subq r @ concat (take 1 (r_arrivals r))) = ?ts"
    using assms(9) q(2) by (simp add: result_texts_def map_filter_def)
  have r0: "log_file (r_fs r0) (sp_conversation (ag_paths ag)) (ls @ as_user_lines ?ts)" "0 < n"
    using drained_in_order [OF assms(10,11) d] ts by auto
  have "log_file (r_fs (begin_loop ag (Some []) (Some ''notify'') r0)) (sp_conversation (ag_paths ag)) (ls @ as_user_lines ?ts)"
    using grows_begin_notify [OF assms(10)] r0(1) by (auto simp: grows_def)
  moreover have "agent_loop ag (Some []) (Some ''notify'') r = run_turns ag (begin_loop ag (Some []) (Some ''notify'') r0)"
    using d r0(2) by (simp add: agent_loop_def)
  ultimately show ?thesis using q by blast
qed

lemma injected_note_is_answered_witness:
  "\<exists>s' i' r1. inject_callback (Some ''note'') 4 (Some (mq_init, mq_init)) 1 2 = (0, Some (s', i'))
     \<and> agent_loop demo_ag (Some []) (Some ''notify'') ((demo_run [])\<lparr>r_subq := mq_list s'\<rparr>) = run_turns demo_ag r1
     \<and> log_file (r_fs r1) (sp_conversation (ag_paths demo_ag)) (demo_lines @ [json_text (user_json ''note'')])"
proof -
  let ?q = "mq_init :: input_message msgqueue"
  have q: "mq_inv ?q" "q_fresh ?q 1" "q_fresh ?q 2" "\<not> mq_closed ?q" "mq_list ?q = []" "(4 :: nat) \<noteq> 0"
    using mq_init_facts by (simp_all add: q_fresh_def mq_init_def)
  obtain s' i' where i: "inject_callback (Some ''note'') 4 (Some (?q, ?q)) 1 2 = (0, Some (s', i'))"
    using inject_queues [OF q(1,2,1,3,4,4,6)] by blast
  let ?r = "(demo_run [])\<lparr>r_subq := mq_list s'\<rparr>"
  have "session_files ''/s'' (ag_paths demo_ag)" "log_file (r_fs ?r) (sp_conversation (ag_paths demo_ag)) demo_lines"
    using demo_session(1,2) by (simp_all add: demo_ag_def demo_paths_def demo_run_def)
  from injected_note_is_answered [OF q(1,2,1,3,4,4,6) i _ this]
  obtain r1 where r1: "agent_loop demo_ag (Some []) (Some ''notify'') ?r = run_turns demo_ag r1"
    "log_file (r_fs r1) (sp_conversation (ag_paths demo_ag))
       (demo_lines @ as_user_lines (result_texts (mq_list ?q) @ [c_string (take 4 ''note'')] @ result_texts (concat (take 1 (r_arrivals ?r)))))"
    by auto
  have "c_string (take 4 ''note'') = ''note''" by (simp add: c_string_def NUL_def)
  then have "log_file (r_fs r1) (sp_conversation (ag_paths demo_ag)) (demo_lines @ [json_text (user_json ''note'')])"
    using r1(2) by (simp add: q(5) demo_run_def as_user_lines_def)
  with i r1(1) show ?thesis by blast
qed

end
