(* ===== verification/Clipboard.thy ===== *)
theory Clipboard
  imports AgentText
begin

text \<open>
  Pasting an image (c/agent.c, \<open>agent_image_clipboard_paste\<close>): the number of the file, the programs
  that are tried, the placeholder.  What a shell command does to the files is an argument.
\<close>

section \<open>The model\<close>

definition image_path :: "string \<Rightarrow> nat \<Rightarrow> string" where
  "image_path imgdir n = take 1023 (imgdir @ ''/'' @ nat_dec n @ ''.png'')"

text \<open>The first number whose file cannot be opened; the loop has no bound.\<close>

partial_function (option) next_image :: "fsys \<Rightarrow> string \<Rightarrow> nat \<Rightarrow> nat option" where
  "next_image fs imgdir n = (if fs_opens fs (image_path imgdir n) then next_image fs imgdir (Suc n) else Some n)"

definition SQ :: string where "SQ = [CHR 0x27]"

definition osascript_command :: "string \<Rightarrow> string \<Rightarrow> string" where
  "osascript_command tmp_path save_path =
     take 2047
       (''osascript -e '' @ SQ @ ''set theImage to the clipboard as '' @ [CHR 0xC2, CHR 0xAB] @ ''class PNGf'' @ [CHR 0xC2, CHR 0xBB]
        @ SQ @ '' -e \"set theFile to open for access POSIX file '' @ [BSLASH, QUOTE] @ tmp_path @ [BSLASH, QUOTE]
        @ '' with write permission\" -e '' @ SQ @ ''write theImage to theFile'' @ SQ @ '' -e '' @ SQ @ ''close access theFile'' @ SQ
        @ '' >/dev/null 2>&1 && mv '' @ SQ @ tmp_path @ SQ @ '' '' @ SQ @ save_path @ SQ @ '' 2>/dev/null'')"

definition paste_commands :: "string \<Rightarrow> string list" where
  "paste_commands save_path =
     map (take 2047)
       [''wl-paste --type image/png > '' @ SQ @ save_path @ SQ @ '' 2>/dev/null'',
        ''xclip -selection clipboard -t image/png -o > '' @ SQ @ save_path @ SQ @ '' 2>/dev/null'']"

type_synonym shell = "string \<Rightarrow> fsys \<Rightarrow> int \<times> fsys"

text \<open>The commands one after the other until one succeeds and leaves a file that is not empty.\<close>

fun try_paste :: "shell \<Rightarrow> string \<Rightarrow> string list \<Rightarrow> fsys \<Rightarrow> bool \<times> fsys" where
  "try_paste system save_path [] fs = (False, fs)"
| "try_paste system save_path (cmd # cmds) fs =
     (case system cmd fs of
        (rc, fs') \<Rightarrow> if rc = 0 \<and> stat_nonempty fs' save_path then (True, fs') else try_paste system save_path cmds fs')"

text \<open>\<open>None\<close>: the search for a number does not end.\<close>

definition agent_image_clipboard_paste :: "shell \<Rightarrow> fsys \<Rightarrow> string option \<Rightarrow> (string option \<times> fsys) option" where
  "agent_image_clipboard_paste system fs session_dir =
     (if \<not> nonempty_opt session_dir then Some (None, fs)
      else let imgdir = take 1023 (the session_dir @ ''/images'') in
        case next_image fs imgdir 1 of
          None \<Rightarrow> None
        | Some n \<Rightarrow>
            (let save_path = image_path imgdir n;
                 tmp_path = take 1023 (imgdir @ ''/clipimg_'' @ nat_dec n @ ''.png'');
                 fs1 = snd (util_mkdirs fs imgdir)
             in case try_paste system save_path (osascript_command tmp_path save_path # paste_commands save_path) fs1 of
                  (saved, fs2) \<Rightarrow> Some (if saved then Some (''[Image #'' @ nat_dec n @ '']'') else None, fs2)))"

section \<open>The number is found\<close>

lemma length_nat_dec: "n < 10 ^ k \<Longrightarrow> 0 < k \<Longrightarrow> length (nat_dec n) \<le> k"
proof (induction k arbitrary: n)
  case (Suc k)
  show ?case
  proof (cases "n < 10")
    case True
    then show ?thesis by (simp add: nat_dec.simps [of n])
  next
    case False
    then have "0 < k" using Suc.prems by (cases k) auto
    moreover have "n div 10 < 10 ^ k" using Suc.prems by (simp add: less_mult_imp_div_less mult.commute)
    ultimately have "length (nat_dec (n div 10)) \<le> k" using Suc.IH by blast
    with False show ?thesis by (simp add: nat_dec.simps [of n])
  qed
qed simp

lemma image_path_short:
  assumes "length d < 1000" "n \<le> 10 ^ 9"
  shows "image_path d n = d @ ''/'' @ nat_dec n @ ''.png''"
proof -
  have "length (nat_dec n) \<le> 10" using length_nat_dec [of n 10] assms(2) by simp
  then show ?thesis using assms(1) by (simp add: image_path_def)
qed

lemma image_path_inj: "length d < 1000 \<Longrightarrow> inj_on (image_path d) {1..10 ^ 9}"
proof (rule inj_onI)
  fix m n
  assume a: "length d < 1000" "m \<in> {1..10 ^ 9}" "n \<in> {1..10 ^ 9}" "image_path d m = image_path d n"
  then have "nat_dec m = nat_dec n" by (simp add: image_path_short)
  then show "m = n" by (metis dec_value_nat_dec)
qed

lemma next_image_is:
  "n \<le> m \<Longrightarrow> \<forall>k. n \<le> k \<and> k < m \<longrightarrow> fs_opens fs (image_path d k) \<Longrightarrow> \<not> fs_opens fs (image_path d m) \<Longrightarrow>
     next_image fs d n = Some m"
proof (induction "m - n" arbitrary: n)
  case 0
  then have "n = m" by simp
  with 0 show ?case by (subst next_image.simps) simp
next
  case (Suc x)
  then have "next_image fs d (Suc n) = Some m" by (intro Suc.hyps(1)) auto
  moreover have "fs_opens fs (image_path d n)" using Suc by auto
  ultimately show ?case by (subst next_image.simps) simp
qed

text \<open>With fewer than a thousand million files one of the first numbers is free.\<close>

lemma next_image_found:
  assumes "length d < 1000" "finite (dom (fs_nodes fs))" "card (dom (fs_nodes fs)) < 10 ^ 9"
  shows "\<exists>m. next_image fs d 1 = Some m \<and> 1 \<le> m \<and> m \<le> 10 ^ 9 \<and> \<not> fs_opens fs (image_path d m)
    \<and> (\<forall>k. 1 \<le> k \<and> k < m \<longrightarrow> fs_opens fs (image_path d k))"
proof -
  let ?free = "\<lambda>m. 1 \<le> m \<and> \<not> fs_opens fs (image_path d m)"
  define N :: nat where "N = 10 ^ 9"
  have "\<exists>m \<le> N. ?free m"
  proof (rule ccontr)
    assume "\<not> (\<exists>m \<le> N. ?free m)"
    then have "image_path d ` {1..N} \<subseteq> dom (fs_nodes fs)" by (auto simp: fs_opens_def)
    then have "card (image_path d ` {1..N}) \<le> card (dom (fs_nodes fs))" using assms(2) by (rule card_mono [rotated])
    moreover have "card (image_path d ` {1..N}) = N" 
      using card_image [OF image_path_inj [OF assms(1)], folded N_def] by simp
    ultimately show False using assms(3) [folded N_def] by simp
  qed
  then obtain b where b: "b \<le> N" "?free b" by blast
  define m where "m = (LEAST m. ?free m)"
  have m: "?free m" unfolding m_def using b(2) by (rule LeastI)
  have "m \<le> 10 ^ 9" using Least_le [of ?free, OF b(2)] b(1) unfolding m_def N_def by (rule order_trans)
  moreover have l: "\<forall>k. 1 \<le> k \<and> k < m \<longrightarrow> fs_opens fs (image_path d k)"
    using not_less_Least [of _ ?free, folded m_def] by blast
  moreover have "next_image fs d 1 = Some m" using next_image_is [OF _ l] m by simp
  ultimately show ?thesis using m by blast
qed

section \<open>The placeholder is expanded\<close>

lemma image_number_dec: "n < 2 ^ 31 \<Longrightarrow> image_number (nat_dec n) = int n"
proof (induction n rule: nat_dec.induct)
  case (1 n)
  show ?case
  proof (cases "n < 10")
    case True
    then show ?thesis by (simp add: nat_dec.simps [of n] image_number_def s32_id)
  next
    case False
    then have "image_number (nat_dec (n div 10)) = int (n div 10)" using 1 by simp
    moreover have "s32 (int (n div 10) * 10 + int (n mod 10)) = int n"
      using 1(2) by (subst s32_id) (simp_all add: zdiv_int zmod_int)
    ultimately show ?thesis using False by (simp add: nat_dec.simps [of n] image_number_def)
  qed
qed

lemma placeholder_expanded:
  assumes "n < 2 ^ 31" "fs_opens fs (take 1023 (store_session_image_dir p @ ''/'' @ nat_dec n @ ''.png''))"
  defines "t \<equiv> ''[Image #'' @ nat_dec n @ '']''"
  shows "agent_image_expand_placeholders fs p t
    = t @ IMAGES_HEAD @ (t @ '' => '' @ take 1023 (store_session_image_dir p @ ''/'' @ nat_dec n @ ''.png'')) @ IMAGES_TAIL"
proof -
  have tag: "strstr t IMAGE_TAG = Some t" by (simp add: t_def IMAGE_TAG_def)
  have nb: "drop (length IMAGE_TAG) t = nat_dec n @ '']''" by (simp add: t_def IMAGE_TAG_def)
  have ds: "takeWhile isdigit (nat_dec n @ '']'') = nat_dec n"
    using nat_dec_digits [of n] by (simp add: takeWhile_append isdigit_def ord_def)
  have "int_dec (int n) = nat_dec n" by (simp add: int_dec_def)
  then have line: "image_line fs p [] (int n) = t @ '' => '' @ take 1023 (store_session_image_dir p @ ''/'' @ nat_dec n @ ''.png'')"
    using assms(2) by (simp add: image_line_def t_def Let_def del: take_append)
  have "image_loop fs p t [] = image_loop fs p [] (image_line fs p [] (int n))"
    using image_number_dec [OF assms(1)] by (subst image_loop.simps) (simp add: tag nb ds Let_def starts_def)
  also have "\<dots> = image_line fs p [] (int n)" by (subst image_loop.simps) (simp add: IMAGE_TAG_def)
  finally show ?thesis using line by (simp add: agent_image_expand_placeholders_def t_def)
qed

lemma try_paste_saved: "try_paste system q cmds fs = (saved, fs') \<Longrightarrow> saved \<Longrightarrow> stat_nonempty fs' q"
  by (induction cmds arbitrary: fs) (auto split: prod.splits if_splits)

text \<open>
  C30: A pasted image is a new file, and its placeholder leads to it. The search for a number ends; when a
  placeholder is returned, the file it names could not be opened before, holds something now, and sending
  the placeholder attaches the path of that file.
\<close>

theorem pasted_image_attached:
  assumes "sp_session_dir p \<noteq> []" "length (sp_session_dir p) < 990" "finite (dom (fs_nodes fs))" "card (dom (fs_nodes fs)) < 10 ^ 9"
  shows "\<exists>res fs'. agent_image_clipboard_paste system fs (Some (sp_session_dir p)) = Some (res, fs')
    \<and> (\<forall>t. res = Some t \<longrightarrow>
         (\<exists>n path. t = ''[Image #'' @ nat_dec n @ '']'' \<and> path = sp_session_dir p @ ''/images/'' @ nat_dec n @ ''.png''
            \<and> \<not> fs_opens fs path \<and> stat_nonempty fs' path
            \<and> (fs_opens fs' path \<longrightarrow>
                 agent_image_expand_placeholders fs' p t = t @ IMAGES_HEAD @ (t @ '' => '' @ path) @ IMAGES_TAIL)))"
proof -
  define imgdir where "imgdir = sp_session_dir p @ ''/images''"
  have d: "take 1023 imgdir = imgdir" "length imgdir < 1000" "store_session_image_dir p = imgdir"
    using assms(2) by (simp_all add: imgdir_def store_session_image_dir_def)
  obtain n where n: "next_image fs imgdir 1 = Some n" "n \<le> 10 ^ 9" "\<not> fs_opens fs (image_path imgdir n)"
    using next_image_found [OF d(2) assms(3,4)] by blast
  define path where "path = image_path imgdir n"
  have path: "path = sp_session_dir p @ ''/images/'' @ nat_dec n @ ''.png''"
    "path = take 1023 (store_session_image_dir p @ ''/'' @ nat_dec n @ ''.png'')"
    using image_path_short [OF d(2) n(2)] by (simp add: path_def imgdir_def) (simp only: path_def image_path_def d(3))
  let ?tmp = "take 1023 (imgdir @ ''/clipimg_'' @ nat_dec n @ ''.png'')"
  obtain saved fs' where s: "try_paste system path (osascript_command ?tmp path # paste_commands path) (snd (util_mkdirs fs imgdir)) = (saved, fs')"
    by fastforce
  have "agent_image_clipboard_paste system fs (Some (sp_session_dir p))
      = Some (if saved then Some (''[Image #'' @ nat_dec n @ '']'') else None, fs')"
    using assms(1) n(1) s d(1)
    by (simp add: agent_image_clipboard_paste_def imgdir_def [symmetric] path_def Let_def)
  moreover have "saved \<Longrightarrow> stat_nonempty fs' path" using try_paste_saved s by blast
  moreover have "n < 2 ^ 31" using n(2) by simp
  ultimately show ?thesis using n(3) path placeholder_expanded [of n fs' p] by (auto simp: path_def [symmetric])
qed

lemma pasted_image_attached_witness:
  "\<exists>res fs'. agent_image_clipboard_paste (\<lambda>cmd fs. (0, fs_set fs ''/s/images/1.png'' ''x''))
       \<lparr>fs_nodes = [''/s'' \<mapsto> FDir], fs_deny = (\<lambda>_. False), fs_rdonly = (\<lambda>_. False)\<rparr> (Some ''/s'') = Some (res, fs')
     \<and> (\<forall>t. res = Some t \<longrightarrow> (\<exists>n. t = ''[Image #'' @ nat_dec n @ '']'' \<and> stat_nonempty fs' (''/s/images/'' @ nat_dec n @ ''.png'')))"
proof -
  let ?fs = "\<lparr>fs_nodes = [''/s'' \<mapsto> FDir], fs_deny = (\<lambda>_. False), fs_rdonly = (\<lambda>_. False)\<rparr>"
  let ?sys = "\<lambda>cmd fs. (0, fs_set fs ''/s/images/1.png'' ''x'')"
  let ?p = "\<lparr>sp_base_dir = [], sp_session_dir = ''/s'', sp_conversation = [], sp_archive = [], sp_events = [], sp_stats = [],
      sp_summary = [], sp_plan = [], sp_plan_draft = []\<rparr>"
  obtain res fs' where r: "agent_image_clipboard_paste ?sys ?fs (Some ''/s'') = Some (res, fs')"
    and t: "\<forall>t. res = Some t \<longrightarrow> (\<exists>n path. t = ''[Image #'' @ nat_dec n @ '']'' \<and> path = ''/s'' @ ''/images/'' @ nat_dec n @ ''.png''
        \<and> \<not> fs_opens ?fs path \<and> stat_nonempty fs' path
        \<and> (fs_opens fs' path \<longrightarrow> agent_image_expand_placeholders fs' ?p t = t @ IMAGES_HEAD @ (t @ '' => '' @ path) @ IMAGES_TAIL))"
    using pasted_image_attached [of ?p ?fs ?sys] by auto
  from t have "\<forall>t. res = Some t \<longrightarrow>
      (\<exists>n. t = ''[Image #'' @ nat_dec n @ '']'' \<and> stat_nonempty fs' (''/s/images/'' @ nat_dec n @ ''.png''))"
    by fastforce
  with r show ?thesis by blast
qed

end
