(* ===== verification/Child.thy ===== *)
theory Child
  imports ToolsProps
begin

text \<open>
  The child of a Bash call (c/tools.c, the second half of \<open>tool_bash\<close>): the loop that reads its output
  and watches the clock, and the wait for its end.  What comes out of the pipe, what the clock says and
  how the process ends are arguments.
\<close>

section \<open>The model\<close>

datatype pipe_read = Block string | EndOfPipe | NoData | ReadFailed

datatype wait_status = ExitStatus int | Killed | WaitRefused | NeverEnds

text \<open>The reads are numbered; each comes with the reading of the clock after it.  \<open>ch_end\<close> is what the wait
  finds when the process is left alone.\<close>

record child =
  ch_pipe :: bool
  ch_fork :: bool
  ch_start :: int
  ch_reads :: "nat \<Rightarrow> pipe_read \<times> int"
  ch_end :: wait_status

definition pipe_over :: "pipe_read \<Rightarrow> bool" where
  "pipe_over rd \<longleftrightarrow> rd = EndOfPipe \<or> rd = ReadFailed"

definition pipe_block :: "pipe_read \<Rightarrow> string list" where
  "pipe_block rd = (case rd of Block b \<Rightarrow> [b] | _ \<Rightarrow> [])"

definition too_late :: "int \<Rightarrow> int \<Rightarrow> int \<Rightarrow> bool" where
  "too_late effective_timeout start now \<longleftrightarrow> 0 < effective_timeout \<and> start + effective_timeout \<le> now"

text \<open>The blocks read, and whether the time was over; \<open>None\<close>: the loop goes on for ever.\<close>

partial_function (option) poll_loop ::
    "(nat \<Rightarrow> pipe_read \<times> int) \<Rightarrow> int \<Rightarrow> int \<Rightarrow> nat \<Rightarrow> string list \<Rightarrow> (string list \<times> bool) option" where
  "poll_loop rs effective_timeout start i chunks =
     (if pipe_over (fst (rs i)) then Some (chunks, False)
      else if too_late effective_timeout start (snd (rs i)) then Some (chunks @ pipe_block (fst (rs i)), True)
      else poll_loop rs effective_timeout start (Suc i) (chunks @ pipe_block (fst (rs i))))"

text \<open>After the loop the process is waited for, without a limit; one that ran out of time was killed.\<close>

definition wait_child :: "wait_status \<Rightarrow> string list \<Rightarrow> bash_run option" where
  "wait_child st chunks =
     (case st of
        ExitStatus n \<Rightarrow> Some (BashRan chunks False (Some n))
      | Killed \<Rightarrow> Some (BashRan chunks False None)
      | WaitRefused \<Rightarrow> Some (BashRan chunks False (Some 0))
      | NeverEnds \<Rightarrow> None)"

definition bash_child :: "child \<Rightarrow> int \<Rightarrow> bash_run option" where
  "bash_child c effective_timeout =
     (if \<not> ch_pipe c then Some PipeFailed
      else if \<not> ch_fork c then Some ForkFailed
      else case poll_loop (ch_reads c) effective_timeout (ch_start c) 0 [] of
        None \<Rightarrow> None
      | Some (chunks, timed_out) \<Rightarrow>
          if timed_out then Some (BashRan chunks True None) else wait_child (ch_end c) chunks)"

section \<open>When the loop ends\<close>

definition blocks :: "(nat \<Rightarrow> pipe_read \<times> int) \<Rightarrow> nat \<Rightarrow> nat \<Rightarrow> string list" where
  "blocks rs i k = concat (map (\<lambda>j. pipe_block (fst (rs j))) [i..<k])"

lemma blocks_simps [simp]: "blocks rs i i = []" "i < k \<Longrightarrow> blocks rs i k = pipe_block (fst (rs i)) @ blocks rs (Suc i) k"
  by (simp_all add: blocks_def upt_conv_Cons)

text \<open>The reads after which the loop goes on.\<close>

definition polls_on :: "(nat \<Rightarrow> pipe_read \<times> int) \<Rightarrow> int \<Rightarrow> int \<Rightarrow> nat \<Rightarrow> bool" where
  "polls_on rs t start j \<longleftrightarrow> \<not> pipe_over (fst (rs j)) \<and> \<not> too_late t start (snd (rs j))"

lemma poll_loop_ends:
  assumes "i \<le> k" "\<forall>j. i \<le> j \<and> j < k \<longrightarrow> polls_on rs t start j" "\<not> polls_on rs t start k"
  shows "poll_loop rs t start i chunks
    = Some (chunks @ (if pipe_over (fst (rs k)) then blocks rs i k else blocks rs i (Suc k)),
            \<not> pipe_over (fst (rs k)))"
  using assms
proof (induction "k - i" arbitrary: i chunks)
  case 0
  then have "i = k" by simp
  with 0 show ?case by (subst poll_loop.simps) (auto simp: polls_on_def)
next
  case (Suc n)
  then have "i < k" "polls_on rs t start i" by auto
  moreover have "poll_loop rs t start (Suc i) (chunks @ pipe_block (fst (rs i)))
    = Some ((chunks @ pipe_block (fst (rs i))) @ (if pipe_over (fst (rs k)) then blocks rs (Suc i) k else blocks rs (Suc i) (Suc k)),
            \<not> pipe_over (fst (rs k)))"
    using Suc \<open>i < k\<close> by (intro Suc.hyps(1)) auto
  ultimately show ?case by (subst poll_loop.simps) (simp add: polls_on_def)
qed

text \<open>A process that says nothing for ever is read for ever when there is no timeout.\<close>

lemma poll_loop_no_timeout: "t \<le> 0 \<Longrightarrow> poll_loop (\<lambda>_. (NoData, 0)) t start 0 [] = None"
proof -
  have "\<not> (rs = (\<lambda>_. (NoData, 0)) \<and> t \<le> 0)" if "poll_loop rs t start i c = Some x" for rs t start i c x
    by (rule poll_loop.raw_induct [OF _ that]) (auto simp: pipe_over_def too_late_def split: if_splits)
  then show "t \<le> 0 \<Longrightarrow> ?thesis" by (cases "poll_loop (\<lambda>_. (NoData, 0)) t start 0 []") auto
qed

section \<open>A call keeps its timeout\<close>

text \<open>What a Bash call answers: the valid UTF-8 of what was read, each block up to its first NUL.\<close>

definition bash_answer :: "string list \<Rightarrow> bool \<Rightarrow> int \<Rightarrow> int \<Rightarrow> tool_result" where
  "bash_answer chunks timed_out t exit_code =
     \<lparr>tr_output = util_sanitize_utf8 (buf_data (bash_output chunks timed_out t)), tr_exit = exit_code\<rparr>"

text \<open>
  C15: A Bash call keeps its timeout while it reads. If the clock passes the deadline at all, reading stops
  at the first read that ends the pipe or finds the deadline passed, whichever comes first, whatever the
  process does. In the second case the call answers what was read until then and a note, with exit code 1;
  in the first what was read with the exit code of the process - and only in this case a process that
  closed its output without ending keeps the call waiting for ever.
\<close>

theorem bash_timeout_kept:
  assumes "json_root inp = Some v" "json_get_string v ''command'' = Some cmd" "cmd \<noteq> []" "check_command env mode cmd = None"
    and "t = (if 0 < json_get_int v ''timeout'' then json_get_int v ''timeout'' else secs)"
    and "ch_pipe c" "ch_fork c" "0 < t" "ch_start c + t \<le> snd (ch_reads c n)"
  shows "\<exists>k \<le> n. (\<forall>j < k. polls_on (ch_reads c) t (ch_start c) j)
    \<and> (if pipe_over (fst (ch_reads c k))
       then (bash_child c t = None \<longleftrightarrow> ch_end c = NeverEnds)
         \<and> (\<forall>code. ch_end c = ExitStatus code \<longrightarrow>
              tool_bash env mode (\<lambda>fs _ t. (the (bash_child c t), fs)) fs inp secs
                = (bash_answer (blocks (ch_reads c) 0 k) False t code, fs))
       else ch_start c + t \<le> snd (ch_reads c k) \<and> bash_child c t \<noteq> None
         \<and> tool_bash env mode (\<lambda>fs _ t. (the (bash_child c t), fs)) fs inp secs
             = (bash_answer (blocks (ch_reads c) 0 (Suc k)) True t 1, fs))"
proof -
  let ?on = "polls_on (ch_reads c) t (ch_start c)"
  have "\<not> ?on n" using assms(8,9) by (simp add: polls_on_def too_late_def)
  then obtain k where k: "k \<le> n" "\<not> ?on k" "\<forall>j < k. ?on j"
    using exists_least_iff [of "\<lambda>j. \<not> ?on j"] by (metis not_le_imp_less)
  have "poll_loop (ch_reads c) t (ch_start c) 0 []
    = Some ([] @ (if pipe_over (fst (ch_reads c k)) then blocks (ch_reads c) 0 k else blocks (ch_reads c) 0 (Suc k)),
            \<not> pipe_over (fst (ch_reads c k)))"
    by (rule poll_loop_ends) (use k in simp_all)
  moreover have "tool_bash env mode run fs inp secs =
      (case run fs cmd t of
         (PipeFailed, fs') \<Rightarrow> (tool_fail ''Error: pipe failed'', fs')
       | (ForkFailed, fs') \<Rightarrow> (tool_fail ''Error: fork failed'', fs')
       | (BashRan chunks timed_out status, fs') \<Rightarrow> (bash_answer chunks timed_out t (if timed_out then 1 else opt_default 1 status), fs'))" for run
    using assms(1-4) by (cases "run fs cmd t"; cases "fst (run fs cmd t)")
      (simp_all add: tool_bash_def nonempty_opt_def bash_answer_def Let_def assms(5) [symmetric])
  moreover have "\<not> pipe_over (fst (ch_reads c k)) \<Longrightarrow> ch_start c + t \<le> snd (ch_reads c k)"
    using k(2) by (simp add: polls_on_def too_late_def)
  ultimately show ?thesis
    using k(1,3) assms(6,7) by (intro exI [of _ k]) (simp add: bash_child_def wait_child_def split: wait_status.split)
qed

text \<open>A process that prints a line and then sleeps, with two seconds of time.\<close>

definition sleeper :: child where
  "sleeper = \<lparr>ch_pipe = True, ch_fork = True, ch_start = 10, ch_reads = (\<lambda>i. (if i = 0 then Block ''hi'' else NoData, 10 + int i)),
     ch_end = NeverEnds\<rparr>"

lemma bash_timeout_kept_witness:
  "\<exists>k \<le> 2. tool_bash plain_env None (\<lambda>fs _ t. (the (bash_child sleeper t), fs)) bare_fs
       (json_text (JObj [(''command'', JStr ''sleep 9''), (''timeout'', JInt 2)])) 600
     = (bash_answer (blocks (ch_reads sleeper) 0 (Suc k)) True 2 1, bare_fs)"
proof -
  let ?j = "JObj [(''command'', JStr ''sleep 9''), (''timeout'', JInt 2)]"
  have ok: "json_ok ?j" by (simp add: simple_key_def char_defs)
  have m: "json_get_string (view ?j []) ''command'' = Some ''sleep 9''" "json_get_int (view ?j []) ''timeout'' = 2"
    using ok by (auto intro!: get_str json_get_int_view [OF is_viewI] simp: nulfree_def NUL_def)
  have "command_mask plain_env ''sleep 9'' = 0" by code_simp
  moreover have "unat (bash_add_mode 0 (Suc 0) 4) = 4" by code_simp
  ultimately have allowed: "check_command plain_env None ''sleep 9'' = None"
    by (simp add: check_command_iff required_def default_bits)
  have s: "ch_pipe sleeper" "ch_fork sleeper" "ch_start sleeper + 2 \<le> snd (ch_reads sleeper 2)"
    "\<not> pipe_over (fst (ch_reads sleeper k))" for k by (simp_all add: sleeper_def pipe_over_def)
  show ?thesis
    using bash_timeout_kept [OF json_root_text [OF ok] m(1) _ allowed _ s(1,2) _ s(3), of 600 bare_fs] m(2) s(4) by auto
qed

end
