(* ===== verification/Answers.thy ===== *)
theory Answers
  imports AgentTurns
begin

text \<open>
  From the bytes a server sends to the line of the conversation: the answer of a Claude model, streamed in
  any chunks, is found in the conversation file as it was spelled.  Spans c/transport.c (stream and
  retry loop), c/agent.c (the turn), c/store.c (the line) and c/json.c (reading it again).
\<close>

section \<open>The request\<close>

text \<open>An attempt in which the server answers with a stream of events, cut into chunks at will.\<close>

definition streams :: "attempt \<Rightarrow> int \<Rightarrow> (string \<times> claude_event) list \<Rightarrow> bool" where
  "streams a now es \<longleftrightarrow>
     at_init a \<and> at_rc a = CURLE_OK \<and> 200 \<le> at_http a \<and> at_http a < 300
     \<and> (\<exists>parts. at_chunks a = map (\<lambda>fs. (False, fs)) parts \<and> concat parts = feed_of now (claude_bytes es))"

lemma reply_step_other [simp]:
  "rp_text (reply_step rp (speed_event a sctx rc code)) = rp_text rp"
  "rp_thinking (reply_step rp (speed_event a sctx rc code)) = rp_thinking rp"
  "rp_tools (reply_step rp (speed_event a sctx rc code)) = rp_tools rp"
  "rp_stop (reply_step rp (speed_event a sctx rc code)) = rp_stop rp"
  by (simp_all add: reply_step_def speed_event_def Let_def split: prod.split)

lemma speed_event_usage [simp]: "ev_type (speed_event a sctx rc code) = SSE_USAGE"
  by (simp add: speed_event_def Let_def)

lemma request_streams:
  assumes "\<forall>p \<in> set es. line_ok (fst p) \<and> claude_ok (snd p)" "streams (env 0) now es"
  obtains evs where "http_post_sse ''claude'' s env = Some (0, evs)"
    "list_all (\<lambda>x. ev_type x \<noteq> SSE_ERROR \<and> ev_type x \<noteq> SSE_RETRY) evs"
    "rp_text (reply_of (accumulate sse_accum_init evs)) = rp_text (foldl claude_reply empty_reply (map snd es))"
    "rp_thinking (reply_of (accumulate sse_accum_init evs)) = rp_thinking (foldl claude_reply empty_reply (map snd es))"
    "rp_tools (reply_of (accumulate sse_accum_init evs)) = rp_tools (foldl claude_reply empty_reply (map snd es))"
proof -
  let ?c = "stream_ctx_init ''claude'' s"
  obtain evs sctx where run: "stream_loop ?c (feed_of now (claude_bytes es)) = Some (True, evs, sctx)"
    "foldl reply_step empty_reply evs = foldl claude_reply empty_reply (map snd es)" "no_errors evs" "sb_len (sc_line_buf sctx) = 0"
    using claude_stream_run [OF assms(1), of s now] by blast
  obtain parts where parts: "at_chunks (env 0) = map (\<lambda>fs. (False, fs)) parts" "concat parts = feed_of now (claude_bytes es)"
    using assms(2) by (auto simp: streams_def)
  have "quiet (concat parts)" using parts(2) by simp
  then have "\<forall>ch \<in> set (at_chunks (env 0)). \<not> fst ch \<and> quiet (snd ch)" using parts(1) by (auto simp: quiet_def)
  moreover have "concat (map snd (at_chunks (env 0))) = feed_of now (claude_bytes es)"
    using parts by (simp add: comp_def)
  ultimately have "perform ?c (at_chunks (env 0)) 0 = Some (0, evs, sctx)"
    using run(1) by (simp add: perform_chunks)
  moreover have "process_residual_json sctx ''claude'' n = []" for n
    using run(4) by (simp add: process_residual_json_def split: option.split)
  ultimately have "http_post_sse ''claude'' s env = Some (0, evs @ [speed_event (env 0) sctx 0 (at_http (env 0))])"
    using assms(2) by (simp add: http_post_sse_def sse_attempt_def streams_def should_retry_def CURLE_OK_def
        CURLE_WRITE_ERROR_def finish_attempt_def final_code_def)
  moreover have "list_all (\<lambda>x. ev_type x \<noteq> SSE_ERROR \<and> ev_type x \<noteq> SSE_RETRY) (evs @ [speed_event (env 0) sctx 0 (at_http (env 0))])"
    using run(3) plain_loop [OF run(1)] by (auto simp: list_all_iff plain_def)
  moreover have "reply_of (accumulate sse_accum_init (evs @ [e])) = reply_step (foldl claude_reply empty_reply (map snd es)) e" for e
    using accumulate_step [OF init_acc(1), of "evs @ [e]"] run(2) by simp
  ultimately show ?thesis using that by auto
qed

section \<open>The turn\<close>

lemma stream_accum_plain:
  "list_all (\<lambda>x. ev_type x \<noteq> SSE_ERROR \<and> ev_type x \<noteq> SSE_RETRY) evs \<Longrightarrow>
     foldl stream_accum acc evs = accumulate acc evs \<and> acc_error (accumulate acc evs) = acc_error acc"
proof (induction evs arbitrary: acc)
  case (Cons e evs)
  then have "stream_accum acc e = sse_accum_callback acc e" "acc_error (sse_accum_callback acc e) = acc_error acc"
    by (auto simp: stream_accum_def Let_def sse_accum_callback_def accum_push_tool_def split: sse_type.split)
  with Cons show ?case by simp
qed simp

lemma reply_nulfree:
  "\<forall>e \<in> set es. claude_ok e \<Longrightarrow> nulfree (rp_text rp) \<and> nulfree (rp_thinking rp) \<Longrightarrow>
     nulfree (rp_text (foldl claude_reply rp es)) \<and> nulfree (rp_thinking (foldl claude_reply rp es))"
proof (induction es arbitrary: rp)
  case (Cons e es)
  then have "nulfree (rp_text (claude_reply rp e)) \<and> nulfree (rp_thinking (claude_reply rp e))"
    by (cases e) (auto split: prod.split)
  with Cons show ?case by simp
qed simp

text \<open>A reply without tool calls is one line; results of background tasks may follow.\<close>

lemma finish_turn_text:
  assumes "session_files d (ag_paths ag)" "acc_tools acc = []" "finish_turn ag acc r = (e, r')"
  shows "\<exists>new. grows ag r r' (reply_line acc [] # new) \<and> user_lines new"
proof -
  have "run_tools ag acc (note_reply ag acc r) = (None, note_reply ag acc r)" using assms(2) by (simp add: run_tools_def)
  then have r': "r' = snd (end_turn ag acc (save_reply ag acc None (note_reply ag acc r)))"
    using assms(3) by (simp add: finish_turn_def)
  have "grows ag (note_reply ag acc r) (save_reply ag acc None (note_reply ag acc r)) [reply_line acc []]"
    using grows_save [of acc "[]" None ag] assms(2) by (simp add: tool_uses_def result_lines_def)
  from grows_trans [OF grows_same [OF assms(1) run_same_note] this]
  have g: "grows ag r (save_reply ag acc None (note_reply ag acc r)) [reply_line acc []]" by simp
  obtain new where "grows ag (save_reply ag acc None (note_reply ag acc r)) r' new" "user_lines new"
    using grows_end(1) [OF assms(1), of "save_reply ag acc None (note_reply ag acc r)" acc] by (auto simp: adds_user_def r')
  with grows_trans [OF g] show ?thesis by fastforce
qed

text \<open>
  C3: What the model says reaches the conversation as it was said. When the request of a turn is answered
  by a Claude stream without tool calls, cut into chunks anywhere, the turn adds one line to the
  conversation in which the text and the thinking are read back exactly as the events of the stream
  spell them; only results of background tasks may follow it.
\<close>

theorem answer_reaches_conversation:
  assumes "session_files d (ag_paths ag)"
    and "r2 = snd (agent_compact_context ag ''auto'' (snd (agent_drain_sub_results ag (r\<lparr>r_interrupted := False\<rparr>))))"
    and "log_file (r_fs r2) (sp_conversation (ag_paths ag)) ls"
    and "build_claude_request (r_fs r2) (ag_model ag) (Some (system_prompt ag r2)) (Some (ag_tools_json ag))
           (map Some ls) (ag_max_tokens ag) (ag_thinking ag) (ag_effort ag) (ag_vision ag) \<noteq> None"
    and "\<forall>p \<in> set es. line_ok (fst p) \<and> claude_ok (snd p)" "streams (env 0) now es"
    and "r_replies r2 = o1 # os" "http_post_sse ''claude'' s env = Some (lo_rc o1, lo_events o1)"
    and "reply = foldl claude_reply empty_reply (map snd es)" "rp_tools reply = []"
    and "agent_turn ag r = (e, r')"
  shows "\<exists>l new v. log_file (r_fs r') (sp_conversation (ag_paths ag)) (ls @ l # new) \<and> user_lines new
    \<and> json_root l = Some v \<and> json_get_string v ''role'' = Some ''assistant''
    \<and> json_get_string (json_array_get (json_get v ''content'') 0) ''thinking'' = Some (rp_thinking reply)
    \<and> json_get_string (json_array_get (json_get v ''content'') 1) ''text'' = Some (rp_text reply)
    \<and> json_array_len (json_get v ''content'') = 2"
proof -
  obtain evs where evs: "http_post_sse ''claude'' s env = Some (0, evs)"
    "list_all (\<lambda>x. ev_type x \<noteq> SSE_ERROR \<and> ev_type x \<noteq> SSE_RETRY) evs"
    "rp_text (reply_of (accumulate sse_accum_init evs)) = rp_text reply"
    "rp_thinking (reply_of (accumulate sse_accum_init evs)) = rp_thinking reply"
    "rp_tools (reply_of (accumulate sse_accum_init evs)) = rp_tools reply"
    using request_streams [where env = env, OF assms(5,6), of s] assms(9) by blast
  define acc where "acc = accumulate sse_accum_init evs"
  have acc: "acc_error acc = None" "acc_tools acc = []" "sb_str (acc_text acc) = rp_text reply" "sb_str (acc_thinking acc) = rp_thinking reply"
    using stream_accum_plain [OF evs(2), of sse_accum_init] evs(3-5) assms(10) by (simp_all add: acc_def reply_of_def sse_accum_init_def)
  have o1: "lo_rc o1 = 0" "lo_events o1 = evs" using evs(1) assms(8) by simp_all
  obtain body where body: "build_claude_request (r_fs r2) (ag_model ag) (Some (system_prompt ag r2)) (Some (ag_tools_json ag))
      (map Some ls) (ag_max_tokens ag) (ag_thinking ag) (ag_effort ag) (ag_vision ag) = Some body" using assms(4) by blast
  define r3 where "r3 = r2\<lparr>r_err := r_err r2 @ verbose_text ag (for_provider ag body)\<rparr>"
  obtain r4 where s: "send_request ag True (for_provider ag body) r3 = (0, evs, r4)" "r_fs r4 = r_fs r2"
    using assms(7) o1 by (simp add: send_request_def Let_def r3_def)
  define r5 where "r5 = snd (foldl (stream_display_callback ag) (sse_accum_init, r4) evs)"
  have f: "foldl (stream_display_callback ag) (sse_accum_init, r4) evs = (acc, r5)"
    using stream_accum_fold [of ag "(sse_accum_init, r4)" evs] stream_accum_plain [OF evs(2), of sse_accum_init]
    by (simp add: prod_eq_iff r5_def acc_def)
  have "finish_turn ag acc r5 = (e, r')"
    using assms(11) unfolding agent_turn_def assms(2) [symmetric] Let_def log_file_lines [OF assms(3)] prod.case
    by (simp add: body r3_def [symmetric] s(1) f acc(1))
  then obtain new where new: "grows ag r5 r' (reply_line acc [] # new)" "user_lines new"
    using finish_turn_text [OF assms(1) acc(2)] by blast
  have "run_same (side_files (ag_paths ag)) r2 r5"
    using run_same_before [OF run_same_stream [of ag "(sse_accum_init, r4)" evs]] s(2) by (simp add: f)
  then have "log_file (r_fs r5) (sp_conversation (ag_paths ag)) ls"
    using log_file_same session_files_distinct(1) [OF assms(1)] assms(3) unfolding run_same_def by blast
  then have "log_file (r_fs r') (sp_conversation (ag_paths ag)) (ls @ reply_line acc [] # new)" using new(1) by (simp add: grows_def)
  moreover have "nulfree (rp_text reply)" "nulfree (rp_thinking reply)"
    using reply_nulfree [of "map snd es" empty_reply] assms(5,9) by (auto simp: empty_reply_def)
  ultimately show ?thesis
    using new(2) assistant_view [of "rp_thinking reply" "rp_text reply" "[]"] unfolding reply_line_def acc(3,4) by auto
qed

text \<open>An answer in two pieces, cut in the middle of a line.\<close>

definition hi_events :: "(string \<times> claude_event) list" where
  "hi_events = [(''x'', CText ''H''), (''x'', CText ''i''), (''x'', CMessageStop)]"

definition hi_attempt :: "nat \<Rightarrow> attempt" where
  "hi_attempt k =
     \<lparr>at_init = True,
      at_chunks = [(False, take 20 (feed_of 1 (claude_bytes hi_events))), (False, drop 20 (feed_of 1 (claude_bytes hi_events)))],
      at_rc = 0, at_http = 200, at_now = 9, at_total_us = 0, at_ttfb_us = 0, at_cancelled = (\<lambda>i. False), at_elapsed_ms = 0\<rparr>"

lemma hi_streams: "\<forall>p \<in> set hi_events. line_ok (fst p) \<and> claude_ok (snd p)" "streams (hi_attempt 0) 1 hi_events"
proof -
  show "\<forall>p \<in> set hi_events. line_ok (fst p) \<and> claude_ok (snd p)" by (auto simp: hi_events_def LF_def NUL_def)
  have "at_chunks (hi_attempt 0) = map (\<lambda>fs. (False, fs))
      [take 20 (feed_of 1 (claude_bytes hi_events)), drop 20 (feed_of 1 (claude_bytes hi_events))]" by (simp add: hi_attempt_def)
  moreover have "concat [take 20 (feed_of 1 (claude_bytes hi_events)), drop 20 (feed_of 1 (claude_bytes hi_events))]
      = feed_of 1 (claude_bytes hi_events)" by simp
  ultimately show "streams (hi_attempt 0) 1 hi_events"
    unfolding streams_def by (intro conjI exI) (assumption | simp add: hi_attempt_def CURLE_OK_def)+
qed

lemma answer_reaches_conversation_witness:
  "\<exists>o1 e r' l new v. agent_turn demo_ag (short_run [o1]) = (e, r')
     \<and> log_file (r_fs r') ''/s/conversation.jsonl'' (json_text (user_json ''a'') # l # new) \<and> json_root l = Some v
     \<and> json_get_string (json_array_get (json_get v ''content'') 1) ''text'' = Some ''Hi''"
proof -
  obtain evs where h: "http_post_sse ''claude'' 0 hi_attempt = Some (0, evs)"
    using request_streams [where env = hi_attempt, OF hi_streams] by blast
  let ?o = "\<lparr>lo_rc = 0, lo_events = evs, lo_interrupted = False\<rparr>"
  let ?r = "short_run [?o]"
  have p: "ag_paths demo_ag = demo_paths" "sp_conversation demo_paths = ''/s/conversation.jsonl''"
    by (simp_all add: demo_ag_def demo_paths_def)
  define r1 where "r1 = snd (agent_drain_sub_results demo_ag (?r\<lparr>r_interrupted := False\<rparr>))"
  have r1: "r_fs r1 = r_fs ?r" "r_replies r1 = [?o]"
    by (simp_all add: r1_def agent_drain_sub_results_def short_run_def demo_run_def)
  have l: "log_file (r_fs r1) ''/s/conversation.jsonl'' [json_text (user_json ''a'')]"
    unfolding r1 using user_line_ok [of "''a''"] by (simp add: short_run_def log_file_def session_fs_def)
  then have "agent_compact_context demo_ag ''auto'' r1 = (0, r1)"
    using log_file_lines [OF l] by (simp add: agent_compact_context_def compact_choose_def compact_needed_def forced_def p)
  then have r2: "r1 = snd (agent_compact_context demo_ag ''auto'' (snd (agent_drain_sub_results demo_ag (?r\<lparr>r_interrupted := False\<rparr>))))"
    by (simp add: r1_def)
  have b: "build_claude_request (r_fs r1) (ag_model demo_ag) (Some (system_prompt demo_ag r1)) (Some (ag_tools_json demo_ag))
      (map Some [json_text (user_json ''a'')]) (ag_max_tokens demo_ag) (ag_thinking demo_ag) (ag_effort demo_ag) (ag_vision demo_ag) \<noteq> None"
    using request_built [of "ag_vision demo_ag"] by (simp add: demo_ag_def)
  obtain e r' where t: "agent_turn demo_ag ?r = (e, r')" by (cases "agent_turn demo_ag ?r")
  define reply where "reply = foldl claude_reply empty_reply (map snd hi_events)"
  have reply: "rp_tools reply = []" "rp_text reply = ''Hi''" by (simp_all add: reply_def hi_events_def empty_reply_def)
  show ?thesis
    using answer_reaches_conversation [where d = "''/s''" and env = hi_attempt and s = 0,
        OF _ r2 _ b hi_streams r1(2) _ reply_def reply(1) t] demo_session(1) l h t reply(2) by (simp add: p) blast
qed

end
