(* ===== verification/Shutdown.thy ===== *)
theory Shutdown
  imports Background LineInput "HOL-Library.Multiset"
begin

text \<open>
  The threads of the process and its end (\<open>main\<close> of c/cagent.c, \<open>agent_main_loop\<close> and
  \<open>agent_wait_for_sub_agents\<close> of c/agent.c): the main thread takes input until its queue is closed or, in a
  batch run, empty; it waits for the background threads, joins the line editor, destroys the agent
  with its queue of results, and then the input queue.  A step relation interleaves it with the
  background threads, which are detached, and with the line editor.
\<close>

section \<open>Messages and the counter\<close>

text \<open>The messages of a thread that ends, and what taking a message does to \<open>active_task_count\<close>
  (\<open>agent_process_sub_result\<close>).\<close>

fun is_report :: "input_message \<Rightarrow> bool" where
  "is_report (MSG_AGENT_RESULT res) \<longleftrightarrow> True"
| "is_report (MSG_ASYNC_TASK_RESULT i c out) \<longleftrightarrow> True"
| "is_report m \<longleftrightarrow> False"

fun settle :: "input_message \<Rightarrow> int \<Rightarrow> int" where
  "settle (MSG_AGENT_RESULT res) n = s32 (n - 1)"
| "settle (MSG_ASYNC_TASK_RESULT i c out) n = (if 0 < n then n - 1 else n)"
| "settle m n = n"

text \<open>\<open>settle\<close> is the counter's part of the detailed model, and the reports are what the threads of the
  detailed model push.\<close>

lemma active_frames:
  "r_active (append_event ag e r) = r_active r" "r_active (display_only_push ag d r) = r_active r"
  "r_active (push_display_event ag d r) = r_active r" "r_active (stats_bump ag k v r) = r_active r"
  "r_active (add_token_totals ag a b c1 d1 r) = r_active r" "r_active (agent_update_title ag r) = r_active r"
proof -
  show e: "r_active (append_event ag e r) = r_active r" for e
    by (simp add: append_event_def split: prod.split)
  show d: "r_active (display_only_push ag d r) = r_active r" for r by (simp add: display_only_push_def)
  show "r_active (push_display_event ag d r) = r_active r"
    by (simp add: push_display_event_def d e split: option.split)
  show b: "r_active (stats_bump ag k v r) = r_active r" for k v r by (simp add: stats_bump_def stats_set_def)
  show "r_active (add_token_totals ag a b c1 d1 r) = r_active r" by (simp add: add_token_totals_def b)
  show "r_active (agent_update_title ag r) = r_active r" by (simp add: agent_update_title_def update_title_status_def)
qed

lemma sub_agent_result_active: "r_active (agent_handle_sub_agent_result ag res r) = s32 (r_active r - 1)"
  unfolding agent_handle_sub_agent_result_def Let_def by (simp add: active_frames)

lemma process_result_settles:
  "process_result ag m r = Some (ctx, kind, r') \<Longrightarrow> r_active r' = settle m (r_active r)"
  by (cases m) (auto simp: process_result_def Let_def sub_agent_result_active active_frames)

lemma threads_report:
  "is_report (async_bash_message job task_id)" "is_report (MSG_AGENT_RESULT res)"
  by (simp_all add: async_bash_message_def)

section \<open>Threads and steps\<close>

text \<open>A background thread works, has pushed its report and is about to wake the main loop
  (\<open>agent_signal_notify\<close>), or has ended; the line editor reads, has pushed a note and is about to wake
  the main loop, or has ended.  The main thread is at the \<open>mq_pop\<close> of its loop (\<open>MLoop\<close>), handles a message
  (\<open>MInput\<close>), tests the condition of \<open>agent_wait_for_sub_agents\<close> (\<open>MWait\<close>), called from the loop or
  behind it, runs the turn for a result it waited for (\<open>MTurn\<close>), or is at a later point of \<open>main\<close>.\<close>

datatype worker_pc = WWorking | WReported | WEnded

datatype reader_pc = RReading | RInjected | REnded

datatype wait_place = InLoop | AtEnd

datatype main_pc =
  MLoop | MInput | MWait wait_place | MTurn wait_place | MJoin | MDestroyAgent | MDestroyInput | MReturn | MReturned

datatype queue_state = QOpen | QClosed | QDestroyed

record world =
  w_main :: main_pc
  w_reader :: reader_pc
  w_workers :: "worker_pc multiset"
  w_active :: int
  w_results :: "input_message list"
  w_results_state :: queue_state
  w_inputs :: nat
  w_input_state :: queue_state
  w_results_misused :: bool
  w_input_misused :: bool

text \<open>The start of the main loop: a batch run has no line editor, and its input is already queued.\<close>

definition world_init :: "bool \<Rightarrow> nat \<Rightarrow> world" where
  "world_init interactive n =
     \<lparr>w_main = MLoop, w_reader = (if interactive then RReading else REnded), w_workers = {#}, w_active = 0,
      w_results = [], w_results_state = QOpen, w_inputs = (if interactive then 0 else n), w_input_state = QOpen,
      w_results_misused = False, w_input_misused = False\<rparr>"

text \<open>The two queues; an operation on a queue that has been destroyed is remembered.\<close>

definition push_report :: "input_message \<Rightarrow> world \<Rightarrow> world" where
  "push_report m s =
     (case w_results_state s of
        QOpen \<Rightarrow> s\<lparr>w_results := w_results s @ [m]\<rparr>
      | QClosed \<Rightarrow> s
      | QDestroyed \<Rightarrow> s\<lparr>w_results_misused := True\<rparr>)"

definition push_input :: "world \<Rightarrow> world" where
  "push_input s =
     (case w_input_state s of
        QOpen \<Rightarrow> s\<lparr>w_inputs := w_inputs s + 1\<rparr>
      | QClosed \<Rightarrow> s
      | QDestroyed \<Rightarrow> s\<lparr>w_input_misused := True\<rparr>)"

definition close_input :: "world \<Rightarrow> world" where
  "close_input s =
     (if w_input_state s = QDestroyed then s\<lparr>w_input_misused := True\<rparr> else s\<lparr>w_input_state := QClosed\<rparr>)"

definition move_worker :: "worker_pc \<Rightarrow> worker_pc \<Rightarrow> world \<Rightarrow> world" where
  "move_worker p p' s = s\<lparr>w_workers := w_workers s - {#p#} + {#p'#}\<rparr>"

text \<open>Where turns run, which start tasks, take results and let the goal judge queue its text.\<close>

definition in_turn :: "main_pc \<Rightarrow> bool" where
  "in_turn p \<longleftrightarrow> p = MInput \<or> p = MTurn InLoop \<or> p = MTurn AtEnd"

text \<open>Only an interactive run gives its background threads the input queue; the thread of a batch run is
  done with its report.\<close>

inductive world_step :: "bool \<Rightarrow> world \<Rightarrow> world \<Rightarrow> bool" for interactive where
  start_task: "in_turn (w_main s) \<Longrightarrow> w_active s + 1 < 2 ^ 31 \<Longrightarrow>
     world_step interactive s (s\<lparr>w_workers := w_workers s + {#WWorking#}, w_active := w_active s + 1\<rparr>)"
| take_result: "in_turn (w_main s) \<Longrightarrow> w_results s = m # ms \<Longrightarrow>
     world_step interactive s (s\<lparr>w_results := ms, w_active := settle m (w_active s)\<rparr>)"
| goal_requeued: "in_turn (w_main s) \<Longrightarrow> world_step interactive s (push_input s)"
| worker_reports: "w_main s \<noteq> MReturned \<Longrightarrow> WWorking \<in># w_workers s \<Longrightarrow> is_report m \<Longrightarrow>
     world_step interactive s (push_report m (move_worker WWorking (if interactive then WReported else WEnded) s))"
| worker_wakes: "w_main s \<noteq> MReturned \<Longrightarrow> WReported \<in># w_workers s \<Longrightarrow>
     world_step interactive s (push_input (move_worker WReported WEnded s))"
| reader_sends: "w_reader s = RReading \<Longrightarrow> world_step interactive s (push_input s)"
| reader_injects: "w_reader s = RReading \<Longrightarrow>
     world_step interactive s (push_report (MSG_USER_NOTIFY t) (s\<lparr>w_reader := RInjected\<rparr>))"
| reader_wakes: "w_reader s = RInjected \<Longrightarrow> world_step interactive s (push_input (s\<lparr>w_reader := RReading\<rparr>))"
| reader_ends: "w_reader s = RReading \<Longrightarrow> world_step interactive s (close_input (s\<lparr>w_reader := REnded\<rparr>))"
| loop_pop: "w_main s = MLoop \<Longrightarrow> w_inputs s = Suc n \<Longrightarrow>
     world_step interactive s (s\<lparr>w_main := MInput, w_inputs := n\<rparr>)"
| loop_closed: "w_main s = MLoop \<Longrightarrow> w_inputs s = 0 \<Longrightarrow> w_input_state s = QClosed \<Longrightarrow>
     world_step interactive s (s\<lparr>w_main := MWait AtEnd\<rparr>)"
| input_handled: "w_main s = MInput \<Longrightarrow>
     world_step interactive s (s\<lparr>w_main := (if interactive then MLoop else MWait InLoop)\<rparr>)"
| wait_pop: "w_main s = MWait p \<Longrightarrow> 0 < w_active s \<Longrightarrow> w_results s = m # ms \<Longrightarrow>
     world_step interactive s (s\<lparr>w_main := MTurn p, w_results := ms, w_active := settle m (w_active s)\<rparr>)"
| turn_ends: "w_main s = MTurn p \<Longrightarrow> world_step interactive s (s\<lparr>w_main := MWait p\<rparr>)"
| loop_wait_over: "w_main s = MWait InLoop \<Longrightarrow> w_active s \<le> 0 \<Longrightarrow>
     world_step interactive s (s\<lparr>w_main := (if w_inputs s = 0 then MWait AtEnd else MLoop)\<rparr>)"
| wait_over: "w_main s = MWait AtEnd \<Longrightarrow> w_active s \<le> 0 \<Longrightarrow>
     world_step interactive s
       (if interactive then close_input (s\<lparr>w_main := MJoin\<rparr>) else s\<lparr>w_main := MDestroyAgent\<rparr>)"
| join_reader: "w_main s = MJoin \<Longrightarrow> w_reader s = REnded \<Longrightarrow> world_step interactive s (s\<lparr>w_main := MDestroyAgent\<rparr>)"
| destroy_agent: "w_main s = MDestroyAgent \<Longrightarrow>
     world_step interactive s (s\<lparr>w_main := MDestroyInput, w_results := [], w_results_state := QDestroyed\<rparr>)"
| destroy_input: "w_main s = MDestroyInput \<Longrightarrow>
     world_step interactive s (s\<lparr>w_main := MReturn, w_inputs := 0, w_input_state := QDestroyed\<rparr>)"
| return_main: "w_main s = MReturn \<Longrightarrow> world_step interactive s (s\<lparr>w_main := MReturned\<rparr>)"

inductive world_reachable :: "bool \<Rightarrow> nat \<Rightarrow> world \<Rightarrow> bool" for interactive n where
  start: "world_reachable interactive n (world_init interactive n)"
| step: "world_reachable interactive n s \<Longrightarrow> world_step interactive s t \<Longrightarrow> world_reachable interactive n t"

section \<open>The invariant\<close>

text \<open>The counter is the number of threads at work and of reports not yet taken; behind the wait nothing
  is left of either, and behind the join the line editor has ended.\<close>

fun phase :: "main_pc \<Rightarrow> nat" where
  "phase MJoin = 1"
| "phase MDestroyAgent = 2"
| "phase MDestroyInput = 3"
| "phase MReturn = 4"
| "phase MReturned = 5"
| "phase _ = 0"

definition reports :: "input_message list \<Rightarrow> nat" where
  "reports ms = length (filter is_report ms)"

definition counter_inv :: "world \<Rightarrow> bool" where
  "counter_inv s \<longleftrightarrow>
     w_active s = int (count (w_workers s) WWorking) + int (reports (w_results s)) \<and> w_active s < 2 ^ 31
     \<and> (0 < phase (w_main s) \<longrightarrow> w_active s = 0)"

definition queue_inv :: "bool \<Rightarrow> world \<Rightarrow> bool" where
  "queue_inv interactive s \<longleftrightarrow>
     (1 < phase (w_main s) \<or> \<not> interactive \<longrightarrow> w_reader s = REnded)
     \<and> (interactive \<and> w_reader s = REnded \<longrightarrow> w_input_state s \<noteq> QOpen)
     \<and> (w_results_state s \<noteq> QOpen \<longrightarrow> 2 < phase (w_main s))
     \<and> (w_input_state s = QDestroyed \<longrightarrow> 3 < phase (w_main s))
     \<and> (\<not> interactive \<longrightarrow> WReported \<notin># w_workers s)
     \<and> \<not> w_results_misused s \<and> (\<not> interactive \<longrightarrow> \<not> w_input_misused s)"

text \<open>A batch run that had input comes back to its loop only for more.\<close>

definition batch_inv :: "bool \<Rightarrow> nat \<Rightarrow> world \<Rightarrow> bool" where
  "batch_inv interactive n s \<longleftrightarrow> (\<not> interactive \<and> 0 < n \<and> w_main s = MLoop \<longrightarrow> 0 < w_inputs s)"

lemma reports_simps [simp]:
  "reports [] = 0" "reports (m # ms) = (if is_report m then 1 else 0) + reports ms"
  "reports (ms @ ms') = reports ms + reports ms'"
  by (simp_all add: reports_def)

lemma settle_report:
  "n = int k + int (reports (m # ms)) \<Longrightarrow> n < 2 ^ 31 \<Longrightarrow> settle m n = int k + int (reports ms)"
  by (cases m) (auto simp: s32_id)

lemma phase_in_turn [simp]: "in_turn p \<Longrightarrow> phase p = 0"
  by (auto simp: in_turn_def)

lemma not_in_turn [simp]: "\<not> in_turn MLoop"
  by (simp add: in_turn_def)

lemmas world_ops = push_report_def push_input_def close_input_def move_worker_def

lemma world_init_inv:
  "counter_inv (world_init i n)" "queue_inv i (world_init i n)" "batch_inv i n (world_init i n)"
  by (simp_all add: counter_inv_def queue_inv_def batch_inv_def world_init_def)

text \<open>Whoever may still push to the queue of results finds it open.\<close>

lemma results_open:
  assumes "counter_inv s" "queue_inv interactive s"
  shows "WWorking \<in># w_workers s \<or> w_reader s \<noteq> REnded \<Longrightarrow> w_results_state s = QOpen"
proof (rule ccontr)
  assume busy: "WWorking \<in># w_workers s \<or> w_reader s \<noteq> REnded" and "w_results_state s \<noteq> QOpen"
  with assms(2) have late: "2 < phase (w_main s)" by (simp add: queue_inv_def)
  with assms(2) have "w_reader s = REnded" by (simp add: queue_inv_def)
  moreover from late assms(1) have "count (w_workers s) WWorking = 0" by (simp add: counter_inv_def)
  ultimately show False using busy by (simp add: count_eq_zero_iff)
qed

lemma push_input_frames [simp]:
  "w_main (push_input s) = w_main s" "w_reader (push_input s) = w_reader s" "w_workers (push_input s) = w_workers s"
  "w_active (push_input s) = w_active s" "w_results (push_input s) = w_results s"
  "w_results_state (push_input s) = w_results_state s" "w_input_state (push_input s) = w_input_state s"
  "w_results_misused (push_input s) = w_results_misused s"
  by (simp_all add: push_input_def split: queue_state.split)

lemma close_input_frames [simp]:
  "w_main (close_input s) = w_main s" "w_reader (close_input s) = w_reader s" "w_workers (close_input s) = w_workers s"
  "w_active (close_input s) = w_active s" "w_results (close_input s) = w_results s" "w_inputs (close_input s) = w_inputs s"
  "w_results_state (close_input s) = w_results_state s" "w_results_misused (close_input s) = w_results_misused s"
  "w_input_state (close_input s) = (if w_input_state s = QDestroyed then QDestroyed else QClosed)"
  by (simp_all add: close_input_def)

lemma counter_step: "world_step interactive s t \<Longrightarrow> counter_inv s \<Longrightarrow> queue_inv interactive s \<Longrightarrow> counter_inv t"
proof (induction rule: world_step.induct)
  case (take_result s m ms)
  then have "settle m (w_active s) = int (count (w_workers s) WWorking) + int (reports ms)"
    by (intro settle_report) (simp_all add: counter_inv_def)
  with take_result show ?case by (simp add: counter_inv_def)
next
  case (worker_reports s m)
  then have "w_results_state s = QOpen" "0 < count (w_workers s) WWorking"
    using results_open by auto
  with worker_reports show ?case by (auto simp: counter_inv_def world_ops)
next
  case (wait_pop s p m ms)
  then have "settle m (w_active s) = int (count (w_workers s) WWorking) + int (reports ms)"
    by (intro settle_report) (simp_all add: counter_inv_def)
  with wait_pop show ?case by (simp add: counter_inv_def)
next
  case (reader_injects s t)
  then have "w_results_state s = QOpen" using results_open by auto
  with reader_injects show ?case by (auto simp: counter_inv_def world_ops)
qed (auto simp: counter_inv_def move_worker_def)

lemma queue_step: "world_step interactive s t \<Longrightarrow> counter_inv s \<Longrightarrow> queue_inv interactive s \<Longrightarrow> queue_inv interactive t"
proof (induction rule: world_step.induct)
  case (worker_reports s m)
  then have "w_results_state s = QOpen" using results_open by auto
  with worker_reports show ?case by (simp add: queue_inv_def world_ops in_diff_count)
next
  case (reader_injects s t)
  then have "w_results_state s = QOpen" using results_open by auto
  with reader_injects show ?case by (simp add: queue_inv_def world_ops)
next
  case (worker_wakes s)
  then show ?case by (cases interactive) (simp_all add: queue_inv_def move_worker_def)
next
  case (reader_wakes s)
  then show ?case by (cases interactive) (simp_all add: queue_inv_def)
next
  case (reader_sends s)
  then show ?case by (cases interactive) (simp_all add: queue_inv_def)
next
  case (reader_ends s)
  then show ?case by (cases interactive) (auto simp: queue_inv_def)
next
  case (goal_requeued s)
  then show ?case by (cases interactive) (auto simp: queue_inv_def push_input_def split: queue_state.split)
qed (simp_all add: queue_inv_def)

lemma batch_step: "world_step i s t \<Longrightarrow> queue_inv i s \<Longrightarrow> batch_inv i n s \<Longrightarrow> batch_inv i n t"
  by (induction rule: world_step.induct)
     (auto simp: batch_inv_def queue_inv_def world_ops split: queue_state.split if_splits)

lemma world_reachable_inv: "world_reachable i n s \<Longrightarrow> counter_inv s \<and> queue_inv i s \<and> batch_inv i n s"
  by (induction rule: world_reachable.induct) (simp_all add: world_init_inv counter_step queue_step batch_step)

lemma no_reports: "reports ms = 0 \<longleftrightarrow> list_all (\<lambda>m. \<not> is_report m) ms"
  by (induction ms) auto

lemma waits_for_work:
  assumes "counter_inv s" "0 < w_active s" "w_results s = []"
  shows "WWorking \<in># w_workers s"
  using assms by (simp add: counter_inv_def)

lemma after_wait:
  assumes "counter_inv s" "0 < phase (w_main s)"
  shows "WWorking \<notin># w_workers s" "list_all (\<lambda>m. \<not> is_report m) (w_results s)"
proof -
  have "count (w_workers s) WWorking = 0" "reports (w_results s) = 0"
    using assms by (auto simp: counter_inv_def)
  then show "WWorking \<notin># w_workers s" "list_all (\<lambda>m. \<not> is_report m) (w_results s)"
    by (simp_all add: no_reports count_eq_zero_iff)
qed

section \<open>The way out\<close>

text \<open>The process can end from a state, and reach one state from another.\<close>

definition can_return :: "bool \<Rightarrow> world \<Rightarrow> bool" where
  "can_return interactive s \<longleftrightarrow> (\<exists>t. (world_step interactive)\<^sup>*\<^sup>* s t \<and> w_main t = MReturned)"

lemma can_return_step: "world_step i s t \<Longrightarrow> can_return i t \<Longrightarrow> can_return i s"
  unfolding can_return_def by (meson converse_rtranclp_into_rtranclp)

lemma can_return_steps: "(world_step i)\<^sup>*\<^sup>* s t \<Longrightarrow> can_return i t \<Longrightarrow> can_return i s"
  unfolding can_return_def by (meson rtranclp_trans)

lemma reachable_steps: "(world_step i)\<^sup>*\<^sup>* s t \<Longrightarrow> world_reachable i n s \<Longrightarrow> world_reachable i n t"
  by (induction rule: rtranclp_induct) (auto intro: world_reachable.step)

lemma return_tail:
  "w_main s = MReturned \<Longrightarrow> can_return i s" "w_main s = MReturn \<Longrightarrow> can_return i s"
  "w_main s = MDestroyInput \<Longrightarrow> can_return i s" "w_main s = MDestroyAgent \<Longrightarrow> can_return i s"
proof -
  show 1: "can_return i s" if "w_main s = MReturned" for s using that by (auto simp: can_return_def)
  show 2: "can_return i s" if "w_main s = MReturn" for s
    by (rule can_return_step [OF return_main [OF that]], rule 1) simp
  show 3: "can_return i s" if "w_main s = MDestroyInput" for s
    by (rule can_return_step [OF destroy_input [OF that]], rule 2) simp
  show "can_return i s" if "w_main s = MDestroyAgent" for s
    by (rule can_return_step [OF destroy_agent [OF that]], rule 3) simp
qed

text \<open>The line editor can come to its end at any time.\<close>

lemma reader_can_end:
  "\<exists>t. (world_step i)\<^sup>*\<^sup>* s t \<and> w_reader t = REnded \<and> w_main t = w_main s"
proof -
  have 1: "\<exists>t. world_step i s t \<and> w_reader t = REnded \<and> w_main t = w_main s" if "w_reader s = RReading" for s
    using reader_ends [OF that] by fastforce
  have 2: "\<exists>t. world_step i s t \<and> w_reader t = RReading \<and> w_main t = w_main s" if "w_reader s = RInjected" for s
    using reader_wakes [OF that] by fastforce
  show ?thesis
  proof (cases "w_reader s")
    case RReading
    then show ?thesis using 1 by (meson r_into_rtranclp)
  next
    case RInjected
    then obtain t where t: "world_step i s t" "w_reader t = RReading" "w_main t = w_main s" using 2 by blast
    then obtain u where "world_step i t u" "w_reader u = REnded" "w_main u = w_main t" using 1 by blast
    with t show ?thesis by (metis converse_rtranclp_into_rtranclp r_into_rtranclp)
  qed auto
qed

lemma return_join: "w_main s = MJoin \<Longrightarrow> can_return i s"
proof -
  assume "w_main s = MJoin"
  then obtain t where t: "(world_step i)\<^sup>*\<^sup>* s t" "w_reader t = REnded" "w_main t = MJoin" using reader_can_end by metis
  have "can_return i t"
    by (rule can_return_step [OF join_reader [OF t(3,2)]], rule return_tail) simp
  with t(1) show ?thesis by (rule can_return_steps)
qed

text \<open>A wait can end: each step takes a message or turns a thread at work into one.\<close>

lemma wait_ends:
  "w_main s = MWait p \<Longrightarrow> counter_inv s \<Longrightarrow> queue_inv i s \<Longrightarrow>
     \<exists>t. (world_step i)\<^sup>*\<^sup>* s t \<and> w_main t = MWait p \<and> w_active t \<le> 0 \<and> w_inputs t = w_inputs s"
proof (induction "2 * count (w_workers s) WWorking + length (w_results s)" arbitrary: s rule: less_induct)
  case less
  note inv = less.prems(2,3)
  show ?case
  proof (cases "w_active s \<le> 0")
    case True
    with less.prems(1) show ?thesis by blast
  next
    case False
    then have act: "0 < w_active s" by simp
    show ?thesis
    proof (cases "w_results s")
      case (Cons m ms)
      let ?t = "s\<lparr>w_main := MTurn p, w_results := ms, w_active := settle m (w_active s)\<rparr>"
      let ?u = "?t\<lparr>w_main := MWait p\<rparr>"
      have 1: "world_step i s ?t" by (rule wait_pop [OF less.prems(1) act Cons])
      have 2: "world_step i ?t ?u" by (rule turn_ends) simp
      have "counter_inv ?u" "queue_inv i ?u"
        using counter_step [OF 2] queue_step [OF 2] counter_step [OF 1 inv] queue_step [OF 1 inv] by blast+
      moreover have "2 * count (w_workers ?u) WWorking + length (w_results ?u)
          < 2 * count (w_workers s) WWorking + length (w_results s)" using Cons by simp
      ultimately obtain v where v: "(world_step i)\<^sup>*\<^sup>* ?u v" "w_main v = MWait p" "w_active v \<le> 0" "w_inputs v = w_inputs ?u"
        using less.hyps [of ?u] by auto
      have "(world_step i)\<^sup>*\<^sup>* s v" using 1 2 v(1) by (meson converse_rtranclp_into_rtranclp)
      with v show ?thesis by auto
    next
      case Nil
      let ?m = "MSG_ASYNC_TASK_RESULT None 0 None"
      let ?t = "push_report ?m (move_worker WWorking (if i then WReported else WEnded) s)"
      have w: "WWorking \<in># w_workers s" by (rule waits_for_work [OF inv(1) act Nil])
      have 1: "world_step i s ?t" by (rule worker_reports) (simp_all add: less.prems(1) w)
      have "w_results_state s = QOpen" using results_open [OF inv] w by blast
      then have t: "w_main ?t = MWait p" "w_results ?t = [?m]" "w_inputs ?t = w_inputs s"
        "count (w_workers ?t) WWorking = count (w_workers s) WWorking - 1"
        using less.prems(1) Nil by (simp_all add: push_report_def move_worker_def)
      obtain k where "count (w_workers s) WWorking = Suc k"
        using w gr0_implies_Suc count_greater_zero_iff by metis
      then have "2 * count (w_workers ?t) WWorking + length (w_results ?t)
          < 2 * count (w_workers s) WWorking + length (w_results s)" using t Nil by simp
      from less.hyps [OF this t(1) counter_step [OF 1 inv] queue_step [OF 1 inv]] 1 t(3)
      show ?thesis by (metis converse_rtranclp_into_rtranclp)
    qed
  qed
qed

lemma return_at_end:
  assumes "world_reachable i n s" "w_main s = MWait AtEnd" shows "can_return i s"
proof -
  obtain t where t: "(world_step i)\<^sup>*\<^sup>* s t" "w_main t = MWait AtEnd" "w_active t \<le> 0"
    using wait_ends [OF assms(2)] world_reachable_inv [OF assms(1)] by blast
  have "can_return i t"
    by (rule can_return_step [OF wait_over [OF t(2,3)]]) (cases i; simp add: return_join return_tail)
  with t(1) show ?thesis by (rule can_return_steps)
qed

text \<open>The loop of an interactive run empties a closed queue, that of a batch run an open one.\<close>

lemma return_closed_loop:
  "world_reachable True n s \<Longrightarrow> w_main s = MLoop \<Longrightarrow> w_reader s = REnded \<Longrightarrow> can_return True s"
proof (induction "w_inputs s" arbitrary: s)
  case 0
  then have "w_input_state s = QClosed"
    using world_reachable_inv [OF 0(2)] by (cases "w_input_state s") (simp_all add: queue_inv_def)
  then have 1: "world_step True s (s\<lparr>w_main := MWait AtEnd\<rparr>)" using 0 by (intro loop_closed) simp_all
  show ?case
    by (rule can_return_step [OF 1], rule return_at_end [OF world_reachable.step [OF 0(2) 1]]) simp
next
  case (Suc k)
  let ?t = "s\<lparr>w_main := MInput, w_inputs := k\<rparr>"
  have 1: "world_step True s ?t" using Suc by (intro loop_pop) simp_all
  have 2: "world_step True ?t (?t\<lparr>w_main := MLoop\<rparr>)" using input_handled [of ?t True] by simp
  have "can_return True (?t\<lparr>w_main := MLoop\<rparr>)"
    using Suc.hyps(1) [of "?t\<lparr>w_main := MLoop\<rparr>"] world_reachable.step [OF world_reachable.step [OF Suc.prems(1) 1] 2]
      Suc.prems(3) by simp
  then show ?case by (rule can_return_step [OF 1 can_return_step [OF 2]])
qed

lemma return_batch_wait:
  "world_reachable False n s \<Longrightarrow> w_main s = MWait InLoop \<Longrightarrow> can_return False s"
proof (induction "w_inputs s" arbitrary: s)
  case 0
  obtain t where t: "(world_step False)\<^sup>*\<^sup>* s t" "w_main t = MWait InLoop" "w_active t \<le> 0" "w_inputs t = 0"
    using wait_ends [OF 0(3)] world_reachable_inv [OF 0(2)] 0(1) by metis
  have 1: "world_step False t (t\<lparr>w_main := MWait AtEnd\<rparr>)" using loop_wait_over [OF t(2,3), of False] t(4) by simp
  have "can_return False t"
    by (rule can_return_step [OF 1],
        rule return_at_end [OF world_reachable.step [OF reachable_steps [OF t(1) 0(2)] 1]]) simp
  with t(1) show ?case by (rule can_return_steps)
next
  case (Suc k)
  obtain t where t: "(world_step False)\<^sup>*\<^sup>* s t" "w_main t = MWait InLoop" "w_active t \<le> 0" "w_inputs t = Suc k"
    using wait_ends [OF Suc.prems(2)] world_reachable_inv [OF Suc.prems(1)] Suc.hyps(2) by metis
  let ?u = "t\<lparr>w_main := MLoop\<rparr>" and ?v = "t\<lparr>w_main := MInput, w_inputs := k\<rparr>"
  let ?w = "?v\<lparr>w_main := MWait InLoop\<rparr>"
  have 1: "world_step False t ?u" using loop_wait_over [OF t(2,3), of False] t(4) by simp
  have 2: "world_step False ?u ?v" using loop_pop [of ?u k False] t(4) by simp
  have 3: "world_step False ?v ?w" using input_handled [of ?v False] by simp
  have "world_reachable False n ?w"
    by (rule world_reachable.step [OF world_reachable.step [OF world_reachable.step [OF reachable_steps [OF t(1) Suc.prems(1)] 1] 2] 3])
  then have "can_return False ?w" using Suc.hyps(1) [of ?w] by simp
  then have "can_return False t" by (rule can_return_step [OF 1 can_return_step [OF 2 can_return_step [OF 3]]])
  with t(1) show ?case by (rule can_return_steps)
qed

lemma return_loop:
  assumes "world_reachable i n s" "w_main s = MLoop" "i \<or> 0 < n" shows "can_return i s"
proof (cases i)
  case True
  obtain t where t: "(world_step i)\<^sup>*\<^sup>* s t" "w_reader t = REnded" "w_main t = MLoop"
    using reader_can_end [of i s] assms(2) by auto
  have "world_reachable True n t" using reachable_steps [OF t(1) assms(1)] True by simp
  then have "can_return i t" using return_closed_loop t(2,3) True by simp
  with t(1) show ?thesis by (rule can_return_steps)
next
  case False
  then have "0 < w_inputs s" using world_reachable_inv [OF assms(1)] assms(2,3) by (simp add: batch_inv_def)
  then obtain k where k: "w_inputs s = Suc k" using gr0_implies_Suc by blast
  let ?t = "s\<lparr>w_main := MInput, w_inputs := k\<rparr>"
  have 1: "world_step False s ?t" by (rule loop_pop [OF assms(2) k])
  have 2: "world_step False ?t (?t\<lparr>w_main := MWait InLoop\<rparr>)" using input_handled [of ?t False] by simp
  have "can_return False (?t\<lparr>w_main := MWait InLoop\<rparr>)"
    by (rule return_batch_wait [of n]) (use assms(1) False 1 2 in \<open>auto intro: world_reachable.step\<close>)
  then show ?thesis using False can_return_step [OF 1 can_return_step [OF 2]] by simp
qed

lemma return_in_loop:
  assumes "world_reachable i n s" "w_main s = MWait InLoop" "i \<or> 0 < n" shows "can_return i s"
proof -
  obtain t where t: "(world_step i)\<^sup>*\<^sup>* s t" "w_main t = MWait InLoop" "w_active t \<le> 0"
    using wait_ends [OF assms(2)] world_reachable_inv [OF assms(1)] by blast
  note 1 = loop_wait_over [OF t(2,3), of i]
  have "world_reachable i n (t\<lparr>w_main := (if w_inputs t = 0 then MWait AtEnd else MLoop)\<rparr>)"
    by (rule world_reachable.step [OF reachable_steps [OF t(1) assms(1)] 1])
  then have "can_return i (t\<lparr>w_main := (if w_inputs t = 0 then MWait AtEnd else MLoop)\<rparr>)"
    using return_at_end return_loop assms(3) by (cases "w_inputs t = 0") auto
  with t(1) 1 show ?thesis using can_return_step can_return_steps by blast
qed

section \<open>Properties\<close>

text \<open>
  C11: The queue of results outlives its users.  However the main thread, the line editor and the
  background threads interleave, nobody pushes to the queue of results after \<open>agent_destroy\<close> freed it; when
  the wait is over, every background thread has reported and every report has been processed; and while
  \<open>agent_wait_for_sub_agents\<close> blocks on the empty queue, a thread that will report is still at work.
\<close>

theorem shutdown_safe:
  assumes "world_reachable interactive n s"
  shows "\<not> w_results_misused s
    \<and> (w_results_state s = QDestroyed \<longrightarrow> WWorking \<notin># w_workers s \<and> w_reader s = REnded)
    \<and> (0 < phase (w_main s) \<longrightarrow> WWorking \<notin># w_workers s \<and> list_all (\<lambda>m. \<not> is_report m) (w_results s))
    \<and> (w_main s \<in> {MWait InLoop, MWait AtEnd} \<and> 0 < w_active s \<and> w_results s = [] \<longrightarrow> WWorking \<in># w_workers s)"
proof (intro conjI impI)
  have c: "counter_inv s" and q: "queue_inv interactive s" using world_reachable_inv [OF assms] by simp_all
  show "\<not> w_results_misused s" using q by (simp add: queue_inv_def)
  show "WWorking \<notin># w_workers s" "w_reader s = REnded" if "w_results_state s = QDestroyed"
    using results_open [OF c q] that by auto
  show "WWorking \<notin># w_workers s" "list_all (\<lambda>m. \<not> is_report m) (w_results s)" if "0 < phase (w_main s)"
    using after_wait [OF c that] by simp_all
  show "WWorking \<in># w_workers s"
    if "w_main s \<in> {MWait InLoop, MWait AtEnd} \<and> 0 < w_active s \<and> w_results s = []"
    using waits_for_work [OF c] that by simp
qed

text \<open>
  C21: The process can always end.  From every state that an interactive run, or a batch run with some
  input, can reach, there are steps after which \<open>main\<close> has returned: no interleaving leaves the main
  thread blocked for good on a queue, in a wait, or on the line editor.
\<close>

theorem shutdown_returns:
  assumes "world_reachable interactive n s" "interactive \<or> 0 < n"
  shows "\<exists>t. (world_step interactive)\<^sup>*\<^sup>* s t \<and> w_main t = MReturned"
proof -
  have wait: "can_return interactive u" if "world_reachable interactive n u" "w_main u = MWait p" for u p
    using that return_in_loop return_at_end assms(2) by (cases p) blast+
  have "can_return interactive s"
  proof (cases "w_main s")
    case MLoop
    then show ?thesis using return_loop assms by blast
  next
    case MInput
    note 1 = input_handled [OF MInput, of interactive]
    note r = world_reachable.step [OF assms(1) 1]
    let ?t = "s\<lparr>w_main := (if interactive then MLoop else MWait InLoop)\<rparr>"
    have "w_main ?t = MLoop \<or> w_main ?t = MWait InLoop" by simp
    then have "can_return interactive ?t" using return_loop [OF r _ assms(2)] wait [OF r] by blast
    then show ?thesis by (rule can_return_step [OF 1])
  next
    case (MTurn p)
    note 1 = turn_ends [OF MTurn, of interactive]
    show ?thesis
      by (rule can_return_step [OF 1], rule wait [OF world_reachable.step [OF assms(1) 1]]) simp
  qed (simp_all add: return_join return_tail wait [OF assms(1)])
  then show ?thesis by (simp add: can_return_def)
qed

section \<open>What can go wrong\<close>

text \<open>A batch run without any input waits for ever: its queue is empty and nobody closes it.\<close>

lemma batch_without_input_stuck:
  "world_reachable False 0 s \<Longrightarrow> s = world_init False 0"
proof (induction rule: world_reachable.induct)
  case (step s t)
  from step(2) show ?case
    by (cases rule: world_step.cases) (simp_all add: step.IH world_init_def in_turn_def)
qed simp

text \<open>Nothing of what holds for the queue of results holds for the input queue: the wait is for the
  report, and a thread wakes the main loop after its report.  In an interactive run \<open>main\<close> can destroy the
  input queue, which lies on its stack, between the two.\<close>

definition world_at :: "main_pc \<Rightarrow> reader_pc \<Rightarrow> worker_pc multiset \<Rightarrow> input_message list \<Rightarrow> nat
    \<Rightarrow> queue_state \<Rightarrow> queue_state \<Rightarrow> world" where
  "world_at p rd ws ms k qr qi =
     \<lparr>w_main = p, w_reader = rd, w_workers = ws,
      w_active = int (count ws WWorking) + int (reports ms), w_results = ms,
      w_results_state = qr, w_inputs = k, w_input_state = qi, w_results_misused = False, w_input_misused = False\<rparr>"

lemma reachable_to: "world_reachable i n s \<Longrightarrow> world_step i s t' \<Longrightarrow> t' = t \<Longrightarrow> world_reachable i n t"
  using world_reachable.step by blast

lemma reported_at_end:
  "world_reachable True 0 (world_at (MTurn AtEnd) REnded {#WReported#} [] 0 QOpen QClosed)"
proof -
  let ?m = "MSG_ASYNC_TASK_RESULT None 0 None"
  have 0: "world_reachable True 0 (world_at MLoop RReading {#} [] 0 QOpen QOpen)"
    using world_reachable.start [of True 0] by (simp add: world_init_def world_at_def)
  have 1: "world_reachable True 0 (world_at MLoop RReading {#} [] 1 QOpen QOpen)"
    by (rule reachable_to [OF 0 reader_sends]) (simp_all add: world_at_def world_ops)
  have 2: "world_reachable True 0 (world_at MInput RReading {#} [] 0 QOpen QOpen)"
    by (rule reachable_to [OF 1 loop_pop]) (simp_all add: world_at_def)
  have 3: "world_reachable True 0 (world_at MInput RReading {#WWorking#} [] 0 QOpen QOpen)"
    by (rule reachable_to [OF 2 start_task]) (simp_all add: world_at_def in_turn_def)
  have 4: "world_reachable True 0 (world_at MLoop RReading {#WWorking#} [] 0 QOpen QOpen)"
    by (rule reachable_to [OF 3 input_handled]) (simp_all add: world_at_def)
  have 5: "world_reachable True 0 (world_at MLoop REnded {#WWorking#} [] 0 QOpen QClosed)"
    by (rule reachable_to [OF 4 reader_ends]) (simp_all add: world_at_def world_ops)
  have 6: "world_reachable True 0 (world_at (MWait AtEnd) REnded {#WWorking#} [] 0 QOpen QClosed)"
    by (rule reachable_to [OF 5 loop_closed]) (simp_all add: world_at_def)
  have 7: "world_reachable True 0 (world_at (MWait AtEnd) REnded {#WReported#} [?m] 0 QOpen QClosed)"
    by (rule reachable_to [OF 6 worker_reports [where m = ?m]]) (simp_all add: world_at_def world_ops)
  show ?thesis
    by (rule reachable_to [OF 7 wait_pop [where m = ?m and ms = "[]"]]) (simp_all add: world_at_def)
qed

lemma input_queue_misused: "\<exists>s. world_reachable True 0 s \<and> w_input_misused s"
proof -
  have 1: "world_reachable True 0 (world_at (MWait AtEnd) REnded {#WReported#} [] 0 QOpen QClosed)"
    by (rule reachable_to [OF reported_at_end turn_ends]) (simp_all add: world_at_def)
  have 2: "world_reachable True 0 (world_at MJoin REnded {#WReported#} [] 0 QOpen QClosed)"
    by (rule reachable_to [OF 1 wait_over]) (simp_all add: world_at_def world_ops)
  have 3: "world_reachable True 0 (world_at MDestroyAgent REnded {#WReported#} [] 0 QOpen QClosed)"
    by (rule reachable_to [OF 2 join_reader]) (simp_all add: world_at_def)
  have 4: "world_reachable True 0 (world_at MDestroyInput REnded {#WReported#} [] 0 QDestroyed QClosed)"
    by (rule reachable_to [OF 3 destroy_agent]) (simp_all add: world_at_def)
  have 5: "world_reachable True 0 (world_at MReturn REnded {#WReported#} [] 0 QDestroyed QDestroyed)"
    by (rule reachable_to [OF 4 destroy_input]) (simp_all add: world_at_def)
  let ?s = "(world_at MReturn REnded {#WEnded#} [] 0 QDestroyed QDestroyed)\<lparr>w_input_misused := True\<rparr>"
  have "world_reachable True 0 ?s"
    by (rule reachable_to [OF 5 worker_wakes]) (simp_all add: world_at_def world_ops)
  moreover have "w_input_misused ?s" by simp
  ultimately show ?thesis by blast
qed

text \<open>A batch run keeps its input queue from its threads.\<close>

lemma batch_input_safe: "world_reachable False n s \<Longrightarrow> \<not> w_input_misused s"
  using world_reachable_inv [of False n s] by (simp add: queue_inv_def)

section \<open>Witnesses\<close>

lemma shutdown_safe_witness:
  "\<not> w_results_misused (world_at (MTurn AtEnd) REnded {#WReported#} [] 0 QOpen QClosed)"
  using shutdown_safe [OF reported_at_end] by simp

lemma shutdown_returns_witness:
  "\<exists>t. (world_step True)\<^sup>*\<^sup>* (world_at (MTurn AtEnd) REnded {#WReported#} [] 0 QOpen QClosed) t \<and> w_main t = MReturned"
  by (rule shutdown_returns [OF reported_at_end]) simp

end
