(* ===== verification/StatsUpdate.thy ===== *)
theory StatsUpdate
  imports StoreProps
begin

text \<open>
  \<open>store_stats_update\<close> (c/store.c), on the object iterator of c/json.c: the statistics file is read, the
  callback is run, the members are written again.  Nothing in the program calls it.
\<close>

section \<open>The iterator consumes its text\<close>

lemma next_shorter:
  assumes "json_obj_iter_next it = (True, it')"
  shows "\<exists>s s'. it_src it = Some s \<and> it_src it' = Some s' \<and> length s' < length s"
proof -
  obtain s where s: "it_src it = Some s" using assms by (cases "it_src it") (simp_all add: json_obj_iter_next_def)
  define s1 where "s1 = skip_ws s"
  define s2 where "s2 = (if it_first it then s1 else skip_ws (if starts (CHR '','') s1 then tl s1 else s1))"
  have "length s2 \<le> length s1"
    using skip_ws_le [of s1] skip_ws_le [of "tl s1"] by (simp add: s2_def) (cases s1; simp)
  then have le: "length s2 \<le> length s" using skip_ws_le [of s] by (simp add: s1_def)
  show ?thesis
  proof (cases "parse_string s2")
    case (JOk kv r)
    define r2 where "r2 = skip_ws (if starts (CHR '':'') (skip_ws r) then tl (skip_ws r) else skip_ws r)"
    have "length r2 \<le> length (skip_ws r)"
      using skip_ws_le [of "skip_ws r"] skip_ws_le [of "tl (skip_ws r)"] by (simp add: r2_def) (cases "skip_ws r"; simp)
    then have r2: "length r2 < length s" using le parse_string_len [OF JOk] skip_ws_le [of r] by simp
    show ?thesis
    proof (cases "json_parse r2")
      case pv: (JOk v r3)
      then show ?thesis using assms s JOk r2 json_parse_len [OF pv]
        by (auto simp: json_obj_iter_next_def Let_def simp flip: s1_def s2_def r2_def split: if_splits)
    qed (use assms s JOk in \<open>auto simp: json_obj_iter_next_def Let_def simp flip: s1_def s2_def r2_def split: if_splits\<close>)
  qed (use assms s in \<open>auto simp: json_obj_iter_next_def Let_def simp flip: s1_def s2_def split: if_splits\<close>)
qed

section \<open>The operation\<close>

text \<open>The members as they are written again: the key is quoted once more, the value is its text.\<close>

function update_members :: "json_iter \<Rightarrow> bool \<Rightarrow> string" where
  "update_members it first =
     (case json_obj_iter_next it of
        (False, _) \<Rightarrow> []
      | (True, it') \<Rightarrow>
          (if first then [] else '','') @ json_quote (opt_default [] (it_key it')) @ CHR '':'' # json_raw (it_val it')
          @ update_members it' False)"
  by pat_completeness auto
termination
proof (relation "measure (\<lambda>(it, first). case it_src it of None \<Rightarrow> 0 | Some s \<Rightarrow> length s)", goal_cases)
  case (2 it first x y)
  then show ?case using next_shorter [of it y] by auto
qed simp

declare update_members.simps [simp del]

text \<open>The callback gets the value by copy, but may write into the buffer the value points to, as
  \<open>store_stats_add_int\<close> does, without moving anything; \<open>fn ctx src v\<close> is its context and the buffer after it.\<close>

definition store_stats_update :: "fsys \<Rightarrow> string \<Rightarrow> ('c \<Rightarrow> string \<Rightarrow> json_val \<Rightarrow> 'c \<times> string) \<Rightarrow> 'c
    \<Rightarrow> int \<times> fsys \<times> 'c" where
  "store_stats_update fs path fn ctx =
     (case util_read_file fs path of
        None \<Rightarrow> (- 1, fs, ctx)
      | Some content \<Rightarrow>
          (case json_parse_root (Some content) of
             JOk v r \<Rightarrow>
               (let (ctx', content') = fn ctx content v;
                    v' = v\<lparr>jv_src := drop (length content - length (jv_src v)) content'\<rparr>;
                    (rc, fs') = util_write_file fs path
                       (CHR ''{'' # update_members (json_obj_iter_init v') True @ CHR ''}'' # [LF])
                in (rc, fs', ctx'))
           | _ \<Rightarrow> (- 1, fs, ctx)))"

text \<open>The callbacks of the store write over a number in place: the buffer keeps its length.\<close>

lemma set_int_length: "length (store_stats_set_int src key value) = length src"
proof -
  define search where "search = take 127 (QUOTE # key @ [QUOTE])"
  show ?thesis
  proof (cases "strstr src search")
    case (Some p)
    define start where "start = dropWhile (\<lambda>c. c = CHR '' '' \<or> c = CHR '':'') (drop (length search) p)"
    define old where "old = takeWhile (\<lambda>c. c \<notin> {CHR '','', CHR ''}'', CHR '' '', LF, CR}) start"
    have "length start \<le> length p"
      unfolding start_def by (rule order_trans [OF length_dropWhile_le]) simp
    moreover have "length p \<le> length src" using strstr_Some [OF Some] by auto
    moreover have "length old \<le> length start" by (simp add: old_def length_takeWhile_le)
    ultimately show ?thesis
      unfolding store_stats_set_int_def Let_def search_def [symmetric] Some option.case
        start_def [symmetric] old_def [symmetric] by simp
  qed (simp add: store_stats_set_int_def search_def)
qed

section \<open>The file is written as it was\<close>

definition at_members :: "json_iter \<Rightarrow> bool \<Rightarrow> (string \<times> json) list \<Rightarrow> string \<Rightarrow> bool" where
  "at_members it first ms r \<longleftrightarrow>
     it_first it = first
     \<and> it_src it = Some ((if first \<or> ms = [] then [] else '','') @ commas (map member_text ms) @ CHR ''}'' # r)"

lemma next_member:
  assumes "at_members it first ((k, v) # ms) r" "simple_key k" "json_ok v"
  shows "\<exists>it'. json_obj_iter_next it = (True, it') \<and> it_key it' = Some k \<and> json_raw (it_val it') = json_text v
    \<and> at_members it' False ms r"
proof -
  define q where "q = (if ms = [] then CHR ''}'' # r else CHR '','' # commas (map member_text ms) @ CHR ''}'' # r)"
  have tx: "commas (map member_text ((k, v) # ms)) @ CHR ''}'' # r = member_text (k, v) @ q"
    by (simp add: q_def commas_Cons)
  note front = member_front [OF assms(2,3), of q]
  have P: "json_parse (json_text v @ q) = JOk (view v q) q"
    using parse_text [OF assms(3)] by (simp add: reads_def q_def)
  have klen: "jv_len (key_val k t) - 1 - 1 = length k" "drop 1 (jv_src (key_val k t)) = k @ QUOTE # t" for t
    by (simp_all add: key_val_def)
  have src: "it_src it = Some ((if first then [] else '','') @ member_text (k, v) @ q)" "it_first it = first"
    using assms(1) tx by (simp_all add: at_members_def)
  have raw: "json_raw (view v q) = json_text v" by (simp add: is_view_raw [OF is_viewI])
  have q: "at_members x False ms r" if "it_src x = Some q" "\<not> it_first x" for x
    using that by (simp add: at_members_def q_def)
  show ?thesis
    using src front P klen
    by (cases first) (simp_all add: json_obj_iter_next_def Let_def raw q QUOTE_def)
qed

lemma last_member: "at_members it first [] r \<Longrightarrow> fst (json_obj_iter_next it) = False"
  by (simp add: at_members_def json_obj_iter_next_def Let_def)

lemma update_members_text:
  assumes "at_members it first ms r" "\<forall>m \<in> set ms. simple_key (fst m) \<and> json_ok (snd m)"
    and "\<forall>m \<in> set ms. \<forall>c \<in> set (fst m). 32 \<le> ord c"
  shows "update_members it first = (if first \<or> ms = [] then [] else '','') @ commas (map member_text ms)"
  using assms
proof (induction ms arbitrary: it first)
  case Nil
  then show ?case using last_member [OF Nil(1)]
    by (subst update_members.simps) (cases "json_obj_iter_next it"; simp)
next
  case (Cons m ms)
  obtain k v where m: "m = (k, v)" by (cases m)
  with Cons.prems have kv: "simple_key k" "json_ok v" "\<forall>c \<in> set k. 32 \<le> ord c" by auto
  obtain it' where it': "json_obj_iter_next it = (True, it')" "it_key it' = Some k" "json_raw (it_val it') = json_text v"
    "at_members it' False ms r"
    using next_member [OF Cons.prems(1) [unfolded m] kv(1,2)] by blast
  have quote: "json_quote k = QUOTE # k @ [QUOTE]"
    by (rule json_quote_plain) (use kv in \<open>auto simp: simple_key_def\<close>)
  have "update_members it' False = (if ms = [] then [] else '','') @ commas (map member_text ms)"
    using Cons.IH [OF it'(4)] Cons.prems(2,3) by simp
  then show ?case using it'(1-3) quote m
    by (subst update_members.simps) (simp add: member_text_def commas_Cons)
qed

text \<open>A statistics file comes back as it was, up to the final line feed, when the callback leaves the text
  alone.\<close>

lemma stats_update_keeps:
  assumes stored: "util_read_file fs path = Some (json_text (JObj ms))" and ok: "json_ok (JObj ms)"
    and plain: "\<forall>m \<in> set ms. \<forall>c \<in> set (fst m). 32 \<le> ord c"
    and fn: "fn ctx (json_text (JObj ms)) (view (JObj ms) []) = (ctx', json_text (JObj ms))"
    and res: "store_stats_update fs path fn ctx = (rc, fs', ctx'')" and rc: "rc = 0"
  shows "fs_get fs' path = Some (json_text (JObj ms) @ [LF]) \<and> fs_same fs fs' {path} \<and> ctx'' = ctx'"
proof -
  let ?v = "view (JObj ms) []"
  have at: "at_members (json_obj_iter_init ?v) True ms []"
    by (simp add: at_members_def json_obj_iter_init_def view_def json_text_obj del: json_text.simps)
  have new: "CHR ''{'' # update_members (json_obj_iter_init ?v) True @ CHR ''}'' # [LF] = json_text (JObj ms) @ [LF]"
    using update_members_text [OF at _ plain] ok by (simp add: json_text_obj del: json_text.simps)
  have "?v\<lparr>jv_src := json_text (JObj ms)\<rparr> = ?v" "jv_src ?v = json_text (JObj ms)" by (simp_all add: view_def)
  then have "store_stats_update fs path fn ctx =
      (case util_write_file fs path (json_text (JObj ms) @ [LF]) of (rc, fs') \<Rightarrow> (rc, fs', ctx'))"
    by (simp only: store_stats_update_def stored option.case json_text_root [OF ok] jres.case fn prod.case Let_def new
        diff_self_eq_0 drop_0)
  then have "util_write_file fs path (json_text (JObj ms) @ [LF]) = (rc, fs')" "ctx'' = ctx'"
    using res by (auto split: prod.splits)
  then show ?thesis using util_write_file_facts rc by simp
qed

text \<open>A counter that gains a digit stays as it is: the new number does not fit in place of the old one.\<close>

lemma stats_add_carry_lost:
  "store_stats_set_int (json_text (JObj [(''a'', JInt 9)])) ''a'' 10 = json_text (JObj [(''a'', JInt 9)])"
  by (simp add: store_stats_set_int_def int_dec_def nat_dec.simps QUOTE_def)

end
