(* ===== verification/AgentMemory.thy ===== *)
theory AgentMemory
  imports Prelude
begin

text \<open>
  What an agent owns on the heap (\<open>agent_create\<close>, \<open>agent_destroy\<close> of c/agent.c,
  \<open>store_session_paths_free\<close> of c/store.c, the options of c/cagent.c): every pointer field with the block
  it points to.  The contents are in the other theories; here is who frees what.
\<close>

section \<open>Blocks and fields\<close>

record cheap =
  h_live :: "nat set"
  h_next :: nat
  h_misused :: bool

text \<open>\<open>free\<close> of a NULL pointer does nothing; of a block that is not live it is an error.\<close>

definition free_block :: "nat option \<Rightarrow> cheap \<Rightarrow> cheap" where
  "free_block p h =
     (case p of
        None \<Rightarrow> h
      | Some b \<Rightarrow> if b \<in> h_live h then h\<lparr>h_live := h_live h - {b}\<rparr> else h\<lparr>h_misused := True\<rparr>)"

datatype path_field = PBaseDir | PSessionDir | PConversation | PArchive | PEvents | PStats | PSummary | PPlan | PPlanDraft

datatype agent_field =
  FProvider | FModel | FApiKey | FBaseUrl | FApiUrl | FCwd | FHome | FSessionId | FThinking | FEffort | FVision | FGoal
| FSkillNames | FSkill nat | FPath path_field | FSubResultQueue

type_synonym owned = "(agent_field \<rightharpoonup> nat) \<times> cheap"

text \<open>A field gets a new block; \<open>FREE_PTR\<close> frees its block and clears it; \<open>free\<close> and \<open>util_strdup\<close> give
  an option.\<close>

fun alloc_field :: "agent_field \<Rightarrow> owned \<Rightarrow> owned" where
  "alloc_field f (p, h) = (p(f \<mapsto> h_next h), h\<lparr>h_live := insert (h_next h) (h_live h), h_next := h_next h + 1\<rparr>)"

fun free_field :: "agent_field \<Rightarrow> owned \<Rightarrow> owned" where
  "free_field f (p, h) = (p(f := None), free_block (p f) h)"

definition give_option :: "agent_field \<Rightarrow> owned \<Rightarrow> owned" where
  "give_option f a = alloc_field f (free_field f a)"

section \<open>The life of an agent\<close>

text \<open>\<open>given\<close>: the arguments that are not NULL, which \<open>util_strdup\<close> copies; \<open>n\<close> skills.\<close>

definition skill_fields :: "nat \<Rightarrow> agent_field list" where
  "skill_fields n = map FSkill [0..<n]"

definition path_fields :: "agent_field list" where
  "path_fields = map FPath [PBaseDir, PSessionDir, PConversation, PArchive, PEvents, PStats, PSummary, PPlan, PPlanDraft]"

definition created_fields :: "(agent_field \<Rightarrow> bool) \<Rightarrow> nat \<Rightarrow> agent_field list" where
  "created_fields given n =
     filter given [FProvider, FModel, FApiKey, FBaseUrl, FCwd, FHome]
     @ [FSubResultQueue, FThinking, FEffort, FVision]
     @ (if 0 < n then FSkillNames # skill_fields n else [])
     @ [FApiUrl, FSessionId] @ path_fields"

definition agent_create_fields :: "(agent_field \<Rightarrow> bool) \<Rightarrow> nat \<Rightarrow> cheap \<Rightarrow> owned" where
  "agent_create_fields given n h = fold alloc_field (created_fields given n) (Map.empty, h)"

definition store_session_paths_free :: "owned \<Rightarrow> owned" where
  "store_session_paths_free = fold free_field path_fields"

definition agent_destroy :: "nat \<Rightarrow> owned \<Rightarrow> owned" where
  "agent_destroy skill_count a =
     (let a1 = fold free_field [FProvider, FModel, FApiKey, FBaseUrl, FApiUrl, FCwd, FHome, FSessionId, FThinking, FEffort, FVision] a;
          a2 = (if fst a1 FSkillNames \<noteq> None then free_field FSkillNames (fold free_field (skill_fields skill_count) a1) else a1);
          a3 = store_session_paths_free a2
      in if fst a3 FSubResultQueue \<noteq> None then free_field FSubResultQueue a3 else a3)"

section \<open>Ownership\<close>

text \<open>Beside the blocks \<open>others\<close> the live ones are those of the fields, one for each.\<close>

fun owns :: "nat set \<Rightarrow> owned \<Rightarrow> bool" where
  "owns others (p, h) \<longleftrightarrow>
     \<not> h_misused h \<and> h_live h = others \<union> ran p \<and> others \<inter> ran p = {} \<and> inj_on p (dom p) \<and> (\<forall>b \<in> h_live h. b < h_next h)"

lemma owns_alloc:
  assumes "owns others (p, h)" "p f = None" shows "owns others (alloc_field f (p, h))"
proof -
  have "h_next h \<notin> h_live h" using assms(1) by auto
  moreover have "ran (p(f \<mapsto> h_next h)) = insert (h_next h) (ran p)" using assms(2) by (rule ran_map_upd)
  moreover have "inj_on (p(f \<mapsto> h_next h)) (dom (p(f \<mapsto> h_next h)))"
    using assms calculation(1) by (auto simp: inj_on_def ran_def)
  ultimately show ?thesis using assms(1) by (auto simp: less_Suc_eq)
qed

lemma ran_free: "inj_on p (dom p) \<Longrightarrow> p f = Some b \<Longrightarrow> ran (p(f := None)) = ran p - {b}"
proof (intro set_eqI)
  fix x
  assume inj: "inj_on p (dom p)" and b: "p f = Some b"
  have uniq: "g = f" if g: "p g = Some b" for g
  proof (rule inj_onD [OF inj])
    show "p g = p f" by (simp only: g b)
    show "g \<in> dom p" by (rule domI [of p, OF g])
    show "f \<in> dom p" by (rule domI [of p, OF b])
  qed
  have l: "x \<in> ran (p(f := None)) \<longleftrightarrow> (\<exists>g. g \<noteq> f \<and> p g = Some x)" by (auto simp: ran_def)
  have r: "x \<in> ran p - {b} \<longleftrightarrow> (\<exists>g. p g = Some x) \<and> x \<noteq> b" by (simp add: ran_def)
  show "x \<in> ran (p(f := None)) \<longleftrightarrow> x \<in> ran p - {b}"
    unfolding l r using uniq b option.inject by metis
qed

lemma owns_free:
  assumes "owns others a" shows "owns others (free_field f a)"
proof (cases a)
  case (Pair p h)
  show ?thesis
  proof (cases "p f")
    case None
    then have "p(f := None) = p" by (auto simp: fun_eq_iff)
    then show ?thesis using assms None Pair by (simp add: free_block_def)
  next
    case (Some b)
    have r: "ran (p(f := None)) = ran p - {b}" using assms Pair Some by (intro ran_free) auto
    have b: "b \<in> ran p" using Some by (auto simp: ran_def)
    have "inj_on (p(f := None)) (dom (p(f := None)))" using assms Pair by (auto simp: inj_on_def)
    then show ?thesis using assms Pair Some r b by (auto simp: free_block_def)
  qed
qed

lemma owned_alloc [simp]: "fst (alloc_field f a) g = None \<longleftrightarrow> g \<noteq> f \<and> fst a g = None"
  by (cases a) auto

lemma owned_free [simp]: "fst (free_field f a) g = None \<longleftrightarrow> g = f \<or> fst a g = None"
  by (cases a) auto

lemma owned_frees [simp]: "fst (fold free_field fs a) g = None \<longleftrightarrow> g \<in> set fs \<or> fst a g = None"
  by (induction fs arbitrary: a) auto

lemma owned_allocs [simp]: "fst (fold alloc_field fs a) g = None \<longleftrightarrow> g \<notin> set fs \<and> fst a g = None"
  by (induction fs arbitrary: a) auto

lemma owns_frees: "owns others a \<Longrightarrow> owns others (fold free_field fs a)"
  by (induction fs arbitrary: a) (simp_all add: owns_free)

lemma owns_allocs:
  "owns others a \<Longrightarrow> distinct fs \<Longrightarrow> \<forall>f \<in> set fs. fst a f = None \<Longrightarrow> owns others (fold alloc_field fs a)"
proof (induction fs arbitrary: a)
  case (Cons f fs)
  obtain p h where a: "a = (p, h)" by (cases a)
  have "owns others (alloc_field f a)" using owns_alloc Cons.prems a by (simp del: owns.simps alloc_field.simps)
  then show ?case using Cons.IH [of "alloc_field f a"] Cons.prems by (auto simp del: owns.simps alloc_field.simps)
qed simp

lemma owns_option: "owns others a \<Longrightarrow> owns others (give_option f a)"
proof -
  assume a: "owns others a"
  obtain p h where ph: "free_field f a = (p, h)" by (cases "free_field f a")
  then have "p f = None" using owned_free [of f a f] by simp
  then show ?thesis using owns_alloc owns_free [OF a, of f] ph by (simp add: give_option_def del: owns.simps alloc_field.simps)
qed

lemma owned_option [simp]: "fst (give_option f a) g = None \<longleftrightarrow> g \<noteq> f \<and> fst a g = None"
  by (auto simp: give_option_def)

lemma owned_options [simp]: "fst (fold give_option fs a) g = None \<longleftrightarrow> g \<notin> set fs \<and> fst a g = None"
  by (induction fs arbitrary: a) auto

lemma owns_options: "owns others a \<Longrightarrow> owns others (fold give_option fs a)"
  by (induction fs arbitrary: a) (simp_all add: owns_option)

lemma owns_destroy: "owns others a \<Longrightarrow> owns others (agent_destroy n a)"
  by (simp add: agent_destroy_def store_session_paths_free_def Let_def owns_free owns_frees del: owned_frees)

section \<open>Nothing is freed twice, nothing but the goal is left\<close>

lemma path_fields_all: "FPath x \<in> set path_fields"
  by (cases x) (simp_all add: path_fields_def)

lemma created_distinct: "distinct (created_fields given n)"
proof -
  define gs where "gs = filter given [FProvider, FModel, FApiKey, FBaseUrl, FCwd, FHome]"
  have base: "distinct gs" unfolding gs_def by (rule distinct_filter) simp
  have paths: "distinct path_fields" by (simp add: path_fields_def)
  have skills: "distinct (skill_fields n)" by (simp add: skill_fields_def distinct_map inj_on_def)
  have apart: "set path_fields \<subseteq> range FPath" "set (skill_fields n) \<subseteq> range FSkill"
    "set gs \<subseteq> {FProvider, FModel, FApiKey, FBaseUrl, FCwd, FHome}"
    unfolding gs_def by (simp_all add: path_fields_def skill_fields_def image_subset_iff del: filter.simps) auto
  then show ?thesis
    unfolding created_fields_def gs_def [symmetric] using base paths skills by (simp, blast)
qed

lemma destroyed:
  assumes "g \<noteq> FGoal" "\<And>i. fst a (FSkill i) \<noteq> None \<Longrightarrow> i < n \<and> fst a FSkillNames \<noteq> None"
  shows "fst (agent_destroy n a) g = None"
proof (cases g)
  case (FSkill i)
  have "FSkill i \<notin> set path_fields" by (auto simp: path_fields_def)
  show ?thesis using assms(2) [of i] FSkill
    by (auto simp: agent_destroy_def store_session_paths_free_def Let_def skill_fields_def)
qed (use assms(1) path_fields_all in \<open>auto simp: agent_destroy_def store_session_paths_free_def Let_def\<close>)

text \<open>
  The life of an agent: created on any heap, given options, destroyed.  No block is freed twice, and
  of the blocks it allocated only the one of the goal is still live.
\<close>

lemma agent_memory_balanced:
  assumes "\<forall>b \<in> h_live h. b < h_next h" "\<not> h_misused h" "set opts \<subseteq> {FEffort, FThinking, FVision, FGoal}"
    and "agent_destroy n (fold give_option opts (agent_create_fields given n h)) = (p, h')"
  shows "\<not> h_misused h' \<and> h_live h' = h_live h \<union> ran p \<and> dom p = (if FGoal \<in> set opts then {FGoal} else {})"
proof -
  let ?a = "fold give_option opts (agent_create_fields given n h)"
  have "owns (h_live h) (Map.empty, h)" using assms(1,2) by simp
  then have "owns (h_live h) (agent_create_fields given n h)"
    unfolding agent_create_fields_def by (rule owns_allocs) (simp_all add: created_distinct)
  then have own: "owns (h_live h) (p, h')"
    using owns_destroy [OF owns_options, of "h_live h" _ n opts] assms(4) by metis
  have created: "fst (agent_create_fields given n h) g = None \<longleftrightarrow> g \<notin> set (created_fields given n)" for g
    by (simp add: agent_create_fields_def)
  have "fst (agent_destroy n ?a) g = None" if "g \<noteq> FGoal" for g
  proof (rule destroyed [OF that])
    fix i
    assume "fst ?a (FSkill i) \<noteq> None"
    then have "FSkill i \<in> set (created_fields given n)" using assms(3) created by auto
    then have "i < n" by (auto simp: created_fields_def skill_fields_def path_fields_def split: if_splits)
    moreover from this have "FSkillNames \<in> set (created_fields given n)" by (simp add: created_fields_def)
    ultimately show "i < n \<and> fst ?a FSkillNames \<noteq> None" using created by simp
  qed
  moreover have "fst (agent_destroy n ?a) FGoal = None \<longleftrightarrow> FGoal \<notin> set opts"
    using created [of FGoal]
    by (auto simp: agent_destroy_def store_session_paths_free_def Let_def skill_fields_def path_fields_def created_fields_def)
  ultimately have "p g = None \<longleftrightarrow> g \<noteq> FGoal \<or> FGoal \<notin> set opts" for g using assms(4) by (cases "g = FGoal") auto
  then have "dom p = (if FGoal \<in> set opts then {FGoal} else {})" by (auto simp: dom_def)
  with own show ?thesis by simp
qed

end
