(* ===== verification/Spec2Isabelle.thy ===== *)
theory Spec2Isabelle
  imports JsonViews StoreSessions AgentTextProps AgentRequests DisplayProps LineInput Clipboard Child Answers Shutdown StatsUpdate AgentMemory
begin

text \<open>
  A model of the C port of bash-agent (the files of c/ in the repository): an LLM agent that talks to
  a model over HTTP with server-sent events, runs the tools the model calls, and keeps its sessions in
  JSON-lines files.

  How the parts interact. \<open>main\<close> (c/cagent.c) reads the command line, opens a session and creates the
  agent. The terminal thread (c/readline.c) pushes input messages into a queue (c/msgqueue.c with
  the messages of c/protocol.c); \<open>agent_main_loop\<close> (c/agent.c) pops them and runs \<open>agent_loop\<close>, which in
  each turn adds results of background tasks to the conversation, may compact it, builds the system
  prompt and the request from the conversation file (c/store.c, c/transport.c), converts it for the
  provider, sends it and parses the stream of the reply into events, accumulates these, runs the tools
  (c/tools.c, behind the policy for Bash commands), saves the reply and the results, and goes on
  while the model asks for tools. Background commands and sub-agents run in threads of their own and
  report to the queue of results; what is to be seen goes through a third queue to the display thread
  (c/display.c). Texts, JSON and files are handled by c/util.c and c/json.c.

  Conventions. A C string is an Isabelle string without NUL, a NULL pointer is \<open>None\<close>. An \<open>int\<close> is an
  integer brought into range by \<open>s32\<close> where the code computes, \<open>size_t\<close> by \<open>u64\<close>, \<open>long\<close> by \<open>s64\<close>
  (\<open>Prelude\<close>). A double is a rational rounded by \<open>fl\<close> to 53 bits after every operation (\<open>CDouble\<close>).
  A view into JSON text (\<open>JsonVal\<close>) is a record with the text from its start and its length. The file
  system is a map from paths to contents with the paths that may not be opened, and those that may not be
  written (\<open>FileSys\<close>). What the
  environment gives is an argument: environment variables, clock readings, directory listings, the
  output of child processes and what they do to the files, what curl delivers. A pointer error of the code is a value of the model
  (\<open>JOob\<close> of the parser, \<open>None\<close> of \<open>stream_cb\<close>, \<open>r_crashed\<close> of the agent).

  Theories, with the code each models:

  \<^item> \<open>Prelude\<close>: C strings, characters, integers and lines, and facts on them shared by all.
  \<^item> \<open>CUtil\<close>, \<open>CText\<close> (c/util.c): the growing buffer \<open>StrBuf\<close> with its capacity, JSON and shell quoting,
    UTF-8 repair; truncation, trimming, path joining, sizes, base64. Proved: a quoted argument is one
    word of the shell, repaired text is well formed, truncation is bounded and cuts no character.
  \<^item> \<open>MsgQueue\<close> (c/msgqueue.c): the linked list on a heap, its operations, the mutex and condition
    variable as a step relation. Proved through the locale \<open>closable_fifo\<close>: the list is a queue that
    loses nothing; an invariant by rule induction: no wake-up is lost.
  \<^item> \<open>CDouble\<close>, \<open>JsonParser\<close>, \<open>Json\<close>, \<open>JsonText\<close> (c/json.c): the parser, with the grammar of what it accepts as
    inductive relations and the proof that it is this grammar, and every accessor; the terms \<open>json\<close> with
    their text, and the refinement of lookups in parsed text by lookups in the term; the string round
    trip; the parser consumes input, so its fuel (the length of the text) is enough. \<open>JsonViews\<close>: every view
    that can be obtained is well typed (rule induction over how it was obtained).
  \<^item> \<open>FileSys\<close>, \<open>Store\<close>, \<open>StoreProps\<close>, \<open>StoreSessions\<close> (c/store.c): sessions, the conversation, archive,
    statistics, events, summary and plan files. The locale \<open>line_log\<close> states what appending a line to a
    log promises, interpreted on \<open>jsonl_append\<close>; what is appended is read back. \<open>StatsUpdate\<close>: the update
    of the statistics through a callback, which writes the file as it was when the callback does nothing.
  \<^item> \<open>Protocol\<close> (c/protocol.c): the messages between threads, and their release.
  \<^item> \<open>Sse\<close>, \<open>Stream\<close>, \<open>Http\<close> with \<open>HttpProps\<close>, \<open>Wire\<close>, \<open>OpenAI\<close> (c/transport.c): the parsers of the three
    protocols, the write callback over arbitrary chunks, the retry loop, the accumulator. Proved: the
    chunking does not matter, a retry leaves nothing of the reply of the attempt before, a Claude stream becomes the
    reply it spells, OpenAI fragments are joined by index.
  \<^item> \<open>Request\<close>, \<open>Convert\<close>, \<open>ConvertProps\<close> (c/transport.c): the request body, attached images, the
    conversions for OpenAI chat and responses. Proved: the text of the request is the text of the
    request's term, and its conversion that of the converted term.
  \<^item> \<open>BashPolicy\<close>, \<open>BashPolicyProps\<close>, \<open>Tools\<close>, \<open>ToolsProps\<close> (c/tools.c): the classification of commands
    into permission bits, the guard of the file tools, every tool, the dispatcher, the shortening of
    results. Proved: a sequence of commands needs the union of its parts' permissions; only allowed
    calls change files, and only those they name, but for an Edit of a path with a quote and a Glob of a
    directory with a dash; what Read and Edit do. A command may change any file; that \<open>diff\<close> and \<open>rg\<close> do
    not is a hypothesis (\<open>popen_reads\<close>) on command lines that the shell reads as one call of them, and
    that the tools write such lines is proved. \<open>Child\<close>: the loop that reads the
    output of a Bash call; it keeps the timeout.
  \<^item> \<open>Compact\<close> (c/agent.c, \<open>compact_*\<close>, \<open>dp_*\<close>): the cost model and the search for the number of lines to
    keep, optimal over its range.
  \<^item> \<open>Prompt\<close>, \<open>AgentText\<close>, \<open>AgentTextProps\<close> (c/agent.c): the system prompt, event lines, replay, image
    placeholders, the terminal title.
  \<^item> \<open>Agent\<close>, \<open>AgentLoop\<close> (c/agent.c): the record \<open>agent\<close> holds what does not change during a run, the
    record \<open>run\<close> what does, with the files and the queues; the functions follow \<open>agent_loop\<close> and its
    helpers in their order. Outcomes of requests, arrivals of results, session ids and the success of
    thread creation, and whether the input queue is closed when the goal judge pushes, are tapes in \<open>run\<close>. \<open>AgentProps\<close>, \<open>AgentTurns\<close>: compaction loses no history without a
    summary, a finished turn is recorded as reply and results, a failed request leaves no trace, a
    confirmed plan is installed when it can be written; they rest on frame lemmas (\<open>run_same\<close>, \<open>grows\<close>) for each step.
    \<open>Answers\<close> composes the parts: from the bytes of a stream to the line of the conversation.
    \<open>AgentFrames\<close>: the locale \<open>run_view\<close> for what a run leaves alone unless a certain step is taken, with
    the extension \<open>quiet_view\<close> for whole runs; it is interpreted on the tapes of the requests
    (\<open>AgentRequests\<close>: how many requests a run makes, and that an answer of the goal judge is always queued
    again, also one that says the goal is done), on the URLs and headers of the requests (\<open>StartUpProps\<close>) and on the sub-agents started (\<open>Background\<close>).
  \<^item> \<open>StartUp\<close>, \<open>StartUpProps\<close> (c/cagent.c, \<open>agent_create\<close>): options, endpoint, session, agent, and the batch
    and interactive run. Proved: options are read back, a key is only sent to the host it was configured
    with, starting changes only its own session.
  \<^item> \<open>Background\<close> (c/agent.c, the two thread functions): what a background command and a sub-agent report,
    and how. Proved: a task reports once and wakes the agent, results enter the conversation in order,
    sub-agents do not start sub-agents.
  \<^item> \<open>LineInput\<close> (c/readline.c): the loop over typed lines, the interrupt, the injected note. Proved: what the
    agent is sent, and that a note enters the conversation.
  \<^item> \<open>Display\<close>, \<open>DisplayProps\<close> (c/display.c): the bytes written for each message with the state kept
    between messages, and the flush barrier as a step relation with a mutex, a condition variable and
    spurious wake-ups. Proved: notices have a line of their own; the barrier waits for everything before
    it, by an invariant, and always returns, by a measure.
  \<^item> \<open>Clipboard\<close> (c/agent.c, pasting of images): the placeholder leads to the pasted file.
  \<^item> \<open>Shutdown\<close> (c/cagent.c, c/agent.c, c/readline.c): the main thread from its loop to the return of \<open>main\<close>,
    the background threads and the line editor as a step relation over the two queues and the counter of
    active tasks, which follows the counter of \<open>Agent\<close>. Proved by rule induction: no thread uses the queue of
    results after it was destroyed, every report is processed, and main can always return; and that the
    same does not hold for the input queue.
  \<^item> \<open>AgentMemory\<close> (\<open>agent_create\<close>, \<open>agent_destroy\<close>): the blocks the fields of an agent own. Proved: nothing is
    freed twice, and only the goal is left.

  Bounds and fuel. The JSON parser takes the length of its text as fuel; that it is enough is shown in
  \<open>JsonParser\<close>, with equations without fuel; the loop over turns is recursion on \<open>max_turns\<close>; the retry
  loop on the retries left; the main loop on the script of what arrives, the loop of the line editor on
  what it returns; the search for the number of an image and the loop over the output of
  a child are partial functions, shown to end in \<open>Clipboard\<close> and \<open>Child\<close>; every other loop consumes its
  input and terminates by a measure.

  Not modelled. The handlers of fatal signals and the set-up of curl (c/cagent.c) and the vendored line
  editor. Allocation failure other than in \<open>agent_create\<close> of a sub-agent, stack exhaustion on deeply nested
  JSON, partial writes, and changes of files by other processes or by a sub-agent while its parent runs
  are left out, and so is a file that may be written and not read.
\<close>

end
